(* ===== verification/Prelude.thy ===== *)
theory Prelude
  imports Main "HOL-Library.AList" "HOL-Library.Sublist" "HOL-Library.Multiset"
begin

text \<open>
  Shared vocabulary of the development: Go's strings and 64-bit integers as the components
  use them, Go maps as association lists, the rule collections, and the list lemmas that
  more than one component needs.

  \<^item> A Go string is a \<^typ>\<open>string\<close> of bytes. \<^verbatim>\<open>strings.ToLower\<close> and
    \<^verbatim>\<open>strings.ToUpper\<close> are modelled on ASCII letters; other bytes are unchanged.
  \<^item> An \<^verbatim>\<open>int64\<close> that is only added, subtracted and compared (a timestamp, a
    checkpoint id, a counter) is an \<^typ>\<open>int\<close> and every addition or subtraction is wrapped
    by \<open>i64\<close>, two's complement at 64 bits.
  \<^item> A Go map is the association list of its entries in the order in which a
    \<^verbatim>\<open>range\<close> over it visits them; Go leaves that order open, so a model takes
    whatever order the list has. \<open>m[k]\<close> is \<^term>\<open>map_of m k\<close>, \<open>m[k] = v\<close> is
    \<^term>\<open>AList.update k v m\<close>, \<open>delete(m, k)\<close> is \<^term>\<open>AList.delete k m\<close>.
\<close>

named_theorems go_int \<open>rules that discharge the 64-bit wrap-around\<close>
named_theorems go_map \<open>rules for Go maps as association lists\<close>

section \<open>Strings\<close>

definition char_lower :: "char \<Rightarrow> char" where
  "char_lower c = (let n = (of_char c :: nat) in if 65 \<le> n \<and> n \<le> 90 then char_of (n + 32) else c)"

definition char_upper :: "char \<Rightarrow> char" where
  "char_upper c = (let n = (of_char c :: nat) in if 97 \<le> n \<and> n \<le> 122 then char_of (n - 32) else c)"

definition to_lower :: "string \<Rightarrow> string" where
  "to_lower s = map char_lower s"

definition to_upper :: "string \<Rightarrow> string" where
  "to_upper s = map char_upper s"

lemma of_char_lt_256: "(of_char c :: nat) < 256"
proof -
  have "(of_char c :: nat) = of_char c mod 256"
    by simp
  then show ?thesis
    by (metis mod_less_divisor zero_less_numeral)
qed

lemma char_lower_idem [simp]: "char_lower (char_lower c) = char_lower c"
  by (auto simp: char_lower_def Let_def of_char_of)

lemma to_lower_idem [simp]: "to_lower (to_lower s) = to_lower s"
  by (simp add: to_lower_def)

lemma length_to_lower [simp]: "length (to_lower s) = length s"
  by (simp add: to_lower_def)

lemma to_lower_Nil [simp]: "to_lower [] = []"
  by (simp add: to_lower_def)

text \<open>\<^verbatim>\<open>strings.Split(s, sep)\<close> for a one-byte separator.\<close>

fun split_on :: "char \<Rightarrow> string \<Rightarrow> string list" where
  "split_on c [] = [[]]"
| "split_on c (x # xs) =
     (if x = c then [] # split_on c xs
      else (case split_on c xs of [] \<Rightarrow> [[x]] | p # ps \<Rightarrow> (x # p) # ps))"

lemma split_on_nonempty [simp]: "split_on c s \<noteq> []"
  by (induction s) (auto split: list.splits)

lemma split_on_no_sep: "c \<notin> set s \<Longrightarrow> split_on c s = [s]"
  by (induction s) auto

lemma split_on_append_sep:
  "c \<notin> set s \<Longrightarrow> split_on c (s @ c # t) = s # split_on c t"
  by (induction s) auto

text \<open>\<^verbatim>\<open>strings.Trim(s, " ")\<close>.\<close>

definition trim_space :: "string \<Rightarrow> string" where
  "trim_space s = rev (dropWhile (\<lambda>c. c = CHR '' '') (rev (dropWhile (\<lambda>c. c = CHR '' '') s)))"

text \<open>The decimal digits \<^verbatim>\<open>strconv.Itoa\<close> and the verb \<^verbatim>\<open>%d\<close> print.\<close>

fun nat_digits :: "nat \<Rightarrow> string" where
  "nat_digits n =
     (if n < 10 then [char_of (48 + n)] else nat_digits (n div 10) @ [char_of (48 + n mod 10)])"

declare nat_digits.simps [simp del]

definition itoa :: "int \<Rightarrow> string" where
  "itoa i = (if i < 0 then CHR ''-'' # nat_digits (nat (- i)) else nat_digits (nat i))"

section \<open>64-bit integers\<close>

definition i64 :: "int \<Rightarrow> int" where
  "i64 x = (x + 2 ^ 63) mod 2 ^ 64 - 2 ^ 63"

definition max_i64 :: int where
  "max_i64 = 2 ^ 63 - 1"

definition in_i64 :: "int \<Rightarrow> bool" where
  "in_i64 x \<longleftrightarrow> - (2 ^ 63) \<le> x \<and> x < 2 ^ 63"

lemma i64_id [go_int]: "in_i64 x \<Longrightarrow> i64 x = x"
  unfolding i64_def in_i64_def by (subst mod_pos_pos_trivial) auto

lemma in_i64_i64 [simp]: "in_i64 (i64 x)"
proof -
  have "0 \<le> (x + 2 ^ 63) mod 2 ^ 64" and "(x + 2 ^ 63) mod 2 ^ 64 < (2 ^ 64 :: int)"
    by (rule pos_mod_sign, simp, rule pos_mod_bound, simp)
  then show ?thesis
    unfolding i64_def in_i64_def by auto
qed

lemma i64_idem [simp]: "i64 (i64 x) = i64 x"
  by (simp add: go_int)

lemma i64_small [go_int]: "- (2 ^ 63) \<le> x \<Longrightarrow> x < 2 ^ 63 \<Longrightarrow> i64 x = x"
  by (rule i64_id) (simp add: in_i64_def)

text \<open>Go's \<open>/\<close> and \<open>%\<close> on signed integers truncate towards zero.\<close>

definition go_div :: "int \<Rightarrow> int \<Rightarrow> int" where
  "go_div a b = sgn a * sgn b * (\<bar>a\<bar> div \<bar>b\<bar>)"

definition go_mod :: "int \<Rightarrow> int \<Rightarrow> int" where
  "go_mod a b = a - b * go_div a b"

lemma go_mod_nonneg [go_int]:
  assumes "0 \<le> a" "0 < b"
  shows "go_mod a b = a mod b"
proof (cases "a = 0")
  case False
  with assms have "go_div a b = a div b"
    by (simp add: go_div_def)
  then show ?thesis
    by (simp add: go_mod_def minus_mult_div_eq_mod)
qed (simp add: go_mod_def go_div_def)

section \<open>Go maps\<close>

lemma map_of_update [go_map, simp]: "map_of (AList.update k v m) = (map_of m)(k \<mapsto> v)"
  by (rule AList.update_conv')

lemma distinct_update [go_map]: "distinct (map fst m) \<Longrightarrow> distinct (map fst (AList.update k v m))"
  by (rule AList.distinct_update)

lemma map_of_adelete [go_map, simp]: "map_of (AList.delete k m) = (map_of m)(k := None)"
  by (rule AList.delete_conv')

lemma distinct_adelete [go_map]: "distinct (map fst m) \<Longrightarrow> distinct (map fst (AList.delete k m))"
  by (rule AList.distinct_delete)

lemma fst_set_update [go_map]: "fst ` set (AList.update k v m) = insert k (fst ` set m)"
  by (simp add: dom_update)

lemma fst_set_delete [go_map]: "fst ` set (AList.delete k m) = fst ` set m - {k}"
  by (induction m) auto

lemma update_fresh [go_map]: "k \<notin> fst ` set m \<Longrightarrow> AList.update k v m = m @ [(k, v)]"
  by (induction m) auto

section \<open>Lists\<close>

text \<open>The last \<open>n\<close> elements, \<^verbatim>\<open>xs[len(xs)-n:]\<close>.\<close>

definition lastn :: "nat \<Rightarrow> 'a list \<Rightarrow> 'a list" where
  "lastn n xs = drop (length xs - n) xs"

lemma length_lastn [simp]: "length (lastn n xs) = min n (length xs)"
  by (simp add: lastn_def)

lemma lastn_lastn: "m \<le> n \<Longrightarrow> lastn m (lastn n xs) = lastn m xs"
  unfolding lastn_def drop_drop length_drop by (rule arg_cong [where f = "\<lambda>k. drop k xs"]) arith

lemma lastn_append_lastn: "m \<le> n + length ys \<Longrightarrow> lastn m (lastn n xs @ ys) = lastn m (xs @ ys)"
  unfolding lastn_def length_append length_drop drop_append drop_drop
  by (intro arg_cong2 [where f = append] arg_cong [where f = "\<lambda>k. drop k xs"]
      arg_cong [where f = "\<lambda>k. drop k ys"]) arith+

lemma lastn_all: "length xs \<le> n \<Longrightarrow> lastn n xs = xs"
  by (simp add: lastn_def)

end
