(* ===== verification/GoFloat.thy ===== *)
theory GoFloat
  imports Prelude Complex_Main
begin

text \<open>
  Go's \<^verbatim>\<open>float64\<close>: IEEE 754 binary64 with round-to-nearest-even. A finite non-zero value
  is the rational it denotes, the two zeros keep their sign, and every operation is the exact
  rational operation followed by \<open>f_round\<close>. NaN payloads are not distinguished.
  A \<^verbatim>\<open>float32\<close> is carried as the \<^verbatim>\<open>float64\<close> of the same value (the
  conversion is exact).
\<close>

datatype f64 =
    FNaN
  | FInf bool     \<comment> \<open>infinity; the flag is the sign bit\<close>
  | FZero bool
  | FNum rat      \<comment> \<open>finite and not zero\<close>

definition pow2 :: "int \<Rightarrow> rat" where
  "pow2 e = (if 0 \<le> e then 2 ^ nat e else 1 / 2 ^ nat (- e))"

text \<open>The number of binary digits of a positive integer.\<close>

function bits :: "int \<Rightarrow> int" where
  "bits n = (if n \<le> 0 then 0 else 1 + bits (n div 2))"
  by pat_completeness auto
termination
  by (relation "measure nat") auto

declare bits.simps [simp del]

text \<open>The exponent \<open>k\<close> with \<open>2\<^sup>k \<le> q < 2\<^sup>k\<^sup>+\<^sup>1\<close> of a positive rational.\<close>

definition ilog2 :: "rat \<Rightarrow> int" where
  "ilog2 q = (case quotient_of q of (n, d) \<Rightarrow>
     let k = bits n - bits d in
     if pow2 k \<le> q then k else k - 1)"

definition round_even :: "rat \<Rightarrow> int" where
  "round_even q = (let f = \<lfloor>q\<rfloor>; r = q - of_int f in
     if r < 1 / 2 then f else if r > 1 / 2 then f + 1 else if even f then f else f + 1)"

text \<open>Rounds an exact result; \<open>s\<close> is the sign of a result that is exactly zero.\<close>

definition f_round :: "bool \<Rightarrow> rat \<Rightarrow> f64" where
  "f_round s q =
     (if q = 0 then FZero s
      else let e = max (ilog2 \<bar>q\<bar> - 52) (-1074);
               r = of_int (round_even (\<bar>q\<bar> / pow2 e)) * pow2 e in
        if r = 0 then FZero (q < 0)
        else if 1024 \<le> ilog2 r then FInf (q < 0)
        else FNum (if q < 0 then - r else r))"

fun f_neg :: "f64 \<Rightarrow> bool" where
  "f_neg FNaN = False"
| "f_neg (FInf s) = s"
| "f_neg (FZero s) = s"
| "f_neg (FNum q) = (q < 0)"

fun f_opp :: "f64 \<Rightarrow> f64" where
  "f_opp FNaN = FNaN"
| "f_opp (FInf s) = FInf (\<not> s)"
| "f_opp (FZero s) = FZero (\<not> s)"
| "f_opp (FNum q) = FNum (- q)"

text \<open>The rational of a finite value.\<close>

fun f_val :: "f64 \<Rightarrow> rat" where
  "f_val (FNum q) = q"
| "f_val _ = 0"

fun f_add :: "f64 \<Rightarrow> f64 \<Rightarrow> f64" where
  "f_add FNaN _ = FNaN"
| "f_add _ FNaN = FNaN"
| "f_add (FInf s) (FInf t) = (if s = t then FInf s else FNaN)"
| "f_add (FInf s) _ = FInf s"
| "f_add _ (FInf t) = FInf t"
| "f_add x y = f_round (f_neg x \<and> f_neg y) (f_val x + f_val y)"

definition f_sub :: "f64 \<Rightarrow> f64 \<Rightarrow> f64" where
  "f_sub x y = f_add x (f_opp y)"

fun f_is_zero :: "f64 \<Rightarrow> bool" where
  "f_is_zero (FZero _) = True"
| "f_is_zero _ = False"

fun f_mul :: "f64 \<Rightarrow> f64 \<Rightarrow> f64" where
  "f_mul FNaN _ = FNaN"
| "f_mul _ FNaN = FNaN"
| "f_mul (FInf s) y = (if f_is_zero y then FNaN else FInf (s \<noteq> f_neg y))"
| "f_mul x (FInf t) = (if f_is_zero x then FNaN else FInf (f_neg x \<noteq> t))"
| "f_mul x y = f_round (f_neg x \<noteq> f_neg y) (f_val x * f_val y)"

fun f_div :: "f64 \<Rightarrow> f64 \<Rightarrow> f64" where
  "f_div FNaN _ = FNaN"
| "f_div _ FNaN = FNaN"
| "f_div (FInf s) (FInf t) = FNaN"
| "f_div (FInf s) y = FInf (s \<noteq> f_neg y)"
| "f_div x (FInf t) = FZero (f_neg x \<noteq> t)"
| "f_div (FZero s) (FZero t) = FNaN"
| "f_div x (FZero t) = FInf (f_neg x \<noteq> t)"
| "f_div x y = f_round (f_neg x \<noteq> f_neg y) (f_val x / f_val y)"

text \<open>\<^verbatim>\<open>math.Mod\<close>: the remainder of truncated division, with the sign of \<open>x\<close>.\<close>

definition rat_trunc :: "rat \<Rightarrow> int" where
  "rat_trunc q = (if q < 0 then - \<lfloor>- q\<rfloor> else \<lfloor>q\<rfloor>)"

fun f_mod :: "f64 \<Rightarrow> f64 \<Rightarrow> f64" where
  "f_mod FNaN _ = FNaN"
| "f_mod _ FNaN = FNaN"
| "f_mod (FInf _) _ = FNaN"
| "f_mod _ (FZero _) = FNaN"
| "f_mod x (FInf _) = x"
| "f_mod x y = f_round (f_neg x) (f_val x - of_int (rat_trunc (f_val x / f_val y)) * f_val y)"

fun f_lt :: "f64 \<Rightarrow> f64 \<Rightarrow> bool" where
  "f_lt FNaN _ = False"
| "f_lt _ FNaN = False"
| "f_lt (FInf s) (FInf t) = (s \<and> \<not> t)"
| "f_lt (FInf s) _ = s"
| "f_lt _ (FInf t) = (\<not> t)"
| "f_lt x y = (f_val x < f_val y)"

fun f_eq :: "f64 \<Rightarrow> f64 \<Rightarrow> bool" where
  "f_eq FNaN _ = False"
| "f_eq _ FNaN = False"
| "f_eq (FInf s) (FInf t) = (s = t)"
| "f_eq (FInf s) _ = False"
| "f_eq _ (FInf t) = False"
| "f_eq x y = (f_val x = f_val y)"

definition f_le :: "f64 \<Rightarrow> f64 \<Rightarrow> bool" where
  "f_le x y = (f_lt x y \<or> f_eq x y)"

definition f_of_int :: "int \<Rightarrow> f64" where
  "f_of_int i = f_round False (of_int i)"

section \<open>Rounding\<close>

lemma pow2_pos [simp]: "0 < pow2 e"
  by (simp add: pow2_def)

lemma pow2_nonneg_exp: "pow2 (int n) = 2 ^ n"
  by (simp add: pow2_def)

lemma pow2_add: "pow2 (a + b) = pow2 a * pow2 b"
proof -
  have eq: "pow2 e = 2 powi e" for e
    by (simp add: pow2_def power_int_def field_simps)
  show ?thesis
    by (simp add: eq power_int_add)
qed

lemma pow2_Suc: "pow2 (k + 1) = 2 * pow2 k"
  using pow2_add [of k 1] by (simp add: pow2_def)

lemma bits_nonneg [simp]: "0 \<le> bits n"
proof (induction n rule: bits.induct)
  case (1 n)
  then show ?case by (subst bits.simps) auto
qed

lemma bits_bounds: "0 < n \<Longrightarrow> 2 ^ nat (bits n) \<le> 2 * n \<and> n < 2 ^ nat (bits n)"
proof (induction n rule: bits.induct)
  case (1 n)
  let ?b = "nat (bits (n div 2))"
  have step: "nat (bits n) = Suc ?b"
    using "1.prems" by (subst bits.simps) (simp add: nat_add_distrib)
  show ?case
  proof (cases "n = 1")
    case True
    then show ?thesis by (simp add: step bits.simps)
  next
    case False
    with "1.prems" have "0 < n div 2" by auto
    with "1.IH" "1.prems" have "2 ^ ?b \<le> 2 * (n div 2)" "n div 2 < 2 ^ ?b" by auto
    then show ?thesis unfolding step power_Suc by linarith
  qed
qed

lemma ilog2_bounds:
  assumes "0 < q"
  shows "pow2 (ilog2 q) \<le> q" and "q < pow2 (ilog2 q + 1)"
proof -
  obtain n d where nd: "quotient_of q = (n, d)" by fastforce
  then have d: "0 < d" and q: "q = of_int n / of_int d"
    by (simp_all add: quotient_of_denom_pos quotient_of_div)
  with assms have n: "0 < n"
    by (simp add: zero_less_divide_iff)
  define a where "a = nat (bits n)"
  define b where "b = nat (bits d)"
  have ab: "bits n = int a" "bits d = int b"
    by (simp_all add: a_def b_def)
  have "2 ^ a \<le> 2 * n" "n < 2 ^ a" "2 ^ b \<le> 2 * d" "d < 2 ^ b"
    unfolding a_def b_def using bits_bounds n d by simp_all
  then have "of_int (2 ^ a) \<le> (of_int (2 * n) :: rat)" "of_int n < (of_int (2 ^ a) :: rat)"
    "of_int (2 ^ b) \<le> (of_int (2 * d) :: rat)" "of_int d < (of_int (2 ^ b) :: rat)"
    by (simp_all only: of_int_le_iff of_int_less_iff)
  then have bnd: "(2 :: rat) ^ a \<le> 2 * of_int n" "of_int n < (2 :: rat) ^ a"
    "(2 :: rat) ^ b \<le> 2 * of_int d" "of_int d < (2 :: rat) ^ b"
    by simp_all
  have k: "pow2 (int a - int b) = 2 ^ a / 2 ^ b"
    using pow2_add [of "int a - int b" "int b"] by (simp add: pow2_nonneg_exp field_simps)
  have "(2 ^ a / 2 ^ b) / 2 < q"
  proof -
    have "(2 :: rat) ^ a * of_int d < 2 * of_int n * 2 ^ b"
      using bnd(1,4) n d by (intro mult_le_less_imp_less) auto
    with d show ?thesis by (simp add: q field_simps)
  qed
  moreover have "q < 2 * (2 ^ a / 2 ^ b)"
  proof -
    have "of_int n * (2 :: rat) ^ b < 2 ^ a * (2 * of_int d)"
      using bnd(2,3) n d by (intro mult_less_le_imp_less) auto
    with d show ?thesis by (simp add: q field_simps)
  qed
  moreover have "ilog2 q = (if pow2 (int a - int b) \<le> q then int a - int b else int a - int b - 1)"
    by (simp add: ilog2_def nd ab Let_def)
  ultimately show "pow2 (ilog2 q) \<le> q" and "q < pow2 (ilog2 q + 1)"
    using pow2_Suc [of "int a - int b"] pow2_Suc [of "int a - int b - 1"] k
    by (auto split: if_splits)
qed

lemma round_even_of_int [simp]: "round_even (of_int i) = i"
  by (simp add: round_even_def)

lemma pow2_mono: "a \<le> b \<Longrightarrow> pow2 a \<le> pow2 b"
proof -
  assume "a \<le> b"
  then have "pow2 b = pow2 a * 2 ^ nat (b - a)"
    using pow2_add [of a "b - a"] by (simp add: pow2_def)
  then show ?thesis by simp
qed

text \<open>Integers of up to 53 bits are represented exactly.\<close>

lemma f_of_int_exact:
  assumes "i \<noteq> 0" "\<bar>i\<bar> < 2 ^ 53"
  shows "f_of_int i = FNum (of_int i)"
proof -
  let ?q = "\<bar>of_int i :: rat\<bar>"
  have q: "0 < ?q" "?q < 2 ^ 53"
    using assms of_int_less_iff [of "\<bar>i\<bar>" "2 ^ 53", where ?'a = rat] by simp_all
  define e where "e = max (ilog2 ?q - 52) (-1074)"
  have "ilog2 ?q < 53"
  proof (rule ccontr)
    assume "\<not> ilog2 ?q < 53"
    then have "pow2 53 \<le> pow2 (ilog2 ?q)" by (intro pow2_mono) simp
    with ilog2_bounds(1) [OF q(1)] q(2) show False by (simp add: pow2_def)
  qed
  then have e: "e \<le> 0" by (simp add: e_def)
  then have scale: "?q / pow2 e = of_int (\<bar>i\<bar> * 2 ^ nat (- e))"
    by (auto simp: pow2_def)
  have r: "of_int (round_even (?q / pow2 e)) * pow2 e = ?q"
    unfolding scale round_even_of_int using e by (auto simp: pow2_def)
  have lt: "\<not> 1024 \<le> ilog2 ?q"
    using \<open>ilog2 ?q < 53\<close> by simp
  show ?thesis
    unfolding f_of_int_def f_round_def Let_def e_def [symmetric] r using assms(1) lt by simp
qed

lemma f_of_int_0 [simp]: "f_of_int 0 = FZero False"
  by (simp add: f_of_int_def f_round_def)

lemma f_lt_of_int:
  assumes "\<bar>i\<bar> < 2 ^ 53" "\<bar>j\<bar> < 2 ^ 53"
  shows "f_lt (f_of_int i) (f_of_int j) \<longleftrightarrow> i < j"
  using assms f_of_int_exact [of i] f_of_int_exact [of j]
  by (cases "i = 0"; cases "j = 0") auto

lemma f_eq_of_int:
  assumes "\<bar>i\<bar> < 2 ^ 53" "\<bar>j\<bar> < 2 ^ 53"
  shows "f_eq (f_of_int i) (f_of_int j) \<longleftrightarrow> i = j"
  using assms f_of_int_exact [of i] f_of_int_exact [of j]
  by (cases "i = 0"; cases "j = 0") auto

lemma f_lt_irrefl [simp]: "\<not> f_lt x x"
  by (cases x) auto

lemma f_lt_asym: "f_lt x y \<Longrightarrow> \<not> f_lt y x"
  by (cases x; cases y) auto

lemma f_eq_sym: "f_eq x y = f_eq y x"
  by (cases x; cases y) auto

end
