(* ===== verification/Strconv.thy ===== *)
theory Strconv
  imports GoFloat
begin

text \<open>
  The functions of Go's package \<^verbatim>\<open>strconv\<close> that the SQL front end and the casts
  use, on ASCII strings: \<^verbatim>\<open>ParseUint\<close>, \<^verbatim>\<open>ParseInt\<close>, \<^verbatim>\<open>Atoi\<close>, \<^verbatim>\<open>ParseBool\<close>, \<^verbatim>\<open>ParseFloat\<close> and
  \<^verbatim>\<open>Unquote\<close>. \<open>None\<close> is a returned error, of syntax or of range; no caller looks at which.
\<close>

section \<open>Digits\<close>

definition char_code :: "char \<Rightarrow> nat" where
  "char_code c = of_char c"

definition is_digit :: "char \<Rightarrow> bool" where
  "is_digit c \<longleftrightarrow> 48 \<le> char_code c \<and> char_code c \<le> 57"

definition is_lower :: "char \<Rightarrow> bool" where
  "is_lower c \<longleftrightarrow> 97 \<le> char_code c \<and> char_code c \<le> 122"

text \<open>The value of a digit in any base: digits, then letters of either case.\<close>

definition digit_val :: "char \<Rightarrow> nat option" where
  "digit_val c =
     (if is_digit c then Some (char_code c - 48)
      else let l = char_lower c in if is_lower l then Some (char_code l - 87) else None)"

fun digits_val :: "nat \<Rightarrow> string \<Rightarrow> nat \<Rightarrow> nat option" where
  "digits_val base [] acc = Some acc"
| "digits_val base (c # cs) acc =
     (if c = CHR ''_'' then digits_val base cs acc
      else case digit_val c of
        None \<Rightarrow> None
      | Some d \<Rightarrow> if d < base then digits_val base cs (acc * base + d) else None)"

text \<open>\<^verbatim>\<open>underscoreOK\<close>: an underscore only between digits, or after a base prefix. The
  second argument tells what came before: a digit (0), an underscore (1) or anything else (2).\<close>

fun underscore_rest :: "bool \<Rightarrow> nat \<Rightarrow> string \<Rightarrow> bool" where
  "underscore_rest hex i [] \<longleftrightarrow> i \<noteq> 1"
| "underscore_rest hex i (c # cs) \<longleftrightarrow>
     (if is_digit c \<or> (hex \<and> (case digit_val c of Some d \<Rightarrow> d < 16 | None \<Rightarrow> False)) then underscore_rest hex 0 cs
      else if c = CHR ''_'' then i = 0 \<and> underscore_rest hex 1 cs
      else i \<noteq> 1 \<and> underscore_rest hex 2 cs)"

definition drop_sign :: "string \<Rightarrow> string" where
  "drop_sign s = (case s of c # cs \<Rightarrow> if c = CHR ''-'' \<or> c = CHR ''+'' then cs else s | [] \<Rightarrow> [])"

definition underscoreOK :: "string \<Rightarrow> bool" where
  "underscoreOK s0 =
     (let s = drop_sign s0 in
      case s of
        z # p # rest \<Rightarrow>
          if z = CHR ''0'' \<and> char_lower p \<in> {CHR ''b'', CHR ''o'', CHR ''x''}
          then underscore_rest (char_lower p = CHR ''x'') 0 rest
          else underscore_rest False 2 s
      | _ \<Rightarrow> underscore_rest False 2 s)"

section \<open>Integers\<close>

text \<open>\<^verbatim>\<open>ParseUint(s, 0, 64)\<close>: the base is given by the prefix.\<close>

definition base_of :: "string \<Rightarrow> nat \<times> string" where
  "base_of s = (case s of
     z # rest \<Rightarrow>
       if z = CHR ''0'' then
         (case rest of
            p # q # more \<Rightarrow>
              (if char_lower p = CHR ''b'' then (2, q # more)
               else if char_lower p = CHR ''o'' then (8, q # more)
               else if char_lower p = CHR ''x'' then (16, q # more)
               else (8, rest))
          | _ \<Rightarrow> (8, rest))
       else (10, s)
   | [] \<Rightarrow> (10, []))"

definition ParseUint :: "string \<Rightarrow> nat option" where
  "ParseUint s =
     (if s = [] then None
      else case base_of s of (base, digits) \<Rightarrow>
        (case digits_val base digits 0 of
           None \<Rightarrow> None
         | Some n \<Rightarrow> if n < 2 ^ 64 \<and> (CHR ''_'' \<in> set s \<longrightarrow> underscoreOK s) then Some n else None))"

definition ParseInt :: "string \<Rightarrow> int option" where
  "ParseInt s = (case s of
     [] \<Rightarrow> None
   | c # cs \<Rightarrow>
       (let neg = (c = CHR ''-''); body = (if c = CHR ''-'' \<or> c = CHR ''+'' then cs else s) in
        case ParseUint body of
          None \<Rightarrow> None
        | Some n \<Rightarrow>
            if \<not> neg \<and> n \<ge> 2 ^ 63 then None
            else if neg \<and> n > 2 ^ 63 then None
            else Some (if neg then - int n else int n)))"

text \<open>\<^verbatim>\<open>Atoi\<close>: decimal digits with an optional sign, in the range of \<^verbatim>\<open>int\<close>.\<close>

fun dec_val :: "string \<Rightarrow> nat \<Rightarrow> nat option" where
  "dec_val [] acc = Some acc"
| "dec_val (c # cs) acc = (if is_digit c then dec_val cs (acc * 10 + (char_code c - 48)) else None)"

definition Atoi :: "string \<Rightarrow> int option" where
  "Atoi s =
     (let neg = (case s of c # _ \<Rightarrow> c = CHR ''-'' | [] \<Rightarrow> False); body = drop_sign s in
      if body = [] then None
      else case dec_val body 0 of
        None \<Rightarrow> None
      | Some n \<Rightarrow> (let v = (if neg then - int n else int n) in if in_i64 v then Some v else None))"

text \<open>\<^verbatim>\<open>Atoi\<close> returns the nearest limit together with a range error, and 0 with a syntax error;
  the parser ignores the error of an integer literal.\<close>

definition Atoi_value :: "string \<Rightarrow> int" where
  "Atoi_value s =
     (let neg = (case s of c # _ \<Rightarrow> c = CHR ''-'' | [] \<Rightarrow> False); body = drop_sign s in
      if body = [] then 0
      else case dec_val body 0 of
        None \<Rightarrow> 0
      | Some n \<Rightarrow> (let v = (if neg then - int n else int n) in
          if in_i64 v then v else if neg then - (2 ^ 63) else max_i64))"

definition ParseBool :: "string \<Rightarrow> bool option" where
  "ParseBool s =
     (if s \<in> {''1'', ''t'', ''T'', ''TRUE'', ''true'', ''True''} then Some True
      else if s \<in> {''0'', ''f'', ''F'', ''FALSE'', ''false'', ''False''} then Some False
      else None)"

section \<open>Floats\<close>

text \<open>The mantissa: its digits as a number, how many of them follow the dot, whether there were any, and the rest.\<close>

fun read_mantissa :: "nat \<Rightarrow> string \<Rightarrow> bool \<Rightarrow> nat \<Rightarrow> nat \<Rightarrow> bool \<Rightarrow> nat \<times> nat \<times> bool \<times> string" where
  "read_mantissa base [] dot acc fr saw = (acc, fr, saw, [])"
| "read_mantissa base (c # cs) dot acc fr saw =
     (if c = CHR ''_'' then read_mantissa base cs dot acc fr saw
      else if c = CHR ''.'' then
        (if dot then (acc, fr, saw, c # cs) else read_mantissa base cs True acc fr saw)
      else case digit_val c of
        None \<Rightarrow> (acc, fr, saw, c # cs)
      | Some d \<Rightarrow>
          if d < base then read_mantissa base cs dot (acc * base + d) (if dot then Suc fr else fr) True
          else (acc, fr, saw, c # cs))"

text \<open>The digits of an exponent, which stops growing at 10000.\<close>

fun read_exp :: "string \<Rightarrow> nat \<Rightarrow> nat \<times> string" where
  "read_exp [] e = (e, [])"
| "read_exp (c # cs) e =
     (if c = CHR ''_'' then read_exp cs e
      else if is_digit c then read_exp cs (if e < 10000 then e * 10 + (char_code c - 48) else e)
      else (e, c # cs))"

definition read_exponent :: "string \<Rightarrow> (int \<times> string) option" where
  "read_exponent s =
     (let neg = (case s of c # _ \<Rightarrow> c = CHR ''-'' | [] \<Rightarrow> False); body = drop_sign s in
      case body of
        [] \<Rightarrow> None
      | c # _ \<Rightarrow> if is_digit c then (case read_exp body 0 of (e, rest) \<Rightarrow> Some (if neg then - int e else int e, rest)) else None)"

definition rat_pow :: "nat \<Rightarrow> int \<Rightarrow> rat" where
  "rat_pow b e = (if 0 \<le> e then of_nat b ^ nat e else 1 / of_nat b ^ nat (- e))"

definition read_float :: "string \<Rightarrow> (bool \<times> rat) option" where
  "read_float s0 =
     (let neg = (case s0 of c # _ \<Rightarrow> c = CHR ''-'' | [] \<Rightarrow> False);
          s = drop_sign s0;
          hex = (case s of z # p # _ # _ \<Rightarrow> z = CHR ''0'' \<and> char_lower p = CHR ''x'' | _ \<Rightarrow> False);
          base = (if hex then 16 else 10)
      in case read_mantissa base (if hex then drop 2 s else s) False 0 0 False of (m, fr, saw, rest) \<Rightarrow>
        if \<not> saw \<or> (CHR ''_'' \<in> set s0 \<and> \<not> underscoreOK s0) then None
        else (case rest of
          [] \<Rightarrow> if hex then None else Some (neg, of_nat m * rat_pow 10 (- int fr))
        | c # cs \<Rightarrow>
            if char_lower c = (if hex then CHR ''p'' else CHR ''e'') then
              (case read_exponent cs of
                 Some (e, []) \<Rightarrow>
                   Some (neg, if hex then of_nat m * rat_pow 2 (e - 4 * int fr) else of_nat m * rat_pow 10 (e - int fr))
               | _ \<Rightarrow> None)
            else None))"

definition special_float :: "string \<Rightarrow> f64 option" where
  "special_float s =
     (let neg = (case s of c # _ \<Rightarrow> c = CHR ''-'' | [] \<Rightarrow> False) in
      if to_lower (drop_sign s) \<in> {''inf'', ''infinity''} then Some (FInf neg)
      else if to_lower s = ''nan'' then Some FNaN else None)"

definition ParseFloat :: "string \<Rightarrow> f64 option" where
  "ParseFloat s = (case special_float s of
     Some f \<Rightarrow> Some f
   | None \<Rightarrow> (case read_float s of
       None \<Rightarrow> None
     | Some (neg, q) \<Rightarrow> (case f_round neg (if neg then - q else q) of FInf _ \<Rightarrow> None | f \<Rightarrow> Some f)))"

section \<open>Quoted strings\<close>

definition utf8 :: "nat \<Rightarrow> string" where
  "utf8 n =
     (if n < 128 then [char_of n]
      else if n < 2048 then [char_of (192 + n div 64), char_of (128 + n mod 64)]
      else if 55296 \<le> n \<and> n \<le> 57343 then [char_of (239::nat), char_of (191::nat), char_of (189::nat)]
      else if n < 65536 then [char_of (224 + n div 4096), char_of (128 + n div 64 mod 64), char_of (128 + n mod 64)]
      else [char_of (240 + n div 262144), char_of (128 + n div 4096 mod 64), char_of (128 + n div 64 mod 64), char_of (128 + n mod 64)])"

text \<open>A fixed number of digits of a base.\<close>

fun take_digits :: "nat \<Rightarrow> nat \<Rightarrow> string \<Rightarrow> nat \<Rightarrow> (nat \<times> string) option" where
  "take_digits 0 base s acc = Some (acc, s)"
| "take_digits (Suc n) base [] acc = None"
| "take_digits (Suc n) base (c # cs) acc = (case digit_val c of
     None \<Rightarrow> None
   | Some d \<Rightarrow> if d < base then take_digits n base cs (acc * base + d) else None)"

text \<open>One escape sequence after the backslash, inside double quotes.\<close>

definition unescape :: "string \<Rightarrow> (string \<times> string) option" where
  "unescape s = (case s of
     [] \<Rightarrow> None
   | c # cs \<Rightarrow>
       if c = CHR ''a'' then Some ([char_of (7::nat)], cs)
       else if c = CHR ''b'' then Some ([char_of (8::nat)], cs)
       else if c = CHR ''f'' then Some ([char_of (12::nat)], cs)
       else if c = CHR ''n'' then Some ([char_of (10::nat)], cs)
       else if c = CHR ''r'' then Some ([char_of (13::nat)], cs)
       else if c = CHR ''t'' then Some ([char_of (9::nat)], cs)
       else if c = CHR ''v'' then Some ([char_of (11::nat)], cs)
       else if c = CHR 0x5C \<or> c = CHR 0x22 then Some ([c], cs)
       else if c = CHR ''x'' then map_option (apfst (\<lambda>n. [char_of n])) (take_digits 2 16 cs 0)
       else if c = CHR ''u'' then map_option (apfst utf8) (take_digits 4 16 cs 0)
       else if c = CHR ''U'' then
         (case take_digits 8 16 cs 0 of Some (n, rest) \<Rightarrow> if n \<le> 1114111 then Some (utf8 n, rest) else None | None \<Rightarrow> None)
       else if 48 \<le> char_code c \<and> char_code c \<le> 55 then
         (case take_digits 3 8 s 0 of Some (n, rest) \<Rightarrow> if n \<le> 255 then Some ([char_of n], rest) else None | None \<Rightarrow> None)
       else None)"

lemma take_digits_length: "take_digits n base s acc = Some (m, rest) \<Longrightarrow> length s = n + length rest"
  by (induction n base s acc rule: take_digits.induct) (auto split: option.splits if_splits)

lemma unescape_length: "unescape s = Some (x, rest) \<Longrightarrow> length rest < length s"
  by (auto simp: unescape_def split: list.splits if_splits option.splits dest!: take_digits_length)

text \<open>The body of a quoted string, up to and including the closing quote, which must be the last character.\<close>

function unquote_body :: "string \<Rightarrow> string option" where
  "unquote_body s = (case s of
     [] \<Rightarrow> None
   | c # cs \<Rightarrow>
       if c = CHR 0x22 then (if cs = [] then Some [] else None)
       else if c = CHR 0x0A then None
       else if c = CHR 0x5C then
         (case unescape cs of None \<Rightarrow> None | Some (x, rest) \<Rightarrow> map_option ((@) x) (unquote_body rest))
       else map_option ((#) c) (unquote_body cs))"
  by pat_completeness auto
termination
  by (relation "measure length") (auto dest: unescape_length)

declare unquote_body.simps [simp del]

definition Unquote :: "string \<Rightarrow> string option" where
  "Unquote s = (case s of c # cs \<Rightarrow> if c = CHR 0x22 then unquote_body cs else None | [] \<Rightarrow> None)"

section \<open>Round trips\<close>

lemma char_code_digit: "n < 10 \<Longrightarrow> char_code (char_of (48 + n)) = 48 + n"
  by (simp add: char_code_def)

lemma dec_val_digit: "n < 10 \<Longrightarrow> dec_val [char_of (48 + n)] acc = Some (acc * 10 + n)"
  by (simp add: is_digit_def char_code_digit)

lemma dec_val_append: "dec_val (s @ t) acc = Option.bind (dec_val s acc) (dec_val t)"
  by (induction s arbitrary: acc) auto

lemma dec_val_nat_digits: "dec_val (nat_digits n) 0 = Some n"
proof (induction n rule: nat_digits.induct)
  case (1 n)
  show ?case
  proof (cases "n < 10")
    case True
    then show ?thesis
      using dec_val_digit [of n 0] by (simp add: nat_digits.simps)
  next
    case False
    then have "nat_digits n = nat_digits (n div 10) @ [char_of (48 + n mod 10)]"
      by (subst nat_digits.simps) simp
    then show ?thesis
      using 1 [OF False] dec_val_digit [of "n mod 10" "n div 10"] by (simp add: dec_val_append)
  qed
qed

lemma nat_digits_chars: "c \<in> set (nat_digits n) \<Longrightarrow> is_digit c"
proof (induction n rule: nat_digits.induct)
  case (1 n)
  have "is_digit (char_of (48 + n mod 10))"
    by (simp add: is_digit_def char_code_digit)
  then show ?case
    using 1 by (cases "n < 10") (auto simp: nat_digits.simps [of n] is_digit_def char_code_digit)
qed

lemma nat_digits_nonempty [simp]: "nat_digits n \<noteq> []"
  by (subst nat_digits.simps) simp

lemma drop_sign_digits: "drop_sign (nat_digits n) = nat_digits n"
proof (cases "nat_digits n")
  case (Cons c cs)
  then have "is_digit c"
    using nat_digits_chars [of c n] by simp
  then show ?thesis
    using Cons by (auto simp: drop_sign_def is_digit_def char_code_def)
qed simp

lemma Atoi_itoa:
  assumes "in_i64 i"
  shows "Atoi (itoa i) = Some i"
proof (cases "i < 0")
  case True
  then show ?thesis
    using assms by (simp add: Atoi_def itoa_def drop_sign_def dec_val_nat_digits Let_def)
next
  case False
  have "nat_digits (nat i) ! 0 \<noteq> CHR ''-''"
    using nat_digits_chars [of "nat_digits (nat i) ! 0" "nat i"] by (auto simp: is_digit_def char_code_def)
  then have "\<not> (case nat_digits (nat i) of c # _ \<Rightarrow> c = CHR ''-'' | [] \<Rightarrow> False)"
    by (cases "nat_digits (nat i)") auto
  then show ?thesis
    using False assms by (simp add: Atoi_def itoa_def drop_sign_digits dec_val_nat_digits Let_def)
qed

end
