(* ===== verification/Ast.thy ===== *)
theory Ast
  imports GoFloat
begin

text \<open>
  The abstract syntax of \<^verbatim>\<open>pkg/ast\<close>: tokens with their printed form and precedence,
  expressions, statements, the visitor, the aggregate analysis and the table of built-in
  functions.

  A Go interface value that may be nil is an \<open>option\<close>; a slice that is nil exactly when it
  is empty (\<^verbatim>\<open>Joins\<close>, \<^verbatim>\<open>Dimensions\<close>, \<^verbatim>\<open>SortFields\<close>) is
  a list. The field \<^verbatim>\<open>isAggregate\<close> of an \<^verbatim>\<open>AliasRef\<close> only caches the result
  of \<open>IsAggregate\<close> and has no counterpart.
\<close>

section \<open>Tokens (token.go)\<close>

text \<open>\<^verbatim>\<open>type Token int\<close>, numbered by \<^verbatim>\<open>iota\<close>.\<close>

type_synonym token = nat

abbreviation T_ILLEGAL :: token where "T_ILLEGAL \<equiv> 0"
abbreviation T_EOF :: token where "T_EOF \<equiv> 1"
abbreviation T_WS :: token where "T_WS \<equiv> 2"
abbreviation T_COMMENT :: token where "T_COMMENT \<equiv> 3"
abbreviation T_AS :: token where "T_AS \<equiv> 4"
abbreviation T_IDENT :: token where "T_IDENT \<equiv> 5"
abbreviation T_INTEGER :: token where "T_INTEGER \<equiv> 6"
abbreviation T_NUMBER :: token where "T_NUMBER \<equiv> 7"
abbreviation T_STRING :: token where "T_STRING \<equiv> 8"
abbreviation T_BADSTRING :: token where "T_BADSTRING \<equiv> 9"
abbreviation T_operatorBeg :: token where "T_operatorBeg \<equiv> 10"
abbreviation T_ADD :: token where "T_ADD \<equiv> 11"
abbreviation T_SUB :: token where "T_SUB \<equiv> 12"
abbreviation T_MUL :: token where "T_MUL \<equiv> 13"
abbreviation T_DIV :: token where "T_DIV \<equiv> 14"
abbreviation T_MOD :: token where "T_MOD \<equiv> 15"
abbreviation T_BITWISE_AND :: token where "T_BITWISE_AND \<equiv> 16"
abbreviation T_BITWISE_OR :: token where "T_BITWISE_OR \<equiv> 17"
abbreviation T_BITWISE_XOR :: token where "T_BITWISE_XOR \<equiv> 18"
abbreviation T_AND :: token where "T_AND \<equiv> 19"
abbreviation T_OR :: token where "T_OR \<equiv> 20"
abbreviation T_EQ :: token where "T_EQ \<equiv> 21"
abbreviation T_NEQ :: token where "T_NEQ \<equiv> 22"
abbreviation T_LT :: token where "T_LT \<equiv> 23"
abbreviation T_LTE :: token where "T_LTE \<equiv> 24"
abbreviation T_GT :: token where "T_GT \<equiv> 25"
abbreviation T_GTE :: token where "T_GTE \<equiv> 26"
abbreviation T_SUBSET :: token where "T_SUBSET \<equiv> 27"
abbreviation T_ARROW :: token where "T_ARROW \<equiv> 28"
abbreviation T_operatorEnd :: token where "T_operatorEnd \<equiv> 29"
abbreviation T_ASTERISK :: token where "T_ASTERISK \<equiv> 30"
abbreviation T_COMMA :: token where "T_COMMA \<equiv> 31"
abbreviation T_LPAREN :: token where "T_LPAREN \<equiv> 32"
abbreviation T_RPAREN :: token where "T_RPAREN \<equiv> 33"
abbreviation T_LBRACKET :: token where "T_LBRACKET \<equiv> 34"
abbreviation T_RBRACKET :: token where "T_RBRACKET \<equiv> 35"
abbreviation T_HASH :: token where "T_HASH \<equiv> 36"
abbreviation T_DOT :: token where "T_DOT \<equiv> 37"
abbreviation T_COLON :: token where "T_COLON \<equiv> 38"
abbreviation T_SEMICOLON :: token where "T_SEMICOLON \<equiv> 39"
abbreviation T_COLSEP :: token where "T_COLSEP \<equiv> 40"
abbreviation T_SELECT :: token where "T_SELECT \<equiv> 41"
abbreviation T_FROM :: token where "T_FROM \<equiv> 42"
abbreviation T_JOIN :: token where "T_JOIN \<equiv> 43"
abbreviation T_INNER :: token where "T_INNER \<equiv> 44"
abbreviation T_LEFT :: token where "T_LEFT \<equiv> 45"
abbreviation T_RIGHT :: token where "T_RIGHT \<equiv> 46"
abbreviation T_FULL :: token where "T_FULL \<equiv> 47"
abbreviation T_CROSS :: token where "T_CROSS \<equiv> 48"
abbreviation T_ON :: token where "T_ON \<equiv> 49"
abbreviation T_WHERE :: token where "T_WHERE \<equiv> 50"
abbreviation T_GROUP :: token where "T_GROUP \<equiv> 51"
abbreviation T_ORDER :: token where "T_ORDER \<equiv> 52"
abbreviation T_HAVING :: token where "T_HAVING \<equiv> 53"
abbreviation T_BY :: token where "T_BY \<equiv> 54"
abbreviation T_ASC :: token where "T_ASC \<equiv> 55"
abbreviation T_DESC :: token where "T_DESC \<equiv> 56"
abbreviation T_FILTER :: token where "T_FILTER \<equiv> 57"
abbreviation T_CASE :: token where "T_CASE \<equiv> 58"
abbreviation T_WHEN :: token where "T_WHEN \<equiv> 59"
abbreviation T_THEN :: token where "T_THEN \<equiv> 60"
abbreviation T_ELSE :: token where "T_ELSE \<equiv> 61"
abbreviation T_END :: token where "T_END \<equiv> 62"
abbreviation T_TRUE :: token where "T_TRUE \<equiv> 63"
abbreviation T_FALSE :: token where "T_FALSE \<equiv> 64"
abbreviation T_CREATE :: token where "T_CREATE \<equiv> 65"
abbreviation T_DROP :: token where "T_DROP \<equiv> 66"
abbreviation T_EXPLAIN :: token where "T_EXPLAIN \<equiv> 67"
abbreviation T_DESCRIBE :: token where "T_DESCRIBE \<equiv> 68"
abbreviation T_SHOW :: token where "T_SHOW \<equiv> 69"
abbreviation T_STREAM :: token where "T_STREAM \<equiv> 70"
abbreviation T_TABLE :: token where "T_TABLE \<equiv> 71"
abbreviation T_STREAMS :: token where "T_STREAMS \<equiv> 72"
abbreviation T_TABLES :: token where "T_TABLES \<equiv> 73"
abbreviation T_WITH :: token where "T_WITH \<equiv> 74"
abbreviation T_XBIGINT :: token where "T_XBIGINT \<equiv> 75"
abbreviation T_XFLOAT :: token where "T_XFLOAT \<equiv> 76"
abbreviation T_XSTRING :: token where "T_XSTRING \<equiv> 77"
abbreviation T_XBYTEA :: token where "T_XBYTEA \<equiv> 78"
abbreviation T_XDATETIME :: token where "T_XDATETIME \<equiv> 79"
abbreviation T_XBOOLEAN :: token where "T_XBOOLEAN \<equiv> 80"
abbreviation T_XARRAY :: token where "T_XARRAY \<equiv> 81"
abbreviation T_XSTRUCT :: token where "T_XSTRUCT \<equiv> 82"
abbreviation T_DATASOURCE :: token where "T_DATASOURCE \<equiv> 83"
abbreviation T_KEY :: token where "T_KEY \<equiv> 84"
abbreviation T_FORMAT :: token where "T_FORMAT \<equiv> 85"
abbreviation T_CONF_KEY :: token where "T_CONF_KEY \<equiv> 86"
abbreviation T_TYPE :: token where "T_TYPE \<equiv> 87"
abbreviation T_STRICT_VALIDATION :: token where "T_STRICT_VALIDATION \<equiv> 88"
abbreviation T_TIMESTAMP :: token where "T_TIMESTAMP \<equiv> 89"
abbreviation T_TIMESTAMP_FORMAT :: token where "T_TIMESTAMP_FORMAT \<equiv> 90"
abbreviation T_RETAIN_SIZE :: token where "T_RETAIN_SIZE \<equiv> 91"
abbreviation T_SHARED :: token where "T_SHARED \<equiv> 92"
abbreviation T_DD :: token where "T_DD \<equiv> 93"
abbreviation T_HH :: token where "T_HH \<equiv> 94"
abbreviation T_MI :: token where "T_MI \<equiv> 95"
abbreviation T_SS :: token where "T_SS \<equiv> 96"
abbreviation T_MS :: token where "T_MS \<equiv> 97"

definition Tokens :: "(token \<times> string) list" where
  "Tokens =
  [(T_ILLEGAL, ''ILLEGAL''),
   (T_EOF, ''EOF''),
   (T_AS, ''AS''),
   (T_WS, ''WS''),
   (T_IDENT, ''IDENT''),
   (T_INTEGER, ''INTEGER''),
   (T_NUMBER, ''NUMBER''),
   (T_STRING, ''STRING''),
   (T_ADD, ''+''),
   (T_SUB, ''-''),
   (T_MUL, ''*''),
   (T_DIV, ''/''),
   (T_MOD, ''%''),
   (T_BITWISE_AND, ''&''),
   (T_BITWISE_OR, ''|''),
   (T_BITWISE_XOR, ''^''),
   (T_EQ, ''=''),
   (T_NEQ, ''!=''),
   (T_LT, ''<''),
   (T_LTE, ''<=''),
   (T_GT, ''>''),
   (T_GTE, ''>=''),
   (T_SUBSET, ''[]''),
   (T_ARROW, ''->''),
   (T_ASTERISK, ''*''),
   (T_COMMA, '',''),
   (T_LPAREN, ''(''),
   (T_RPAREN, '')''),
   (T_LBRACKET, ''[''),
   (T_RBRACKET, '']''),
   (T_HASH, ''#''),
   (T_DOT, ''.''),
   (T_SEMICOLON, '';''),
   (T_COLON, '':''),
   (T_COLSEP, [char_of (7::nat)]),
   (T_SELECT, ''SELECT''),
   (T_FROM, ''FROM''),
   (T_JOIN, ''JOIN''),
   (T_LEFT, ''LEFT''),
   (T_INNER, ''INNER''),
   (T_ON, ''ON''),
   (T_WHERE, ''WHERE''),
   (T_GROUP, ''GROUP''),
   (T_ORDER, ''ORDER''),
   (T_HAVING, ''HAVING''),
   (T_BY, ''BY''),
   (T_ASC, ''ASC''),
   (T_DESC, ''DESC''),
   (T_CREATE, ''CREATE''),
   (T_DROP, ''RROP''),
   (T_EXPLAIN, ''EXPLAIN''),
   (T_DESCRIBE, ''DESCRIBE''),
   (T_SHOW, ''SHOW''),
   (T_STREAM, ''STREAM''),
   (T_TABLE, ''TABLE''),
   (T_STREAMS, ''STREAMS''),
   (T_TABLES, ''TABLES''),
   (T_WITH, ''WITH''),
   (T_XBIGINT, ''BIGINT''),
   (T_XFLOAT, ''FLOAT''),
   (T_XSTRING, ''STRING''),
   (T_XBYTEA, ''BYTEA''),
   (T_XDATETIME, ''DATETIME''),
   (T_XBOOLEAN, ''BOOLEAN''),
   (T_XARRAY, ''ARRAY''),
   (T_XSTRUCT, ''STRUCT''),
   (T_DATASOURCE, ''DATASOURCE''),
   (T_KEY, ''KEY''),
   (T_FORMAT, ''FORMAT''),
   (T_CONF_KEY, ''CONF_KEY''),
   (T_TYPE, ''TYPE''),
   (T_STRICT_VALIDATION, ''STRICT_VALIDATION''),
   (T_TIMESTAMP, ''TIMESTAMP''),
   (T_TIMESTAMP_FORMAT, ''TIMESTAMP_FORMAT''),
   (T_RETAIN_SIZE, ''RETAIN_SIZE''),
   (T_SHARED, ''SHARED''),
   (T_AND, ''AND''),
   (T_OR, ''OR''),
   (T_TRUE, ''TRUE''),
   (T_FALSE, ''FALSE''),
   (T_DD, ''DD''),
   (T_HH, ''HH''),
   (T_MI, ''MI''),
   (T_SS, ''SS''),
   (T_MS, ''MS'')]"

text \<open>\<^verbatim>\<open>Token.String\<close>: the slice \<^verbatim>\<open>Tokens\<close> has an entry for every token up to
  \<^verbatim>\<open>MS\<close>; the entries the table leaves out are empty strings.\<close>

definition tok_String :: "token \<Rightarrow> string" where
  "tok_String tok = (if tok \<le> T_MS then (case map_of Tokens tok of Some s \<Rightarrow> s | None \<Rightarrow> []) else [])"

definition COLUMN_SEPARATOR :: char where
  "COLUMN_SEPARATOR = char_of (7 :: nat)"

definition IsOperator :: "token \<Rightarrow> bool" where
  "IsOperator tok \<longleftrightarrow>
     (tok > T_operatorBeg \<and> tok < T_operatorEnd) \<or> tok = T_ASTERISK \<or> tok = T_LBRACKET"

definition IsTimeLiteral :: "token \<Rightarrow> bool" where
  "IsTimeLiteral tok \<longleftrightarrow> tok \<ge> T_DD \<and> tok \<le> T_MS"

definition AllowedSourceToken :: "token \<Rightarrow> bool" where
  "AllowedSourceToken tok \<longleftrightarrow> tok = T_IDENT \<or> tok = T_DIV \<or> tok = T_HASH \<or> tok = T_ADD"

definition AllowedSFNToken :: "token \<Rightarrow> bool" where
  "AllowedSFNToken tok \<longleftrightarrow> tok = T_DOT"

definition Precedence :: "token \<Rightarrow> nat" where
  "Precedence tok =
     (if tok = T_OR then 1
      else if tok = T_AND then 2
      else if tok \<in> {T_EQ, T_NEQ, T_LT, T_LTE, T_GT, T_GTE} then 3
      else if tok \<in> {T_ADD, T_SUB, T_BITWISE_OR, T_BITWISE_XOR} then 4
      else if tok \<in> {T_MUL, T_DIV, T_MOD, T_BITWISE_AND, T_SUBSET, T_ARROW} then 5
      else 0)"

datatype DataType = UNKNOWN | BIGINT | FLOAT | STRINGS | BYTEA | DATETIME | BOOLEAN | ARRAY | STRUCT

definition IsSimpleType :: "DataType \<Rightarrow> bool" where
  "IsSimpleType d \<longleftrightarrow> d \<in> {BIGINT, FLOAT, STRINGS, BYTEA, DATETIME, BOOLEAN}"

fun dt_String :: "DataType \<Rightarrow> string" where
  "dt_String UNKNOWN = []"
| "dt_String BIGINT = ''bigint''"
| "dt_String FLOAT = ''float''"
| "dt_String STRINGS = ''string''"
| "dt_String BYTEA = ''bytea''"
| "dt_String DATETIME = ''datetime''"
| "dt_String BOOLEAN = ''boolean''"
| "dt_String ARRAY = ''array''"
| "dt_String STRUCT = ''struct''"

definition GetDataType :: "token \<Rightarrow> DataType" where
  "GetDataType tok =
     (if tok = T_XBIGINT then BIGINT else if tok = T_XFLOAT then FLOAT
      else if tok = T_XSTRING then STRINGS else if tok = T_XBYTEA then BYTEA
      else if tok = T_XDATETIME then DATETIME else if tok = T_XBOOLEAN then BOOLEAN
      else if tok = T_XARRAY then ARRAY else if tok = T_XSTRUCT then STRUCT else UNKNOWN)"

section \<open>Expressions (expr.go)\<close>

type_synonym StreamName = string

definition DefaultStream :: StreamName where
  "DefaultStream = ''$$default''"

definition AliasStream :: StreamName where
  "AliasStream = ''$$alias''"

datatype WindowType =
  NOT_WINDOW | TUMBLING_WINDOW | HOPPING_WINDOW | SLIDING_WINDOW | SESSION_WINDOW | COUNT_WINDOW

text \<open>
  \<^verbatim>\<open>Window\<close> and \<^verbatim>\<open>SortField\<close> of statement.go embed \<^verbatim>\<open>Expr\<close>, so
  they are expressions too. The arguments of \<open>Window\<close> are its type, length, interval and
  filter.
\<close>

datatype expr =
    ParenExpr expr
  | ArrowExpr expr
  | BracketExpr expr
  | ColonExpr int int
  | IndexExpr int
  | BooleanLiteral bool
  | TimeLiteral token
  | IntegerLiteral int
  | StringLiteral string
  | NumberLiteral f64
  | Wildcard token
  | Call string "expr list"
  | BinaryExpr token expr expr
  | CaseExpr "expr option" "(expr \<times> expr) list" "expr option"
  | FieldRef StreamName string "AliasRef option"
  | MetaRef StreamName string
  | Window WindowType int "int option" "expr option"
  | SortField string bool
and AliasRef = AliasRef (Expression: expr) (refSources: "StreamName list")

definition IsColumn :: "StreamName \<Rightarrow> bool" where
  "IsColumn sn \<longleftrightarrow> sn \<noteq> AliasStream \<and> sn \<noteq> []"

definition IsAlias :: "StreamName \<Rightarrow> bool" where
  "IsAlias sn \<longleftrightarrow> sn = AliasStream"

definition IsSQLField :: "StreamName \<Rightarrow> bool" where
  "IsSQLField sn \<longleftrightarrow> sn \<noteq> []"

fun RefSources :: "expr \<Rightarrow> StreamName list" where
  "RefSources (FieldRef sn n al) =
     (if sn = AliasStream then (case al of Some a \<Rightarrow> refSources a | None \<Rightarrow> [])
      else if sn \<noteq> [] then [sn] else [])"
| "RefSources _ = []"

section \<open>Statements (statement.go, sourceStmt.go)\<close>

record field =
  fld_Name :: string
  fld_AName :: string
  fld_Expr :: expr

definition GetName :: "field \<Rightarrow> string" where
  "GetName f = (if fld_AName f \<noteq> [] then fld_AName f else fld_Name f)"

definition is_FieldRef :: "expr \<Rightarrow> bool" where
  "is_FieldRef e = (case e of FieldRef _ _ _ \<Rightarrow> True | _ \<Rightarrow> False)"

definition IsSelectionField :: "field \<Rightarrow> bool" where
  "IsSelectionField f = (if fld_AName f \<noteq> [] then True else is_FieldRef (fld_Expr f))"

definition field_IsColumn :: "field \<Rightarrow> bool" where
  "field_IsColumn f = (if fld_AName f \<noteq> [] then False else is_FieldRef (fld_Expr f))"

record table =
  tbl_Name :: string
  tbl_Alias :: string

datatype JoinType = LEFT_JOIN | INNER_JOIN | RIGHT_JOIN | FULL_JOIN | CROSS_JOIN

record join =
  jn_Name :: string
  jn_Alias :: string
  jn_JoinType :: JoinType
  jn_Expr :: "expr option"

type_synonym dimensions = "expr list"

fun is_Window :: "expr \<Rightarrow> bool" where
  "is_Window (Window _ _ _ _) = True"
| "is_Window _ = False"

definition GetWindow :: "dimensions \<Rightarrow> expr option" where
  "GetWindow ds = find is_Window ds"

definition GetGroups :: "dimensions \<Rightarrow> dimensions" where
  "GetGroups ds = filter (\<lambda>e. \<not> is_Window e) ds"

record sort_field =
  sf_Name :: string
  sf_Ascending :: bool

record SelectStatement =
  Fields :: "field list"
  Sources :: "table list"
  Joins :: "join list"
  Condition :: "expr option"
  Dimensions :: dimensions
  Having :: "expr option"
  SortFields :: "sort_field list"

datatype StreamType = TypeStream | TypeTable

datatype FieldType =
    BasicType DataType
  | ArrayType DataType "FieldType option"
  | RecType "(string \<times> FieldType option) list"

record Options =
  DATASOURCE :: string
  KEY :: string
  FORMAT :: string
  CONF_KEY :: string
  opt_TYPE :: string
  STRICT_VALIDATION :: bool
  TIMESTAMP :: string
  TIMESTAMP_FORMAT :: string
  RETAIN_SIZE :: int
  SHARED :: bool

text \<open>\<^verbatim>\<open>StreamFields\<close> is nil for a schemaless stream; the type of a field may be nil after \<^verbatim>\<open>ARRAY\<close> without an element type.\<close>

record StreamStmt =
  ss_Name :: StreamName
  ss_StreamFields :: "(string \<times> FieldType option) list option"
  ss_Options :: Options
  ss_StreamType :: StreamType

text \<open>The JSON printed for a field type; the flag says that the text is a plain literal.\<close>

fun doPrintFieldTypeForJson :: "FieldType \<Rightarrow> string \<times> bool"
  and printRecFields :: "bool \<Rightarrow> (string \<times> FieldType option) list \<Rightarrow> string" where
  "doPrintFieldTypeForJson (BasicType t) = (dt_String t, True)"
| "doPrintFieldTypeForJson (ArrayType t ft) =
     (let (fieldType, q) =
        (case ft of Some f \<Rightarrow> doPrintFieldTypeForJson f | None \<Rightarrow> (dt_String t, True))
      in if q then (''{\"Type\":\"array\",\"ElementType\":\"'' @ fieldType @ ''\"}'', False)
         else (''{\"Type\":\"array\",\"ElementType\":'' @ fieldType @ ''}'', False))"
| "doPrintFieldTypeForJson (RecType fs) =
     (''{\"Type\":\"struct\",\"Fields\":['' @ printRecFields True fs @ '']}'', False)"
| "printRecFields isFirst [] = []"
| "printRecFields isFirst ((n, ft) # fs) =
     (if isFirst then [] else '','') @
     (let (fieldType, q) = (case ft of Some f \<Rightarrow> doPrintFieldTypeForJson f | None \<Rightarrow> ([], False))
      in if q then ''{\"FieldType\":\"'' @ fieldType @ ''\",\"Name\":\"'' @ n @ ''\"}''
         else ''{\"FieldType\":'' @ fieldType @ '',\"Name\":\"'' @ n @ ''\"}'') @
     printRecFields False fs"

section \<open>The visitor (visitor.go)\<close>

datatype node =
    NSelect SelectStatement
  | NFields "field list"
  | NField field
  | NSources "table list"
  | NTable table
  | NJoins "join list"
  | NJoin join
  | NDimensions dimensions
  | NSortFields "sort_field list"
  | NWhen expr expr
  | NExpr expr

text \<open>
  A visitor returns whether to descend; the state it closes over is passed along. A nil child
  is skipped. \<^verbatim>\<open>Walk\<close> on a \<^verbatim>\<open>FieldRef\<close> does not enter its alias expression:
  only \<open>walk_field\<close> does.
\<close>

type_synonym 's visitor = "node \<Rightarrow> 's \<Rightarrow> bool \<times> 's"

fun walk_expr :: "'s visitor \<Rightarrow> expr \<Rightarrow> 's \<Rightarrow> 's" where
  "walk_expr v e s = (case v (NExpr e) s of (b, s1) \<Rightarrow>
     if \<not> b then s1
     else (case e of
       BinaryExpr op lhs rhs \<Rightarrow> walk_expr v rhs (walk_expr v lhs s1)
     | Call n args \<Rightarrow> fold (walk_expr v) args s1
     | ParenExpr x \<Rightarrow> walk_expr v x s1
     | CaseExpr val ws els \<Rightarrow>
         let s2 = (case val of Some x \<Rightarrow> walk_expr v x s1 | None \<Rightarrow> s1);
             s3 = fold (\<lambda>(c, r) t. case v (NWhen c r) t of (b1, t1) \<Rightarrow>
                    if \<not> b1 then t1 else walk_expr v r (walk_expr v c t1)) ws s2
         in (case els of Some x \<Rightarrow> walk_expr v x s3 | None \<Rightarrow> s3)
     | Window wt len itv flt \<Rightarrow>
         let s2 = snd (v (NExpr (IntegerLiteral len)) s1);
             s3 = (case itv of Some i \<Rightarrow> snd (v (NExpr (IntegerLiteral i)) s2) | None \<Rightarrow> s2)
         in (case flt of Some x \<Rightarrow> walk_expr v x s3 | None \<Rightarrow> s3)
     | _ \<Rightarrow> s1))"

declare walk_expr.simps [simp del]

definition walk_opt :: "'s visitor \<Rightarrow> expr option \<Rightarrow> 's \<Rightarrow> 's" where
  "walk_opt v e s = (case e of Some x \<Rightarrow> walk_expr v x s | None \<Rightarrow> s)"

definition walk_field :: "'s visitor \<Rightarrow> field \<Rightarrow> 's \<Rightarrow> 's" where
  "walk_field v f s = (case v (NField f) s of (b, s1) \<Rightarrow>
     if \<not> b then s1
     else let s2 = walk_expr v (fld_Expr f) s1 in
       (case fld_Expr f of
          FieldRef sn n (Some a) \<Rightarrow> if IsAlias sn then walk_expr v (Expression a) s2 else s2
        | _ \<Rightarrow> s2))"

definition walk_fields :: "'s visitor \<Rightarrow> field list \<Rightarrow> 's \<Rightarrow> 's" where
  "walk_fields v fs s = (case v (NFields fs) s of (b, s1) \<Rightarrow>
     if \<not> b then s1 else fold (walk_field v) fs s1)"

definition walk_sources :: "'s visitor \<Rightarrow> table list \<Rightarrow> 's \<Rightarrow> 's" where
  "walk_sources v ts s = (case v (NSources ts) s of (b, s1) \<Rightarrow>
     if \<not> b then s1 else fold (\<lambda>t s. snd (v (NTable t) s)) ts s1)"

definition walk_join :: "'s visitor \<Rightarrow> join \<Rightarrow> 's \<Rightarrow> 's" where
  "walk_join v j s = (case v (NJoin j) s of (b, s1) \<Rightarrow>
     if \<not> b then s1 else walk_opt v (jn_Expr j) s1)"

definition walk_joins :: "'s visitor \<Rightarrow> join list \<Rightarrow> 's \<Rightarrow> 's" where
  "walk_joins v js s = (if js = [] then s else case v (NJoins js) s of (b, s1) \<Rightarrow>
     if \<not> b then s1 else fold (walk_join v) js s1)"

definition walk_dimensions :: "'s visitor \<Rightarrow> dimensions \<Rightarrow> 's \<Rightarrow> 's" where
  "walk_dimensions v ds s = (if ds = [] then s else case v (NDimensions ds) s of (b, s1) \<Rightarrow>
     if \<not> b then s1 else fold (walk_expr v) (GetGroups ds) (walk_opt v (GetWindow ds) s1))"

definition walk_sortfields :: "'s visitor \<Rightarrow> sort_field list \<Rightarrow> 's \<Rightarrow> 's" where
  "walk_sortfields v sfs s = (if sfs = [] then s else case v (NSortFields sfs) s of (b, s1) \<Rightarrow>
     if \<not> b then s1
     else fold (\<lambda>sf. walk_expr v (SortField (sf_Name sf) (sf_Ascending sf))) sfs s1)"

definition walk_select :: "'s visitor \<Rightarrow> SelectStatement \<Rightarrow> 's \<Rightarrow> 's" where
  "walk_select v st s = (case v (NSelect st) s of (b, s1) \<Rightarrow>
     if \<not> b then s1
     else let s2 = walk_fields v (Fields st) s1;
              s3 = walk_sources v (Sources st) s2;
              s4 = walk_joins v (Joins st) s3;
              s5 = walk_opt v (Condition st) s4;
              s6 = walk_dimensions v (Dimensions st) s5;
              s7 = walk_opt v (Having st) s6
          in walk_sortfields v (SortFields st) s7)"

section \<open>Functions (functions.go, funcArgsValidator.go)\<close>

datatype FuncType =
  NotFoundFunc | AggFunc | MathFunc | StrFunc | ConvFunc | HashFunc | JsonFunc | OtherFunc

definition aggFuncMap :: "string list" where
  "aggFuncMap =
   [''avg'', ''count'', ''max'', ''min'', ''sum'', ''collect'', ''deduplicate'',
    ''window_start'', ''window_end'']"

definition funcWithAsteriskSupportMap :: "string list" where
  "funcWithAsteriskSupportMap =
   [''collect'', ''count'']"

definition mathFuncMap :: "string list" where
  "mathFuncMap =
   [''abs'', ''acos'', ''asin'', ''atan'', ''atan2'', ''bitand'', ''bitor'', ''bitxor'',
    ''bitnot'', ''ceil'', ''cos'', ''cosh'', ''exp'', ''ln'', ''log'', ''mod'', ''power'',
    ''rand'', ''round'', ''sign'', ''sin'', ''sinh'', ''sqrt'', ''tan'', ''tanh'']"

definition strFuncMap :: "string list" where
  "strFuncMap =
   [''concat'', ''endswith'', ''format_time'', ''indexof'', ''length'', ''lower'', ''lpad'',
    ''ltrim'', ''numbytes'', ''regexp_matches'', ''regexp_replace'', ''regexp_substr'',
    ''rpad'', ''rtrim'', ''substring'', ''startswith'', ''split_value'', ''trim'', ''upper'']"

definition convFuncMap :: "string list" where
  "convFuncMap =
   [''concat'', ''cast'', ''chr'', ''encode'', ''trunc'']"

definition hashFuncMap :: "string list" where
  "hashFuncMap =
   [''md5'', ''sha1'', ''sha256'', ''sha384'', ''sha512'']"

definition jsonFuncMap :: "string list" where
  "jsonFuncMap =
   [''json_path_query'', ''json_path_query_first'', ''json_path_exists'']"

definition otherFuncMap :: "string list" where
  "otherFuncMap =
   [''isnull'', ''newuuid'', ''tstamp'', ''mqtt'', ''meta'', ''cardinality'']"

definition maps :: "(FuncType \<times> string list) list" where
  "maps = [(AggFunc, aggFuncMap), (MathFunc, mathFuncMap), (StrFunc, strFuncMap),
     (ConvFunc, convFuncMap), (HashFunc, hashFuncMap), (JsonFunc, jsonFuncMap),
     (OtherFunc, otherFuncMap)]"

definition FuncType_of :: "string \<Rightarrow> FuncType" where
  "FuncType_of name =
     (case find (\<lambda>(t, m). to_lower name \<in> set m) maps of Some (t, _) \<Rightarrow> t | None \<Rightarrow> NotFoundFunc)"

text \<open>
  \<^verbatim>\<open>FuncFinder.IsAggFunc\<close> asks the function runtime about a name no table has. The
  runtime (plugins and external services) is the parameter \<open>rt\<close>: \<open>rt name\<close> holds iff
  \<^verbatim>\<open>Get(name)\<close> succeeds and the function says it is an aggregate. A positive answer is
  cached under the lower-case name in the global \<^verbatim>\<open>aggFuncMap\<close>, here \<open>am\<close>.
\<close>

definition IsAggFunc_step :: "(string \<Rightarrow> bool) \<Rightarrow> string list \<Rightarrow> string \<Rightarrow> bool \<times> string list" where
  "IsAggFunc_step rt am name =
     (let fn = to_lower name in
      if fn \<in> set am then (True, am)
      else if fn \<in> set strFuncMap then (False, am)
      else if fn \<in> set convFuncMap then (False, am)
      else if fn \<in> set hashFuncMap then (False, am)
      else if fn \<in> set otherFuncMap then (False, am)
      else if fn \<in> set mathFuncMap then (False, am)
      else if rt name then (True, fn # am)
      else (False, am))"

text \<open>The answer with a fresh cache; the analysis below uses this one.\<close>

definition IsAggFunc :: "(string \<Rightarrow> bool) \<Rightarrow> string \<Rightarrow> bool" where
  "IsAggFunc rt name = fst (IsAggFunc_step rt aggFuncMap name)"

definition ProduceErrInfo :: "string \<Rightarrow> int \<Rightarrow> string \<Rightarrow> string" where
  "ProduceErrInfo name index expect =
     ''Expect '' @ expect @ '' type for '' @ itoa (index + 1) @ '' parameter of function '' @ name @ ''.''"

text \<open>\<open>Some\<close> is the error.\<close>

definition ValidateLen :: "string \<Rightarrow> int \<Rightarrow> int \<Rightarrow> string option" where
  "ValidateLen funcName expected actual =
     (if actual \<noteq> expected
      then Some (''The arguments for '' @ funcName @ '' should be '' @ itoa expected @ ''.'')
      else None)"

fun IsNumericArg :: "expr \<Rightarrow> bool" where
  "IsNumericArg (NumberLiteral _) = True"
| "IsNumericArg (IntegerLiteral _) = True"
| "IsNumericArg _ = False"

fun IsIntegerArg :: "expr \<Rightarrow> bool" where
  "IsIntegerArg (IntegerLiteral _) = True"
| "IsIntegerArg _ = False"

fun IsFloatArg :: "expr \<Rightarrow> bool" where
  "IsFloatArg (NumberLiteral _) = True"
| "IsFloatArg _ = False"

fun IsBooleanArg :: "expr \<Rightarrow> bool" where
  "IsBooleanArg (BooleanLiteral _) = True"
| "IsBooleanArg (BinaryExpr op _ _) =
     (op \<in> {T_AND, T_OR, T_EQ, T_NEQ, T_LT, T_LTE, T_GT, T_GTE})"
| "IsBooleanArg _ = False"

fun IsStringArg :: "expr \<Rightarrow> bool" where
  "IsStringArg (StringLiteral _) = True"
| "IsStringArg _ = False"

fun IsTimeArg :: "expr \<Rightarrow> bool" where
  "IsTimeArg (TimeLiteral _) = True"
| "IsTimeArg _ = False"

section \<open>Aggregates (checkAgg.go)\<close>

text \<open>
  \<open>IsAggregate\<close> and \<^verbatim>\<open>FieldRef.IsAggregate\<close> call each other: the visitor of the
  former asks the latter at every field reference, which for an alias analyses the alias
  expression. The recursion is written out here; \<open>IsAggregate_walk\<close> below shows that it is
  the walk of the source.
\<close>

fun IsAggregate :: "(string \<Rightarrow> bool) \<Rightarrow> expr \<Rightarrow> bool" where
  "IsAggregate rt (Call n args) = (IsAggFunc rt n \<or> list_ex (IsAggregate rt) args)"
| "IsAggregate rt (FieldRef sn n al) =
     (sn = AliasStream \<and> (case al of Some (AliasRef e rs) \<Rightarrow> IsAggregate rt e | None \<Rightarrow> False))"
| "IsAggregate rt (BinaryExpr op l r) = (IsAggregate rt l \<or> IsAggregate rt r)"
| "IsAggregate rt (ParenExpr e) = IsAggregate rt e"
| "IsAggregate rt (CaseExpr val ws els) =
     ((case val of Some e \<Rightarrow> IsAggregate rt e | None \<Rightarrow> False) \<or>
      list_ex (\<lambda>(c, r). IsAggregate rt c \<or> IsAggregate rt r) ws \<or>
      (case els of Some e \<Rightarrow> IsAggregate rt e | None \<Rightarrow> False))"
| "IsAggregate rt (Window wt len itv flt) =
     (case flt of Some e \<Rightarrow> IsAggregate rt e | None \<Rightarrow> False)"
| "IsAggregate rt _ = False"

definition agg_visitor :: "(string \<Rightarrow> bool) \<Rightarrow> (expr \<Rightarrow> bool) \<Rightarrow> bool visitor" where
  "agg_visitor rt isagg n r = (case n of
     NExpr (Call name args) \<Rightarrow> if IsAggFunc rt name then (False, True) else (True, r)
   | NExpr (FieldRef sn name al) \<Rightarrow>
       if sn = AliasStream \<and> (case al of Some a \<Rightarrow> isagg (Expression a) | None \<Rightarrow> False)
       then (False, True) else (True, r)
   | _ \<Rightarrow> (True, r))"

definition call_visitor :: "(string \<Rightarrow> bool) \<Rightarrow> bool visitor" where
  "call_visitor rt n r = (case n of
     NExpr (Call name args) \<Rightarrow> if IsAggFunc rt name then (False, True) else (True, r)
   | _ \<Rightarrow> (True, r))"

definition HasAggFuncs :: "(string \<Rightarrow> bool) \<Rightarrow> expr option \<Rightarrow> bool" where
  "HasAggFuncs rt e = walk_opt (call_visitor rt) e False"

definition IsAggStatement :: "(string \<Rightarrow> bool) \<Rightarrow> SelectStatement \<Rightarrow> bool" where
  "IsAggStatement rt st =
     (if GetGroups (Dimensions st) \<noteq> [] then True
      else walk_fields (call_visitor rt) (Fields st) False)"

section \<open>Lemmas\<close>

text \<open>A visitor that sets its flag at the nodes where \<open>P\<close> holds, and stops descending there.\<close>

definition stop_visitor :: "(node \<Rightarrow> bool) \<Rightarrow> bool visitor" where
  "stop_visitor P n r = (if P n then (False, True) else (True, r))"

fun occurs :: "(node \<Rightarrow> bool) \<Rightarrow> expr \<Rightarrow> bool" where
  "occurs P e = (P (NExpr e) \<or> (case e of
       BinaryExpr op l r \<Rightarrow> occurs P l \<or> occurs P r
     | Call n args \<Rightarrow> list_ex (occurs P) args
     | ParenExpr x \<Rightarrow> occurs P x
     | CaseExpr val ws els \<Rightarrow>
         (case val of Some x \<Rightarrow> occurs P x | None \<Rightarrow> False) \<or>
         list_ex (\<lambda>(c, r). P (NWhen c r) \<or> occurs P c \<or> occurs P r) ws \<or>
         (case els of Some x \<Rightarrow> occurs P x | None \<Rightarrow> False)
     | Window wt len itv flt \<Rightarrow>
         P (NExpr (IntegerLiteral len)) \<or>
         (case itv of Some i \<Rightarrow> P (NExpr (IntegerLiteral i)) | None \<Rightarrow> False) \<or>
         (case flt of Some x \<Rightarrow> occurs P x | None \<Rightarrow> False)
     | _ \<Rightarrow> False))"

declare occurs.simps [simp del]

lemma fold_or:
  "(\<And>x r. x \<in> set xs \<Longrightarrow> f x r = (r \<or> P x)) \<Longrightarrow> fold f xs r = (r \<or> list_ex P xs)"
  by (induction xs arbitrary: r) auto

lemma size_in_args: "x \<in> set xs \<Longrightarrow> size x < Suc (size_list size xs)"
  by (simp add: size_list_estimation' less_Suc_eq_le)

lemma size_in_when:
  fixes ws :: "(expr \<times> expr) list"
  assumes "(c, r) \<in> set ws"
  shows "size c < size_list (size_prod size size) ws" "size r < size_list (size_prod size size) ws"
proof -
  have "Suc (size c + size r) \<le> size_list (size_prod size size) ws"
    by (rule size_list_estimation' [OF assms]) simp
  then show "size c < size_list (size_prod size size) ws" "size r < size_list (size_prod size size) ws"
    by simp_all
qed

lemma walk_stop_visitor: "walk_expr (stop_visitor P) e r = (r \<or> occurs P e)"
proof (induction e arbitrary: r rule: measure_induct_rule [of size])
  case (less e)
  note unf = walk_expr.simps [of _ e] occurs.simps [of P e]
  show ?case
  proof (cases "P (NExpr e)")
    case True
    then show ?thesis
      by (simp add: unf stop_visitor_def)
  next
    case False
    then have v: "stop_visitor P (NExpr e) r = (True, r)"
      by (simp add: stop_visitor_def)
    show ?thesis
    proof (cases e)
      case (Call n args)
      have "fold (walk_expr (stop_visitor P)) args r = (r \<or> list_ex (occurs P) args)"
        by (rule fold_or, rule less) (simp add: Call size_in_args less_SucI)
      then show ?thesis
        unfolding unf using v False by (simp add: Call)
    next
      case (CaseExpr val ws els)
      have ws: "fold (\<lambda>(c, r) t. case stop_visitor P (NWhen c r) t of (b1, t1) \<Rightarrow>
              if \<not> b1 then t1 else walk_expr (stop_visitor P) r (walk_expr (stop_visitor P) c t1)) ws x
            = (x \<or> list_ex (\<lambda>(c, r). P (NWhen c r) \<or> occurs P c \<or> occurs P r) ws)" for x
      proof (rule fold_or, clarify)
        fix c d t
        assume "(c, d) \<in> set ws"
        then have "size c < size e" "size d < size e"
          using size_in_when CaseExpr by (fastforce simp: less_SucI trans_less_add1 trans_less_add2)+
        then show "(case stop_visitor P (NWhen c d) t of (b1, t1) \<Rightarrow>
              if \<not> b1 then t1 else walk_expr (stop_visitor P) d (walk_expr (stop_visitor P) c t1)) =
            (t \<or> P (NWhen c d) \<or> occurs P c \<or> occurs P d)"
          by (simp add: less stop_visitor_def)
      qed
      have val: "(case val of Some x \<Rightarrow> walk_expr (stop_visitor P) x s | None \<Rightarrow> s) =
          (s \<or> (case val of Some x \<Rightarrow> occurs P x | None \<Rightarrow> False))" for s
        using less CaseExpr by (cases val) simp_all
      have els: "(case els of Some x \<Rightarrow> walk_expr (stop_visitor P) x s | None \<Rightarrow> s) =
          (s \<or> (case els of Some x \<Rightarrow> occurs P x | None \<Rightarrow> False))" for s
        using less CaseExpr by (cases els) simp_all
      show ?thesis
        unfolding unf using v False by (simp add: CaseExpr Let_def ws val els)
    next
      case (Window wt len itv flt)
      have flt: "(case flt of Some x \<Rightarrow> walk_expr (stop_visitor P) x s | None \<Rightarrow> s) =
          (s \<or> (case flt of Some x \<Rightarrow> occurs P x | None \<Rightarrow> False))" for s
        using less Window by (cases flt) simp_all
      show ?thesis
        unfolding unf using v False
        by (auto simp: Window Let_def flt stop_visitor_def split: option.splits)
    qed (unfold unf, use less v False in simp_all)
  qed
qed

text \<open>The aggregate analysis as occurrences, and the recursion of the source.\<close>

definition agg_node :: "(string \<Rightarrow> bool) \<Rightarrow> node \<Rightarrow> bool" where
  "agg_node rt n = (case n of
     NExpr (Call name args) \<Rightarrow> IsAggFunc rt name
   | NExpr (FieldRef sn name al) \<Rightarrow>
       sn = AliasStream \<and> (case al of Some a \<Rightarrow> IsAggregate rt (Expression a) | None \<Rightarrow> False)
   | _ \<Rightarrow> False)"

lemma agg_node_simps [simp]:
  "agg_node rt (NWhen c r) = False"
  "agg_node rt (NExpr e) = (case e of
     Call name args \<Rightarrow> IsAggFunc rt name
   | FieldRef sn name al \<Rightarrow>
       sn = AliasStream \<and> (case al of Some a \<Rightarrow> IsAggregate rt (Expression a) | None \<Rightarrow> False)
   | _ \<Rightarrow> False)"
  by (simp_all add: agg_node_def)

lemma agg_visitor_stop: "agg_visitor rt (IsAggregate rt) = stop_visitor (agg_node rt)"
  by (rule ext, rule ext)
    (auto simp: agg_visitor_def stop_visitor_def agg_node_def split: node.splits expr.splits)

lemma list_ex_cong': "(\<And>x. x \<in> set xs \<Longrightarrow> P x = Q x) \<Longrightarrow> list_ex P xs = list_ex Q xs"
  by (induction xs) auto

lemma IsAggregate_occurs: "IsAggregate rt e = occurs (agg_node rt) e"
proof (induction e rule: measure_induct_rule [of size])
  case (less e)
  note unf = occurs.simps [of _ e]
  show ?case
  proof (cases e)
    case (Call n args)
    have "list_ex (IsAggregate rt) args = list_ex (occurs (agg_node rt)) args"
      by (rule list_ex_cong', rule less) (simp add: Call size_in_args less_SucI)
    then show ?thesis unfolding unf by (simp add: Call)
  next
    case (FieldRef sn n al)
    then show ?thesis
      unfolding unf by (cases al) (auto split: AliasRef.splits)
  next
    case (CaseExpr val ws els)
    have "list_ex (\<lambda>(c, r). IsAggregate rt c \<or> IsAggregate rt r) ws =
        list_ex (\<lambda>(c, r). agg_node rt (NWhen c r) \<or> occurs (agg_node rt) c \<or> occurs (agg_node rt) r) ws"
    proof (rule list_ex_cong', clarify)
      fix c d
      assume "(c, d) \<in> set ws"
      then have "size c < size e" "size d < size e"
        using size_in_when CaseExpr by (fastforce simp: less_SucI trans_less_add1 trans_less_add2)+
      then show "(IsAggregate rt c \<or> IsAggregate rt d) =
          (agg_node rt (NWhen c d) \<or> occurs (agg_node rt) c \<or> occurs (agg_node rt) d)"
        by (simp add: less)
    qed
    then show ?thesis
      unfolding unf using less by (simp add: CaseExpr split: option.splits)
  qed (unfold unf, use less in \<open>simp_all split: option.splits\<close>)
qed

lemma IsAggregate_walk: "walk_expr (agg_visitor rt (IsAggregate rt)) e False = IsAggregate rt e"
  by (simp add: agg_visitor_stop walk_stop_visitor IsAggregate_occurs)

end
