(* ===== verification/Lexer.thy ===== *)
theory Lexer
  imports Strconv Ast
begin

text \<open>
  The scanner of \<^verbatim>\<open>internal/xsql/lexical.go\<close>. The \<^verbatim>\<open>bufio.Reader\<close> it reads from is the rest of the input and the
  character that \<^verbatim>\<open>UnreadRune\<close> would put back: none at the start, after a read that found the end, and after a put back, when
  \<^verbatim>\<open>UnreadRune\<close> fails and \<^verbatim>\<open>unread\<close> ignores the error. The input is a list of characters below 256, one rune each. The end of the
  input and the character 0 both read as \<open>eof_char\<close>.
\<close>

section \<open>The reader\<close>

record scanner =
  sc_rest :: string
  sc_last :: "char option"

definition NewScanner :: "string \<Rightarrow> scanner" where
  "NewScanner r = \<lparr>sc_rest = r, sc_last = None\<rparr>"

definition eof_char :: char where
  "eof_char = CHR 0x00"

definition read :: "scanner \<Rightarrow> char \<times> scanner" where
  "read s = (case sc_rest s of
     [] \<Rightarrow> (eof_char, s\<lparr>sc_last := None\<rparr>)
   | c # cs \<Rightarrow> (c, \<lparr>sc_rest = cs, sc_last = Some c\<rparr>))"

definition unread :: "scanner \<Rightarrow> scanner" where
  "unread s = (case sc_last s of None \<Rightarrow> s | Some c \<Rightarrow> \<lparr>sc_rest = c # sc_rest s, sc_last = None\<rparr>)"

definition isWhiteSpace :: "char \<Rightarrow> bool" where
  "isWhiteSpace r \<longleftrightarrow> r = CHR '' '' \<or> r = CHR 0x09 \<or> r = CHR 0x0D \<or> r = CHR 0x0A"

definition isLetter :: "char \<Rightarrow> bool" where
  "isLetter ch \<longleftrightarrow> (97 \<le> char_code ch \<and> char_code ch \<le> 122) \<or> (65 \<le> char_code ch \<and> char_code ch \<le> 90)"

definition isDigit :: "char \<Rightarrow> bool" where
  "isDigit ch \<longleftrightarrow> 48 \<le> char_code ch \<and> char_code ch \<le> 57"

definition isQuotation :: "char \<Rightarrow> bool" where
  "isQuotation ch \<longleftrightarrow> ch = CHR 0x22"

definition isBackquote :: "char \<Rightarrow> bool" where
  "isBackquote ch \<longleftrightarrow> ch = CHR 0x60"

definition is_ident_char :: "char \<Rightarrow> bool" where
  "is_ident_char ch \<longleftrightarrow> isLetter ch \<or> isDigit ch \<or> ch = CHR ''_''"

lemma read_shorter: "read s = (c, s') \<Longrightarrow> length (sc_rest s') \<le> length (sc_rest s)"
  by (auto simp: read_def split: list.splits)

lemma read_less: "(c, s') = read s \<Longrightarrow> c \<noteq> eof_char \<Longrightarrow> length (sc_rest s') < length (sc_rest s)"
  by (auto simp: read_def split: list.splits)

lemma eof_not_special [simp]:
  "\<not> isDigit eof_char" "\<not> isLetter eof_char" "\<not> isWhiteSpace eof_char" "\<not> isQuotation eof_char" "\<not> isBackquote eof_char"
  "\<not> is_ident_char eof_char" "CHR ''*'' \<noteq> eof_char" "CHR ''.'' \<noteq> eof_char"
  by (simp_all add: isDigit_def isLetter_def isWhiteSpace_def isQuotation_def isBackquote_def is_ident_char_def eof_char_def char_code_def)

lemma unread_read: "read s = (c, s') \<Longrightarrow> length (sc_rest (unread s')) \<le> length (sc_rest s)"
  by (auto simp: read_def unread_def split: list.splits)

section \<open>Loops over the reader\<close>

text \<open>\<open>scan_while\<close> is the loop of \<^verbatim>\<open>ScanIdent\<close> and \<^verbatim>\<open>ScanWhiteSpace\<close>: take characters while they belong to the class, leave the first that
  does not, and stop at the end.\<close>

function scan_while :: "(char \<Rightarrow> bool) \<Rightarrow> scanner \<Rightarrow> string \<times> scanner" where
  "scan_while P s = (case read s of (ch, s1) \<Rightarrow>
     if ch = eof_char then ([], s1)
     else if \<not> P ch then ([], unread s1)
     else (case scan_while P s1 of (buf, s2) \<Rightarrow> (ch # buf, s2)))"
  by pat_completeness auto
termination
  by (relation "measure (\<lambda>(P, s). length (sc_rest s))") (auto intro: read_less)

definition ScanWhiteSpace :: "scanner \<Rightarrow> (token \<times> string) \<times> scanner" where
  "ScanWhiteSpace s = (case scan_while isWhiteSpace s of (buf, s1) \<Rightarrow> ((T_WS, buf), s1))"

definition keywords_table :: "(string \<times> token) list" where
  "keywords_table =
   [(''SELECT'', T_SELECT), (''AS'', T_AS), (''FROM'', T_FROM), (''WHERE'', T_WHERE), (''AND'', T_AND), (''OR'', T_OR),
    (''GROUP'', T_GROUP), (''HAVING'', T_HAVING), (''ORDER'', T_ORDER), (''BY'', T_BY), (''DESC'', T_DESC), (''ASC'', T_ASC),
    (''FILTER'', T_FILTER), (''INNER'', T_INNER), (''LEFT'', T_LEFT), (''RIGHT'', T_RIGHT), (''FULL'', T_FULL),
    (''CROSS'', T_CROSS), (''JOIN'', T_JOIN), (''ON'', T_ON), (''CASE'', T_CASE), (''WHEN'', T_WHEN), (''THEN'', T_THEN),
    (''ELSE'', T_ELSE), (''END'', T_END), (''CREATE'', T_CREATE), (''DROP'', T_DROP), (''EXPLAIN'', T_EXPLAIN),
    (''DESCRIBE'', T_DESCRIBE), (''SHOW'', T_SHOW), (''STREAM'', T_STREAM), (''STREAMS'', T_STREAMS), (''TABLE'', T_TABLE),
    (''TABLES'', T_TABLES), (''WITH'', T_WITH), (''BIGINT'', T_XBIGINT), (''FLOAT'', T_XFLOAT), (''DATETIME'', T_XDATETIME),
    (''STRING'', T_XSTRING), (''BYTEA'', T_XBYTEA), (''BOOLEAN'', T_XBOOLEAN), (''ARRAY'', T_XARRAY), (''STRUCT'', T_XSTRUCT),
    (''DATASOURCE'', T_DATASOURCE), (''KEY'', T_KEY), (''FORMAT'', T_FORMAT), (''CONF_KEY'', T_CONF_KEY), (''TYPE'', T_TYPE),
    (''TRUE'', T_TRUE), (''FALSE'', T_FALSE), (''STRICT_VALIDATION'', T_STRICT_VALIDATION), (''TIMESTAMP'', T_TIMESTAMP),
    (''TIMESTAMP_FORMAT'', T_TIMESTAMP_FORMAT), (''RETAIN_SIZE'', T_RETAIN_SIZE), (''SHARED'', T_SHARED), (''DD'', T_DD),
    (''HH'', T_HH), (''MI'', T_MI), (''SS'', T_SS), (''MS'', T_MS)]"

definition ident_token :: "string \<Rightarrow> token \<times> string" where
  "ident_token buf = (case map_of keywords_table (to_upper buf) of
     Some tok \<Rightarrow> (tok, to_upper buf)
   | None \<Rightarrow> (T_IDENT, buf))"

definition ScanIdent :: "scanner \<Rightarrow> (token \<times> string) \<times> scanner" where
  "ScanIdent s = (case read s of (c, s1) \<Rightarrow> case scan_while is_ident_char s1 of (buf, s2) \<Rightarrow> (ident_token (c # buf), s2))"

text \<open>The loop of \<^verbatim>\<open>ScanString\<close>: \<open>None\<close> is an unterminated string.\<close>

function string_loop :: "bool \<Rightarrow> scanner \<Rightarrow> bool \<times> string \<times> scanner" where
  "string_loop escape s = (case read s of (ch, s1) \<Rightarrow>
     if ch = CHR 0x22 \<and> \<not> escape then (True, [ch], s1)
     else if ch = eof_char then (False, [], s1)
     else (case string_loop (ch = CHR 0x5C \<and> \<not> escape) s1 of (ok, buf, s2) \<Rightarrow> (ok, ch # buf, s2)))"
  by pat_completeness auto
termination
  by (relation "measure (\<lambda>(e, s). length (sc_rest s))") (auto intro: read_less)

definition ScanString :: "scanner \<Rightarrow> (token \<times> string) \<times> scanner" where
  "ScanString s = (case read s of (c, s1) \<Rightarrow> case string_loop False s1 of (ok, buf, s2) \<Rightarrow>
     if ok then ((T_STRING, (case Unquote (c # buf) of Some r \<Rightarrow> r | None \<Rightarrow> [])), s2)
     else ((T_BADSTRING, c # buf), s2))"

function digit_loop :: "scanner \<Rightarrow> string \<times> scanner" where
  "digit_loop s = (case read s of (ch, s1) \<Rightarrow>
     if isDigit ch then (case digit_loop s1 of (buf, s2) \<Rightarrow> (ch # buf, s2)) else ([], unread s1))"
  by pat_completeness auto
termination
  by (relation "measure (\<lambda>s. length (sc_rest s))") (auto intro!: read_less)

definition ScanDigit :: "scanner \<Rightarrow> (token \<times> string) \<times> scanner" where
  "ScanDigit s = (case read s of (c, s1) \<Rightarrow> case digit_loop s1 of (buf, s2) \<Rightarrow> ((T_INTEGER, c # buf), s2))"

text \<open>The loop of \<^verbatim>\<open>ScanNumber\<close>; the flag is \<^verbatim>\<open>isNum\<close>.\<close>

function number_loop :: "scanner \<Rightarrow> bool \<times> string \<times> scanner" where
  "number_loop s = (case read s of (ch, s1) \<Rightarrow>
     if isDigit ch then (case number_loop s1 of (isNum, buf, s2) \<Rightarrow> (isNum, ch # buf, s2))
     else if ch = CHR ''.'' then (case number_loop s1 of (isNum, buf, s2) \<Rightarrow> (True, ch # buf, s2))
     else (False, [], unread s1))"
  by pat_completeness auto
termination
  by (relation "measure (\<lambda>s. length (sc_rest s))") (auto intro!: read_less)

definition ScanNumber :: "bool \<Rightarrow> bool \<Rightarrow> scanner \<Rightarrow> (token \<times> string) \<times> scanner" where
  "ScanNumber startWithDot isNeg s = (case read s of (c, s1) \<Rightarrow> case number_loop s1 of (isNum, buf, s2) \<Rightarrow>
     ((if isNum \<or> startWithDot then T_NUMBER else T_INTEGER,
       (if isNeg then ''-'' else []) @ (if startWithDot then ''.'' else []) @ c # buf), s2))"

function backquote_loop :: "scanner \<Rightarrow> string \<times> scanner" where
  "backquote_loop s = (case read s of (ch, s1) \<Rightarrow>
     if isBackquote ch \<or> ch = eof_char then ([], s1)
     else (case backquote_loop s1 of (buf, s2) \<Rightarrow> (ch # buf, s2)))"
  by pat_completeness auto
termination
  by (relation "measure (\<lambda>s. length (sc_rest s))") (auto intro: read_less)

definition ScanBackquoteIdent :: "scanner \<Rightarrow> (token \<times> string) \<times> scanner" where
  "ScanBackquoteIdent s = (case backquote_loop s of (buf, s1) \<Rightarrow> ((T_IDENT, buf), s1))"

function skipUntilNewline :: "scanner \<Rightarrow> scanner" where
  "skipUntilNewline s = (case read s of (ch, s1) \<Rightarrow>
     if ch = CHR 0x0A \<or> ch = eof_char then s1 else skipUntilNewline s1)"
  by pat_completeness auto
termination
  by (relation "measure (\<lambda>s. length (sc_rest s))") (auto intro: read_less)

text \<open>\<^verbatim>\<open>skipUntilEndComment\<close>: the flag says that the last character was a star; the result says whether the end was found.\<close>

function skipUntilEndComment :: "bool \<Rightarrow> scanner \<Rightarrow> bool \<times> scanner" where
  "skipUntilEndComment star s = (case read s of (ch, s1) \<Rightarrow>
     if ch = CHR ''*'' then skipUntilEndComment True s1
     else if star \<and> ch = CHR ''/'' then (True, s1)
     else if ch = eof_char then (False, s1)
     else skipUntilEndComment False s1)"
  by pat_completeness auto
termination
  by (relation "measure (\<lambda>(b, s). length (sc_rest s))") (auto intro!: read_less)

declare scan_while.simps [simp del] string_loop.simps [simp del] digit_loop.simps [simp del] number_loop.simps [simp del]
  backquote_loop.simps [simp del] skipUntilNewline.simps [simp del] skipUntilEndComment.simps [simp del]

section \<open>Scan\<close>

text \<open>The operators that may have a second character: whitespace is skipped before it.\<close>

definition scan_second :: "scanner \<Rightarrow> char \<times> scanner" where
  "scan_second s = read (snd (ScanWhiteSpace s))"

definition simple_table :: "(char \<times> token) list" where
  "simple_table =
   [(CHR ''='', T_EQ), (CHR ''+'', T_ADD), (CHR 0x25, T_MOD), (CHR 0x26, T_BITWISE_AND), (CHR ''|'', T_BITWISE_OR),
    (CHR 0x5E, T_BITWISE_XOR), (CHR ''*'', T_ASTERISK), (CHR '','', T_COMMA), (CHR ''('', T_LPAREN), (CHR '')'', T_RPAREN),
    (CHR ''['', T_LBRACKET), (CHR '']'', T_RBRACKET), (CHR '':'', T_COLON), (CHR ''#'', T_HASH), (CHR '';'', T_SEMICOLON)]"

definition tok_pair :: "token \<Rightarrow> token \<times> string" where
  "tok_pair t = (t, tok_String t)"

definition Scan :: "scanner \<Rightarrow> (token \<times> string) \<times> scanner" where
  "Scan s = (case read s of (ch, s1) \<Rightarrow>
     if isWhiteSpace ch then ScanWhiteSpace s1
     else if isLetter ch then ScanIdent (unread s1)
     else if isQuotation ch then ScanString (unread s1)
     else if isDigit ch then ScanNumber False False (unread s1)
     else if isBackquote ch then ScanBackquoteIdent s1
     else if ch = eof_char then (tok_pair T_EOF, s1)
     else if ch = CHR ''!'' then
       (case scan_second s1 of (r, s2) \<Rightarrow> if r = CHR ''='' then (tok_pair T_NEQ, s2) else (tok_pair T_EQ, unread s2))
     else if ch = CHR ''<'' then
       (case scan_second s1 of (r, s2) \<Rightarrow> if r = CHR ''='' then (tok_pair T_LTE, s2) else (tok_pair T_LT, unread s2))
     else if ch = CHR ''>'' then
       (case scan_second s1 of (r, s2) \<Rightarrow> if r = CHR ''='' then (tok_pair T_GTE, s2) else (tok_pair T_GT, unread s2))
     else if ch = CHR ''-'' then
       (case scan_second s1 of (r, s2) \<Rightarrow>
          if r = CHR ''-'' then ((T_COMMENT, []), skipUntilNewline s2)
          else if r = CHR ''>'' then (tok_pair T_ARROW, s2)
          else if r = CHR ''.'' then
            (case scan_second s2 of (r1, s3) \<Rightarrow>
               if isDigit r1 then ScanNumber True True (unread s3) else (tok_pair T_SUB, unread (unread s3)))
          else (tok_pair T_SUB, unread s2))
     else if ch = CHR ''/'' then
       (case scan_second s1 of (r, s2) \<Rightarrow>
          if r = CHR ''*'' then
            (case skipUntilEndComment False s2 of (ok, s3) \<Rightarrow> ((if ok then T_COMMENT else T_ILLEGAL, []), s3))
          else (tok_pair T_DIV, unread s2))
     else if ch = CHR ''.'' then
       (case read s1 of (r, s2) \<Rightarrow> if isDigit r then ScanNumber True False (unread s2) else (tok_pair T_DOT, unread s2))
     else (case map_of simple_table ch of Some t \<Rightarrow> (tok_pair t, s1) | None \<Rightarrow> ((T_ILLEGAL, []), s1)))"

lemmas scan_class = isWhiteSpace_def isLetter_def isQuotation_def isDigit_def isBackquote_def eof_char_def char_code_def

text \<open>\<open>Scan\<close> on the first character, for the operators with more than one.\<close>

lemma op_class [simp]:
  "c \<in> {CHR ''!'', CHR ''<'', CHR ''>'', CHR ''-'', CHR ''/'', CHR ''.''} \<Longrightarrow>
   \<not> isWhiteSpace c \<and> \<not> isLetter c \<and> \<not> isQuotation c \<and> \<not> isDigit c \<and> \<not> isBackquote c \<and> c \<noteq> eof_char"
  by (auto simp: scan_class)

lemma Scan_bang: "read s = (CHR ''!'', s1) \<Longrightarrow> Scan s =
   (case scan_second s1 of (r, s2) \<Rightarrow> if r = CHR ''='' then (tok_pair T_NEQ, s2) else (tok_pair T_EQ, unread s2))"
  using op_class [of "CHR ''!''"] by (simp add: Scan_def)

lemma Scan_less: "read s = (CHR ''<'', s1) \<Longrightarrow> Scan s =
   (case scan_second s1 of (r, s2) \<Rightarrow> if r = CHR ''='' then (tok_pair T_LTE, s2) else (tok_pair T_LT, unread s2))"
  using op_class [of "CHR ''<''"] by (simp add: Scan_def)

lemma Scan_greater: "read s = (CHR ''>'', s1) \<Longrightarrow> Scan s =
   (case scan_second s1 of (r, s2) \<Rightarrow> if r = CHR ''='' then (tok_pair T_GTE, s2) else (tok_pair T_GT, unread s2))"
  using op_class [of "CHR ''>''"] by (simp add: Scan_def)

lemma Scan_minus: "read s = (CHR ''-'', s1) \<Longrightarrow> Scan s =
   (case scan_second s1 of (r, s2) \<Rightarrow>
      if r = CHR ''-'' then ((T_COMMENT, []), skipUntilNewline s2)
      else if r = CHR ''>'' then (tok_pair T_ARROW, s2)
      else if r = CHR ''.'' then
        (case scan_second s2 of (r1, s3) \<Rightarrow>
           if isDigit r1 then ScanNumber True True (unread s3) else (tok_pair T_SUB, unread (unread s3)))
      else (tok_pair T_SUB, unread s2))"
  using op_class [of "CHR ''-''"] by (simp add: Scan_def)

lemma Scan_slash: "read s = (CHR ''/'', s1) \<Longrightarrow> Scan s =
   (case scan_second s1 of (r, s2) \<Rightarrow>
      if r = CHR ''*'' then
        (case skipUntilEndComment False s2 of (ok, s3) \<Rightarrow> ((if ok then T_COMMENT else T_ILLEGAL, []), s3))
      else (tok_pair T_DIV, unread s2))"
  using op_class [of "CHR ''/''"] by (simp add: Scan_def)

lemma Scan_dot: "read s = (CHR ''.'', s1) \<Longrightarrow> Scan s =
   (case read s1 of (r, s2) \<Rightarrow> if isDigit r then ScanNumber True False (unread s2) else (tok_pair T_DOT, unread s2))"
  using op_class [of "CHR ''.''"] by (simp add: Scan_def)

lemmas Scan_ops = Scan_bang Scan_less Scan_greater Scan_minus Scan_slash Scan_dot

section \<open>Progress\<close>

lemma read_Nil: "sc_rest s = [] \<Longrightarrow> read s = (eof_char, \<lparr>sc_rest = [], sc_last = None\<rparr>)"
  by (cases s) (simp add: read_def)

lemma read_Cons: "sc_rest s = c # cs \<Longrightarrow> read s = (c, \<lparr>sc_rest = cs, sc_last = Some c\<rparr>)"
  by (simp add: read_def)

lemma unread_Some [simp]: "unread \<lparr>sc_rest = cs, sc_last = Some c\<rparr> = \<lparr>sc_rest = c # cs, sc_last = None\<rparr>"
  and unread_None [simp]: "unread \<lparr>sc_rest = cs, sc_last = None\<rparr> = \<lparr>sc_rest = cs, sc_last = None\<rparr>"
  by (simp_all add: unread_def)

lemma read_pair: "length (sc_rest (snd (read s))) \<le> length (sc_rest s)"
  by (cases "read s") (auto dest: read_shorter)

text \<open>No operation lengthens the rest; \<open>unread\<close> after a read restores it at most.\<close>

lemma scan_while_le: "scan_while P s = (buf, s') \<Longrightarrow> length (sc_rest s') \<le> length (sc_rest s)"
proof (induction P s arbitrary: buf s' rule: scan_while.induct)
  case (1 P s)
  obtain c s1 where r: "read s = (c, s1)"
    by (cases "read s")
  then show ?case
    using 1(1) 1(2) [unfolded scan_while.simps [of P s]] read_shorter [OF r] unread_read [OF r]
    by (fastforce split: if_splits prod.splits)
qed

lemma string_loop_le: "string_loop e s = (ok, buf, s') \<Longrightarrow> length (sc_rest s') \<le> length (sc_rest s)"
proof (induction e s arbitrary: ok buf s' rule: string_loop.induct)
  case (1 e s)
  obtain c s1 where r: "read s = (c, s1)"
    by (cases "read s")
  then show ?case
    using 1(1) 1(2) [unfolded string_loop.simps [of e s]] read_shorter [OF r]
    by (fastforce split: if_splits prod.splits)
qed

lemma number_loop_le: "number_loop s = (n, buf, s') \<Longrightarrow> length (sc_rest s') \<le> length (sc_rest s)"
proof (induction s arbitrary: n buf s' rule: number_loop.induct)
  case (1 s)
  obtain c s1 where r: "read s = (c, s1)"
    by (cases "read s")
  then show ?case
    using 1(1,2) 1(3) [unfolded number_loop.simps [of s]] read_shorter [OF r] unread_read [OF r]
    by (fastforce split: if_splits prod.splits)
qed

lemma backquote_loop_le: "backquote_loop s = (buf, s') \<Longrightarrow> length (sc_rest s') \<le> length (sc_rest s)"
proof (induction s arbitrary: buf s' rule: backquote_loop.induct)
  case (1 s)
  obtain c s1 where r: "read s = (c, s1)"
    by (cases "read s")
  then show ?case
    using 1(1) 1(2) [unfolded backquote_loop.simps [of s]] read_shorter [OF r]
    by (fastforce split: if_splits prod.splits)
qed

lemma skipUntilNewline_le: "length (sc_rest (skipUntilNewline s)) \<le> length (sc_rest s)"
proof (induction s rule: skipUntilNewline.induct)
  case (1 s)
  obtain c s1 where r: "read s = (c, s1)"
    by (cases "read s")
  then show ?case
    using 1 read_shorter [OF r] by (subst skipUntilNewline.simps) (fastforce split: if_splits)
qed

lemma skipUntilEndComment_le: "skipUntilEndComment b s = (ok, s') \<Longrightarrow> length (sc_rest s') \<le> length (sc_rest s)"
proof (induction b s arbitrary: ok s' rule: skipUntilEndComment.induct)
  case (1 b s)
  obtain c s1 where r: "read s = (c, s1)"
    by (cases "read s")
  then show ?case
    using 1(1,2) 1(3) [unfolded skipUntilEndComment.simps [of b s]] read_shorter [OF r]
    by (fastforce split: if_splits)
qed

lemma ScanWhiteSpace_le: "ScanWhiteSpace s = (t, s') \<Longrightarrow> length (sc_rest s') \<le> length (sc_rest s)"
  by (auto simp: ScanWhiteSpace_def split: prod.splits dest: scan_while_le)

lemma scan_second_le:
  assumes "scan_second s = (r, s')"
  shows "length (sc_rest s') \<le> length (sc_rest s) \<and> length (sc_rest (unread s')) \<le> length (sc_rest s)"
proof -
  obtain t s1 where w: "ScanWhiteSpace s = (t, s1)"
    by (cases "ScanWhiteSpace s")
  then show ?thesis
    using assms ScanWhiteSpace_le [OF w] read_shorter [of s1 r s'] unread_read [of s1 r s']
    by (simp add: scan_second_def)
qed

lemma ScanNumber_le: "ScanNumber d n s = (t, s') \<Longrightarrow> length (sc_rest s') \<le> length (sc_rest (snd (read s)))"
  by (auto simp: ScanNumber_def split: prod.splits dest: number_loop_le)

lemma ScanNumber_weak: "ScanNumber d n s = (t, s') \<Longrightarrow> length (sc_rest s') \<le> length (sc_rest s)"
  using ScanNumber_le read_pair order_trans by metis

lemma unread_unread_le: "length (sc_rest (unread (unread s))) \<le> length (sc_rest (unread s))"
  by (cases "sc_last s") (simp_all add: unread_def)

lemmas scan_le = scan_while_le string_loop_le number_loop_le backquote_loop_le skipUntilEndComment_le ScanWhiteSpace_le ScanNumber_le

lemma Scan_end: "sc_rest s = [] \<Longrightarrow> Scan s = (tok_pair T_EOF, \<lparr>sc_rest = [], sc_last = None\<rparr>)"
  by (simp add: Scan_def read_Nil)

lemma Scan_shorter:
  assumes "Scan s = (t, s')" "sc_rest s \<noteq> []"
  shows "length (sc_rest s') < length (sc_rest s)"
proof -
  obtain c cs where s: "sc_rest s = c # cs"
    using assms(2) by (cases "sc_rest s") auto
  let ?s1 = "\<lparr>sc_rest = cs, sc_last = Some c\<rparr>"
  have r: "read s = (c, ?s1)" "read (unread ?s1) = (c, ?s1)"
    by (simp_all add: s read_Cons)
  consider "c \<in> {CHR ''!'', CHR ''<'', CHR ''>''}" | "c = CHR ''-''" | "c = CHR ''/''" | "c = CHR ''.''"
    | "c \<notin> {CHR ''!'', CHR ''<'', CHR ''>'', CHR ''-'', CHR ''/'', CHR ''.''}"
    by blast
  then have "length (sc_rest s') \<le> length cs"
  proof cases
    case 1
    then show ?thesis
      using assms(1) r by (auto simp: Scan_ops split: if_splits prod.splits dest!: scan_second_le)
  next
    case 2
    obtain x s2 where s2: "scan_second ?s1 = (x, s2)"
      by (cases "scan_second ?s1")
    obtain y s3 where s3: "scan_second s2 = (y, s3)"
      by (cases "scan_second s2")
    have "length (sc_rest s') \<le> length (sc_rest s2) \<or> s' = unread s2"
      using assms(1) Scan_minus [OF r(1) [unfolded 2]] 2 s2 s3 scan_second_le [OF s3] skipUntilNewline_le [of s2]
        unread_unread_le [of s3] ScanNumber_weak [of True True "unread s3" t s']
      by (auto split: if_splits)
    then show ?thesis
      using scan_second_le [OF s2] by auto
  next
    case 3
    then show ?thesis
      using assms(1) r
      by (auto simp: Scan_ops split: if_splits prod.splits dest!: scan_second_le skipUntilEndComment_le)
  next
    case 4
    obtain x s2 where s2: "read ?s1 = (x, s2)"
      by (cases "read ?s1")
    then have "length (sc_rest (unread s2)) \<le> length cs"
      using unread_read [OF s2] by simp
    then show ?thesis
      using assms(1) r 4 s2 ScanNumber_weak [of True False "unread s2" t s'] by (auto simp: Scan_ops split: if_splits)
  next
    case 5
    then show ?thesis
      using assms(1) r
      by (auto simp: Scan_def ScanIdent_def ScanString_def ScanNumber_def ScanBackquoteIdent_def
          split: if_splits prod.splits option.splits dest!: scan_le)
  qed
  then show ?thesis
    by (simp add: s)
qed

section \<open>Exact results\<close>

lemma scan_while_exact:
  assumes "sc_rest s = w @ r" "list_all (\<lambda>c. P c \<and> c \<noteq> eof_char) w" "r = [] \<or> \<not> P (hd r) \<and> hd r \<noteq> eof_char"
  shows "scan_while P s = (w, \<lparr>sc_rest = r, sc_last = None\<rparr>)"
  using assms
proof (induction w arbitrary: s)
  case Nil
  then show ?case
    by (cases r) (auto simp: scan_while.simps [of P s] read_Nil read_Cons)
next
  case (Cons c w)
  then show ?case
    using Cons.IH [of "\<lparr>sc_rest = w @ r, sc_last = Some c\<rparr>"] by (simp add: scan_while.simps [of P s] read_Cons)
qed

lemma number_loop_exact:
  assumes "sc_rest s = w @ r" "list_all isDigit w" "r = [] \<or> \<not> isDigit (hd r) \<and> hd r \<noteq> CHR ''.''"
  shows "number_loop s = (False, w, \<lparr>sc_rest = r, sc_last = None\<rparr>)"
  using assms
proof (induction w arbitrary: s)
  case Nil
  then show ?case
    by (cases r) (auto simp: number_loop.simps [of s] read_Nil read_Cons dest: sym)
next
  case (Cons c w)
  then show ?case
    using Cons.IH [of "\<lparr>sc_rest = w @ r, sc_last = Some c\<rparr>"] by (simp add: number_loop.simps [of s] read_Cons)
qed

lemma scan_second_exact:
  assumes "sc_rest s = w @ c # r" "list_all isWhiteSpace w" "\<not> isWhiteSpace c" "c \<noteq> eof_char"
  shows "scan_second s = (c, \<lparr>sc_rest = r, sc_last = Some c\<rparr>)"
proof -
  have "list_all (\<lambda>c. isWhiteSpace c \<and> c \<noteq> eof_char) w"
    using assms(2) by (auto simp: list_all_iff)
  then have "scan_while isWhiteSpace s = (w, \<lparr>sc_rest = c # r, sc_last = None\<rparr>)"
    using assms by (intro scan_while_exact) auto
  then show ?thesis
    by (simp add: scan_second_def ScanWhiteSpace_def read_Cons)
qed

lemma scan_second_end:
  assumes "list_all isWhiteSpace (sc_rest s)"
  shows "scan_second s = (eof_char, \<lparr>sc_rest = [], sc_last = None\<rparr>)"
proof -
  have "list_all (\<lambda>c. isWhiteSpace c \<and> c \<noteq> eof_char) (sc_rest s)"
    using assms by (auto simp: list_all_iff)
  then have "scan_while isWhiteSpace s = (sc_rest s, \<lparr>sc_rest = [], sc_last = None\<rparr>)"
    using assms by (intro scan_while_exact) auto
  then show ?thesis
    by (simp add: scan_second_def ScanWhiteSpace_def read_Nil)
qed

lemma Scan_white:
  assumes "sc_rest s = c # w @ r" "isWhiteSpace c" "list_all isWhiteSpace w" "r = [] \<or> \<not> isWhiteSpace (hd r) \<and> hd r \<noteq> eof_char"
  shows "Scan s = ((T_WS, w), \<lparr>sc_rest = r, sc_last = None\<rparr>)"
proof -
  have "list_all (\<lambda>c. isWhiteSpace c \<and> c \<noteq> eof_char) w"
    using assms(3) by (auto simp: list_all_iff)
  then have "scan_while isWhiteSpace \<lparr>sc_rest = w @ r, sc_last = Some c\<rparr> = (w, \<lparr>sc_rest = r, sc_last = None\<rparr>)"
    using assms by (intro scan_while_exact) auto
  then show ?thesis
    using assms by (simp add: Scan_def ScanWhiteSpace_def read_Cons)
qed

lemma letter_class: "isLetter c \<Longrightarrow> \<not> isWhiteSpace c \<and> c \<noteq> eof_char"
  by (auto simp: scan_class)

lemma digit_class: "isDigit c \<Longrightarrow> \<not> isWhiteSpace c \<and> \<not> isLetter c \<and> \<not> isQuotation c \<and> c \<noteq> eof_char"
  by (auto simp: scan_class)

lemma Scan_ident:
  assumes "sc_rest s = c # w @ r" "isLetter c" "list_all is_ident_char w" "r = [] \<or> \<not> is_ident_char (hd r) \<and> hd r \<noteq> eof_char"
  shows "Scan s = (ident_token (c # w), \<lparr>sc_rest = r, sc_last = None\<rparr>)"
proof -
  have "list_all (\<lambda>c. is_ident_char c \<and> c \<noteq> eof_char) w"
    using assms(3) by (auto simp: list_all_iff)
  then have "scan_while is_ident_char \<lparr>sc_rest = w @ r, sc_last = Some c\<rparr> = (w, \<lparr>sc_rest = r, sc_last = None\<rparr>)"
    using assms by (intro scan_while_exact) auto
  then show ?thesis
    using assms letter_class by (simp add: Scan_def ScanIdent_def read_Cons)
qed

lemma Scan_integer:
  assumes "sc_rest s = c # w @ r" "isDigit c" "list_all isDigit w" "r = [] \<or> \<not> isDigit (hd r) \<and> hd r \<noteq> CHR ''.''"
  shows "Scan s = ((T_INTEGER, c # w), \<lparr>sc_rest = r, sc_last = None\<rparr>)"
proof -
  have "number_loop \<lparr>sc_rest = w @ r, sc_last = Some c\<rparr> = (False, w, \<lparr>sc_rest = r, sc_last = None\<rparr>)"
    using assms by (intro number_loop_exact) auto
  then show ?thesis
    using assms digit_class by (simp add: Scan_def ScanNumber_def read_Cons)
qed

lemma Scan_simple:
  assumes "sc_rest s = c # r" "map_of simple_table c = Some t"
  shows "Scan s = (tok_pair t, \<lparr>sc_rest = r, sc_last = Some c\<rparr>)"
proof -
  have "c \<in> fst ` set simple_table"
    using assms(2) by (metis domI dom_map_of_conv_image_fst)
  then have "\<not> isWhiteSpace c \<and> \<not> isLetter c \<and> \<not> isQuotation c \<and> \<not> isDigit c \<and> \<not> isBackquote c \<and> c \<noteq> eof_char
      \<and> c \<notin> {CHR ''!'', CHR ''<'', CHR ''>'', CHR ''-'', CHR ''/'', CHR ''.''}"
    by (auto simp: simple_table_def scan_class)
  then show ?thesis
    using assms by (simp add: Scan_def read_Cons)
qed

section \<open>String literals\<close>

text \<open>The text of a string literal: quotes and backslashes are escaped.\<close>

definition esc_char :: "char \<Rightarrow> string" where
  "esc_char c = (if c = CHR 0x22 \<or> c = CHR 0x5C then [CHR 0x5C, c] else [c])"

definition quote :: "string \<Rightarrow> string" where
  "quote s = CHR 0x22 # concat (map esc_char s) @ [CHR 0x22]"

definition printable :: "char \<Rightarrow> bool" where
  "printable c \<longleftrightarrow> c \<noteq> eof_char \<and> c \<noteq> CHR 0x0A"

lemma string_loop_quote:
  assumes "sc_rest s = concat (map esc_char t) @ CHR 0x22 # r" "list_all printable t"
  shows "string_loop False s = (True, concat (map esc_char t) @ [CHR 0x22], \<lparr>sc_rest = r, sc_last = Some CHR 0x22\<rparr>)"
  using assms
proof (induction t arbitrary: s)
  case Nil
  then show ?case
    by (simp add: string_loop.simps [of False s] read_Cons)
next
  case (Cons c t)
  let ?rest = "concat (map esc_char t) @ CHR 0x22 # r"
  have IH: "string_loop False \<lparr>sc_rest = ?rest, sc_last = Some c\<rparr>
      = (True, concat (map esc_char t) @ [CHR 0x22], \<lparr>sc_rest = r, sc_last = Some CHR 0x22\<rparr>)"
    using Cons by simp
  show ?case
  proof (cases "c = CHR 0x22 \<or> c = CHR 0x5C")
    case True
    then have "string_loop True \<lparr>sc_rest = c # ?rest, sc_last = Some CHR 0x5C\<rparr>
        = (True, c # concat (map esc_char t) @ [CHR 0x22], \<lparr>sc_rest = r, sc_last = Some CHR 0x22\<rparr>)"
      using IH by (subst string_loop.simps) (auto simp: read_Cons eof_char_def)
    then show ?thesis
      using True Cons.prems(1) by (subst string_loop.simps) (auto simp: esc_char_def [of c] read_Cons eof_char_def)
  next
    case False
    then show ?thesis
      using IH Cons.prems by (subst string_loop.simps) (auto simp: esc_char_def [of c] read_Cons printable_def)
  qed
qed

lemma unquote_body_quote: "list_all printable t \<Longrightarrow> unquote_body (concat (map esc_char t) @ [CHR 0x22]) = Some t"
proof (induction t)
  case Nil
  then show ?case
    by (simp add: unquote_body.simps)
next
  case (Cons c t)
  show ?case
  proof (cases "c = CHR 0x22 \<or> c = CHR 0x5C")
    case True
    then have "unescape (c # concat (map esc_char t) @ [CHR 0x22]) = Some ([c], concat (map esc_char t) @ [CHR 0x22])"
      by (auto simp: unescape_def)
    then show ?thesis
      using True Cons by (subst unquote_body.simps) (auto simp: esc_char_def [of c])
  next
    case False
    then show ?thesis
      using Cons by (subst unquote_body.simps) (auto simp: esc_char_def [of c] printable_def)
  qed
qed

lemma Scan_quote:
  assumes "sc_rest s = quote t @ r" "list_all printable t"
  shows "Scan s = ((T_STRING, t), \<lparr>sc_rest = r, sc_last = Some CHR 0x22\<rparr>)"
proof -
  have "string_loop False \<lparr>sc_rest = concat (map esc_char t) @ CHR 0x22 # r, sc_last = Some CHR 0x22\<rparr>
      = (True, concat (map esc_char t) @ [CHR 0x22], \<lparr>sc_rest = r, sc_last = Some CHR 0x22\<rparr>)"
    using assms(2) by (intro string_loop_quote) auto
  moreover have "Unquote (CHR 0x22 # concat (map esc_char t) @ [CHR 0x22]) = Some t"
    using unquote_body_quote [OF assms(2)] by (simp add: Unquote_def)
  moreover have "\<not> isWhiteSpace CHR 0x22" "\<not> isLetter CHR 0x22" "isQuotation CHR 0x22"
    by (simp_all add: scan_class)
  ultimately show ?thesis
    using assms(1) by (simp add: Scan_def ScanString_def read_Cons quote_def)
qed

section \<open>Token streams\<close>

text \<open>The tokens of an input, without whitespace and comments.\<close>

function lex :: "scanner \<Rightarrow> (token \<times> string) list" where
  "lex s = (if sc_rest s = [] then []
            else case Scan s of (t, s1) \<Rightarrow> if fst t = T_WS \<or> fst t = T_COMMENT then lex s1 else t # lex s1)"
  by pat_completeness auto
termination
  by (relation "measure (\<lambda>s. length (sc_rest s))") (auto intro: Scan_shorter dest: sym)

declare lex.simps [simp del]

definition print_token :: "token \<times> string \<Rightarrow> string" where
  "print_token t = (if fst t = T_STRING then quote (snd t) else snd t)"

definition print_tokens :: "(token \<times> string) list \<Rightarrow> string" where
  "print_tokens ts = concat (map (\<lambda>t. print_token t @ '' '') ts)"

definition is_ident :: "string \<Rightarrow> bool" where
  "is_ident lit = (case lit of c # w \<Rightarrow> isLetter c \<and> list_all is_ident_char w | [] \<Rightarrow> False)"

definition prefix_ops :: "token list" where
  "prefix_ops = [T_LT, T_GT, T_SUB, T_DIV]"

definition closed_ops :: "token list" where
  "closed_ops = [T_NEQ, T_LTE, T_GTE, T_ARROW, T_DOT]"

text \<open>The tokens a printer may produce, with the literal the scanner gives them.\<close>

definition valid_token :: "token \<times> string \<Rightarrow> bool" where
  "valid_token t = (case t of (tok, lit) \<Rightarrow>
     (tok = T_IDENT \<and> is_ident lit \<and> map_of keywords_table (to_upper lit) = None)
     \<or> map_of keywords_table lit = Some tok
     \<or> (tok = T_INTEGER \<and> lit \<noteq> [] \<and> list_all isDigit lit)
     \<or> (tok = T_STRING \<and> list_all printable lit)
     \<or> (lit = tok_String tok \<and> tok \<in> snd ` set simple_table)
     \<or> (lit = tok_String tok \<and> tok \<in> set prefix_ops)
     \<or> (lit = tok_String tok \<and> tok \<in> set closed_ops))"

text \<open>The scanner skips whitespace inside an operator, so some pairs of tokens read as one however they are spaced.\<close>

definition separable :: "token \<times> string \<Rightarrow> token \<times> string \<Rightarrow> bool" where
  "separable t u = (let c = hd (print_token u) in
     \<not> (fst t \<in> {T_LT, T_GT} \<and> c = CHR ''='') \<and>
     \<not> (fst t = T_SUB \<and> c \<in> {CHR ''-'', CHR ''>'', CHR ''.''}) \<and>
     \<not> (fst t = T_DIV \<and> c = CHR ''*''))"

lemma keywords_facts: "list_all (\<lambda>(k, t). is_ident k \<and> to_upper k = k \<and> t \<noteq> T_STRING \<and> t \<noteq> T_WS \<and> t \<noteq> T_COMMENT) keywords_table"
  by code_simp

lemma simple_facts:
  "list_all (\<lambda>(c, t). tok_String t = [c] \<and> map_of simple_table c = Some t \<and> \<not> isWhiteSpace c \<and> c \<noteq> eof_char \<and> t \<noteq> T_STRING
     \<and> t \<noteq> T_WS \<and> t \<noteq> T_COMMENT) simple_table"
  by code_simp

lemma keyword_ident: "map_of keywords_table k = Some t \<Longrightarrow> is_ident k \<and> to_upper k = k \<and> t \<noteq> T_STRING \<and> t \<noteq> T_WS \<and> t \<noteq> T_COMMENT"
  using keywords_facts by (force simp: list_all_iff dest: map_of_SomeD)

lemma simple_text:
  "t \<in> snd ` set simple_table \<Longrightarrow> \<exists>c. tok_String t = [c] \<and> map_of simple_table c = Some t \<and> \<not> isWhiteSpace c \<and> c \<noteq> eof_char
     \<and> t \<noteq> T_STRING \<and> t \<noteq> T_WS \<and> t \<noteq> T_COMMENT"
  using simple_facts by (force simp: list_all_iff)

lemma op_text:
  "tok_String T_LT = ''<''" "tok_String T_GT = ''>''" "tok_String T_SUB = ''-''" "tok_String T_DIV = ''/''"
  "tok_String T_NEQ = ''!=''" "tok_String T_LTE = ''<=''" "tok_String T_GTE = ''>=''" "tok_String T_ARROW = ''->''" "tok_String T_DOT = ''.''"
  by code_simp+

lemma is_ident_first: "is_ident lit \<Longrightarrow> lit \<noteq> [] \<and> isLetter (hd lit)"
  by (auto simp: is_ident_def split: list.splits)

lemma valid_token_first:
  assumes "valid_token t"
  shows "print_token t \<noteq> [] \<and> \<not> isWhiteSpace (hd (print_token t)) \<and> hd (print_token t) \<noteq> eof_char
    \<and> fst t \<noteq> T_WS \<and> fst t \<noteq> T_COMMENT"
proof -
  obtain tok lit where t: "t = (tok, lit)"
    by (cases t)
  from assms[unfolded t valid_token_def prod.case] show ?thesis
  proof (elim disjE conjE)
    assume "tok = T_IDENT" "is_ident lit"
    then show ?thesis
      using is_ident_first letter_class by (simp add: t print_token_def)
  next
    assume "map_of keywords_table lit = Some tok"
    then show ?thesis
      using keyword_ident [of lit tok] is_ident_first [of lit] letter_class by (simp add: t print_token_def)
  next
    assume "tok = T_INTEGER" "lit \<noteq> []" "list_all isDigit lit"
    then show ?thesis
      using digit_class [of "hd lit"] by (cases lit) (auto simp: t print_token_def)
  next
    assume "tok = T_STRING"
    then show ?thesis
      by (simp add: t print_token_def quote_def scan_class)
  next
    assume "lit = tok_String tok" "tok \<in> snd ` set simple_table"
    then show ?thesis
      using simple_text [of tok] by (auto simp: t print_token_def)
  next
    assume "lit = tok_String tok" "tok \<in> set prefix_ops"
    then show ?thesis
      by (auto simp: t print_token_def prefix_ops_def op_text scan_class)
  next
    assume "lit = tok_String tok" "tok \<in> set closed_ops"
    then show ?thesis
      by (auto simp: t print_token_def closed_ops_def op_text scan_class)
  qed
qed

lemma print_tokens_first:
  assumes "list_all valid_token ts" "ts \<noteq> []"
  shows "\<exists>c r. print_tokens ts = c # r \<and> c = hd (print_token (hd ts)) \<and> \<not> isWhiteSpace c \<and> c \<noteq> eof_char"
proof -
  obtain t ts' where ts: "ts = t # ts'"
    using assms(2) by (cases ts) auto
  then obtain c r where "print_token t = c # r" "\<not> isWhiteSpace c" "c \<noteq> eof_char"
    using assms(1) valid_token_first [of t] by (cases "print_token t") auto
  then show ?thesis
    by (simp add: ts print_tokens_def)
qed

lemma space_facts [simp]: "isWhiteSpace CHR '' ''" "\<not> is_ident_char CHR '' ''" "\<not> isDigit CHR '' ''" "CHR '' '' \<noteq> eof_char"
  by (simp_all add: scan_class is_ident_char_def)

lemma Scan_prefix_op:
  assumes "sc_rest s = tok_String tok @ '' '' @ print_tokens ts" "tok \<in> set prefix_ops" "list_all valid_token ts"
    "ts \<noteq> [] \<Longrightarrow> separable (tok, tok_String tok) (hd ts)"
  shows "\<exists>s'. Scan s = (tok_pair tok, s') \<and> sc_rest s' = print_tokens ts"
proof -
  obtain c where c: "tok_String tok = [c]" "c \<in> {CHR ''<'', CHR ''>'', CHR ''-'', CHR ''/''}"
    using assms(2) by (auto simp: prefix_ops_def op_text)
  let ?s1 = "\<lparr>sc_rest = '' '' @ print_tokens ts, sc_last = Some c\<rparr>"
  have r: "read s = (c, ?s1)"
    using assms(1) c by (simp add: read_Cons)
  show ?thesis
  proof (cases "ts = []")
    case True
    have "scan_second ?s1 = (eof_char, \<lparr>sc_rest = [], sc_last = None\<rparr>)"
      by (rule scan_second_end) (simp add: True print_tokens_def)
    then show ?thesis
      using r assms(2) c True by (auto simp: prefix_ops_def op_text Scan_ops eof_char_def print_tokens_def)
  next
    case False
    obtain d q where d: "print_tokens ts = d # q" "d = hd (print_token (hd ts))" "\<not> isWhiteSpace d" "d \<noteq> eof_char"
      using print_tokens_first [OF assms(3) False] by blast
    have "scan_second ?s1 = (d, \<lparr>sc_rest = q, sc_last = Some d\<rparr>)"
      by (rule scan_second_exact [of _ "'' ''"]) (use d(3,4) in \<open>simp_all add: d(1)\<close>)
    then show ?thesis
      using r assms(2) c d assms(4) [OF False] by (auto simp: prefix_ops_def op_text Scan_ops separable_def Let_def)
  qed
qed

lemma Scan_closed_op:
  assumes "sc_rest s = tok_String tok @ '' '' @ r" "tok \<in> set closed_ops"
  shows "\<exists>s'. Scan s = (tok_pair tok, s') \<and> sc_rest s' = '' '' @ r"
proof -
  have two: "\<exists>s'. Scan s = (tok_pair tok, s') \<and> sc_rest s' = '' '' @ r"
    if "tok_String tok = [c, d]" "c \<in> {CHR ''!'', CHR ''<'', CHR ''>'', CHR ''-''}" "d \<in> {CHR ''='', CHR ''>''}" for c d
  proof -
    have "read s = (c, \<lparr>sc_rest = d # '' '' @ r, sc_last = Some c\<rparr>)"
      using assms(1) that by (simp add: read_Cons)
    moreover have "scan_second \<lparr>sc_rest = d # '' '' @ r, sc_last = Some c\<rparr> = (d, \<lparr>sc_rest = '' '' @ r, sc_last = Some d\<rparr>)"
      by (rule scan_second_exact [of _ "[]"]) (use that in \<open>auto simp: scan_class\<close>)
    ultimately show ?thesis
      using assms(2) that by (auto simp: closed_ops_def op_text Scan_ops)
  qed
  have "\<exists>s'. Scan s = (tok_pair tok, s') \<and> sc_rest s' = '' '' @ r" if "tok = T_DOT"
    using assms(1) that by (auto simp: op_text Scan_dot read_Cons)
  then show ?thesis
    using assms(2) two by (auto simp: closed_ops_def op_text)
qed

lemma Scan_ident_text:
  assumes "sc_rest s = lit @ '' '' @ r" "is_ident lit"
  shows "Scan s = (ident_token lit, \<lparr>sc_rest = '' '' @ r, sc_last = None\<rparr>)"
proof -
  obtain c w where "lit = c # w" "isLetter c" "list_all is_ident_char w"
    using assms(2) by (auto simp: is_ident_def split: list.splits)
  then show ?thesis
    using assms(1) Scan_ident [of s c w "'' '' @ r"] by simp
qed

lemma Scan_print_token:
  assumes "sc_rest s = print_token t @ '' '' @ print_tokens ts" "valid_token t" "list_all valid_token ts"
    "ts \<noteq> [] \<Longrightarrow> separable t (hd ts)"
  shows "\<exists>s'. Scan s = (t, s') \<and> (sc_rest s' = '' '' @ print_tokens ts \<or> sc_rest s' = print_tokens ts)"
proof -
  obtain tok lit where t: "t = (tok, lit)"
    by (cases t)
  from assms(2)[unfolded t valid_token_def prod.case] show ?thesis
  proof (elim disjE conjE)
    assume "tok = T_IDENT" "is_ident lit" "map_of keywords_table (to_upper lit) = None"
    then show ?thesis
      using assms(1) Scan_ident_text [of s lit] by (simp add: t print_token_def ident_token_def)
  next
    assume "map_of keywords_table lit = Some tok"
    then show ?thesis
      using assms(1) Scan_ident_text [of s lit] keyword_ident [of lit tok] by (simp add: t print_token_def ident_token_def)
  next
    assume "tok = T_INTEGER" "lit \<noteq> []" "list_all isDigit lit"
    then show ?thesis
      using assms(1) Scan_integer [of s "hd lit" "tl lit" "'' '' @ print_tokens ts"]
      by (cases lit) (auto simp: t print_token_def)
  next
    assume "tok = T_STRING" "list_all printable lit"
    then show ?thesis
      using assms(1) Scan_quote [of s lit] by (simp add: t print_token_def)
  next
    assume *: "lit = tok_String tok" "tok \<in> snd ` set simple_table"
    then obtain c where "lit = [c]" "map_of simple_table c = Some tok" "tok \<noteq> T_STRING"
      using simple_text [of tok] by auto
    then show ?thesis
      using * assms(1) Scan_simple [of s c "'' '' @ print_tokens ts" tok] by (simp add: t print_token_def tok_pair_def)
  next
    assume "lit = tok_String tok" "tok \<in> set prefix_ops"
    moreover from this(2) have "tok \<noteq> T_STRING"
      by (auto simp: prefix_ops_def)
    ultimately show ?thesis
      using assms Scan_prefix_op [of s tok ts] by (auto simp: t print_token_def tok_pair_def)
  next
    assume "lit = tok_String tok" "tok \<in> set closed_ops"
    moreover from this(2) have "tok \<noteq> T_STRING"
      by (auto simp: closed_ops_def)
    ultimately show ?thesis
      using assms(1) Scan_closed_op [of s tok "print_tokens ts"] by (auto simp: t print_token_def tok_pair_def)
  qed
qed

lemma lex_space:
  assumes "sc_rest s = '' '' @ print_tokens ts" "list_all valid_token ts"
  shows "\<exists>s'. lex s = lex s' \<and> sc_rest s' = print_tokens ts"
proof -
  have "print_tokens ts = [] \<or> \<not> isWhiteSpace (hd (print_tokens ts)) \<and> hd (print_tokens ts) \<noteq> eof_char"
    using print_tokens_first [OF assms(2)] by (cases "ts = []") (auto simp: print_tokens_def [of "[]"])
  then have "Scan s = ((T_WS, []), \<lparr>sc_rest = print_tokens ts, sc_last = None\<rparr>)"
    using assms(1) Scan_white [of s "CHR '' ''" "[]" "print_tokens ts"] by simp
  then show ?thesis
    using assms(1) by (intro exI [of _ "\<lparr>sc_rest = print_tokens ts, sc_last = None\<rparr>"]) (simp add: lex.simps [of s])
qed

lemma lex_print_tokens:
  assumes "list_all valid_token ts" "successively separable ts" "sc_rest s = print_tokens ts"
  shows "lex s = ts"
  using assms
proof (induction ts arbitrary: s)
  case Nil
  then show ?case
    by (simp add: lex.simps print_tokens_def)
next
  case (Cons t ts)
  have sep: "ts \<noteq> [] \<Longrightarrow> separable t (hd ts)" "successively separable ts"
    using Cons.prems(2) by (cases ts; auto)+
  obtain s' where s': "Scan s = (t, s')" "sc_rest s' = '' '' @ print_tokens ts \<or> sc_rest s' = print_tokens ts"
    using Scan_print_token [of s t ts] Cons.prems sep by (auto simp: print_tokens_def)
  have "lex s' = ts"
    using s'(2) Cons.IH lex_space [of s' ts] Cons.prems(1) sep by fastforce
  moreover have "sc_rest s \<noteq> []" "fst t \<noteq> T_WS" "fst t \<noteq> T_COMMENT"
    using Cons.prems(1,3) valid_token_first [of t] by (auto simp: print_tokens_def)
  ultimately show ?case
    using s'(1) by (simp add: lex.simps [of s])
qed

text \<open>
  (C18) Printing and scanning are inverse: for every sequence of keywords, identifiers, integers, string literals (with their quotes and
  backslashes escaped) and operators in which no operator is followed by a text it would absorb, the scanner reads back exactly these tokens from
  their texts separated by spaces.
\<close>

theorem lex_print_roundtrip:
  "list_all valid_token ts \<Longrightarrow> successively separable ts \<Longrightarrow> lex (NewScanner (print_tokens ts)) = ts"
  by (rule lex_print_tokens) (simp_all add: NewScanner_def)

theorem lex_print_roundtrip_witness:
  "lex (NewScanner (''SELECT a - 42 FROM '' @ [CHR 0x22, CHR ''t'', CHR 0x5C, CHR 0x22, CHR 0x22, CHR '' ''])) =
    [(T_SELECT, ''SELECT''), (T_IDENT, ''a''), (T_SUB, ''-''), (T_INTEGER, ''42''), (T_FROM, ''FROM''), (T_STRING, [CHR ''t'', CHR 0x22])]"
proof -
  let ?ts = "[(T_SELECT, ''SELECT''), (T_IDENT, ''a''), (T_SUB, ''-''), (T_INTEGER, ''42''), (T_FROM, ''FROM''), (T_STRING, [CHR ''t'', CHR 0x22])]"
  have "list_all valid_token ?ts" "successively separable ?ts" "print_tokens ?ts = ''SELECT a - 42 FROM '' @ [CHR 0x22, CHR ''t'', CHR 0x5C, CHR 0x22, CHR 0x22, CHR '' '']"
    by code_simp+
  then show ?thesis
    using lex_print_roundtrip [of ?ts] by simp
qed

text \<open>
  The scanner always moves on: on a non-empty input every call consumes at least one character and at the end it keeps returning
  \<^verbatim>\<open>EOF\<close>, so a caller that scans until \<^verbatim>\<open>EOF\<close> stops.
\<close>

theorem Scan_progress:
  "(sc_rest s = [] \<longrightarrow> fst (fst (Scan s)) = T_EOF \<and> sc_rest (snd (Scan s)) = []) \<and>
   (sc_rest s \<noteq> [] \<longrightarrow> length (sc_rest (snd (Scan s))) < length (sc_rest s))"
  using Scan_shorter [of s "fst (Scan s)" "snd (Scan s)"] by (auto simp: Scan_end tok_pair_def)

theorem Scan_progress_witness:
  "length (sc_rest (snd (Scan (NewScanner ''-. x'')))) < length (sc_rest (NewScanner ''-. x''))"
  using Scan_progress [of "NewScanner ''-. x''"] by (simp add: NewScanner_def)

end
