(* ===== verification/FuncValidator.thy ===== *)
theory FuncValidator
  imports Ast
begin

text \<open>
  The checks that the parser applies to the arguments of a call (\<^verbatim>\<open>internal/xsql/funcsAstValidator.go\<close>). \<open>Some msg\<close> is a returned error. A
  function that is in no table is looked up in the function runtime and validates its own arguments: that answer is the parameter \<open>ext\<close>.
\<close>

definition is_concat_arg :: "expr \<Rightarrow> bool" where
  "is_concat_arg a \<longleftrightarrow> \<not> (IsNumericArg a \<or> IsTimeArg a \<or> IsBooleanArg a)"

definition is_num_arg :: "expr \<Rightarrow> bool" where
  "is_num_arg a \<longleftrightarrow> \<not> (IsStringArg a \<or> IsTimeArg a \<or> IsBooleanArg a)"

definition is_int_arg :: "expr \<Rightarrow> bool" where
  "is_int_arg a \<longleftrightarrow> \<not> (IsFloatArg a \<or> IsStringArg a \<or> IsTimeArg a \<or> IsBooleanArg a)"

text \<open>The first argument of a loop or a chain of checks that fails its test; \<open>i\<close> is the index of the first one.\<close>

fun check_args :: "string \<Rightarrow> nat \<Rightarrow> (expr \<times> (expr \<Rightarrow> bool) \<times> string) list \<Rightarrow> string option" where
  "check_args name i [] = None"
| "check_args name i ((a, ok, expect) # xs) =
     (if \<not> ok a then Some (ProduceErrInfo name (int i) expect) else check_args name (Suc i) xs)"

definition len_then :: "string \<Rightarrow> nat \<Rightarrow> expr list \<Rightarrow> string option \<Rightarrow> string option" where
  "len_then name n args k = (case ValidateLen name (int n) (int (length args)) of Some e \<Rightarrow> Some e | None \<Rightarrow> k)"

definition s_num :: string where "s_num = ''number - float or int''"

definition validateMathFunc :: "string \<Rightarrow> expr list \<Rightarrow> string option" where
  "validateMathFunc name args =
     (if name \<in> set [''abs'', ''acos'', ''asin'', ''atan'', ''ceil'', ''cos'', ''cosh'', ''exp'', ''ln'', ''log'', ''round'', ''sign'',
        ''sin'', ''sinh'', ''sqrt'', ''tan'', ''tanh''] then
        len_then name 1 args (check_args name 0 [(args ! 0, is_num_arg, s_num)])
      else if name \<in> set [''bitand'', ''bitor'', ''bitxor''] then
        len_then name 2 args (check_args name 0 [(args ! 0, is_int_arg, ''int''), (args ! 1, is_int_arg, ''int'')])
      else if name = ''bitnot'' then
        len_then name 1 args (check_args name 0 [(args ! 0, is_int_arg, ''int'')])
      else if name \<in> set [''atan2'', ''mod'', ''power''] then
        len_then name 2 args (check_args name 0 [(args ! 0, is_num_arg, s_num), (args ! 1, is_num_arg, s_num)])
      else if name = ''rand'' then len_then name 0 args None
      else None)"

definition validate_substring :: "string \<Rightarrow> expr list \<Rightarrow> string option" where
  "validate_substring name args =
     (if length args \<noteq> 2 \<and> length args \<noteq> 3 then Some ''the arguments for substring should be 2 or 3''
      else case check_args name 0 ((args ! 0, is_concat_arg, ''string'') # map (\<lambda>a. (a, is_int_arg, ''int'')) (tl args)) of
        Some e \<Rightarrow> Some e
      | None \<Rightarrow>
          (case args ! 1 of
             IntegerLiteral sv \<Rightarrow>
               if sv < 0 then Some ''The start index should not be a nagtive integer.''
               else if length args = 3 then
                 (case args ! 2 of
                    IntegerLiteral ev \<Rightarrow> if ev < sv then Some ''The end index should be larger than start index.'' else None
                  | _ \<Rightarrow> None)
               else None
           | _ \<Rightarrow> None))"

definition validate_split_value :: "string \<Rightarrow> expr list \<Rightarrow> string option" where
  "validate_split_value name args =
     (if length args \<noteq> 3 then Some ''the arguments for split_value should be 3''
      else case check_args name 0 [(args ! 0, is_concat_arg, ''string''), (args ! 1, is_concat_arg, ''string''), (args ! 2, is_int_arg, ''int'')] of
        Some e \<Rightarrow> Some e
      | None \<Rightarrow> (case args ! 2 of
          IntegerLiteral v \<Rightarrow> if v < 0 then Some ''The index should not be a nagtive integer.'' else None
        | _ \<Rightarrow> None))"

definition validateStrFunc :: "string \<Rightarrow> expr list \<Rightarrow> string option" where
  "validateStrFunc name args =
     (if name = ''concat'' then
        (if args = [] then Some (''The arguments for '' @ name @ '' should be at least one.'')
         else check_args name 0 (map (\<lambda>a. (a, is_concat_arg, ''string'')) args))
      else if name \<in> set [''endswith'', ''indexof'', ''regexp_matches'', ''startswith''] then
        len_then name 2 args (check_args name 0 [(args ! 0, is_concat_arg, ''string''), (args ! 1, is_concat_arg, ''string'')])
      else if name = ''format_time'' then
        len_then name 2 args (check_args name 0
          [(args ! 0, \<lambda>a. \<not> (IsNumericArg a \<or> IsStringArg a \<or> IsBooleanArg a), ''datetime''), (args ! 1, is_concat_arg, ''string'')])
      else if name = ''regexp_replace'' then
        len_then name 3 args (check_args name 0
          [(args ! 0, is_concat_arg, ''string''), (args ! 1, is_concat_arg, ''string''), (args ! 2, is_concat_arg, ''string'')])
      else if name \<in> set [''length'', ''lower'', ''ltrim'', ''numbytes'', ''rtrim'', ''trim'', ''upper''] then
        len_then name 1 args (check_args name 0 [(args ! 0, is_concat_arg, ''string'')])
      else if name \<in> set [''lpad'', ''rpad''] then
        len_then name 2 args (check_args name 0 [(args ! 0, is_concat_arg, ''string''), (args ! 1, is_int_arg, ''int'')])
      else if name = ''substring'' then validate_substring name args
      else if name = ''split_value'' then validate_split_value name args
      else None)"

definition validateConvFunc :: "string \<Rightarrow> expr list \<Rightarrow> string option" where
  "validateConvFunc name args =
     (if name = ''cast'' then
        len_then name 2 args (case args ! 1 of
          StringLiteral v \<Rightarrow>
            if v \<in> set [''bigint'', ''float'', ''string'', ''boolean'', ''datetime''] then None
            else Some ''Expect one of following value for the 2nd parameter: bigint, float, string, boolean, datetime.''
        | _ \<Rightarrow> Some (ProduceErrInfo name 1 ''string''))
      else if name = ''chr'' then
        len_then name 1 args (check_args name 0 [(args ! 0, \<lambda>a. \<not> (IsFloatArg a \<or> IsTimeArg a \<or> IsBooleanArg a), ''int'')])
      else if name = ''encode'' then
        len_then name 2 args (case check_args name 0 [(args ! 0, is_concat_arg, ''string''), (args ! 1, IsStringArg, ''string'')] of
          Some e \<Rightarrow> Some e
        | None \<Rightarrow> (case args ! 1 of
            StringLiteral v \<Rightarrow> if v \<noteq> ''base64'' then Some ''Only base64 is supported for the 2nd parameter.'' else None
          | _ \<Rightarrow> None))
      else if name = ''trunc'' then
        len_then name 2 args (check_args name 0 [(args ! 0, is_num_arg, s_num), (args ! 1, is_int_arg, ''int'')])
      else None)"

definition validateHashFunc :: "string \<Rightarrow> expr list \<Rightarrow> string option" where
  "validateHashFunc name args =
     (if name \<in> set [''md5'', ''sha1'', ''sha224'', ''sha256'', ''sha384'', ''sha512''] then
        len_then name 1 args (check_args name 0 [(args ! 0, is_concat_arg, ''string'')])
      else None)"

text \<open>The loop of \<^verbatim>\<open>meta\<close> walks down the left operands to a reference under an arrow.\<close>

fun meta_arrow :: "expr \<Rightarrow> bool" where
  "meta_arrow (BinaryExpr op (MetaRef sn n) rhs) \<longleftrightarrow> op = T_ARROW"
| "meta_arrow (BinaryExpr op lhs rhs) \<longleftrightarrow> meta_arrow lhs"
| "meta_arrow _ \<longleftrightarrow> False"

definition validateOtherFunc :: "string \<Rightarrow> expr list \<Rightarrow> string option" where
  "validateOtherFunc name args =
     (if name = ''isNull'' then len_then name 1 args None
      else if name = ''cardinality'' then len_then name 1 args None
      else if name = ''nanvl'' then
        len_then name 2 args
          (if IsIntegerArg (args ! 0) \<or> IsTimeArg (args ! 0) \<or> IsBooleanArg (args ! 0) \<or> IsStringArg (args ! 0)
           then Some (ProduceErrInfo name 1 ''float'') else None)
      else if name = ''newuuid'' then len_then name 0 args None
      else if name = ''mqtt'' then
        len_then name 1 args
          (if IsIntegerArg (args ! 0) \<or> IsTimeArg (args ! 0) \<or> IsBooleanArg (args ! 0) \<or> IsStringArg (args ! 0) \<or> IsFloatArg (args ! 0)
           then Some (ProduceErrInfo name 0 ''meta reference'')
           else case args ! 0 of
             MetaRef sn n \<Rightarrow>
               if to_lower n \<noteq> ''topic'' \<and> to_lower n \<noteq> ''messageid''
               then Some ''Parameter of mqtt function can be only topic or messageid.'' else None
           | _ \<Rightarrow> None)
      else if name = ''meta'' then
        len_then name 1 args
          (case args ! 0 of
             MetaRef sn n \<Rightarrow> None
           | e \<Rightarrow> if meta_arrow e then None else Some (ProduceErrInfo name 0 ''meta reference''))
      else None)"

definition validateJsonFunc :: "string \<Rightarrow> expr list \<Rightarrow> string option" where
  "validateJsonFunc name args =
     len_then name 2 args (if \<not> IsStringArg (args ! 1) then Some (ProduceErrInfo name 1 ''string'') else None)"

definition validateAggFunc :: "string \<Rightarrow> expr list \<Rightarrow> string option" where
  "validateAggFunc name args =
     (if name \<in> set [''avg'', ''max'', ''min'', ''sum''] then
        len_then name 1 args (check_args name 0 [(args ! 0, is_num_arg, s_num)])
      else if name = ''count'' then len_then name 1 args None
      else if name = ''collect'' then len_then name 1 args None
      else if name = ''deduplicate'' then
        len_then name 2 args (if \<not> IsBooleanArg (args ! 1) then Some (ProduceErrInfo name 1 ''bool'') else None)
      else None)"

definition validateFuncs :: "(string \<Rightarrow> expr list \<Rightarrow> string option) \<Rightarrow> string \<Rightarrow> expr list \<Rightarrow> string option" where
  "validateFuncs ext funcName args =
     (let lowerName = to_lower funcName in
      case FuncType_of lowerName of
        NotFoundFunc \<Rightarrow> ext funcName args
      | AggFunc \<Rightarrow> validateAggFunc lowerName args
      | MathFunc \<Rightarrow> validateMathFunc lowerName args
      | ConvFunc \<Rightarrow> validateConvFunc lowerName args
      | StrFunc \<Rightarrow> validateStrFunc lowerName args
      | HashFunc \<Rightarrow> validateHashFunc lowerName args
      | JsonFunc \<Rightarrow> validateJsonFunc lowerName args
      | OtherFunc \<Rightarrow> validateOtherFunc lowerName args)"

end
