(* ===== verification/Parser.thy ===== *)
theory Parser
  imports Lexer FuncValidator
begin

text \<open>
  The recursive-descent parser of \<^verbatim>\<open>internal/xsql/parser.go\<close>. The parser keeps the scanner, a ring buffer of the last three tokens and
  the number of tokens that were put back. A parsing function returns an error or a value and the new state; after an error the caller
  returns at once, so the state is not part of that result.

  The functions that call \<^verbatim>\<open>ParseExpr\<close> receive it as an argument, and \<open>ParseExpr\<close> ties the knot by recursion on a fuel, which also bounds the
  loops. Running out of fuel is the error \<open>OutOfFuel\<close>; one more than the length of the input is enough (theory \<open>ParserProofs\<close>).
  The argument \<open>ext\<close> validates the calls of functions that are not built in, \<open>rt\<close> tells which of these are aggregates.
\<close>

section \<open>The look-ahead buffer\<close>

datatype perr =
    Found string string            \<comment> \<open>found the literal, expected the other\<close>
  | Invalid string
  | NilExpr                        \<comment> \<open>a nil expression returned with a nil error\<close>
  | Panic
  | OutOfFuel

record pstate =
  p_s :: scanner
  p_i :: nat
  p_n :: nat
  p_buf :: "(token \<times> string) list"
  p_inmeta :: bool

type_synonym 'a presult = "perr + 'a \<times> pstate"

definition NewParser :: "string \<Rightarrow> pstate" where
  "NewParser r = \<lparr>p_s = NewScanner r, p_i = 0, p_n = 0, p_buf = replicate 3 (T_ILLEGAL, []), p_inmeta = False\<rparr>"

definition curr :: "pstate \<Rightarrow> token \<times> string" where
  "curr p = p_buf p ! ((p_i p + 3 - p_n p) mod 3)"

definition scan :: "pstate \<Rightarrow> (token \<times> string) \<times> pstate" where
  "scan p =
     (if p_n p > 0 then let p1 = p\<lparr>p_n := p_n p - 1\<rparr> in (curr p1, p1)
      else case Scan (p_s p) of (t, s1) \<Rightarrow>
        (t, if fst t \<noteq> T_WS \<and> fst t \<noteq> T_COMMENT
            then let i = (p_i p + 1) mod 3 in p\<lparr>p_s := s1, p_i := i, p_buf := (p_buf p)[i := t]\<rparr>
            else p\<lparr>p_s := s1\<rparr>))"

definition unscan :: "pstate \<Rightarrow> pstate" where
  "unscan p = p\<lparr>p_n := p_n p + 1\<rparr>"

lemma scan_less:
  assumes "(t, p1) = scan p" "fst t \<noteq> T_EOF"
  shows "p_n p1 + length (sc_rest (p_s p1)) < p_n p + length (sc_rest (p_s p))"
proof (cases "p_n p > 0")
  case True
  then show ?thesis
    using assms by (auto simp: scan_def Let_def)
next
  case False
  obtain t' s' where s: "Scan (p_s p) = (t', s')"
    by (cases "Scan (p_s p)")
  then have "sc_rest (p_s p) \<noteq> []"
    using assms False Scan_end [of "p_s p"] by (auto simp: scan_def tok_pair_def)
  then show ?thesis
    using assms False s Scan_shorter [OF s] by (auto simp: scan_def Let_def)
qed

function scanIgnoreWhitespace :: "pstate \<Rightarrow> (token \<times> string) \<times> pstate" where
  "scanIgnoreWhitespace p = (case scan p of (t, p1) \<Rightarrow>
     if fst t = T_WS \<or> fst t = T_COMMENT then scanIgnoreWhitespace p1 else (t, p1))"
  by pat_completeness auto
termination
  by (relation "measure (\<lambda>p. p_n p + length (sc_rest (p_s p)))") (auto intro!: scan_less)

declare scanIgnoreWhitespace.simps [simp del]

definition scanIgnoreWhiteSpaceWithNegativeNum :: "pstate \<Rightarrow> (token \<times> string) \<times> pstate" where
  "scanIgnoreWhiteSpaceWithNegativeNum p = (case scanIgnoreWhitespace p of (t, p1) \<Rightarrow>
     if fst t = T_SUB then
       (case read (snd (ScanWhiteSpace (p_s p1))) of (r, s2) \<Rightarrow>
          if isDigit r then (case ScanNumber False True (unread s2) of (t', s3) \<Rightarrow> (t', p1\<lparr>p_s := s3\<rparr>))
          else (t, p1\<lparr>p_s := s2\<rparr>))
     else (t, p1))"

text \<open>Sequencing: an error is returned at once.\<close>

definition bindE :: "'a presult \<Rightarrow> ('a \<Rightarrow> pstate \<Rightarrow> 'b presult) \<Rightarrow> 'b presult" where
  "bindE r f = (case r of Inl e \<Rightarrow> Inl e | Inr (x, p) \<Rightarrow> f x p)"

section \<open>Names\<close>

lemma scanIgnoreWhitespace_less:
  assumes "(t, p1) = scanIgnoreWhitespace p" "fst t \<noteq> T_EOF"
  shows "p_n p1 + length (sc_rest (p_s p1)) < p_n p + length (sc_rest (p_s p))"
  using assms
proof (induction p rule: scanIgnoreWhitespace.induct)
  case (1 p)
  obtain t' p' where s: "scan p = (t', p')"
    by (cases "scan p")
  show ?case
  proof (cases "fst t' = T_WS \<or> fst t' = T_COMMENT")
    case True
    then have "(t, p1) = scanIgnoreWhitespace p'"
      using 1(2) s by (simp add: scanIgnoreWhitespace.simps [of p])
    then have "p_n p1 + length (sc_rest (p_s p1)) < p_n p' + length (sc_rest (p_s p'))"
      using 1(1) [OF s [symmetric] True] 1(3) by simp
    also have "\<dots> < p_n p + length (sc_rest (p_s p))"
      using scan_less [OF s [symmetric]] True by auto
    finally show ?thesis .
  next
    case False
    then show ?thesis
      using 1(2,3) s scan_less [OF s [symmetric]] by (simp add: scanIgnoreWhitespace.simps [of p])
  qed
qed

text \<open>The loop of \<^verbatim>\<open>parseFieldNameSections\<close>.\<close>

function name_sections :: "pstate \<Rightarrow> string list \<times> pstate" where
  "name_sections p = (case scanIgnoreWhitespace p of ((tok, lit), p1) \<Rightarrow>
     if tok = T_IDENT \<or> tok = T_ASTERISK then
       (case scanIgnoreWhitespace p1 of ((tok1, lit1), p2) \<Rightarrow>
          if AllowedSFNToken tok1 then (case name_sections p2 of (ns, p3) \<Rightarrow> (lit # ns, p3)) else ([lit], unscan p2))
     else ([], unscan p1))"
  by pat_completeness auto
termination
  by (relation "measure (\<lambda>p. p_n p + length (sc_rest (p_s p)))")
    (auto simp: AllowedSFNToken_def dest!: scanIgnoreWhitespace_less)

declare name_sections.simps [simp del]

definition parseFieldNameSections :: "pstate \<Rightarrow> string list presult" where
  "parseFieldNameSections p = (case name_sections p of (ns, p1) \<Rightarrow>
     if ns = [] then Inl (Invalid ''Cannot find any field name.'')
     else if length ns > 2 then Inl (Invalid ''Too many field names. Please use -> to reference keys in struct.'')
     else Inr (ns, p1))"

text \<open>The loop of \<^verbatim>\<open>parseSourceLiteral\<close>: the segments so far and the alias.\<close>

function source_loop :: "string list \<Rightarrow> string \<Rightarrow> pstate \<Rightarrow> (string list \<times> string) presult" where
  "source_loop segs alias p = (case scanIgnoreWhitespace p of ((tok, lit), p1) \<Rightarrow>
     if AllowedSourceToken tok then
       (case scanIgnoreWhitespace p1 of ((tok1, lit1), p2) \<Rightarrow>
          if tok1 = T_AS then
            (case scanIgnoreWhitespace p2 of ((tok2, lit2), p3) \<Rightarrow>
               if tok2 = T_IDENT then source_loop (segs @ [lit]) lit2 p3 else Inl (Found lit ''JOIN key word''))
          else if AllowedSourceToken tok1 then source_loop (segs @ [lit, lit1]) alias p2
          else Inr ((segs @ [lit], alias), unscan p2))
     else Inr ((segs, alias), unscan p1))"
  by pat_completeness auto
termination
  by (relation "measure (\<lambda>(segs, alias, p). p_n p + length (sc_rest (p_s p)))")
    (auto simp: AllowedSourceToken_def dest!: scanIgnoreWhitespace_less)

declare source_loop.simps [simp del]

definition parseSourceLiteral :: "pstate \<Rightarrow> (string \<times> string) presult" where
  "parseSourceLiteral p = bindE (source_loop [] [] p) (\<lambda>(segs, alias) p1. Inr ((concat segs, alias), p1))"

definition parseAlias :: "pstate \<Rightarrow> string presult" where
  "parseAlias p = (case scanIgnoreWhitespace p of ((tok, lit), p1) \<Rightarrow>
     if tok = T_AS then
       (case scanIgnoreWhitespace p1 of ((tok1, lit1), p2) \<Rightarrow>
          if tok1 \<noteq> T_IDENT then Inl (Found lit1 ''as alias'') else Inr (lit1, p2))
     else Inr ([], unscan p1))"

definition parseAs :: "field \<Rightarrow> pstate \<Rightarrow> field presult" where
  "parseAs f p = (case scanIgnoreWhitespace p of ((tok, lit), p1) \<Rightarrow>
     if tok \<noteq> T_IDENT then Inl (Found lit ''as alias'') else Inr (f\<lparr>fld_AName := lit\<rparr>, p1))"

section \<open>Brackets\<close>

definition MinInt32 :: int where
  "MinInt32 = - (2 ^ 31)"

definition parseColonExpr :: "int \<Rightarrow> pstate \<Rightarrow> expr presult" where
  "parseColonExpr start p = (case scanIgnoreWhiteSpaceWithNegativeNum p of ((tok, lit), p1) \<Rightarrow>
     if tok = T_INTEGER then
       (case Atoi lit of
          None \<Rightarrow> Inl (Invalid (''The end index '' @ lit @ '' is not an int value in bracket expression.''))
        | Some e \<Rightarrow>
            (case scanIgnoreWhitespace p1 of ((tok1, lit1), p2) \<Rightarrow>
               if tok1 = T_RBRACKET then Inr (ColonExpr start e, p2) else Inl (Found lit1 ''right bracket'')))
     else if tok = T_RBRACKET then Inr (ColonExpr start MinInt32, p1)
     else Inl (Found lit ''right bracket''))"

definition parseBracketExpr :: "pstate \<Rightarrow> expr presult" where
  "parseBracketExpr p = (case scanIgnoreWhiteSpaceWithNegativeNum p of ((tok2, lit2), p1) \<Rightarrow>
     if tok2 = T_RBRACKET then Inr (ColonExpr 0 MinInt32, p1)
     else if tok2 = T_INTEGER then
       (case Atoi lit2 of
          None \<Rightarrow> Inl (Invalid (''The start index '' @ lit2 @ '' is not an int value in bracket expression.''))
        | Some start \<Rightarrow>
            (case scanIgnoreWhitespace p1 of ((tok3, lit3), p2) \<Rightarrow>
               if tok3 = T_RBRACKET then Inr (IndexExpr start, p2)
               else if tok3 = T_COLON then parseColonExpr start p2
               else Inl (Invalid (''Unexpected token '' @ lit2))))
     else if tok2 = T_COLON then parseColonExpr 0 p1
     else Inl (Invalid (''Unexpected token '' @ lit2)))"

section \<open>Windows\<close>

definition validateWindow :: "string \<Rightarrow> nat \<Rightarrow> expr list \<Rightarrow> string option" where
  "validateWindow funcName expectLen args =
     (if length args \<noteq> expectLen then Some (''The arguments for '' @ funcName)
      else if \<not> IsTimeArg (args ! 0) then Some (''The 1st argument for '' @ funcName)
      else if list_all IsIntegerArg (tl args) then None
      else Some (''interger literal expected for '' @ funcName))"

text \<open>The window type and the error.\<close>

definition validateWindows :: "string \<Rightarrow> expr list \<Rightarrow> WindowType \<times> string option" where
  "validateWindows name args =
     (let fname = to_lower name in
      if fname = ''tumblingwindow'' then (TUMBLING_WINDOW, validateWindow fname 2 args)
      else if fname = ''hoppingwindow'' then (HOPPING_WINDOW, validateWindow fname 3 args)
      else if fname = ''sessionwindow'' then (SESSION_WINDOW, validateWindow fname 3 args)
      else if fname = ''slidingwindow'' then (SLIDING_WINDOW, validateWindow fname 2 args)
      else if fname = ''countwindow'' then
        (COUNT_WINDOW,
         (case args of
            [IntegerLiteral v] \<Rightarrow> if v > 0 then None else Some ''Invalid parameter value''
          | [_] \<Rightarrow> Some ''Invalid parameter value''
          | [IntegerLiteral v1, IntegerLiteral v2] \<Rightarrow>
              if v1 < v2 then Some ''The second parameter value should be less than the first parameter'' else None
          | [_, _] \<Rightarrow> Some ''Invalid parameter value''
          | _ \<Rightarrow> Some ''Invalid parameter count.''))
      else (NOT_WINDOW, None))"

definition unit_ms :: "token \<Rightarrow> int option" where
  "unit_ms v =
     (if v = T_DD then Some (24 * 3600 * 1000) else if v = T_HH then Some (3600 * 1000) else if v = T_MI then Some (60 * 1000)
      else if v = T_SS then Some 1000 else if v = T_MS then Some 1 else None)"

fun int_lit :: "expr \<Rightarrow> int" where
  "int_lit (IntegerLiteral v) = v"
| "int_lit _ = 0"

text \<open>Called on validated arguments only; \<open>None\<close> is the error for a token that is no time unit.\<close>

definition ConvertToWindows :: "WindowType \<Rightarrow> expr list \<Rightarrow> (int \<times> int option) option" where
  "ConvertToWindows wtype args =
     (if wtype = COUNT_WINDOW then Some (int_lit (args ! 0), if length args = 2 then Some (int_lit (args ! 1)) else None)
      else case args ! 0 of
        TimeLiteral v \<Rightarrow>
          map_option (\<lambda>u. (i64 (int_lit (args ! 1) * u), Some (if length args > 2 then i64 (int_lit (args ! 2) * u) else 0))) (unit_ms v)
      | _ \<Rightarrow> None)"

section \<open>Expressions\<close>

type_synonym expr_parser = "pstate \<Rightarrow> expr presult"
type_synonym ext_validator = "string \<Rightarrow> expr list \<Rightarrow> string option"

definition parseFilter :: "expr_parser \<Rightarrow> pstate \<Rightarrow> expr option presult" where
  "parseFilter pe p = (case scanIgnoreWhitespace p of ((tok, lit), p1) \<Rightarrow>
     if tok \<noteq> T_FILTER then Inr (None, unscan p1)
     else case scanIgnoreWhitespace p1 of ((tok1, lit1), p2) \<Rightarrow>
       if tok1 \<noteq> T_LPAREN then Inl (Found lit1 ''parentheses'')
       else case scanIgnoreWhitespace p2 of ((tok2, lit2), p3) \<Rightarrow>
         if tok2 \<noteq> T_WHERE then Inl (Found lit2 ''WHERE'')
         else bindE (pe p3) (\<lambda>e p4.
           case scanIgnoreWhitespace p4 of ((tok3, lit3), p5) \<Rightarrow>
             if tok3 \<noteq> T_RPAREN then Inl (Found lit3 ''right parentheses'') else Inr (Some e, p5)))"

text \<open>
  The loop of \<^verbatim>\<open>parseCall\<close>: \<open>Inl\<close> is the call returned from inside the loop, \<open>Inr\<close> the arguments when the loop ends.
\<close>

primrec call_loop :: "ext_validator \<Rightarrow> expr_parser \<Rightarrow> string \<Rightarrow> nat \<Rightarrow> expr list \<Rightarrow> pstate \<Rightarrow> (expr + expr list) presult" where
  "call_loop ext pe name 0 args p = Inl OutOfFuel"
| "call_loop ext pe name (Suc k) args p = (case scanIgnoreWhitespace p of ((tok, lit), p1) \<Rightarrow>
     if tok = T_RPAREN then
       (case validateFuncs ext name [] of Some e \<Rightarrow> Inl (Invalid e) | None \<Rightarrow> Inr (Inl (Call name args), p1))
     else if tok = T_ASTERISK then
       (case scanIgnoreWhitespace p1 of ((tok2, lit2), p2) \<Rightarrow>
          if tok2 \<noteq> T_RPAREN then Inl (Found lit2 ''right paren'')
          else Inr (Inl (Call name (args @ [if p_inmeta p2 then MetaRef [] ''*'' else Wildcard T_ASTERISK])), p2))
     else bindE (pe (unscan p1)) (\<lambda>e p2.
       case scanIgnoreWhitespace p2 of ((tok3, lit3), p3) \<Rightarrow>
         if tok3 \<noteq> T_COMMA then Inr (Inr (args @ [e]), unscan p3) else call_loop ext pe name k (args @ [e]) p3))"

definition end_call :: "ext_validator \<Rightarrow> expr_parser \<Rightarrow> string \<Rightarrow> expr list \<Rightarrow> pstate \<Rightarrow> expr presult" where
  "end_call ext pe name args p = (case scanIgnoreWhitespace p of ((tok, lit), p1) \<Rightarrow>
     if tok \<noteq> T_RPAREN then Inl (Found lit (''closing of '' @ name))
     else case validateWindows name args of (wt, werr) \<Rightarrow>
       if wt = NOT_WINDOW then
         (case validateFuncs ext name args of
            Some e \<Rightarrow> Inl (Invalid e)
          | None \<Rightarrow> Inr (Call name (if name = ''deduplicate'' then Wildcard T_ASTERISK # args else args), p1))
       else (case werr of
         Some e \<Rightarrow> Inl (Invalid e)
       | None \<Rightarrow> (case ConvertToWindows wt args of
           None \<Rightarrow> Inl NilExpr
         | Some (len, itv) \<Rightarrow> bindE (parseFilter pe p1) (\<lambda>f p2. Inr (Window wt len itv f, p2)))))"

text \<open>The deferred reset of \<^verbatim>\<open>inmeta\<close> happens on every return.\<close>

definition parseCall :: "ext_validator \<Rightarrow> expr_parser \<Rightarrow> nat \<Rightarrow> string \<Rightarrow> pstate \<Rightarrow> expr presult" where
  "parseCall ext pe n name p =
     (let meta = (to_lower name = ''meta'' \<or> to_lower name = ''mqtt'') in
      bindE (bindE (call_loop ext pe name n [] (if meta then p\<lparr>p_inmeta := True\<rparr> else p)) (\<lambda>r p1.
               case r of Inl c \<Rightarrow> Inr (c, p1) | Inr args \<Rightarrow> end_call ext pe name args p1))
        (\<lambda>c p1. Inr (c, if meta then p1\<lparr>p_inmeta := False\<rparr> else p1)))"

text \<open>The loop of \<^verbatim>\<open>parseCaseExpr\<close>.\<close>

primrec case_loop :: "expr_parser \<Rightarrow> expr option \<Rightarrow> nat \<Rightarrow> (expr \<times> expr) list \<Rightarrow> expr option \<Rightarrow> pstate \<Rightarrow> expr presult" where
  "case_loop pe val 0 ws els p = Inl OutOfFuel"
| "case_loop pe val (Suc k) ws els p = (case scanIgnoreWhitespace p of ((tok, lit), p1) \<Rightarrow>
     if tok = T_WHEN then
       bindE (pe p1) (\<lambda>e p2.
         if val = None \<and> \<not> IsBooleanArg e then Inl (Invalid ''invalid CASE expression, WHEN expression must be a bool condition'')
         else case scanIgnoreWhitespace p2 of ((tok1, lit1), p3) \<Rightarrow>
           if tok1 \<noteq> T_THEN then Inl (Invalid ''invalid CASE expression, THEN expected after WHEN'')
           else bindE (pe p3) (\<lambda>e1 p4. case_loop pe val k (ws @ [(e, e1)]) els p4))
     else if tok = T_ELSE then
       (if ws \<noteq> [] then bindE (pe p1) (\<lambda>e p2. case_loop pe val k ws (Some e) p2)
        else Inl (Invalid ''invalid CASE expression, WHEN expected before ELSE''))
     else if tok = T_END then
       (if ws \<noteq> [] then Inr (CaseExpr val ws els, p1) else Inl (Invalid ''invalid CASE expression, WHEN expected before END''))
     else Inl (Invalid ''invalid CASE expression, END expected''))"

definition parseCaseExpr :: "expr_parser \<Rightarrow> nat \<Rightarrow> pstate \<Rightarrow> expr presult" where
  "parseCaseExpr pe n p = (case scanIgnoreWhitespace p of ((tok, lit), p1) \<Rightarrow>
     if tok \<noteq> T_WHEN then bindE (pe (unscan p1)) (\<lambda>e p2. case_loop pe (Some e) n [] None p2)
     else case_loop pe None n [] None (unscan p1))"

definition name_ref :: "bool \<Rightarrow> bool \<Rightarrow> string list \<Rightarrow> expr" where
  "name_ref inmeta isSubField n =
     (if inmeta then
        (if length n = 2 then MetaRef (n ! 0) (n ! 1) else if isSubField then MetaRef [] (n ! 0) else MetaRef DefaultStream (n ! 0))
      else
        (if length n = 2 then FieldRef (n ! 0) (n ! 1) None
         else if isSubField then FieldRef [] (n ! 0) None else FieldRef DefaultStream (n ! 0) None))"

definition literal_expr :: "token \<Rightarrow> string \<Rightarrow> perr + expr" where
  "literal_expr tok lit =
     (if tok = T_STRING then Inr (StringLiteral lit)
      else if tok = T_INTEGER then Inr (IntegerLiteral (Atoi_value lit))
      else if tok = T_NUMBER then
        (case ParseFloat lit of None \<Rightarrow> Inl (Found lit ''number value'') | Some v \<Rightarrow> Inr (NumberLiteral v))
      else if tok = T_TRUE \<or> tok = T_FALSE then
        (case ParseBool lit of None \<Rightarrow> Inl (Found lit ''boolean value'') | Some v \<Rightarrow> Inr (BooleanLiteral v))
      else if IsTimeLiteral tok then Inr (TimeLiteral tok)
      else Inl (Found lit ''expression''))"

definition parseUnaryExpr :: "ext_validator \<Rightarrow> expr_parser \<Rightarrow> nat \<Rightarrow> bool \<Rightarrow> pstate \<Rightarrow> expr presult" where
  "parseUnaryExpr ext pe n isSubField p = (case scanIgnoreWhitespace p of ((tok1, lit1), p1) \<Rightarrow>
     if tok1 = T_LPAREN then
       bindE (pe p1) (\<lambda>e p2.
         case scanIgnoreWhitespace p2 of ((tok2, lit2), p3) \<Rightarrow>
           if tok2 \<noteq> T_RPAREN then Inl (Found lit2 ''right paren'') else Inr (ParenExpr e, p3))
     else if tok1 = T_LBRACKET then parseBracketExpr p1
     else case scanIgnoreWhiteSpaceWithNegativeNum (unscan p1) of ((tok, lit), p2) \<Rightarrow>
       if tok = T_CASE then parseCaseExpr pe n p2
       else if tok = T_IDENT then
         (case scanIgnoreWhitespace p2 of ((tok3, lit3), p3) \<Rightarrow>
            if tok3 = T_LPAREN then parseCall ext pe n lit p3
            else bindE (parseFieldNameSections (unscan (unscan p3))) (\<lambda>ns p4. Inr (name_ref (p_inmeta p4) isSubField ns, p4)))
       else (case literal_expr tok lit of Inl e \<Rightarrow> Inl e | Inr v \<Rightarrow> Inr (v, p2)))"

text \<open>
  The inner loop of \<^verbatim>\<open>ParseExpr\<close> walks down the right spine of the tree built so far, past the operators that bind less tightly than the
  new one, and puts the new operator there.
\<close>

fun attach :: "token \<Rightarrow> expr \<Rightarrow> expr \<Rightarrow> expr" where
  "attach op rhs (BinaryExpr op' l r) =
     (if Precedence op' \<ge> Precedence op then BinaryExpr op (BinaryExpr op' l r) rhs else BinaryExpr op' l (attach op rhs r))"
| "attach op rhs e = BinaryExpr op e rhs"

primrec expr_loop :: "(bool \<Rightarrow> expr_parser) \<Rightarrow> nat \<Rightarrow> expr \<Rightarrow> pstate \<Rightarrow> expr presult" where
  "expr_loop unary 0 tree p = Inl OutOfFuel"
| "expr_loop unary (Suc k) tree p = (case scanIgnoreWhitespace p of ((op, lit), p1) \<Rightarrow>
     if \<not> IsOperator op then Inr (tree, unscan p1)
     else
       (let op' = (if op = T_ASTERISK then T_MUL else if op = T_LBRACKET then T_SUBSET else op);
            p2 = (if op = T_LBRACKET then unscan p1 else p1)
        in bindE (unary (op' = T_ARROW) p2) (\<lambda>rhs p3. expr_loop unary k (attach op' rhs tree) p3)))"

primrec ParseExpr :: "ext_validator \<Rightarrow> nat \<Rightarrow> pstate \<Rightarrow> expr presult" where
  "ParseExpr ext 0 p = Inl OutOfFuel"
| "ParseExpr ext (Suc n) p =
     bindE (parseUnaryExpr ext (ParseExpr ext n) n False p) (\<lambda>u p1. expr_loop (parseUnaryExpr ext (ParseExpr ext n) n) n u p1)"

section \<open>The clauses of SELECT\<close>

definition parseCondition :: "expr_parser \<Rightarrow> pstate \<Rightarrow> expr option presult" where
  "parseCondition pe p = (case scanIgnoreWhitespace p of ((tok, lit), p1) \<Rightarrow>
     if tok \<noteq> T_WHERE then Inr (None, unscan p1) else bindE (pe p1) (\<lambda>e p2. Inr (Some e, p2)))"

definition parseSource :: "pstate \<Rightarrow> table list presult" where
  "parseSource p = (case scanIgnoreWhitespace p of ((tok, lit), p1) \<Rightarrow>
     if tok \<noteq> T_FROM then Inl (Found lit ''FROM'')
     else bindE (parseSourceLiteral p1) (\<lambda>(src, alias) p2. Inr ([\<lparr>tbl_Name = src, tbl_Alias = alias\<rparr>], p2)))"

definition ParseJoin :: "expr_parser \<Rightarrow> JoinType \<Rightarrow> pstate \<Rightarrow> join presult" where
  "ParseJoin pe joinType p = bindE (parseSourceLiteral p) (\<lambda>(src, alias) p1.
     let j = \<lparr>jn_Name = src, jn_Alias = alias, jn_JoinType = joinType, jn_Expr = None\<rparr> in
     case scanIgnoreWhitespace p1 of ((tok1, lit1), p2) \<Rightarrow>
       if tok1 = T_ON then
         (if joinType = CROSS_JOIN then Inl (Invalid ''On expression is not required for cross join type.'')
          else bindE (pe p2) (\<lambda>e p3. Inr (j\<lparr>jn_Expr := Some e\<rparr>, p3)))
       else Inr (j, unscan p2))"

definition join_type :: "token \<Rightarrow> JoinType option" where
  "join_type tok =
     (if tok = T_INNER then Some INNER_JOIN else if tok = T_LEFT then Some LEFT_JOIN else if tok = T_RIGHT then Some RIGHT_JOIN
      else if tok = T_FULL then Some FULL_JOIN else if tok = T_CROSS then Some CROSS_JOIN else None)"

primrec parseJoins :: "expr_parser \<Rightarrow> nat \<Rightarrow> join list \<Rightarrow> pstate \<Rightarrow> join list presult" where
  "parseJoins pe 0 joins p = Inl OutOfFuel"
| "parseJoins pe (Suc k) joins p = (case scanIgnoreWhitespace p of ((tok, lit), p1) \<Rightarrow>
     case join_type tok of
       None \<Rightarrow> Inr (joins, unscan p1)
     | Some jt \<Rightarrow> (case scanIgnoreWhitespace p1 of ((tok1, lit1), p2) \<Rightarrow>
         if tok1 \<noteq> T_JOIN then Inl (Found lit ''JOIN key word'')
         else bindE (ParseJoin pe jt p2) (\<lambda>j p3. parseJoins pe k (joins @ [j]) p3)))"

primrec dim_loop :: "expr_parser \<Rightarrow> nat \<Rightarrow> dimensions \<Rightarrow> pstate \<Rightarrow> dimensions presult" where
  "dim_loop pe 0 ds p = Inl OutOfFuel"
| "dim_loop pe (Suc k) ds p = bindE (pe p) (\<lambda>e p1.
     case scanIgnoreWhitespace p1 of ((tok, lit), p2) \<Rightarrow>
       if tok = T_COMMA then dim_loop pe k (ds @ [e]) p2 else Inr (ds @ [e], unscan p2))"

definition parseDimensions :: "expr_parser \<Rightarrow> nat \<Rightarrow> pstate \<Rightarrow> dimensions presult" where
  "parseDimensions pe n p = (case scanIgnoreWhitespace p of ((t, l), p1) \<Rightarrow>
     if t = T_GROUP then
       (case scanIgnoreWhitespace p1 of ((t1, l1), p2) \<Rightarrow>
          if t1 = T_BY then dim_loop pe n [] p2 else Inl (Found l1 ''BY statement''))
     else Inr ([], unscan p1))"

definition parseHaving :: "expr_parser \<Rightarrow> pstate \<Rightarrow> expr option presult" where
  "parseHaving pe p = (case scanIgnoreWhitespace p of ((tok, lit), p1) \<Rightarrow>
     if tok \<noteq> T_HAVING then Inr (None, unscan p1) else bindE (pe p1) (\<lambda>e p2. Inr (Some e, p2)))"

definition join_sep :: "string \<Rightarrow> string list \<Rightarrow> string" where
  "join_sep sep xs = (case xs of [] \<Rightarrow> [] | y # ys \<Rightarrow> y @ concat (map ((@) sep) ys))"

primrec sort_loop :: "nat \<Rightarrow> sort_field list \<Rightarrow> pstate \<Rightarrow> sort_field list presult" where
  "sort_loop 0 ss p = Inl OutOfFuel"
| "sort_loop (Suc k) ss p = (case scanIgnoreWhitespace p of ((t1, l1), p1) \<Rightarrow>
     if t1 = T_IDENT then
       bindE (parseFieldNameSections (unscan p1)) (\<lambda>name p2.
         let nm = join_sep [COLUMN_SEPARATOR] name in
         case scanIgnoreWhitespace p2 of ((t2, l2), p3) \<Rightarrow>
           if t2 = T_DESC then sort_loop k (ss @ [\<lparr>sf_Name = nm, sf_Ascending = False\<rparr>]) p3
           else if t2 = T_ASC then sort_loop k (ss @ [\<lparr>sf_Name = nm, sf_Ascending = True\<rparr>]) p3
           else sort_loop k (ss @ [\<lparr>sf_Name = nm, sf_Ascending = True\<rparr>]) (unscan p3))
     else if t1 = T_COMMA then sort_loop k ss p1
     else Inr (ss, unscan p1))"

definition parseSorts :: "nat \<Rightarrow> pstate \<Rightarrow> sort_field list presult" where
  "parseSorts n p = (case scanIgnoreWhitespace p of ((t, l), p1) \<Rightarrow>
     if t = T_ORDER then
       (case scanIgnoreWhitespace p1 of ((t1, l1), p2) \<Rightarrow>
          if t1 = T_BY then sort_loop n [] p2 else Inl (Found l1 ''BY keyword''))
     else Inr ([], unscan p1))"

definition parseField :: "expr_parser \<Rightarrow> pstate \<Rightarrow> field presult" where
  "parseField pe p = bindE (pe p) (\<lambda>e p1. bindE (parseAlias p1) (\<lambda>alias p2.
     Inr (\<lparr>fld_Name = (case e of FieldRef sn n al \<Rightarrow> n | Call n args \<Rightarrow> n | _ \<Rightarrow> []), fld_AName = alias, fld_Expr = e\<rparr>, p2)))"

primrec fields_loop :: "expr_parser \<Rightarrow> nat \<Rightarrow> field list \<Rightarrow> pstate \<Rightarrow> field list presult" where
  "fields_loop pe 0 fs p = Inl OutOfFuel"
| "fields_loop pe (Suc k) fs p = bindE (parseField pe p) (\<lambda>f p1.
     case scanIgnoreWhitespace p1 of ((tok, lit), p2) \<Rightarrow>
       if tok \<noteq> T_COMMA then Inr (fs @ [f], unscan p2) else fields_loop pe k (fs @ [f]) p2)"

definition parseFields :: "expr_parser \<Rightarrow> nat \<Rightarrow> pstate \<Rightarrow> field list presult" where
  "parseFields pe n p = (case scanIgnoreWhitespace p of ((tok, lit), p1) \<Rightarrow>
     if tok = T_ASTERISK then Inr ([\<lparr>fld_Name = [], fld_AName = [], fld_Expr = Wildcard tok\<rparr>], p1)
     else fields_loop pe n [] (unscan p1))"

definition Validate :: "(string \<Rightarrow> bool) \<Rightarrow> SelectStatement \<Rightarrow> perr option" where
  "Validate rt stmt =
     (if HasAggFuncs rt (Condition stmt) then Some (Invalid ''Not allowed to call aggregate functions in WHERE clause.'')
      else if list_ex (\<lambda>d. HasAggFuncs rt (Some d)) (Dimensions stmt)
      then Some (Invalid ''Not allowed to call aggregate functions in GROUP BY clause.'')
      else None)"

text \<open>\<open>None\<close> is the nil statement of an empty input.\<close>

definition Parse :: "ext_validator \<Rightarrow> (string \<Rightarrow> bool) \<Rightarrow> nat \<Rightarrow> pstate \<Rightarrow> SelectStatement option presult" where
  "Parse ext rt n p = (case scanIgnoreWhitespace p of ((tok, lit), p1) \<Rightarrow>
     if tok = T_EOF then Inr (None, p1)
     else if tok \<noteq> T_SELECT then Inl (Found lit ''SELECT'')
     else let pe = ParseExpr ext n in
       bindE (parseFields pe n p1) (\<lambda>fields p2.
       bindE (parseSource p2) (\<lambda>src p3.
       bindE (parseJoins pe n [] p3) (\<lambda>joins p4.
       bindE (parseCondition pe p4) (\<lambda>cond p5.
       bindE (parseDimensions pe n p5) (\<lambda>dims p6.
       bindE (parseHaving pe p6) (\<lambda>having p7.
       bindE (parseSorts n p7) (\<lambda>sorts p8.
         let selects = \<lparr>Fields = fields, Sources = src, Joins = joins, Condition = cond, Dimensions = dims, Having = having, SortFields = sorts\<rparr> in
         case scanIgnoreWhitespace p8 of ((tok1, lit1), p9) \<Rightarrow>
           if tok1 = T_SEMICOLON then Inr (Some selects, unscan p9)
           else if tok1 \<noteq> T_EOF then Inl (Found lit1 ''EOF'')
           else (case Validate rt selects of Some e \<Rightarrow> Inl e | None \<Rightarrow> Inr (Some selects, p9))))))))))"

primrec queries_loop :: "ext_validator \<Rightarrow> (string \<Rightarrow> bool) \<Rightarrow> nat \<Rightarrow> nat \<Rightarrow> SelectStatement list \<Rightarrow> pstate \<Rightarrow> SelectStatement list presult" where
  "queries_loop ext rt n 0 stmts p = Inl OutOfFuel"
| "queries_loop ext rt n (Suc k) stmts p = (case scanIgnoreWhitespace p of ((tok, lit), p1) \<Rightarrow>
     if tok = T_SEMICOLON then
       bindE (Parse ext rt n p1) (\<lambda>st p2. queries_loop ext rt n k (case st of Some s \<Rightarrow> stmts @ [s] | None \<Rightarrow> stmts) p2)
     else if tok = T_EOF then Inr (stmts, p1)
     else queries_loop ext rt n k stmts p1)"

text \<open>The first statement is dereferenced without a test.\<close>

definition ParseQueries :: "ext_validator \<Rightarrow> (string \<Rightarrow> bool) \<Rightarrow> nat \<Rightarrow> pstate \<Rightarrow> SelectStatement list presult" where
  "ParseQueries ext rt n p = bindE (Parse ext rt n p) (\<lambda>st p1.
     case st of None \<Rightarrow> Inl Panic | Some s \<Rightarrow> queries_loop ext rt n n [s] p1)"

end
