(* ===== verification/StreamParser.thy ===== *)
theory StreamParser
  imports Parser
begin

text \<open>
  The statements that manage streams and tables (\<^verbatim>\<open>internal/xsql/parser.go\<close>), the dispatch on the first token (\<^verbatim>\<open>internal/xsql/manager.go\<close>) and
  the entry points of \<^verbatim>\<open>internal/xsql/stmtx.go\<close>.
\<close>

type_synonym StreamFields = "(string \<times> FieldType option) list"

datatype Statement =
    SelectStmt SelectStatement
  | CreateStmt StreamStmt
  | ShowStreamsStatement
  | ShowTablesStatement
  | DescribeStreamStatement string
  | DescribeTableStatement string
  | ExplainStreamStatement string
  | ExplainTableStatement string
  | DropStreamStatement string
  | DropTableStatement string

section \<open>Stream fields\<close>

definition parseStreamStructType :: "(pstate \<Rightarrow> StreamFields presult) \<Rightarrow> pstate \<Rightarrow> FieldType presult" where
  "parseStreamStructType psf p = bindE (psf p) (\<lambda>sfs p1.
     case scanIgnoreWhitespace p1 of ((tok2, lit2), p2) \<Rightarrow>
       if tok2 = T_COMMA then Inr (RecType sfs, unscan p2)
       else if tok2 = T_RPAREN then Inr (RecType sfs, unscan p2)
       else Inl (Found lit2 ''comma in create stream record statement''))"

text \<open>\<open>None\<close> is the nil type returned without an error.\<close>

definition parseStreamArrayType :: "(pstate \<Rightarrow> StreamFields presult) \<Rightarrow> pstate \<Rightarrow> FieldType option presult" where
  "parseStreamArrayType psf p = (case scanIgnoreWhitespace p of ((tok, lit), p1) \<Rightarrow>
     if tok = T_LPAREN then
       (case scanIgnoreWhitespace p1 of ((tok1, lit1), p2) \<Rightarrow>
          let t = GetDataType tok1 in
          if t \<noteq> UNKNOWN \<and> IsSimpleType t then
            (case scanIgnoreWhitespace p2 of ((tok2, lit2), p3) \<Rightarrow>
               if tok2 = T_RPAREN then Inr (Some (ArrayType t None), p3) else Inl (Found lit2 ''rparen in array type definition''))
          else if tok1 = T_XSTRUCT then
            bindE (parseStreamStructType psf p2) (\<lambda>f p3.
              case scanIgnoreWhitespace p3 of ((tok2, lit2), p4) \<Rightarrow>
                if tok2 = T_RPAREN then Inr (Some (ArrayType STRUCT (Some f)), p4)
                else Inl (Found lit2 ''rparen in struct of array type definition''))
          else if tok1 = T_COMMA then Inr (None, unscan p2)
          else Inl (Found lit1 ''stream data types''))
     else Inr (None, p1))"

definition parseStreamField :: "(pstate \<Rightarrow> StreamFields presult) \<Rightarrow> pstate \<Rightarrow> (string \<times> FieldType option) presult" where
  "parseStreamField psf p = (case scanIgnoreWhitespace p of ((tok, lit), p1) \<Rightarrow>
     if tok = T_IDENT then
       (case scanIgnoreWhitespace p1 of ((tok1, lit1), p2) \<Rightarrow>
          let t = GetDataType tok1 in
          bindE (if t \<noteq> UNKNOWN \<and> IsSimpleType t then Inr (Some (BasicType t), p2)
                 else if t = ARRAY then parseStreamArrayType psf p2
                 else if t = STRUCT then bindE (parseStreamStructType psf p2) (\<lambda>f p3. Inr (Some f, p3))
                 else Inl (Found lit1 ''valid stream field types''))
            (\<lambda>ft p3. case scanIgnoreWhitespace p3 of ((tok2, lit2), p4) \<Rightarrow>
               if tok2 = T_COMMA then Inr ((lit, ft), p4)
               else if tok2 = T_RPAREN then Inr ((lit, ft), unscan p4)
               else Inl (Found lit2 ''comma or rparen'')))
     else Inl (Found lit ''stream field name''))"

text \<open>The loop of \<^verbatim>\<open>parseStreamFields\<close>; \<open>st\<close> is the height of its stack of parentheses.\<close>

primrec stream_fields_loop :: "(pstate \<Rightarrow> StreamFields presult) \<Rightarrow> nat \<Rightarrow> nat \<Rightarrow> StreamFields \<Rightarrow> pstate \<Rightarrow> StreamFields presult" where
  "stream_fields_loop psf 0 st fs p = Inl OutOfFuel"
| "stream_fields_loop psf (Suc k) st fs p = (case scanIgnoreWhitespace p of ((tok1, lit1), p1) \<Rightarrow>
     if tok1 = T_RPAREN then
       (case scanIgnoreWhitespace p1 of ((tok2, lit2), p2) \<Rightarrow>
          if tok2 \<noteq> T_WITH then Inl (Found lit2 ''with'') else Inr (fs, p2))
     else bindE (parseStreamField psf (unscan p1)) (\<lambda>f p2.
       let fs' = fs @ [f] in
       case scanIgnoreWhitespace p2 of ((tok3, lit3), p3) \<Rightarrow>
         if tok3 = T_RPAREN then
           (let st' = st - 1 in
            case scanIgnoreWhitespace p3 of ((tok2, lit2), p4) \<Rightarrow>
              if tok2 = T_WITH then (if st' > 0 then Inl (Invalid ''Parenthesis is not matched.'') else Inr (fs', p4))
              else if tok2 = T_COMMA then
                (if st' > 0 then Inl (Invalid ''Parenthesis is in create record type not matched.'') else Inr (fs', unscan p4))
              else if tok2 = T_RPAREN then
                (if st' > 0 then Inl (Invalid ''Parenthesis is not matched.'') else Inr (fs', unscan p4))
              else if st' = 0 then Inl (Found lit2 ''with'')
              else stream_fields_loop psf k st' fs' (unscan p4))
         else stream_fields_loop psf k st fs' (unscan p3)))"

primrec parseStreamFields :: "nat \<Rightarrow> pstate \<Rightarrow> StreamFields presult" where
  "parseStreamFields 0 p = Inl OutOfFuel"
| "parseStreamFields (Suc n) p = (case scanIgnoreWhitespace p of ((tok, lit), p1) \<Rightarrow>
     if tok = T_LPAREN then stream_fields_loop (parseStreamFields n) n 1 [] p1 else Inl (Found lit ''lparen after stream name''))"

section \<open>Options\<close>

definition option_tokens :: "token list" where
  "option_tokens = [T_DATASOURCE, T_FORMAT, T_KEY, T_CONF_KEY, T_STRICT_VALIDATION, T_TYPE, T_TIMESTAMP, T_TIMESTAMP_FORMAT, T_RETAIN_SIZE, T_SHARED]"

definition empty_options :: Options where
  "empty_options = \<lparr>DATASOURCE = [], KEY = [], FORMAT = [], CONF_KEY = [], opt_TYPE = [], STRICT_VALIDATION = False, TIMESTAMP = [],
     TIMESTAMP_FORMAT = [], RETAIN_SIZE = 0, SHARED = False\<rparr>"

text \<open>One assignment; the default case of the switch sets the field named like the keyword.\<close>

definition set_option :: "token \<Rightarrow> string \<Rightarrow> Options \<Rightarrow> perr + Options" where
  "set_option tok1 lit3 opts =
     (let val = to_upper lit3 in
      if tok1 = T_STRICT_VALIDATION then
        (if val \<noteq> ''TRUE'' \<and> val \<noteq> ''FALSE'' then Inl (Found lit3 ''TRUE/FALSE value'')
         else Inr (opts\<lparr>STRICT_VALIDATION := (val = ''TRUE'')\<rparr>))
      else if tok1 = T_RETAIN_SIZE then
        (case Atoi lit3 of None \<Rightarrow> Inl (Found lit3 ''number value'') | Some v \<Rightarrow> Inr (opts\<lparr>RETAIN_SIZE := v\<rparr>))
      else if tok1 = T_SHARED then
        (if val \<noteq> ''TRUE'' \<and> val \<noteq> ''FALSE'' then Inl (Found lit3 ''TRUE/FALSE value'') else Inr (opts\<lparr>SHARED := (val = ''TRUE'')\<rparr>))
      else if tok1 = T_DATASOURCE then Inr (opts\<lparr>DATASOURCE := lit3\<rparr>)
      else if tok1 = T_FORMAT then Inr (opts\<lparr>FORMAT := lit3\<rparr>)
      else if tok1 = T_KEY then Inr (opts\<lparr>KEY := lit3\<rparr>)
      else if tok1 = T_CONF_KEY then Inr (opts\<lparr>CONF_KEY := lit3\<rparr>)
      else if tok1 = T_TYPE then Inr (opts\<lparr>opt_TYPE := lit3\<rparr>)
      else if tok1 = T_TIMESTAMP then Inr (opts\<lparr>TIMESTAMP := lit3\<rparr>)
      else if tok1 = T_TIMESTAMP_FORMAT then Inr (opts\<lparr>TIMESTAMP_FORMAT := lit3\<rparr>)
      else Inl (Invalid ''invalid field''))"

primrec options_loop :: "nat \<Rightarrow> nat \<Rightarrow> Options \<Rightarrow> pstate \<Rightarrow> Options presult" where
  "options_loop 0 st opts p = Inl OutOfFuel"
| "options_loop (Suc k) st opts p = (case scanIgnoreWhitespace p of ((tok1, lit1), p1) \<Rightarrow>
     if tok1 \<in> set option_tokens then
       (case scanIgnoreWhitespace p1 of ((tok2, lit2), p2) \<Rightarrow>
          if tok2 = T_EQ then
            (case scanIgnoreWhitespace p2 of ((tok3, lit3), p3) \<Rightarrow>
               if tok3 = T_STRING then
                 (case set_option tok1 lit3 opts of Inl e \<Rightarrow> Inl e | Inr opts' \<Rightarrow> options_loop k st opts' p3)
               else Inl (Found lit3 ''string value in option''))
          else Inl (Found lit2 ''equals(=) in options''))
     else if tok1 = T_COMMA then options_loop k st opts p1
     else if tok1 = T_RPAREN then
       (if st - 1 = 0 then Inr (opts, p1) else Inl (Invalid ''Parenthesis is not matched in options definition.''))
     else Inl (Found lit1 ''option keys''))"

definition parseStreamOptions :: "nat \<Rightarrow> pstate \<Rightarrow> Options presult" where
  "parseStreamOptions n p = (case scanIgnoreWhitespace p of ((tok, lit), p1) \<Rightarrow>
     if tok = T_LPAREN then options_loop n 1 empty_options p1 else Inl (Found lit ''stream options''))"

section \<open>Statements\<close>

definition validateStream :: "StreamStmt \<Rightarrow> perr option" where
  "validateStream stmt =
     (let f = (if FORMAT (ss_Options stmt) = [] then ''json'' else FORMAT (ss_Options stmt)) in
      if to_lower f = ''json'' then None
      else if to_lower f = ''binary'' then
        (if ss_StreamType stmt = TypeTable then Some (Invalid ''binary format is not supported for table'')
         else case ss_StreamFields stmt of
           None \<Rightarrow> None
         | Some [] \<Rightarrow> None
         | Some [(_, ft)] \<Rightarrow>
             if ft = Some (BasicType BYTEA) then None else Some (Invalid ''binary format stream can have only bytea type field'')
         | Some _ \<Rightarrow> Some (Invalid ''binary format stream can have only one field''))
      else Some (Invalid (''invalid format '' @ f)))"

definition ParseCreateStmt :: "nat \<Rightarrow> pstate \<Rightarrow> Statement option presult" where
  "ParseCreateStmt n p = (case scanIgnoreWhitespace p of ((tok, lit), p1) \<Rightarrow>
     if tok = T_CREATE then
       (case scanIgnoreWhitespace p1 of ((tok1, lit1), p2) \<Rightarrow>
          if tok1 \<noteq> T_STREAM \<and> tok1 \<noteq> T_TABLE then Inl (Found lit1 ''keyword stream or table'')
          else case scanIgnoreWhitespace p2 of ((tok2, lit2), p3) \<Rightarrow>
            if tok2 = T_IDENT then
              bindE (parseStreamFields n p3) (\<lambda>fs p4.
              bindE (parseStreamOptions n p4) (\<lambda>opts p5.
                case scanIgnoreWhitespace p5 of ((tok3, lit3), p6) \<Rightarrow>
                  if tok3 \<noteq> T_SEMICOLON \<and> tok3 \<noteq> T_EOF then Inl (Found lit3 ''semicolon or EOF'')
                  else
                    (let stmt = \<lparr>ss_Name = lit2, ss_StreamFields = (if fs = [] then None else Some fs), ss_Options = opts,
                           ss_StreamType = (if tok1 = T_STREAM then TypeStream else TypeTable)\<rparr>
                     in case validateStream stmt of
                       Some e \<Rightarrow> Inl e
                     | None \<Rightarrow> Inr (Some (CreateStmt stmt), if tok3 = T_SEMICOLON then unscan p6 else p6))))
            else Inl (Found lit2 ''stream name''))
     else Inr (None, unscan p1))"

definition parseShowStmt :: "pstate \<Rightarrow> Statement option presult" where
  "parseShowStmt p = (case scanIgnoreWhitespace p of ((tok, lit), p1) \<Rightarrow>
     if tok = T_SHOW then
       (case scanIgnoreWhitespace p1 of ((tok1, lit1), p2) \<Rightarrow>
          if tok1 = T_STREAMS \<or> tok1 = T_TABLES then
            (case scanIgnoreWhitespace p2 of ((tok2, lit2), p3) \<Rightarrow>
               if tok2 = T_EOF \<or> tok2 = T_SEMICOLON
               then Inr (Some (if tok1 = T_STREAMS then ShowStreamsStatement else ShowTablesStatement), p3)
               else Inl (Found lit2 ''semecolon or EOF''))
          else Inl (Found lit1 ''keyword streams or tables''))
     else Inr (None, unscan p1))"

text \<open>The bodies of \<^verbatim>\<open>parseDescribeStmt\<close>, \<^verbatim>\<open>parseExplainStmt\<close> and \<^verbatim>\<open>parseDropStmt\<close> differ in their keyword and in what they build.\<close>

definition parse_named :: "token \<Rightarrow> (string \<Rightarrow> Statement) \<Rightarrow> (string \<Rightarrow> Statement) \<Rightarrow> pstate \<Rightarrow> Statement option presult" where
  "parse_named kw mk_stream mk_table p = (case scanIgnoreWhitespace p of ((tok, lit), p1) \<Rightarrow>
     if tok = kw then
       (case scanIgnoreWhitespace p1 of ((tok1, lit1), p2) \<Rightarrow>
          if tok1 = T_STREAM then
            (case scanIgnoreWhitespace p2 of ((tok2, lit2), p3) \<Rightarrow>
               if tok2 = T_IDENT then Inr (Some (mk_stream lit2), p3) else Inl (Found lit2 ''stream name''))
          else if tok1 = T_TABLE then
            (case scanIgnoreWhitespace p2 of ((tok2, lit2), p3) \<Rightarrow>
               if tok2 = T_IDENT then Inr (Some (mk_table lit2), p3) else Inl (Found lit2 ''table name''))
          else Inl (Found lit1 ''keyword stream or table''))
     else Inr (None, unscan p1))"

definition parseDescribeStmt :: "pstate \<Rightarrow> Statement option presult" where
  "parseDescribeStmt = parse_named T_DESCRIBE DescribeStreamStatement DescribeTableStatement"

definition parseExplainStmt :: "pstate \<Rightarrow> Statement option presult" where
  "parseExplainStmt = parse_named T_EXPLAIN ExplainStreamStatement ExplainTableStatement"

definition parseDropStmt :: "pstate \<Rightarrow> Statement option presult" where
  "parseDropStmt = parse_named T_DROP DropStreamStatement DropTableStatement"

text \<open>\<^verbatim>\<open>Language.Parse\<close>: the handlers registered in \<^verbatim>\<open>manager.go\<close>; a token without a handler gives a nil statement.\<close>

definition Language_Parse :: "ext_validator \<Rightarrow> (string \<Rightarrow> bool) \<Rightarrow> nat \<Rightarrow> pstate \<Rightarrow> Statement option presult" where
  "Language_Parse ext rt n p = (case scanIgnoreWhitespace p of ((tok, lit), p1) \<Rightarrow>
     let p2 = unscan p1 in
     if tok = T_SELECT then bindE (Parse ext rt n p2) (\<lambda>st p3. Inr (map_option SelectStmt st, p3))
     else if tok = T_CREATE then ParseCreateStmt n p2
     else if tok = T_SHOW then parseShowStmt p2
     else if tok = T_EXPLAIN then parseExplainStmt p2
     else if tok = T_DESCRIBE then parseDescribeStmt p2
     else if tok = T_DROP then parseDropStmt p2
     else Inr (None, p2))"

section \<open>Entry points\<close>

definition GetStreams :: "SelectStatement option \<Rightarrow> string list" where
  "GetStreams stmt = (case stmt of None \<Rightarrow> [] | Some st \<Rightarrow> map tbl_Name (Sources st) @ map jn_Name (Joins st))"

text \<open>The fuel the entry points pass: one more than the length of the text.\<close>

definition sql_fuel :: "string \<Rightarrow> nat" where
  "sql_fuel sql = length sql + 1"

definition GetStatementFromSql :: "ext_validator \<Rightarrow> (string \<Rightarrow> bool) \<Rightarrow> string \<Rightarrow> perr + SelectStatement" where
  "GetStatementFromSql ext rt sql = (case Language_Parse ext rt (sql_fuel sql) (NewParser sql) of
     Inl e \<Rightarrow> Inl e
   | Inr (Some (SelectStmt r), p) \<Rightarrow> Inr r
   | Inr _ \<Rightarrow> Inl (Invalid ''not a select statement''))"

end
