(* ===== verification/ParserProofs.thy ===== *)
theory ParserProofs
  imports StreamParser
begin

text \<open>
  Properties of the parser: its look-ahead buffer never holds more than two tokens that were put back and the parser never reads past the
  fuel the entry points give it. Both follow from how the functions move over the input, measured by \<open>left\<close>: the
  characters that are not scanned yet and the pending token, unless it is the end of the input, which can be put back for ever.
\<close>

section \<open>The look-ahead buffer\<close>

definition last_tok :: "pstate \<Rightarrow> token \<times> string" where
  "last_tok p = p_buf p ! p_i p"

definition prev_tok :: "pstate \<Rightarrow> token \<times> string" where
  "prev_tok p = p_buf p ! ((p_i p + 2) mod 3)"

definition significant :: "token \<times> string \<Rightarrow> bool" where
  "significant t \<longleftrightarrow> fst t \<noteq> T_WS \<and> fst t \<noteq> T_COMMENT"

definition wf_parser :: "pstate \<Rightarrow> bool" where
  "wf_parser p \<longleftrightarrow> length (p_buf p) = 3 \<and> p_i p < 3 \<and> p_n p \<le> 1 \<and> list_all significant (p_buf p)"

definition left :: "pstate \<Rightarrow> nat" where
  "left p = length (sc_rest (p_s p)) + (if p_n p = 0 \<or> fst (last_tok p) = T_EOF then 0 else 1)"

lemma wf_NewParser: "wf_parser (NewParser r)"
  by (simp add: wf_parser_def NewParser_def significant_def numeral_3_eq_3)

lemma left_NewParser: "left (NewParser r) = length r"
  by (simp add: left_def NewParser_def NewScanner_def)

lemma last_tok_significant: "wf_parser p \<Longrightarrow> significant (last_tok p)"
  by (simp add: wf_parser_def last_tok_def list_all_length)

lemma unscan_sel [simp]:
  "p_s (unscan p) = p_s p" "p_i (unscan p) = p_i p" "p_n (unscan p) = Suc (p_n p)" "p_buf (unscan p) = p_buf p"
  "p_inmeta (unscan p) = p_inmeta p" "last_tok (unscan p) = last_tok p"
  by (simp_all add: unscan_def last_tok_def)

lemma scan_pending:
  assumes "wf_parser p" "p_n p = 1"
  shows "scanIgnoreWhitespace p = (last_tok p, p\<lparr>p_n := 0\<rparr>)"
  using assms last_tok_significant [OF assms(1)]
  by (simp add: scanIgnoreWhitespace.simps [of p] scan_def curr_def Let_def wf_parser_def last_tok_def significant_def)

lemma scan_unscan:
  assumes "wf_parser p" "p_n p = 0"
  shows "scanIgnoreWhitespace (unscan p) = (last_tok p, p)"
proof -
  have "wf_parser (unscan p)"
    using assms by (simp add: wf_parser_def)
  moreover have "(unscan p)\<lparr>p_n := 0\<rparr> = p"
    using assms(2) by (simp add: unscan_def)
  ultimately show ?thesis
    using scan_pending [of "unscan p"] assms by simp
qed

text \<open>A token that the scanner delivers enters the buffer.\<close>

lemma scan_fresh:
  assumes "wf_parser p" "p_n p = 0" "scanIgnoreWhitespace p = (t, p')"
  shows "wf_parser p' \<and> p_n p' = 0 \<and> last_tok p' = t \<and> prev_tok p' = last_tok p \<and> p_inmeta p' = p_inmeta p \<and> significant t
    \<and> length (sc_rest (p_s p')) \<le> length (sc_rest (p_s p))
    \<and> (fst t \<noteq> T_EOF \<longrightarrow> length (sc_rest (p_s p')) < length (sc_rest (p_s p)))"
  using assms
proof (induction p arbitrary: t p' rule: scanIgnoreWhitespace.induct)
  case (1 p)
  obtain u s where u: "Scan (p_s p) = (u, s)"
    by (cases "Scan (p_s p)")
  have len: "length (sc_rest s) \<le> length (sc_rest (p_s p)) \<and> (fst u \<noteq> T_EOF \<longrightarrow> length (sc_rest s) < length (sc_rest (p_s p)))"
    using u Scan_shorter [OF u] Scan_end [of "p_s p"] by (cases "sc_rest (p_s p) = []") (auto simp: tok_pair_def)
  show ?case
  proof (cases "significant u")
    case True
    let ?i = "(p_i p + 1) mod 3"
    have p': "t = u" "p' = p\<lparr>p_s := s, p_i := ?i, p_buf := (p_buf p)[?i := u]\<rparr>"
      using 1(3,4) u True
      by (auto simp: scanIgnoreWhitespace.simps [of p] scan_def Let_def significant_def)
    have "(p_i p + 1) mod 3 < length (p_buf p)" "((p_i p + 1) mod 3 + 2) mod 3 = p_i p" "(p_i p + 1) mod 3 \<noteq> p_i p"
      using 1(2) by (auto simp: wf_parser_def mod_simps) presburger+
    moreover have "list_all significant ((p_buf p)[?i := u])"
      using 1(2) True by (auto simp: wf_parser_def list_all_iff dest: set_update_subset_insert [THEN subsetD])
    ultimately show ?thesis
      using 1(2,3) True len by (auto simp: p' wf_parser_def last_tok_def prev_tok_def)
  next
    case False
    have r: "scan p = (u, p\<lparr>p_s := s\<rparr>)"
      using False u 1(3) by (auto simp: scan_def significant_def)
    then have "scanIgnoreWhitespace (p\<lparr>p_s := s\<rparr>) = (t, p')"
      using 1(4) False by (simp add: scanIgnoreWhitespace.simps [of p] significant_def)
    moreover have "wf_parser (p\<lparr>p_s := s\<rparr>)" "p_n (p\<lparr>p_s := s\<rparr>) = 0"
      using 1(2,3) by (simp_all add: wf_parser_def)
    moreover have "fst u = T_WS \<or> fst u = T_COMMENT"
      using False by (simp add: significant_def)
    ultimately have "wf_parser p' \<and> p_n p' = 0 \<and> last_tok p' = t \<and> prev_tok p' = last_tok (p\<lparr>p_s := s\<rparr>)
        \<and> p_inmeta p' = p_inmeta (p\<lparr>p_s := s\<rparr>) \<and> significant t
        \<and> length (sc_rest (p_s p')) \<le> length (sc_rest (p_s (p\<lparr>p_s := s\<rparr>)))
        \<and> (fst t \<noteq> T_EOF \<longrightarrow> length (sc_rest (p_s p')) < length (sc_rest (p_s (p\<lparr>p_s := s\<rparr>))))"
      by (intro 1(1) [OF r [symmetric]])
    then show ?thesis
      using len by (auto simp: last_tok_def)
  qed
qed

text \<open>What every step of a parsing function uses of \<open>scanIgnoreWhitespace\<close>.\<close>

lemma scan_step:
  assumes "scanIgnoreWhitespace p = (t, p')" "wf_parser p"
  shows "wf_parser p'" "p_n p' = 0" "last_tok p' = t" "left p' \<le> left p" "fst t \<noteq> T_EOF \<Longrightarrow> left p' < left p"
    "wf_parser (unscan p')" "left (unscan p') \<le> left p"
proof -
  have *: "wf_parser p' \<and> p_n p' = 0 \<and> last_tok p' = t \<and> left p' \<le> left p \<and> (fst t \<noteq> T_EOF \<longrightarrow> left p' < left p)"
  proof (cases "p_n p = 0")
    case True
    then show ?thesis
      using scan_fresh [OF assms(2) True assms(1)] by (auto simp: left_def)
  next
    case False
    then have "p_n p = 1"
      using assms(2) by (simp add: wf_parser_def)
    then show ?thesis
      using assms scan_pending [of p] by (auto simp: left_def wf_parser_def last_tok_def)
  qed
  then show "wf_parser p'" "p_n p' = 0" "last_tok p' = t" "left p' \<le> left p" "fst t \<noteq> T_EOF \<Longrightarrow> left p' < left p"
    by auto
  show "wf_parser (unscan p')"
    using * by (simp add: wf_parser_def)
  show "left (unscan p') \<le> left p"
    using * by (auto simp: left_def)
qed

lemma neg_scan_step:
  assumes "scanIgnoreWhiteSpaceWithNegativeNum p = (t, p')" "wf_parser p"
  shows "wf_parser p'" "p_n p' = 0" "left p' \<le> left p" "fst t \<noteq> T_EOF \<Longrightarrow> left p' < left p"
    "fst t = T_IDENT \<Longrightarrow> last_tok p' = t"
proof -
  obtain u p1 where u: "scanIgnoreWhitespace p = (u, p1)"
    by (cases "scanIgnoreWhitespace p")
  note st = scan_step [OF u assms(2)]
  obtain w s1 where w: "ScanWhiteSpace (p_s p1) = (w, s1)"
    by (cases "ScanWhiteSpace (p_s p1)")
  obtain r s2 where r: "read s1 = (r, s2)"
    by (cases "read s1")
  have len: "length (sc_rest s2) \<le> length (sc_rest (p_s p1))" "length (sc_rest (unread s2)) \<le> length (sc_rest (p_s p1))"
    using ScanWhiteSpace_le [OF w] read_shorter [OF r] unread_read [OF r] by auto
  obtain n s3 where n: "ScanNumber False True (unread s2) = (n, s3)"
    by (cases "ScanNumber False True (unread s2)")
  have num: "length (sc_rest s3) \<le> length (sc_rest (p_s p1))" "fst n = T_NUMBER \<or> fst n = T_INTEGER"
    using ScanNumber_weak [OF n] len n by (auto simp: ScanNumber_def split: prod.splits if_splits)
  have "fst u \<noteq> T_SUB \<and> (t, p') = (u, p1) \<or> fst u = T_SUB \<and> (\<exists>s'. p' = p1\<lparr>p_s := s'\<rparr> \<and> length (sc_rest s') \<le> length (sc_rest (p_s p1))
      \<and> (fst t = T_SUB \<or> fst t = T_NUMBER \<or> fst t = T_INTEGER))"
    using assms(1) u w r n num len
    by (auto simp: scanIgnoreWhiteSpaceWithNegativeNum_def split: if_splits)
  then show "wf_parser p'" "p_n p' = 0" "left p' \<le> left p" "fst t \<noteq> T_EOF \<Longrightarrow> left p' < left p"
    "fst t = T_IDENT \<Longrightarrow> last_tok p' = t"
    using st by (auto simp: wf_parser_def left_def)
qed

lemma bindE_Inr_E:
  assumes "bindE r f = Inr y"
  obtains x p where "r = Inr (x, p)" "f x p = Inr y"
  using assms by (auto simp: bindE_def split: sum.splits)

lemma bindE_Inl_E:
  assumes "bindE r f = Inl e"
  obtains "r = Inl e" | x p where "r = Inr (x, p)" "f x p = Inl e"
  using assms by (auto simp: bindE_def split: sum.splits)

lemmas parse_split = prod.split_asm if_split_asm sum.split_asm option.split_asm
lemma scan_dest:
  "scanIgnoreWhitespace p = ((t, lit), p') \<Longrightarrow> wf_parser p \<Longrightarrow>
   wf_parser p' \<and> wf_parser (unscan p') \<and> left p' \<le> left p \<and> left (unscan p') \<le> left p \<and> (t \<noteq> T_EOF \<longrightarrow> left p' < left p)"
  using scan_step [of p "(t, lit)" p'] by simp

lemma neg_dest:
  "scanIgnoreWhiteSpaceWithNegativeNum p = ((t, lit), p') \<Longrightarrow> wf_parser p \<Longrightarrow>
   wf_parser p' \<and> left p' \<le> left p \<and> (t \<noteq> T_EOF \<longrightarrow> left p' < left p)"
  using neg_scan_step [of p "(t, lit)" p'] by simp

section \<open>Functions that call no expression parser\<close>

lemma name_sections_step:
  "name_sections p = (ns, p') \<Longrightarrow> wf_parser p \<Longrightarrow> wf_parser p' \<and> left p' \<le> left p \<and> (ns \<noteq> [] \<longrightarrow> left p' < left p)"
proof (induction p arbitrary: ns p' rule: name_sections.induct)
  case (1 p)
  obtain t lit p1 where t: "scanIgnoreWhitespace p = ((t, lit), p1)"
    by (metis surj_pair)
  obtain t1 lit1 p2 where t1: "scanIgnoreWhitespace p1 = ((t1, lit1), p2)"
    by (metis surj_pair)
  note st = scan_step [OF t 1(3)]
  note st1 = scan_step [OF t1 st(1)]
  show ?case
  proof (cases "(t = T_IDENT \<or> t = T_ASTERISK) \<and> AllowedSFNToken t1")
    case True
    then obtain ns' where "name_sections p2 = (ns', p')" "ns = lit # ns'"
      using 1(2) t t1 by (auto simp: name_sections.simps [of p] split: prod.splits)
    then show ?thesis
      using 1(1) [of "(t, lit)" p1 t lit "(t1, lit1)" p2 t1 lit1] t t1 True st st1 by fastforce
  next
    case False
    then show ?thesis
      using 1(2) t t1 st st1 by (auto simp: name_sections.simps [of p] split: if_splits)
  qed
qed

lemma source_loop_step:
  "source_loop segs al p = Inr (x, p') \<Longrightarrow> wf_parser p \<Longrightarrow> wf_parser p' \<and> left p' \<le> left p"
proof (induction segs al p arbitrary: x p' rule: source_loop.induct)
  case (1 segs al p)
  obtain t lit p1 where t: "scanIgnoreWhitespace p = ((t, lit), p1)"
    by (metis surj_pair)
  obtain t1 lit1 p2 where t1: "scanIgnoreWhitespace p1 = ((t1, lit1), p2)"
    by (metis surj_pair)
  obtain t2 lit2 p3 where t2: "scanIgnoreWhitespace p2 = ((t2, lit2), p3)"
    by (metis surj_pair)
  note st = scan_step [OF t 1(4)]
  note st1 = scan_step [OF t1 st(1)]
  note st2 = scan_step [OF t2 st1(1)]
  show ?case
    using 1(3) t t1 t2 st st1 st2 1(1) [of "(t, lit)" p1 t lit "(t1, lit1)" p2 t1 lit1 "(t2, lit2)" p3 t2 lit2 x p']
      1(2) [of "(t, lit)" p1 t lit "(t1, lit1)" p2 t1 lit1 x p']
    by (auto simp: source_loop.simps [of segs al p] split: if_splits)
qed

lemma source_loop_fuel: "source_loop segs al p \<noteq> Inl OutOfFuel"
proof (induction segs al p rule: source_loop.induct)
  case (1 segs al p)
  then show ?case
    by (auto simp: source_loop.simps [of segs al p] split: prod.splits)
qed

lemma parseFieldNameSections_step:
  "parseFieldNameSections p = Inr (ns, p') \<Longrightarrow> wf_parser p \<Longrightarrow> wf_parser p' \<and> left p' < left p"
  by (auto simp: parseFieldNameSections_def split: parse_split dest!: name_sections_step)

lemma parseFieldNameSections_fuel: "parseFieldNameSections p \<noteq> Inl OutOfFuel"
  by (simp add: parseFieldNameSections_def split: prod.splits)

lemma parseSourceLiteral_step: "parseSourceLiteral p = Inr (x, p') \<Longrightarrow> wf_parser p \<Longrightarrow> wf_parser p' \<and> left p' \<le> left p"
  by (auto simp: parseSourceLiteral_def elim!: bindE_Inr_E dest!: source_loop_step)

lemma parseSourceLiteral_fuel: "parseSourceLiteral p \<noteq> Inl OutOfFuel"
  by (auto simp: parseSourceLiteral_def source_loop_fuel elim!: bindE_Inl_E)

lemma parseSource_step: "parseSource p = Inr (x, p') \<Longrightarrow> wf_parser p \<Longrightarrow> wf_parser p' \<and> left p' \<le> left p"
  by (auto simp: parseSource_def split: parse_split elim!: bindE_Inr_E dest!: scan_dest parseSourceLiteral_step)

lemma parseSource_fuel: "parseSource p \<noteq> Inl OutOfFuel"
  by (auto simp: parseSource_def parseSourceLiteral_fuel split: parse_split elim!: bindE_Inl_E)

lemma parseAlias_step: "parseAlias p = Inr (x, p') \<Longrightarrow> wf_parser p \<Longrightarrow> wf_parser p' \<and> left p' \<le> left p"
  by (auto simp: parseAlias_def split: parse_split dest!: scan_dest)

lemma parseAlias_fuel: "parseAlias p \<noteq> Inl OutOfFuel"
  by (auto simp: parseAlias_def split: parse_split)

lemma parseColonExpr_step: "parseColonExpr i p = Inr (x, p') \<Longrightarrow> wf_parser p \<Longrightarrow> wf_parser p' \<and> left p' \<le> left p"
  by (auto simp: parseColonExpr_def split: parse_split dest!: scan_dest neg_dest)

lemma parseColonExpr_fuel: "parseColonExpr i p \<noteq> Inl OutOfFuel"
  by (auto simp: parseColonExpr_def split: parse_split)

lemma parseBracketExpr_step: "parseBracketExpr p = Inr (x, p') \<Longrightarrow> wf_parser p \<Longrightarrow> wf_parser p' \<and> left p' \<le> left p"
  by (auto simp: parseBracketExpr_def split: parse_split dest!: scan_dest neg_dest parseColonExpr_step)

lemma parseBracketExpr_fuel: "parseBracketExpr p \<noteq> Inl OutOfFuel"
  by (auto simp: parseBracketExpr_def parseColonExpr_fuel split: parse_split)

text \<open>The identifier is put back together with the token after it, so that the name is read again from the buffer.\<close>

lemma name_after_two_unscans:
  assumes "wf_parser p" "p_n p = 0" "fst (last_tok p) = T_IDENT" "scanIgnoreWhitespace p = (t, p')"
  shows "scanIgnoreWhitespace (unscan (unscan p')) = (last_tok p, unscan p')"
proof -
  have f: "wf_parser p'" "p_n p' = 0" "prev_tok p' = last_tok p"
    using scan_fresh [OF assms(1,2,4)] by auto
  have "(p_i p' + 2) mod 3 = (p_i p' + 3 - 1) mod 3"
    by simp
  then have "curr ((unscan (unscan p'))\<lparr>p_n := 1\<rparr>) = last_tok p"
    using f(3) by (simp add: curr_def prev_tok_def)
  moreover have "(unscan (unscan p'))\<lparr>p_n := 1\<rparr> = unscan p'"
    using f(2) by (simp add: unscan_def)
  ultimately have "scan (unscan (unscan p')) = (last_tok p, unscan p')"
    using f(2) by (simp add: scan_def Let_def)
  then show ?thesis
    using assms(3) by (simp add: scanIgnoreWhitespace.simps [of "unscan (unscan p')"])
qed

lemma two_unscans_step:
  assumes "wf_parser p" "p_n p = 0" "fst (last_tok p) = T_IDENT" "scanIgnoreWhitespace p = (t, p')"
    "parseFieldNameSections (unscan (unscan p')) = Inr (ns, q)"
  shows "wf_parser q \<and> left q \<le> left p"
proof -
  note st = scan_step [OF assms(4,1)]
  obtain t1 lit1 p2 where t1: "scanIgnoreWhitespace (unscan p') = ((t1, lit1), p2)"
    by (metis surj_pair)
  note st1 = scan_step [OF t1 st(6)]
  obtain lit where lit: "last_tok p = (T_IDENT, lit)"
    using assms(3) by (cases "last_tok p") auto
  have "name_sections (unscan (unscan p')) =
      (if AllowedSFNToken t1 then (case name_sections p2 of (ns, p3) \<Rightarrow> (lit # ns, p3)) else ([lit], unscan p2))"
    using name_after_two_unscans [OF assms(1-4)] t1 lit by (simp add: name_sections.simps [of "unscan (unscan p')"])
  then show ?thesis
    using assms(5) st st1 name_sections_step [of p2]
    by (auto simp: parseFieldNameSections_def split: parse_split)
qed

section \<open>Functions that call an expression parser\<close>

text \<open>
  What the functions rely on of the expression parser they are given: it keeps the buffer well-formed, it consumes something when it
  succeeds, and it does not run out of fuel on an input below its bound.
\<close>

locale expr_parser_ok =
  fixes pe :: expr_parser and m :: nat
  assumes pe_step: "pe p = Inr (x, p') \<Longrightarrow> wf_parser p \<Longrightarrow> wf_parser p' \<and> left p' < left p"
    and pe_fuel: "wf_parser p \<Longrightarrow> left p < m \<Longrightarrow> pe p \<noteq> Inl OutOfFuel"
begin

lemma pe_out: "pe p = Inl OutOfFuel \<Longrightarrow> wf_parser p \<Longrightarrow> m \<le> left p"
  using pe_fuel [of p] by (meson not_le)

lemma parseFilter_step: "parseFilter pe p = Inr (x, p') \<Longrightarrow> wf_parser p \<Longrightarrow> wf_parser p' \<and> left p' \<le> left p"
  by (auto simp: parseFilter_def split: parse_split elim!: bindE_Inr_E dest!: scan_dest pe_step)

lemma parseFilter_out: "parseFilter pe p = Inl OutOfFuel \<Longrightarrow> wf_parser p \<Longrightarrow> m \<le> left p"
  by (auto simp: parseFilter_def split: parse_split elim!: bindE_Inl_E dest!: scan_dest pe_out)

lemma call_loop_step:
  "call_loop ext pe name k args p = Inr (x, p') \<Longrightarrow> wf_parser p \<Longrightarrow> wf_parser p' \<and> left p' \<le> left p"
proof (induction k arbitrary: args p)
  case (Suc k)
  then show ?case
    by (auto split: parse_split elim!: bindE_Inr_E dest!: scan_dest pe_step Suc.IH)
qed simp

lemma call_loop_out:
  "call_loop ext pe name k args p = Inl OutOfFuel \<Longrightarrow> wf_parser p \<Longrightarrow> left p < m \<Longrightarrow> k \<le> left p"
proof (induction k arbitrary: args p)
  case (Suc k)
  then show ?case
    by (auto split: parse_split elim!: bindE_Inl_E dest!: scan_dest pe_step pe_out Suc.IH)
qed simp

lemma end_call_step: "end_call ext pe name args p = Inr (x, p') \<Longrightarrow> wf_parser p \<Longrightarrow> wf_parser p' \<and> left p' \<le> left p"
  by (auto simp: end_call_def split: parse_split elim!: bindE_Inr_E dest!: scan_dest parseFilter_step)

lemma end_call_out: "end_call ext pe name args p = Inl OutOfFuel \<Longrightarrow> wf_parser p \<Longrightarrow> m \<le> left p"
  by (auto simp: end_call_def split: parse_split elim!: bindE_Inl_E dest!: scan_dest parseFilter_out)

lemma meta_flag [simp]: "wf_parser (p\<lparr>p_inmeta := b\<rparr>) = wf_parser p" "left (p\<lparr>p_inmeta := b\<rparr>) = left p"
  by (simp_all add: wf_parser_def left_def last_tok_def)

lemma parseCall_step: "parseCall ext pe n name p = Inr (x, p') \<Longrightarrow> wf_parser p \<Longrightarrow> wf_parser p' \<and> left p' \<le> left p"
  by (auto simp: parseCall_def Let_def split: parse_split elim!: bindE_Inr_E dest!: call_loop_step end_call_step)

lemma parseCall_out:
  "parseCall ext pe n name p = Inl OutOfFuel \<Longrightarrow> wf_parser p \<Longrightarrow> left p < m \<Longrightarrow> n \<le> left p"
  by (auto simp: parseCall_def Let_def split: parse_split elim!: bindE_Inl_E dest!: call_loop_step call_loop_out end_call_out)

lemma case_loop_step:
  "case_loop pe v k ws els p = Inr (x, p') \<Longrightarrow> wf_parser p \<Longrightarrow> wf_parser p' \<and> left p' \<le> left p"
proof (induction k arbitrary: v ws els p)
  case (Suc k)
  then show ?case
    by (auto split: parse_split elim!: bindE_Inr_E dest!: scan_dest pe_step Suc.IH)
qed simp

lemma case_loop_out:
  "case_loop pe v k ws els p = Inl OutOfFuel \<Longrightarrow> wf_parser p \<Longrightarrow> left p < m \<Longrightarrow> k \<le> left p"
proof (induction k arbitrary: v ws els p)
  case (Suc k)
  then show ?case
    by (auto split: parse_split elim!: bindE_Inl_E dest!: scan_dest pe_step pe_out Suc.IH)
qed simp

lemma parseCaseExpr_step: "parseCaseExpr pe n p = Inr (x, p') \<Longrightarrow> wf_parser p \<Longrightarrow> wf_parser p' \<and> left p' \<le> left p"
  by (auto simp: parseCaseExpr_def split: parse_split elim!: bindE_Inr_E dest!: scan_dest pe_step case_loop_step)

lemma parseCaseExpr_out: "parseCaseExpr pe n p = Inl OutOfFuel \<Longrightarrow> wf_parser p \<Longrightarrow> left p < m \<Longrightarrow> n \<le> left p"
  by (auto simp: parseCaseExpr_def split: parse_split elim!: bindE_Inl_E dest!: scan_dest pe_step pe_out case_loop_out)

lemma parseUnaryExpr_step:
  assumes "parseUnaryExpr ext pe n b p = Inr (x, p')" "wf_parser p"
  shows "wf_parser p' \<and> left p' < left p"
proof -
  obtain t lit p1 where t: "scanIgnoreWhitespace p = ((t, lit), p1)"
    by (metis surj_pair)
  note st = scan_step [OF t assms(2)]
  consider "t = T_LPAREN" | "t = T_LBRACKET" | "t \<noteq> T_LPAREN" "t \<noteq> T_LBRACKET"
    by blast
  then show ?thesis
  proof cases
    case 1
    then show ?thesis
      using assms(1) t st by (auto simp: parseUnaryExpr_def split: parse_split elim!: bindE_Inr_E dest!: scan_dest pe_step)
  next
    case 2
    then show ?thesis
      using assms(1) t st parseBracketExpr_step [of p1 x p'] by (auto simp: parseUnaryExpr_def)
  next
    case 3
    obtain tk l p2 where u: "scanIgnoreWhiteSpaceWithNegativeNum (unscan p1) = ((tk, l), p2)"
      by (metis surj_pair)
    note un = neg_scan_step [OF u st(6)]
    obtain tk3 l3 p3 where v: "scanIgnoreWhitespace p2 = ((tk3, l3), p3)"
      by (metis surj_pair)
    have "wf_parser p' \<and> left p' \<le> left p2 \<and> tk \<noteq> T_EOF"
      using assms(1) t 3 u v un two_unscans_step [OF un(1,2) _ v] scan_dest [OF v un(1)]
      by (auto simp: parseUnaryExpr_def literal_expr_def IsTimeLiteral_def split: parse_split elim!: bindE_Inr_E
          dest!: parseCaseExpr_step parseCall_step)
    then show ?thesis
      using un(4) st(7) by simp
  qed
qed

lemma parseUnaryExpr_out:
  assumes "parseUnaryExpr ext pe n b p = Inl OutOfFuel" "wf_parser p" "left p \<le> m" "m \<le> n"
  shows False
proof -
  obtain t lit p1 where t: "scanIgnoreWhitespace p = ((t, lit), p1)"
    by (metis surj_pair)
  note st = scan_step [OF t assms(2)]
  consider "t = T_LPAREN" | "t = T_LBRACKET" | "t \<noteq> T_LPAREN" "t \<noteq> T_LBRACKET"
    by blast
  then show ?thesis
  proof cases
    case 1
    then show ?thesis
      using assms t st by (auto simp: parseUnaryExpr_def split: parse_split elim!: bindE_Inl_E dest!: pe_out)
  next
    case 2
    then show ?thesis
      using assms(1) t parseBracketExpr_fuel by (auto simp: parseUnaryExpr_def)
  next
    case 3
    obtain tk l p2 where u: "scanIgnoreWhiteSpaceWithNegativeNum (unscan p1) = ((tk, l), p2)"
      by (metis surj_pair)
    note un = neg_scan_step [OF u st(6)]
    obtain tk3 l3 p3 where v: "scanIgnoreWhitespace p2 = ((tk3, l3), p3)"
      by (metis surj_pair)
    have "left p2 < m" if "tk = T_CASE \<or> tk = T_IDENT"
      using un(4) st(7) assms(3) that by auto
    then show ?thesis
      using assms(1,4) t 3 u v un scan_dest [OF v un(1)] parseFieldNameSections_fuel
      by (auto simp: parseUnaryExpr_def literal_expr_def split: parse_split elim!: bindE_Inl_E dest!: parseCaseExpr_out parseCall_out)
  qed
qed

lemma expr_loop_step:
  "expr_loop (parseUnaryExpr ext pe n) k tree p = Inr (x, p') \<Longrightarrow> wf_parser p \<Longrightarrow> wf_parser p' \<and> left p' \<le> left p"
proof (induction k arbitrary: tree p)
  case (Suc k)
  then show ?case
    by (auto simp: Let_def split: parse_split elim!: bindE_Inr_E dest!: scan_dest parseUnaryExpr_step Suc.IH)
qed simp

lemma expr_loop_out:
  "expr_loop (parseUnaryExpr ext pe n) k tree p = Inl OutOfFuel \<Longrightarrow> wf_parser p \<Longrightarrow> left p \<le> m \<Longrightarrow> m \<le> n \<Longrightarrow> k \<le> left p"
proof (induction k arbitrary: tree p)
  case (Suc k)
  then show ?case
    by (auto simp: Let_def split: parse_split elim!: bindE_Inl_E dest!: scan_dest parseUnaryExpr_out parseUnaryExpr_step Suc.IH)
qed simp

text \<open>The clauses of a SELECT statement.\<close>

lemma parseCondition_step: "parseCondition pe p = Inr (x, p') \<Longrightarrow> wf_parser p \<Longrightarrow> wf_parser p' \<and> left p' \<le> left p"
  by (auto simp: parseCondition_def split: parse_split elim!: bindE_Inr_E dest!: scan_dest pe_step)

lemma parseCondition_out: "parseCondition pe p = Inl OutOfFuel \<Longrightarrow> wf_parser p \<Longrightarrow> m \<le> left p"
  by (auto simp: parseCondition_def split: parse_split elim!: bindE_Inl_E dest!: scan_dest pe_out)

lemma parseHaving_step: "parseHaving pe p = Inr (x, p') \<Longrightarrow> wf_parser p \<Longrightarrow> wf_parser p' \<and> left p' \<le> left p"
  by (auto simp: parseHaving_def split: parse_split elim!: bindE_Inr_E dest!: scan_dest pe_step)

lemma parseHaving_out: "parseHaving pe p = Inl OutOfFuel \<Longrightarrow> wf_parser p \<Longrightarrow> m \<le> left p"
  by (auto simp: parseHaving_def split: parse_split elim!: bindE_Inl_E dest!: scan_dest pe_out)

lemma ParseJoin_step: "ParseJoin pe jt p = Inr (x, p') \<Longrightarrow> wf_parser p \<Longrightarrow> wf_parser p' \<and> left p' \<le> left p"
  by (auto simp: ParseJoin_def Let_def split: parse_split elim!: bindE_Inr_E dest!: scan_dest pe_step parseSourceLiteral_step)

lemma ParseJoin_out: "ParseJoin pe jt p = Inl OutOfFuel \<Longrightarrow> wf_parser p \<Longrightarrow> m \<le> left p"
  by (auto simp: ParseJoin_def Let_def parseSourceLiteral_fuel split: parse_split elim!: bindE_Inl_E
      dest!: scan_dest pe_out parseSourceLiteral_step)

lemma join_type_EOF [simp]: "join_type T_EOF = None"
  by (simp add: join_type_def)

lemma parseJoins_step: "parseJoins pe k js p = Inr (x, p') \<Longrightarrow> wf_parser p \<Longrightarrow> wf_parser p' \<and> left p' \<le> left p"
proof (induction k arbitrary: js p)
  case (Suc k)
  then show ?case
    by (auto split: parse_split elim!: bindE_Inr_E dest!: scan_dest ParseJoin_step Suc.IH)
qed simp

lemma parseJoins_out: "parseJoins pe k js p = Inl OutOfFuel \<Longrightarrow> wf_parser p \<Longrightarrow> left p < m \<Longrightarrow> k \<le> left p"
proof (induction k arbitrary: js p)
  case (Suc k)
  then show ?case
    by (auto split: parse_split elim!: bindE_Inl_E dest!: scan_dest ParseJoin_step ParseJoin_out Suc.IH)
qed simp

lemma dim_loop_step: "dim_loop pe k ds p = Inr (x, p') \<Longrightarrow> wf_parser p \<Longrightarrow> wf_parser p' \<and> left p' \<le> left p"
proof (induction k arbitrary: ds p)
  case (Suc k)
  then show ?case
    by (auto split: parse_split elim!: bindE_Inr_E dest!: scan_dest pe_step Suc.IH)
qed simp

lemma dim_loop_out: "dim_loop pe k ds p = Inl OutOfFuel \<Longrightarrow> wf_parser p \<Longrightarrow> left p < m \<Longrightarrow> k \<le> left p"
proof (induction k arbitrary: ds p)
  case (Suc k)
  then show ?case
    by (auto split: parse_split elim!: bindE_Inl_E dest!: scan_dest pe_step pe_out Suc.IH)
qed simp

lemma parseDimensions_step: "parseDimensions pe n p = Inr (x, p') \<Longrightarrow> wf_parser p \<Longrightarrow> wf_parser p' \<and> left p' \<le> left p"
  by (auto simp: parseDimensions_def split: parse_split dest!: scan_dest dim_loop_step)

lemma parseDimensions_out: "parseDimensions pe n p = Inl OutOfFuel \<Longrightarrow> wf_parser p \<Longrightarrow> left p < m \<Longrightarrow> n \<le> left p"
  by (auto simp: parseDimensions_def split: parse_split dest!: scan_dest dim_loop_out)

lemma parseField_step: "parseField pe p = Inr (x, p') \<Longrightarrow> wf_parser p \<Longrightarrow> wf_parser p' \<and> left p' < left p"
  by (auto simp: parseField_def elim!: bindE_Inr_E dest!: pe_step parseAlias_step)

lemma parseField_out: "parseField pe p = Inl OutOfFuel \<Longrightarrow> wf_parser p \<Longrightarrow> m \<le> left p"
  by (auto simp: parseField_def parseAlias_fuel elim!: bindE_Inl_E dest!: pe_step pe_out)

lemma fields_loop_step: "fields_loop pe k fs p = Inr (x, p') \<Longrightarrow> wf_parser p \<Longrightarrow> wf_parser p' \<and> left p' \<le> left p"
proof (induction k arbitrary: fs p)
  case (Suc k)
  then show ?case
    by (auto split: parse_split elim!: bindE_Inr_E dest!: scan_dest parseField_step Suc.IH)
qed simp

lemma fields_loop_out: "fields_loop pe k fs p = Inl OutOfFuel \<Longrightarrow> wf_parser p \<Longrightarrow> left p < m \<Longrightarrow> k \<le> left p"
proof (induction k arbitrary: fs p)
  case (Suc k)
  then show ?case
    by (auto split: parse_split elim!: bindE_Inl_E dest!: scan_dest parseField_step parseField_out Suc.IH)
qed simp

lemma parseFields_step: "parseFields pe n p = Inr (x, p') \<Longrightarrow> wf_parser p \<Longrightarrow> wf_parser p' \<and> left p' \<le> left p"
  by (auto simp: parseFields_def split: parse_split dest!: scan_dest fields_loop_step)

lemma parseFields_out: "parseFields pe n p = Inl OutOfFuel \<Longrightarrow> wf_parser p \<Longrightarrow> left p < m \<Longrightarrow> n \<le> left p"
  by (auto simp: parseFields_def split: parse_split dest!: scan_dest fields_loop_out)

end

section \<open>ParseExpr\<close>

lemma ParseExpr_ok: "expr_parser_ok (ParseExpr ext n) n"
proof (induction n)
  case 0
  then show ?case
    by unfold_locales simp_all
next
  case (Suc n)
  note unary = expr_parser_ok.parseUnaryExpr_step [OF Suc] expr_parser_ok.parseUnaryExpr_out [OF Suc]
  note loop = expr_parser_ok.expr_loop_step [OF Suc] expr_parser_ok.expr_loop_out [OF Suc]
  show ?case
  proof
    fix p x p'
    assume "ParseExpr ext (Suc n) p = Inr (x, p')" "wf_parser p"
    then show "wf_parser p' \<and> left p' < left p"
      by (auto elim!: bindE_Inr_E dest!: unary(1) loop(1))
  next
    fix p
    assume p: "wf_parser p" "left p < Suc n"
    show "ParseExpr ext (Suc n) p \<noteq> Inl OutOfFuel"
    proof
      assume "ParseExpr ext (Suc n) p = Inl OutOfFuel"
      then show False
        using p by (auto elim!: bindE_Inl_E dest!: unary(1) dest: unary(2) loop(2))
    qed
  qed
qed

interpretation parse_expr: expr_parser_ok "ParseExpr ext n" n
  for ext n
  by (rule ParseExpr_ok)

section \<open>Statements\<close>

lemma sort_loop_step: "sort_loop k ss p = Inr (x, p') \<Longrightarrow> wf_parser p \<Longrightarrow> wf_parser p' \<and> left p' \<le> left p"
proof (induction k arbitrary: ss p)
  case (Suc k)
  then show ?case
    by (auto simp: Let_def split: parse_split elim!: bindE_Inr_E dest!: scan_dest parseFieldNameSections_step Suc.IH)
qed simp

lemma sort_loop_out: "sort_loop k ss p = Inl OutOfFuel \<Longrightarrow> wf_parser p \<Longrightarrow> k \<le> left p"
proof (induction k arbitrary: ss p)
  case (Suc k)
  then show ?case
    by (auto simp: Let_def parseFieldNameSections_fuel split: parse_split elim!: bindE_Inl_E
        dest!: scan_dest parseFieldNameSections_step Suc.IH)
qed simp

lemma parseSorts_step: "parseSorts n p = Inr (x, p') \<Longrightarrow> wf_parser p \<Longrightarrow> wf_parser p' \<and> left p' \<le> left p"
  by (auto simp: parseSorts_def split: parse_split dest!: scan_dest sort_loop_step)

lemma parseSorts_out: "parseSorts n p = Inl OutOfFuel \<Longrightarrow> wf_parser p \<Longrightarrow> n \<le> left p"
  by (auto simp: parseSorts_def split: parse_split dest!: scan_dest sort_loop_out)

lemmas clause_steps = parse_expr.parseFields_step parseSource_step parse_expr.parseJoins_step parse_expr.parseCondition_step
  parse_expr.parseDimensions_step parse_expr.parseHaving_step parseSorts_step

lemmas clause_outs = parse_expr.parseFields_out parse_expr.parseJoins_out parse_expr.parseCondition_out
  parse_expr.parseDimensions_out parse_expr.parseHaving_out parseSorts_out

lemma Parse_step: "Parse ext rt n p = Inr (x, p') \<Longrightarrow> wf_parser p \<Longrightarrow> wf_parser p' \<and> left p' \<le> left p"
  by (auto simp: Parse_def Let_def split: parse_split elim!: bindE_Inr_E dest!: scan_dest clause_steps)

lemma Validate_fuel: "Validate rt st \<noteq> Some OutOfFuel"
  by (simp add: Validate_def)

lemma Parse_out: "Parse ext rt n p = Inl OutOfFuel \<Longrightarrow> wf_parser p \<Longrightarrow> n \<le> left p"
  by (auto simp: Parse_def Let_def parseSource_fuel Validate_fuel split: parse_split elim!: bindE_Inl_E
      dest!: scan_dest clause_steps dest: clause_outs)

lemma queries_loop_step: "queries_loop ext rt n k ss p = Inr (x, p') \<Longrightarrow> wf_parser p \<Longrightarrow> wf_parser p' \<and> left p' \<le> left p"
proof (induction k arbitrary: ss p)
  case (Suc k)
  then show ?case
    by (auto split: parse_split elim!: bindE_Inr_E dest!: scan_dest Parse_step Suc.IH)
qed simp

lemma queries_loop_out: "queries_loop ext rt n k ss p = Inl OutOfFuel \<Longrightarrow> wf_parser p \<Longrightarrow> left p < n \<Longrightarrow> k \<le> left p"
proof (induction k arbitrary: ss p)
  case (Suc k)
  then show ?case
    by (auto split: parse_split elim!: bindE_Inl_E dest!: scan_dest Parse_step Parse_out Suc.IH)
qed simp

lemma ParseQueries_step: "ParseQueries ext rt n p = Inr (x, p') \<Longrightarrow> wf_parser p \<Longrightarrow> wf_parser p' \<and> left p' \<le> left p"
  by (auto simp: ParseQueries_def split: parse_split elim!: bindE_Inr_E dest!: Parse_step queries_loop_step)

lemma ParseQueries_out: "ParseQueries ext rt n p = Inl OutOfFuel \<Longrightarrow> wf_parser p \<Longrightarrow> n \<le> left p"
  by (force simp: ParseQueries_def split: parse_split elim!: bindE_Inl_E dest!: Parse_step dest: Parse_out queries_loop_out)

text \<open>What the functions for field types rely on of \<^verbatim>\<open>parseStreamFields\<close>.\<close>

locale fields_parser_ok =
  fixes psf :: "pstate \<Rightarrow> StreamFields presult" and m :: nat
  assumes psf_step: "psf p = Inr (x, p') \<Longrightarrow> wf_parser p \<Longrightarrow> wf_parser p' \<and> left p' \<le> left p"
    and psf_fuel: "wf_parser p \<Longrightarrow> left p < m \<Longrightarrow> psf p \<noteq> Inl OutOfFuel"
begin

lemma psf_out: "psf p = Inl OutOfFuel \<Longrightarrow> wf_parser p \<Longrightarrow> m \<le> left p"
  using psf_fuel [of p] by (meson not_le)

lemma parseStreamStructType_step:
  "parseStreamStructType psf p = Inr (x, p') \<Longrightarrow> wf_parser p \<Longrightarrow> wf_parser p' \<and> left p' \<le> left p"
  by (auto simp: parseStreamStructType_def split: parse_split elim!: bindE_Inr_E dest!: scan_dest psf_step)

lemma parseStreamStructType_out: "parseStreamStructType psf p = Inl OutOfFuel \<Longrightarrow> wf_parser p \<Longrightarrow> m \<le> left p"
  by (auto simp: parseStreamStructType_def split: parse_split elim!: bindE_Inl_E dest!: psf_out)

lemma parseStreamArrayType_step:
  "parseStreamArrayType psf p = Inr (x, p') \<Longrightarrow> wf_parser p \<Longrightarrow> wf_parser p' \<and> left p' \<le> left p"
  by (auto simp: parseStreamArrayType_def Let_def split: parse_split elim!: bindE_Inr_E
      dest!: scan_dest parseStreamStructType_step)

lemma parseStreamArrayType_out: "parseStreamArrayType psf p = Inl OutOfFuel \<Longrightarrow> wf_parser p \<Longrightarrow> m \<le> left p"
  by (auto simp: parseStreamArrayType_def Let_def split: parse_split elim!: bindE_Inl_E
      dest!: scan_dest parseStreamStructType_out)

lemma parseStreamField_step: "parseStreamField psf p = Inr (x, p') \<Longrightarrow> wf_parser p \<Longrightarrow> wf_parser p' \<and> left p' < left p"
  by (auto simp: parseStreamField_def Let_def split: parse_split elim!: bindE_Inr_E
      dest!: scan_dest parseStreamStructType_step parseStreamArrayType_step)

lemma parseStreamField_out: "parseStreamField psf p = Inl OutOfFuel \<Longrightarrow> wf_parser p \<Longrightarrow> m \<le> left p"
  by (auto simp: parseStreamField_def Let_def split: parse_split elim!: bindE_Inl_E
      dest!: scan_dest parseStreamStructType_out parseStreamArrayType_out)

lemma stream_fields_loop_step:
  "stream_fields_loop psf k st fs p = Inr (x, p') \<Longrightarrow> wf_parser p \<Longrightarrow> wf_parser p' \<and> left p' \<le> left p"
proof (induction k arbitrary: st fs p)
  case (Suc k)
  then show ?case
    by (auto simp: Let_def split: parse_split elim!: bindE_Inr_E dest!: scan_dest parseStreamField_step Suc.IH)
qed simp

lemma stream_fields_loop_out:
  "stream_fields_loop psf k st fs p = Inl OutOfFuel \<Longrightarrow> wf_parser p \<Longrightarrow> left p < m \<Longrightarrow> k \<le> left p"
proof (induction k arbitrary: st fs p)
  case (Suc k)
  then show ?case
    by (auto simp: Let_def split: parse_split elim!: bindE_Inl_E dest!: scan_dest parseStreamField_step parseStreamField_out Suc.IH)
qed simp

end

lemma parseStreamFields_ok: "fields_parser_ok (parseStreamFields n) n"
proof (induction n)
  case 0
  then show ?case
    by unfold_locales simp_all
next
  case (Suc n)
  note loop = fields_parser_ok.stream_fields_loop_step [OF Suc] fields_parser_ok.stream_fields_loop_out [OF Suc]
  show ?case
  proof
    fix p x p'
    assume "parseStreamFields (Suc n) p = Inr (x, p')" "wf_parser p"
    then show "wf_parser p' \<and> left p' \<le> left p"
      by (auto split: parse_split dest!: scan_dest loop(1))
  next
    fix p
    assume p: "wf_parser p" "left p < Suc n"
    show "parseStreamFields (Suc n) p \<noteq> Inl OutOfFuel"
    proof
      assume "parseStreamFields (Suc n) p = Inl OutOfFuel"
      then show False
        using p by (auto split: parse_split dest!: scan_dest dest: loop(2))
    qed
  qed
qed

interpretation stream_fields: fields_parser_ok "parseStreamFields n" n
  for n
  by (rule parseStreamFields_ok)

lemma options_loop_step: "options_loop k st opts p = Inr (x, p') \<Longrightarrow> wf_parser p \<Longrightarrow> wf_parser p' \<and> left p' \<le> left p"
proof (induction k arbitrary: opts p)
  case (Suc k)
  then show ?case
    by (auto split: parse_split dest!: scan_dest Suc.IH)
qed simp

lemma set_option_fuel: "set_option t l opts \<noteq> Inl OutOfFuel"
  by (auto simp: set_option_def Let_def split: option.splits)

lemma options_loop_out: "options_loop k st opts p = Inl OutOfFuel \<Longrightarrow> wf_parser p \<Longrightarrow> k \<le> left p"
proof (induction k arbitrary: opts p)
  case (Suc k)
  then show ?case
    by (auto simp: option_tokens_def set_option_fuel split: parse_split dest!: scan_dest Suc.IH)
qed simp

lemma parseStreamOptions_step: "parseStreamOptions n p = Inr (x, p') \<Longrightarrow> wf_parser p \<Longrightarrow> wf_parser p' \<and> left p' \<le> left p"
  by (auto simp: parseStreamOptions_def split: parse_split dest!: scan_dest options_loop_step)

lemma parseStreamOptions_out: "parseStreamOptions n p = Inl OutOfFuel \<Longrightarrow> wf_parser p \<Longrightarrow> n \<le> left p"
  by (auto simp: parseStreamOptions_def split: parse_split dest!: scan_dest options_loop_out)

lemma ParseCreateStmt_step: "ParseCreateStmt n p = Inr (x, p') \<Longrightarrow> wf_parser p \<Longrightarrow> wf_parser p' \<and> left p' \<le> left p"
  by (auto simp: ParseCreateStmt_def Let_def split: parse_split elim!: bindE_Inr_E
      dest!: scan_dest stream_fields.psf_step parseStreamOptions_step)

lemma validateStream_fuel: "validateStream st \<noteq> Some OutOfFuel"
  by (auto simp: validateStream_def Let_def split: option.splits list.splits)

lemma ParseCreateStmt_out: "ParseCreateStmt n p = Inl OutOfFuel \<Longrightarrow> wf_parser p \<Longrightarrow> n \<le> left p"
  by (auto simp: ParseCreateStmt_def Let_def validateStream_fuel split: parse_split elim!: bindE_Inl_E
      dest!: scan_dest stream_fields.psf_step dest: stream_fields.psf_out parseStreamOptions_out)

lemma parse_named_step: "parse_named kw f g p = Inr (x, p') \<Longrightarrow> wf_parser p \<Longrightarrow> wf_parser p' \<and> left p' \<le> left p"
  by (auto simp: parse_named_def split: parse_split dest!: scan_dest)

lemma parse_named_fuel: "parse_named kw f g p \<noteq> Inl OutOfFuel"
  by (auto simp: parse_named_def split: parse_split)

lemma parseShowStmt_step:
  assumes "parseShowStmt p = Inr (x, p')" "wf_parser p"
  shows "wf_parser p' \<and> left p' \<le> left p"
proof -
  obtain t l p1 where a: "scanIgnoreWhitespace p = ((t, l), p1)"
    by (metis surj_pair)
  obtain t1 l1 p2 where b: "scanIgnoreWhitespace p1 = ((t1, l1), p2)"
    by (metis surj_pair)
  obtain t2 l2 p3 where c: "scanIgnoreWhitespace p2 = ((t2, l2), p3)"
    by (metis surj_pair)
  have "p' = p3 \<or> p' = unscan p1"
    using assms(1) by (simp add: parseShowStmt_def a b c split: if_split_asm)
  then show ?thesis
    using scan_dest [OF a assms(2)] scan_dest [OF b] scan_dest [OF c] by auto
qed

lemma parseShowStmt_fuel: "parseShowStmt p \<noteq> Inl OutOfFuel"
  by (auto simp: parseShowStmt_def split: parse_split)

lemmas named_defs = parseDescribeStmt_def parseExplainStmt_def parseDropStmt_def

lemma Language_Parse_step: "Language_Parse ext rt n p = Inr (x, p') \<Longrightarrow> wf_parser p \<Longrightarrow> wf_parser p' \<and> left p' \<le> left p"
  by (auto simp: Language_Parse_def named_defs Let_def split: parse_split elim!: bindE_Inr_E
      dest!: scan_dest Parse_step ParseCreateStmt_step parse_named_step parseShowStmt_step)

lemma Language_Parse_out: "Language_Parse ext rt n p = Inl OutOfFuel \<Longrightarrow> wf_parser p \<Longrightarrow> n \<le> left p"
  by (auto simp: Language_Parse_def named_defs Let_def parse_named_fuel parseShowStmt_fuel split: parse_split elim!: bindE_Inl_E
      dest!: scan_dest dest: Parse_out ParseCreateStmt_out)

text \<open>
  (C6) Parsing terminates on every text: with one more unit of fuel than the text has characters, no statement parser runs out of fuel,
  whatever the text, so every loop and every recursion of the parser ends.
\<close>

theorem parser_terminates:
  "Language_Parse ext rt (sql_fuel sql) (NewParser sql) \<noteq> Inl OutOfFuel \<and>
   ParseQueries ext rt (sql_fuel sql) (NewParser sql) \<noteq> Inl OutOfFuel \<and>
   ParseExpr ext (sql_fuel sql) (NewParser sql) \<noteq> Inl OutOfFuel"
proof -
  have "left (NewParser sql) < sql_fuel sql"
    by (simp add: left_NewParser sql_fuel_def)
  then show ?thesis
    using Language_Parse_out [OF _ wf_NewParser] ParseQueries_out [OF _ wf_NewParser] parse_expr.pe_out [OF _ wf_NewParser]
    by (meson leD)
qed

text \<open>
  The look-ahead buffer stays well-formed: after a successful statement at most one token is pending, the index lies in the ring and
  nothing but significant tokens is stored, so that the ring of three slots is large enough for every \<^verbatim>\<open>unscan\<close>.
\<close>

theorem parser_buffer_invariant:
  "(Language_Parse ext rt n (NewParser sql) = Inr (x, p) \<longrightarrow> wf_parser p) \<and>
   (ParseQueries ext rt n (NewParser sql) = Inr (y, q) \<longrightarrow> wf_parser q) \<and>
   (ParseExpr ext n (NewParser sql) = Inr (e, r) \<longrightarrow> wf_parser r)"
  using Language_Parse_step wf_NewParser ParseQueries_step parse_expr.pe_step by blast

theorem parser_buffer_invariant_witness:
  "\<exists>p. Language_Parse (\<lambda>_ _. None) (\<lambda>_. False) 13 (NewParser ''SHOW STREAMS'') = Inr (Some ShowStreamsStatement, p) \<and> wf_parser p"
proof -
  have "map_sum id fst (Language_Parse (\<lambda>_ _. None) (\<lambda>_. False) 13 (NewParser ''SHOW STREAMS'')) = Inr (Some ShowStreamsStatement)"
    by code_simp
  then obtain p where "Language_Parse (\<lambda>_ _. None) (\<lambda>_. False) 13 (NewParser ''SHOW STREAMS'') = Inr (Some ShowStreamsStatement, p)"
    by (cases "Language_Parse (\<lambda>_ _. None) (\<lambda>_. False) 13 (NewParser ''SHOW STREAMS'')") auto
  then show ?thesis
    using parser_buffer_invariant by blast
qed

end
