(* ===== verification/ExprTrees.thy ===== *)
theory ExprTrees
  imports ParserProofs
begin

text \<open>
  The trees that \<^verbatim>\<open>ParseExpr\<close> builds. An expression is read as a first operand and a sequence of operators with their operands; the inner
  loop inserts each operator on the right spine. The result is the one tree over that sequence in which every operator binds tighter
  than, or as tight as and further left than, the operators above it.
\<close>

section \<open>Precedence-ordered trees\<close>

fun is_bin :: "expr \<Rightarrow> bool" where
  "is_bin (BinaryExpr _ _ _) = True"
| "is_bin _ = False"

text \<open>The first operand, and the operators with the operands that follow them.\<close>

fun inorder :: "expr \<Rightarrow> expr \<times> (token \<times> expr) list" where
  "inorder (BinaryExpr op l r) = (fst (inorder l), snd (inorder l) @ (op, fst (inorder r)) # snd (inorder r))"
| "inorder e = (e, [])"

fun ops_sat :: "(nat \<Rightarrow> bool) \<Rightarrow> expr \<Rightarrow> bool" where
  "ops_sat P (BinaryExpr op l r) = P (Precedence op)"
| "ops_sat P e = True"

fun prec_ok :: "expr \<Rightarrow> bool" where
  "prec_ok (BinaryExpr op l r) \<longleftrightarrow>
     prec_ok l \<and> prec_ok r \<and> ops_sat (\<lambda>n. Precedence op \<le> n) l \<and> ops_sat (\<lambda>n. Precedence op < n) r"
| "prec_ok e = True"

definition attach_all :: "(token \<times> expr) list \<Rightarrow> expr \<Rightarrow> expr" where
  "attach_all ops e = fold (\<lambda>(op, rhs). attach op rhs) ops e"

lemma leaf_inorder [simp]: "\<not> is_bin e \<Longrightarrow> inorder e = (e, [])"
  by (cases e) auto

lemma leaf_prec_ok [simp]: "\<not> is_bin e \<Longrightarrow> prec_ok e"
  by (cases e) auto

lemma leaf_ops_sat [simp]: "\<not> is_bin e \<Longrightarrow> ops_sat P e"
  by (cases e) auto

lemma ops_sat_mono: "ops_sat P e \<Longrightarrow> (\<And>n. P n \<Longrightarrow> Q n) \<Longrightarrow> ops_sat Q e"
  by (cases e) auto

lemma attach_leaf [simp]: "\<not> is_bin e \<Longrightarrow> attach op rhs e = BinaryExpr op e rhs"
  by (cases e) auto

lemma attach_inorder: "\<not> is_bin rhs \<Longrightarrow> inorder (attach op rhs e) = (fst (inorder e), snd (inorder e) @ [(op, rhs)])"
  by (induction op rhs e rule: attach.induct) auto

lemma attach_prec_ok: "prec_ok e \<Longrightarrow> \<not> is_bin rhs \<Longrightarrow> prec_ok (attach op rhs e) \<and> (\<forall>P. ops_sat P e \<longrightarrow> P (Precedence op) \<longrightarrow> ops_sat P (attach op rhs e))"
  by (induction op rhs e rule: attach.induct) auto

lemma attach_all_leaves:
  assumes "list_all (\<lambda>x. \<not> is_bin (snd x)) ops" "prec_ok e"
  shows "prec_ok (attach_all ops e) \<and> inorder (attach_all ops e) = (fst (inorder e), snd (inorder e) @ ops)"
  using assms
proof (induction ops arbitrary: e)
  case (Cons a ops)
  then show ?case
    using attach_prec_ok [of e "snd a" "fst a"] attach_inorder [of "snd a" "fst a" e] by (cases a) (simp add: attach_all_def)
qed (simp add: attach_all_def)

lemma prec_ok_all_ops:
  "prec_ok e \<Longrightarrow> ops_sat (\<lambda>n. k \<le> n) e \<Longrightarrow> list_all (\<lambda>x. k \<le> Precedence (fst x)) (snd (inorder e))"
proof (induction e rule: prec_ok.induct)
  case (1 op l r)
  have "ops_sat (\<lambda>n. k \<le> n) l"
    by (rule ops_sat_mono [of "\<lambda>n. Precedence op \<le> n"]) (use 1(3,4) in auto)
  moreover have "ops_sat (\<lambda>n. k \<le> n) r"
    by (rule ops_sat_mono [of "\<lambda>n. Precedence op < n"]) (use 1(3,4) in auto)
  ultimately show ?case
    using 1 by simp
qed auto

lemma attach_all_inside:
  "list_all (\<lambda>x. Precedence op < Precedence (fst x)) ops \<Longrightarrow> attach_all ops (BinaryExpr op l r) = BinaryExpr op l (attach_all ops r)"
  by (induction ops arbitrary: r) (auto simp: attach_all_def)

text \<open>Inserting the operators of an ordered tree one by one builds it again, so the sequence determines the tree.\<close>

lemma attach_all_inorder: "prec_ok e \<Longrightarrow> attach_all (snd (inorder e)) (fst (inorder e)) = e"
proof (induction e rule: prec_ok.induct)
  case (1 op l r)
  have "ops_sat (\<lambda>n. Suc (Precedence op) \<le> n) r"
    by (rule ops_sat_mono [of "\<lambda>n. Precedence op < n"]) (use 1(3) in auto)
  then have r: "list_all (\<lambda>x. Precedence op < Precedence (fst x)) (snd (inorder r))"
    using prec_ok_all_ops [of r "Suc (Precedence op)"] 1(3) by (simp add: Suc_le_eq)
  have l: "attach op (fst (inorder r)) l = BinaryExpr op l (fst (inorder r))"
    using 1(3) by (cases l) auto
  have "attach_all (snd (inorder l) @ (op, fst (inorder r)) # snd (inorder r)) (fst (inorder l))
      = attach_all ((op, fst (inorder r)) # snd (inorder r)) (attach_all (snd (inorder l)) (fst (inorder l)))"
    by (simp add: attach_all_def)
  also have "\<dots> = attach_all (snd (inorder r)) (BinaryExpr op l (fst (inorder r)))"
    using 1(1,3) l by (simp add: attach_all_def)
  also have "\<dots> = BinaryExpr op l r"
    using attach_all_inside [OF r] 1(2,3) by simp
  finally show ?case
    by simp
qed (simp_all add: attach_all_def)

lemma prec_tree_unique: "prec_ok e \<Longrightarrow> prec_ok e' \<Longrightarrow> inorder e = inorder e' \<Longrightarrow> e = e'"
  by (metis attach_all_inorder)

section \<open>The sequence that is read\<close>

text \<open>The loop of \<open>ParseExpr\<close> without the tree.\<close>

primrec seq_loop :: "(bool \<Rightarrow> expr_parser) \<Rightarrow> nat \<Rightarrow> (token \<times> expr) list \<Rightarrow> pstate \<Rightarrow> (token \<times> expr) list presult" where
  "seq_loop unary 0 ops p = Inl OutOfFuel"
| "seq_loop unary (Suc k) ops p = (case scanIgnoreWhitespace p of ((op, lit), p1) \<Rightarrow>
     if \<not> IsOperator op then Inr (ops, unscan p1)
     else
       (let op' = (if op = T_ASTERISK then T_MUL else if op = T_LBRACKET then T_SUBSET else op);
            p2 = (if op = T_LBRACKET then unscan p1 else p1)
        in bindE (unary (op' = T_ARROW) p2) (\<lambda>rhs p3. seq_loop unary k (ops @ [(op', rhs)]) p3)))"

definition read_sequence :: "ext_validator \<Rightarrow> nat \<Rightarrow> pstate \<Rightarrow> (expr \<times> (token \<times> expr) list) presult" where
  "read_sequence ext n p =
     bindE (parseUnaryExpr ext (ParseExpr ext n) n False p) (\<lambda>u p1.
     bindE (seq_loop (parseUnaryExpr ext (ParseExpr ext n) n) n [] p1) (\<lambda>ops p2. Inr ((u, ops), p2)))"

lemma bindE_assoc: "bindE (bindE r f) g = bindE r (\<lambda>x p. bindE (f x p) g)"
  by (simp add: bindE_def split: sum.split)

lemma bindE_simps [simp]: "bindE (Inl e) f = Inl e" "bindE (Inr (x, p)) f = f x p"
  by (simp_all add: bindE_def)

lemma expr_loop_seq:
  "expr_loop unary k (attach_all ops u) p = bindE (seq_loop unary k ops p) (\<lambda>ops' p'. Inr (attach_all ops' u, p'))"
proof (induction k arbitrary: ops p)
  case (Suc k)
  have *: "attach op rhs (attach_all ops u) = attach_all (ops @ [(op, rhs)]) u" for op rhs
    by (simp add: attach_all_def)
  have IH: "expr_loop unary k (attach_all ops u) = (\<lambda>p. bindE (seq_loop unary k ops p) (\<lambda>ops' p'. Inr (attach_all ops' u, p')))" for ops
    by (rule ext) (rule Suc.IH)
  show ?case
    by (auto simp: * IH Let_def bindE_assoc split: prod.split)
qed simp

lemma parseUnaryExpr_leaf: "parseUnaryExpr ext pe n b p = Inr (x, p') \<Longrightarrow> \<not> is_bin x"
proof -
  have bracket: "\<not> is_bin y" if "parseBracketExpr q = Inr (y, q')" for q y q'
    using that by (auto simp: parseBracketExpr_def parseColonExpr_def split: parse_split)
  have case_e: "\<not> is_bin y" if "case_loop pe v k ws els q = Inr (y, q')" for v k ws els q y q'
    using that by (induction k arbitrary: v ws els q) (auto split: parse_split elim!: bindE_Inr_E)
  have call: "\<not> is_bin y" if "call_loop ext pe nm k as q = Inr (Inl y, q')" for nm k as q y q'
    using that by (induction k arbitrary: as q) (auto split: parse_split elim!: bindE_Inr_E)
  have end_c: "\<not> is_bin y" if "end_call ext pe nm as q = Inr (y, q')" for nm as q y q'
    using that by (auto simp: end_call_def split: parse_split elim!: bindE_Inr_E)
  assume "parseUnaryExpr ext pe n b p = Inr (x, p')"
  then show ?thesis
    by (auto simp: parseUnaryExpr_def parseCaseExpr_def parseCall_def literal_expr_def name_ref_def Let_def
        split: parse_split elim!: bindE_Inr_E dest: bracket case_e call end_c)
qed

lemma seq_loop_leaves:
  "seq_loop (parseUnaryExpr ext pe n) k ops p = Inr (ops', p') \<Longrightarrow> list_all (\<lambda>x. \<not> is_bin (snd x)) ops \<Longrightarrow>
   list_all (\<lambda>x. \<not> is_bin (snd x)) ops'"
proof (induction k arbitrary: ops p)
  case (Suc k)
  from Suc.prems show ?case
    by (auto simp: Let_def split: parse_split elim!: bindE_Inr_E dest!: parseUnaryExpr_leaf dest: Suc.IH)
qed simp

lemma read_sequence_leaves:
  "read_sequence ext n p = Inr ((u, ops), p') \<Longrightarrow> \<not> is_bin u \<and> list_all (\<lambda>x. \<not> is_bin (snd x)) ops"
  by (auto simp: read_sequence_def elim!: bindE_Inr_E dest: parseUnaryExpr_leaf seq_loop_leaves)

lemma ParseExpr_sequence: "ParseExpr ext (Suc n) p = bindE (read_sequence ext n p) (\<lambda>(u, ops) p'. Inr (attach_all ops u, p'))"
  using expr_loop_seq [of "parseUnaryExpr ext (ParseExpr ext n) n" n "[]"]
  by (simp add: read_sequence_def bindE_assoc attach_all_def)

text \<open>
  (C5) \<^verbatim>\<open>ParseExpr\<close> gives every operator sequence the one tree that respects precedence and left associativity: it returns \<open>e\<close> exactly when the
  operands and operators it reads, in order, are those of \<open>e\<close> and in \<open>e\<close> the left operand of an operator binds at least as tightly and
  the right operand strictly more tightly.
\<close>

theorem ParseExpr_precedence:
  "ParseExpr ext (Suc n) p = Inr (e, p') \<longleftrightarrow> read_sequence ext n p = Inr (inorder e, p') \<and> prec_ok e \<and>
     \<not> is_bin (fst (inorder e)) \<and> list_all (\<lambda>x. \<not> is_bin (snd x)) (snd (inorder e))"
proof
  assume "ParseExpr ext (Suc n) p = Inr (e, p')"
  then obtain u ops where u: "read_sequence ext n p = Inr ((u, ops), p')" "e = attach_all ops u"
    by (auto simp: ParseExpr_sequence simp del: ParseExpr.simps elim!: bindE_Inr_E)
  then show "read_sequence ext n p = Inr (inorder e, p') \<and> prec_ok e \<and> \<not> is_bin (fst (inorder e))
      \<and> list_all (\<lambda>x. \<not> is_bin (snd x)) (snd (inorder e))"
    using attach_all_leaves [of ops u] read_sequence_leaves [OF u(1)] by simp
next
  assume *: "read_sequence ext n p = Inr (inorder e, p') \<and> prec_ok e \<and> \<not> is_bin (fst (inorder e))
      \<and> list_all (\<lambda>x. \<not> is_bin (snd x)) (snd (inorder e))"
  then show "ParseExpr ext (Suc n) p = Inr (e, p')"
    using attach_all_inorder [of e] by (simp add: ParseExpr_sequence split_beta del: ParseExpr.simps)
qed

end
