(* ===== verification/PrintParse.thy ===== *)
theory PrintParse
  imports ExprTrees
begin

text \<open>
  Printing expressions and reading them back. The state of the parser is seen as the list of tokens still to come; over this view
  \<open>scanIgnoreWhitespace\<close> takes the head, \<open>unscan\<close> puts it back, and the parsing functions consume exactly the tokens of what they return.
\<close>

section \<open>The tokens still to come\<close>

definition toks :: "pstate \<Rightarrow> (token \<times> string) list" where
  "toks p = (if p_n p = 0 \<or> fst (last_tok p) = T_EOF then [] else [last_tok p]) @ lex (p_s p)"

definition sees :: "pstate \<Rightarrow> (token \<times> string) list \<Rightarrow> bool" where
  "sees p ts \<longleftrightarrow> wf_parser p \<and> \<not> p_inmeta p \<and> toks p = ts \<and> list_all (\<lambda>t. fst t \<noteq> T_EOF) ts \<and>
     (p_n p = 1 \<and> fst (last_tok p) = T_EOF \<longrightarrow> lex (p_s p) = [])"

lemma scan_lex:
  assumes "wf_parser p" "p_n p = 0" "lex (p_s p) = t # ts" "fst t \<noteq> T_EOF"
  shows "\<exists>p'. scanIgnoreWhitespace p = (t, p') \<and> lex (p_s p') = ts"
  using assms
proof (induction p rule: scanIgnoreWhitespace.induct)
  case (1 p)
  obtain u s where u: "Scan (p_s p) = (u, s)"
    by (cases "Scan (p_s p)")
  have ne: "sc_rest (p_s p) \<noteq> []"
    using 1(4) by (auto simp: lex.simps [of "p_s p"])
  show ?case
  proof (cases "significant u")
    case True
    then have "u = t" "lex s = ts"
      using 1(4) u ne by (auto simp: lex.simps [of "p_s p"] significant_def)
    then show ?thesis
      using True u 1(3) by (auto simp: scanIgnoreWhitespace.simps [of p] scan_def Let_def significant_def)
  next
    case False
    have r: "scan p = (u, p\<lparr>p_s := s\<rparr>)"
      using False u 1(3) by (auto simp: scan_def significant_def)
    have w: "fst u = T_WS \<or> fst u = T_COMMENT"
      using False by (simp add: significant_def)
    have "lex (p_s (p\<lparr>p_s := s\<rparr>)) = t # ts"
      using 1(4) u ne w by (simp add: lex.simps [of "p_s p"])
    moreover have "wf_parser (p\<lparr>p_s := s\<rparr>)" "p_n (p\<lparr>p_s := s\<rparr>) = 0"
      using 1(2,3) by (simp_all add: wf_parser_def)
    ultimately have "\<exists>p'. scanIgnoreWhitespace (p\<lparr>p_s := s\<rparr>) = (t, p') \<and> lex (p_s p') = ts"
      using 1(5) by (intro 1(1) [OF r [symmetric] w])
    then show ?thesis
      using r w by (simp add: scanIgnoreWhitespace.simps [of p])
  qed
qed

lemma scan_lex_end:
  assumes "wf_parser p" "p_n p = 0" "lex (p_s p) = []"
  shows "\<exists>p'. scanIgnoreWhitespace p = (tok_pair T_EOF, p') \<and> lex (p_s p') = []"
  using assms
proof (induction p rule: scanIgnoreWhitespace.induct)
  case (1 p)
  obtain u s where u: "Scan (p_s p) = (u, s)"
    by (cases "Scan (p_s p)")
  show ?case
  proof (cases "sc_rest (p_s p) = []")
    case True
    then show ?thesis
      using Scan_end [OF True] 1(3)
      by (auto simp: scanIgnoreWhitespace.simps [of p] scan_def Let_def tok_pair_def lex.simps)
  next
    case False
    then have w: "fst u = T_WS \<or> fst u = T_COMMENT" and s: "lex s = []"
      using 1(4) u by (auto simp: lex.simps [of "p_s p"] split: if_splits)
    have r: "scan p = (u, p\<lparr>p_s := s\<rparr>)"
      using w u 1(3) by (auto simp: scan_def)
    have "wf_parser (p\<lparr>p_s := s\<rparr>)" "p_n (p\<lparr>p_s := s\<rparr>) = 0" "lex (p_s (p\<lparr>p_s := s\<rparr>)) = []"
      using 1(2,3) s by (simp_all add: wf_parser_def)
    then have "\<exists>p'. scanIgnoreWhitespace (p\<lparr>p_s := s\<rparr>) = (tok_pair T_EOF, p') \<and> lex (p_s p') = []"
      by (intro 1(1) [OF r [symmetric] w])
    then show ?thesis
      using r w by (simp add: scanIgnoreWhitespace.simps [of p])
  qed
qed

text \<open>One token: the next one, or the end of the input.\<close>

lemma sees_Cons:
  assumes "sees p (t # ts)"
  shows "\<exists>p'. scanIgnoreWhitespace p = (t, p') \<and> sees p' ts \<and> sees (unscan p') (t # ts) \<and> p_n p' = 0 \<and> last_tok p' = t"
proof -
  have t: "fst t \<noteq> T_EOF" "wf_parser p" "\<not> p_inmeta p" "list_all (\<lambda>t. fst t \<noteq> T_EOF) ts"
    using assms by (auto simp: sees_def)
  obtain p' where p': "scanIgnoreWhitespace p = (t, p')" "lex (p_s p') = ts" "\<not> p_inmeta p'"
  proof (cases "p_n p = 0")
    case True
    then have "lex (p_s p) = t # ts"
      using assms by (simp add: sees_def toks_def)
    then obtain p' where "scanIgnoreWhitespace p = (t, p')" "lex (p_s p') = ts"
      using scan_lex [OF t(2) True _ t(1)] by auto
    then show ?thesis
      using scan_fresh [OF t(2) True] t(3) that by auto
  next
    case False
    then have n: "p_n p = 1"
      using t(2) by (simp add: wf_parser_def)
    then have "last_tok p = t" "lex (p_s p) = ts"
      using assms by (auto simp: sees_def toks_def split: if_splits)
    then show ?thesis
      using scan_pending [OF t(2) n] t(3) that by simp
  qed
  note st = scan_step [OF p'(1) t(2)]
  have "sees p' ts"
    using st p'(2,3) t(4) by (simp add: sees_def toks_def)
  moreover have "sees (unscan p') (t # ts)"
    using st p'(2,3) t by (simp add: sees_def toks_def)
  ultimately show ?thesis
    using p'(1) st by blast
qed

lemma sees_Nil:
  assumes "sees p []"
  shows "\<exists>lit p'. scanIgnoreWhitespace p = ((T_EOF, lit), p') \<and> sees p' [] \<and> sees (unscan p') [] \<and> p_n p' = 0"
proof -
  have wf: "wf_parser p" "\<not> p_inmeta p"
    using assms by (auto simp: sees_def)
  show ?thesis
  proof (cases "p_n p = 0")
    case True
    then have "lex (p_s p) = []"
      using assms by (simp add: sees_def toks_def)
    then obtain p' where p': "scanIgnoreWhitespace p = (tok_pair T_EOF, p')" "lex (p_s p') = []"
      using scan_lex_end [OF wf(1) True] by auto
    note st = scan_step [OF p'(1) wf(1)] scan_fresh [OF wf(1) True p'(1)]
    then show ?thesis
      using p' wf(2) by (auto simp: sees_def toks_def tok_pair_def)
  next
    case False
    then have n: "p_n p = 1"
      using wf(1) by (simp add: wf_parser_def)
    then have l: "fst (last_tok p) = T_EOF" "lex (p_s p) = []"
      using assms by (auto simp: sees_def toks_def split: if_splits)
    have sc: "scanIgnoreWhitespace p = ((T_EOF, snd (last_tok p)), p\<lparr>p_n := 0\<rparr>)"
      using scan_pending [OF wf(1) n] l(1) by (cases "last_tok p") simp
    then show ?thesis
      using scan_step [OF sc wf(1)] l wf(2) by (auto simp: sees_def toks_def)
  qed
qed

definition peek :: "(token \<times> string) list \<Rightarrow> token" where
  "peek ts = (case ts of [] \<Rightarrow> T_EOF | t # _ \<Rightarrow> fst t)"

lemma sees_peek:
  assumes "sees p ts"
  shows "\<exists>lit p'. scanIgnoreWhitespace p = ((peek ts, lit), p') \<and> sees (unscan p') ts \<and> p_n p' = 0 \<and> wf_parser p'"
proof (cases ts)
  case Nil
  then show ?thesis
    using sees_Nil [of p] assms by (auto simp: peek_def sees_def)
next
  case (Cons t ts')
  then show ?thesis
    using sees_Cons [of p t ts'] assms by (cases t) (auto simp: peek_def sees_def)
qed

section \<open>The tokens of an expression\<close>

definition is_name :: "string \<Rightarrow> bool" where
  "is_name n \<longleftrightarrow> is_ident n \<and> map_of keywords_table (to_upper n) = None"

definition op_tok :: "token \<Rightarrow> token" where
  "op_tok op = (if op = T_MUL then T_ASTERISK else op)"

definition op_toks :: "token \<Rightarrow> (token \<times> string) list" where
  "op_toks op = (if op = T_SUBSET then [] else [tok_pair (op_tok op)])"

fun sep_commas :: "(token \<times> string) list list \<Rightarrow> (token \<times> string) list" where
  "sep_commas [] = []"
| "sep_commas [x] = x"
| "sep_commas (x # y # ys) = x @ tok_pair T_COMMA # sep_commas (y # ys)"

text \<open>A window is printed with its lengths in milliseconds.\<close>

definition win_name :: "WindowType \<Rightarrow> string" where
  "win_name wt = (case wt of
     NOT_WINDOW \<Rightarrow> []
   | TUMBLING_WINDOW \<Rightarrow> ''TUMBLINGWINDOW''
   | HOPPING_WINDOW \<Rightarrow> ''HOPPINGWINDOW''
   | SLIDING_WINDOW \<Rightarrow> ''SLIDINGWINDOW''
   | SESSION_WINDOW \<Rightarrow> ''SESSIONWINDOW''
   | COUNT_WINDOW \<Rightarrow> ''COUNTWINDOW'')"

definition win_args :: "WindowType \<Rightarrow> int \<Rightarrow> int option \<Rightarrow> expr list" where
  "win_args wt len itv =
     (if wt = COUNT_WINDOW then IntegerLiteral len # (case itv of Some i \<Rightarrow> [IntegerLiteral i] | None \<Rightarrow> [])
      else TimeLiteral T_MS # IntegerLiteral len #
        (if wt = HOPPING_WINDOW \<or> wt = SESSION_WINDOW then [IntegerLiteral (case itv of Some i \<Rightarrow> i | None \<Rightarrow> 0)] else []))"

definition lit_int :: "int \<Rightarrow> bool" where
  "lit_int i \<longleftrightarrow> 0 \<le> i \<and> i < 2 ^ 63"

definition win_ok :: "WindowType \<Rightarrow> int \<Rightarrow> int option \<Rightarrow> bool" where
  "win_ok wt len itv \<longleftrightarrow> lit_int len \<and> (case wt of
     NOT_WINDOW \<Rightarrow> False
   | TUMBLING_WINDOW \<Rightarrow> itv = Some 0
   | SLIDING_WINDOW \<Rightarrow> itv = Some 0
   | HOPPING_WINDOW \<Rightarrow> (case itv of Some i \<Rightarrow> lit_int i | None \<Rightarrow> False)
   | SESSION_WINDOW \<Rightarrow> (case itv of Some i \<Rightarrow> lit_int i | None \<Rightarrow> False)
   | COUNT_WINDOW \<Rightarrow> (case itv of Some i \<Rightarrow> lit_int i \<and> i \<le> len | None \<Rightarrow> 0 < len))"

fun lit_toks :: "expr \<Rightarrow> (token \<times> string) list" where
  "lit_toks (IntegerLiteral i) = [(T_INTEGER, itoa i)]"
| "lit_toks (TimeLiteral t) = [tok_pair t]"
| "lit_toks _ = []"

fun etoks :: "expr \<Rightarrow> (token \<times> string) list" where
  "etoks (FieldRef sn n al) =
     (if is_name sn then [(T_IDENT, sn), tok_pair T_DOT, (T_IDENT, n)] else [(T_IDENT, n)])"
| "etoks (IntegerLiteral i) = [(T_INTEGER, itoa i)]"
| "etoks (StringLiteral s) = [(T_STRING, s)]"
| "etoks (BooleanLiteral b) = [tok_pair (if b then T_TRUE else T_FALSE)]"
| "etoks (TimeLiteral t) = [tok_pair t]"
| "etoks (ParenExpr e) = tok_pair T_LPAREN # etoks e @ [tok_pair T_RPAREN]"
| "etoks (Call name args) = (T_IDENT, name) # tok_pair T_LPAREN # sep_commas (map etoks args) @ [tok_pair T_RPAREN]"
| "etoks (IndexExpr i) = [tok_pair T_LBRACKET, (T_INTEGER, itoa i), tok_pair T_RBRACKET]"
| "etoks (ColonExpr a b) =
     [tok_pair T_LBRACKET, (T_INTEGER, itoa a), tok_pair T_COLON, (T_INTEGER, itoa b), tok_pair T_RBRACKET]"
| "etoks (BinaryExpr op l r) = etoks l @ op_toks op @ etoks r"
| "etoks (Window wt len itv flt) =
     (T_IDENT, win_name wt) # tok_pair T_LPAREN # sep_commas (map lit_toks (win_args wt len itv)) @ tok_pair T_RPAREN #
     (case flt of
        None \<Rightarrow> []
      | Some f \<Rightarrow> (T_FILTER, ''FILTER'') # tok_pair T_LPAREN # tok_pair T_WHERE # etoks f @ [tok_pair T_RPAREN])"
| "etoks _ = []"

definition bin_ops :: "token list" where
  "bin_ops = [T_ADD, T_SUB, T_MUL, T_DIV, T_MOD, T_BITWISE_AND, T_BITWISE_OR, T_BITWISE_XOR, T_AND, T_OR, T_EQ, T_NEQ, T_LT, T_LTE,
     T_GT, T_GTE, T_ARROW]"

fun is_bracket :: "expr \<Rightarrow> bool" where
  "is_bracket (IndexExpr i) = lit_int i"
| "is_bracket (ColonExpr a b) = (lit_int a \<and> lit_int b)"
| "is_bracket _ = False"

text \<open>
  The expressions that can be printed: references without resolved aliases, literals, parentheses, operators in precedence order,
  subscripts, windows and the calls that the validator accepts. The flag says that the expression follows an arrow.
\<close>

fun pexpr :: "ext_validator \<Rightarrow> bool \<Rightarrow> expr \<Rightarrow> bool" where
  "pexpr ext sub (FieldRef sn n al) \<longleftrightarrow> is_name n \<and> al = None \<and> (is_name sn \<or> sn = (if sub then [] else DefaultStream))"
| "pexpr ext sub (IntegerLiteral i) \<longleftrightarrow> lit_int i"
| "pexpr ext sub (StringLiteral s) \<longleftrightarrow> list_all printable s"
| "pexpr ext sub (BooleanLiteral b) \<longleftrightarrow> True"
| "pexpr ext sub (TimeLiteral t) \<longleftrightarrow> IsTimeLiteral t"
| "pexpr ext sub (ParenExpr e) \<longleftrightarrow> pexpr ext False e \<and> prec_ok e"
| "pexpr ext sub (Call name args) \<longleftrightarrow> is_name name \<and> args \<noteq> [] \<and> list_all (\<lambda>e. pexpr ext False e \<and> prec_ok e) args \<and>
     fst (validateWindows name args) = NOT_WINDOW \<and> to_lower name \<notin> {''meta'', ''mqtt''} \<and> name \<noteq> ''deduplicate'' \<and>
     validateFuncs ext name args = None"
| "pexpr ext sub (BinaryExpr op l r) \<longleftrightarrow> pexpr ext sub l \<and>
     (if op = T_SUBSET then is_bracket r else op \<in> set bin_ops \<and> pexpr ext (op = T_ARROW) r)"
| "pexpr ext sub (Window wt len itv flt) \<longleftrightarrow> win_ok wt len itv \<and>
     (case flt of None \<Rightarrow> True | Some f \<Rightarrow> pexpr ext False f \<and> prec_ok f)"
| "pexpr ext sub _ \<longleftrightarrow> False"

lemma is_name_empty [simp]: "\<not> is_name []" "\<not> is_name DefaultStream"
  by (simp_all add: is_name_def is_ident_def DefaultStream_def isLetter_def char_code_def)

lemma isDigit_eq: "isDigit = is_digit"
  by (auto simp: isDigit_def is_digit_def)

lemma itoa_nat: "0 \<le> i \<Longrightarrow> itoa i = nat_digits (nat i)"
  by (simp add: itoa_def)

lemma lit_int_Atoi: "lit_int i \<Longrightarrow> Atoi (itoa i) = Some i"
  by (rule Atoi_itoa) (simp add: lit_int_def in_i64_def)

lemma lit_int_Atoi_value: "lit_int i \<Longrightarrow> Atoi_value (itoa i) = i"
proof -
  assume i: "lit_int i"
  have "hd (nat_digits (nat i)) \<noteq> CHR ''-''"
    using nat_digits_chars [of "hd (nat_digits (nat i))" "nat i"] by (auto simp: is_digit_def char_code_def)
  then have "\<not> (case nat_digits (nat i) of c # _ \<Rightarrow> c = CHR ''-'' | [] \<Rightarrow> False)"
    by (cases "nat_digits (nat i)") auto
  then show ?thesis
    using i by (simp add: Atoi_value_def itoa_nat drop_sign_digits dec_val_nat_digits Let_def lit_int_def in_i64_def)
qed

section \<open>Operands\<close>

definition ends_name :: "(token \<times> string) list \<Rightarrow> bool" where
  "ends_name ts \<longleftrightarrow> peek ts \<noteq> T_DOT \<and> peek ts \<noteq> T_LPAREN \<and> peek ts \<noteq> T_FILTER"

lemma peek_Cons [simp]: "peek (t # ts) = fst t"
  by (simp add: peek_def)

lemma fst_tok_pair [simp]: "fst (tok_pair t) = t"
  by (simp add: tok_pair_def)

lemma neg_scan_same:
  "scanIgnoreWhitespace p = (t, p') \<Longrightarrow> fst t \<noteq> T_SUB \<Longrightarrow> scanIgnoreWhiteSpaceWithNegativeNum p = (t, p')"
  by (simp add: scanIgnoreWhiteSpaceWithNegativeNum_def)

lemma sees_Cons_neg:
  "sees p (t # ts) \<Longrightarrow> fst t \<noteq> T_SUB \<Longrightarrow> \<exists>p'. scanIgnoreWhiteSpaceWithNegativeNum p = (t, p') \<and> sees p' ts"
  using sees_Cons [of p t ts] neg_scan_same by blast

text \<open>The first token of an operand, seen through the put-back of \<^verbatim>\<open>parseUnaryExpr\<close>.\<close>

definition after_ident :: "ext_validator \<Rightarrow> expr_parser \<Rightarrow> nat \<Rightarrow> bool \<Rightarrow> string \<Rightarrow> pstate \<Rightarrow> expr presult" where
  "after_ident ext pe n b lit p' = (case scanIgnoreWhitespace p' of ((tok3, lit3), p3) \<Rightarrow>
     if tok3 = T_LPAREN then parseCall ext pe n lit p3
     else bindE (parseFieldNameSections (unscan (unscan p3))) (\<lambda>ns p4. Inr (name_ref (p_inmeta p4) b ns, p4)))"

lemma unary_first:
  assumes "sees p ((tk, lit) # ts)" "tk \<notin> {T_LPAREN, T_LBRACKET, T_SUB, T_CASE}"
  obtains p' where "parseUnaryExpr ext pe n b p =
      (if tk = T_IDENT then after_ident ext pe n b lit p'
       else (case literal_expr tk lit of Inl e \<Rightarrow> Inl e | Inr v \<Rightarrow> Inr (v, p')))"
    "sees p' ts" "p_n p' = 0" "last_tok p' = (tk, lit)"
proof -
  obtain p' where p': "scanIgnoreWhitespace p = ((tk, lit), p')" "sees p' ts" "p_n p' = 0" "last_tok p' = (tk, lit)"
    using sees_Cons [OF assms(1)] by blast
  have "scanIgnoreWhitespace (unscan p') = ((tk, lit), p')"
    using scan_unscan [of p'] p' by (simp add: sees_def)
  then have "scanIgnoreWhiteSpaceWithNegativeNum (unscan p') = ((tk, lit), p')"
    using assms(2) by (intro neg_scan_same) auto
  then have "parseUnaryExpr ext pe n b p =
      (if tk = T_IDENT then after_ident ext pe n b lit p'
       else (case literal_expr tk lit of Inl e \<Rightarrow> Inl e | Inr v \<Rightarrow> Inr (v, p')))"
    using p' assms(2) by (simp add: parseUnaryExpr_def after_ident_def)
  then show ?thesis
    using that p' by blast
qed

lemma unary_literal:
  assumes "sees p ((tk, lit) # ts)" "literal_expr tk lit = Inr v" "tk \<notin> {T_LPAREN, T_LBRACKET, T_SUB, T_CASE, T_IDENT}"
  shows "\<exists>p'. parseUnaryExpr ext pe n b p = Inr (v, p') \<and> sees p' ts"
  by (rule unary_first [OF assms(1), where ext = ext and pe = pe and n = n and b = b]) (use assms(2,3) in auto)

lemma name_sections_one:
  assumes "sees p ((T_IDENT, n) # ts)" "peek ts \<noteq> T_DOT"
  shows "\<exists>p'. name_sections p = ([n], p') \<and> sees p' ts"
proof -
  obtain p1 where p1: "scanIgnoreWhitespace p = ((T_IDENT, n), p1)" "sees p1 ts"
    using sees_Cons [OF assms(1)] by blast
  obtain lit p2 where "scanIgnoreWhitespace p1 = ((peek ts, lit), p2)" "sees (unscan p2) ts"
    using sees_peek [OF p1(2)] by blast
  then show ?thesis
    using p1 assms(2) by (simp add: name_sections.simps [of p] AllowedSFNToken_def)
qed

lemma unary_name:
  assumes "sees p (etoks (FieldRef sn n None) @ ts)" "pexpr ext b (FieldRef sn n None)" "ends_name ts"
  shows "\<exists>p'. parseUnaryExpr ext pe k b p = Inr (FieldRef sn n None, p') \<and> sees p' ts"
proof -
  define first where "first = (if is_name sn then sn else n)"
  define rest where "rest = (if is_name sn then tok_pair T_DOT # (T_IDENT, n) # ts else ts)"
  have "sees p ((T_IDENT, first) # rest)"
    using assms(1) by (simp add: first_def rest_def split: if_splits)
  then obtain p1 where p1: "parseUnaryExpr ext pe k b p = after_ident ext pe k b first p1"
    "sees p1 rest" "p_n p1 = 0" "last_tok p1 = (T_IDENT, first)"
    by (rule unary_first [where ext = ext and pe = pe and n = k and b = b]) auto
  obtain lit p3 where p3: "scanIgnoreWhitespace p1 = ((peek rest, lit), p3)" "sees (unscan p3) rest"
    using sees_peek [OF p1(2)] by blast
  have again: "scanIgnoreWhitespace (unscan (unscan p3)) = ((T_IDENT, first), unscan p3)"
    using name_after_two_unscans [of p1 "(peek rest, lit)" p3] p1 p3(1) by (simp add: sees_def)
  have np: "peek rest \<noteq> T_LPAREN"
    using assms(3) by (simp add: rest_def ends_name_def)
  show ?thesis
  proof (cases "is_name sn")
    case True
    obtain p4 where p4: "scanIgnoreWhitespace (unscan p3) = (tok_pair T_DOT, p4)" "sees p4 ((T_IDENT, n) # ts)"
      using sees_Cons [of "unscan p3" "tok_pair T_DOT"] p3(2) True by (auto simp: rest_def)
    obtain p5 where "name_sections p4 = ([n], p5)" "sees p5 ts"
      using name_sections_one [OF p4(2)] assms(3) by (auto simp: ends_name_def)
    then have "parseFieldNameSections (unscan (unscan p3)) = Inr ([sn, n], p5)" "sees p5 ts"
      using again p4(1) True
      by (simp_all add: parseFieldNameSections_def name_sections.simps [of "unscan (unscan p3)"] AllowedSFNToken_def first_def tok_pair_def)
    then show ?thesis
      using p1(1) p3(1) np by (simp add: after_ident_def name_ref_def sees_def)
  next
    case False
    obtain lit4 p4 where "scanIgnoreWhitespace (unscan p3) = ((peek ts, lit4), p4)" "sees (unscan p4) ts"
      using sees_peek [OF p3(2)] False by (auto simp: rest_def)
    then have "parseFieldNameSections (unscan (unscan p3)) = Inr ([n], unscan p4)" "sees (unscan p4) ts"
      using again False assms(3)
      by (simp_all add: parseFieldNameSections_def name_sections.simps [of "unscan (unscan p3)"] AllowedSFNToken_def first_def ends_name_def)
    then show ?thesis
      using p1(1) p3(1) np assms(2) False by (auto simp: after_ident_def name_ref_def sees_def)
  qed
qed

definition start_toks :: "token list" where
  "start_toks = [T_IDENT, T_INTEGER, T_STRING, T_TRUE, T_FALSE, T_LPAREN, T_DD, T_HH, T_MI, T_SS, T_MS]"

lemma time_toks: "IsTimeLiteral t \<Longrightarrow> t \<in> {T_DD, T_HH, T_MI, T_SS, T_MS}"
  by (auto simp: IsTimeLiteral_def)

lemma etoks_start: "pexpr ext b e \<Longrightarrow> \<exists>t ts. etoks e = t # ts \<and> fst t \<in> set start_toks"
  by (induction ext b e rule: pexpr.induct) (auto simp: start_toks_def dest: time_toks)

lemma bracket_start: "is_bracket e \<Longrightarrow> \<exists>ts. etoks e = tok_pair T_LBRACKET # ts \<and> 2 \<le> length ts"
  by (cases e) auto

lemma unary_bracket:
  assumes "sees p (etoks r @ ts)" "is_bracket r"
  shows "\<exists>p'. parseUnaryExpr ext pe n b p = Inr (r, p') \<and> sees p' ts"
proof -
  obtain rest where rest: "etoks r = tok_pair T_LBRACKET # rest"
    using bracket_start [OF assms(2)] by blast
  obtain p1 where p1: "scanIgnoreWhitespace p = (tok_pair T_LBRACKET, p1)" "sees p1 (rest @ ts)"
    using sees_Cons [of p "tok_pair T_LBRACKET"] assms(1) rest by auto
  have unary: "parseUnaryExpr ext pe n b p = parseBracketExpr p1"
    using p1(1) by (simp add: parseUnaryExpr_def tok_pair_def)
  obtain i more where i: "rest = (T_INTEGER, itoa i) # more" "lit_int i"
    using assms(2) rest by (cases r) auto
  obtain p2 where p2: "scanIgnoreWhiteSpaceWithNegativeNum p1 = ((T_INTEGER, itoa i), p2)" "sees p2 (more @ ts)"
    using sees_Cons_neg [of p1 "(T_INTEGER, itoa i)" "more @ ts"] p1(2) i(1) by auto
  show ?thesis
  proof (cases r)
    case (IndexExpr i')
    then have "i' = i" "more = [tok_pair T_RBRACKET]"
      using rest i assms(2) lit_int_Atoi [of i] lit_int_Atoi [of i'] by (auto simp: i)
    then obtain p3 where "scanIgnoreWhitespace p2 = (tok_pair T_RBRACKET, p3)" "sees p3 ts"
      using sees_Cons [of p2 "tok_pair T_RBRACKET" ts] p2(2) by auto
    then show ?thesis
      using unary p2(1) lit_int_Atoi [OF i(2)] IndexExpr \<open>i' = i\<close> by (simp add: parseBracketExpr_def tok_pair_def)
  next
    case (ColonExpr a c)
    then have a: "a = i" "more = [tok_pair T_COLON, (T_INTEGER, itoa c), tok_pair T_RBRACKET]" "lit_int c"
      using rest i assms(2) lit_int_Atoi [of i] lit_int_Atoi [of a] by (auto simp: i)
    obtain p3 where p3: "scanIgnoreWhitespace p2 = (tok_pair T_COLON, p3)" "sees p3 ((T_INTEGER, itoa c) # tok_pair T_RBRACKET # ts)"
      using sees_Cons [of p2 "tok_pair T_COLON"] p2(2) a(2) by auto
    obtain p4 where p4: "scanIgnoreWhiteSpaceWithNegativeNum p3 = ((T_INTEGER, itoa c), p4)" "sees p4 (tok_pair T_RBRACKET # ts)"
      using sees_Cons_neg [OF p3(2)] by auto
    obtain p5 where "scanIgnoreWhitespace p4 = (tok_pair T_RBRACKET, p5)" "sees p5 ts"
      using sees_Cons [OF p4(2)] by auto
    then show ?thesis
      using unary p2(1) p3(1) p4(1) lit_int_Atoi [OF i(2)] lit_int_Atoi [OF a(3)] ColonExpr a(1)
      by (simp add: parseBracketExpr_def parseColonExpr_def tok_pair_def)
  qed (use assms(2) in auto)
qed

definition follow :: "(token \<times> string) list \<Rightarrow> bool" where
  "follow ts \<longleftrightarrow> \<not> IsOperator (peek ts) \<and> ends_name ts"

lemma follow_close [simp]: "follow (tok_pair T_RPAREN # ts)" "follow (tok_pair T_COMMA # ts)"
  by (simp_all add: follow_def ends_name_def IsOperator_def)

text \<open>\<open>reads f e\<close>: the parser \<open>f\<close> reads \<open>e\<close> from its tokens.\<close>

definition reads :: "expr_parser \<Rightarrow> expr \<Rightarrow> bool" where
  "reads f e \<longleftrightarrow> (\<forall>p ts. sees p (etoks e @ ts) \<longrightarrow> follow ts \<longrightarrow> (\<exists>p'. f p = Inr (e, p') \<and> sees p' ts))"

lemma readsD: "reads f e \<Longrightarrow> sees p (etoks e @ ts) \<Longrightarrow> follow ts \<Longrightarrow> \<exists>p'. f p = Inr (e, p') \<and> sees p' ts"
  by (auto simp: reads_def)

lemma unary_paren:
  assumes "sees p (etoks (ParenExpr e) @ ts)" "reads pe e"
  shows "\<exists>p'. parseUnaryExpr ext pe n b p = Inr (ParenExpr e, p') \<and> sees p' ts"
proof -
  obtain p1 where p1: "scanIgnoreWhitespace p = (tok_pair T_LPAREN, p1)" "sees p1 (etoks e @ tok_pair T_RPAREN # ts)"
    using sees_Cons [of p "tok_pair T_LPAREN"] assms(1) by auto
  obtain p2 where p2: "pe p1 = Inr (e, p2)" "sees p2 (tok_pair T_RPAREN # ts)"
    using readsD [OF assms(2) p1(2)] by auto
  obtain p3 where "scanIgnoreWhitespace p2 = (tok_pair T_RPAREN, p3)" "sees p3 ts"
    using sees_Cons [OF p2(2)] by auto
  then show ?thesis
    using p1(1) p2(1) by (simp add: parseUnaryExpr_def tok_pair_def)
qed

lemma call_loop_args:
  assumes "list_all (\<lambda>e. reads pe e \<and> pexpr ext False e) args" "args \<noteq> []" "length args \<le> k"
    "sees p (sep_commas (map etoks args) @ tok_pair T_RPAREN # ts)"
  shows "\<exists>p'. call_loop ext pe name k acc p = Inr (Inr (acc @ args), p') \<and> sees p' (tok_pair T_RPAREN # ts)"
  using assms
proof (induction args arbitrary: acc p k)
  case (Cons e args)
  obtain k' where k: "k = Suc k'"
    using Cons.prems(3) by (cases k) auto
  obtain t tl where t: "etoks e = t # tl" "fst t \<in> set start_toks"
    using etoks_start [of ext False e] Cons.prems(1) by auto
  define rest where "rest = (if args = [] then tok_pair T_RPAREN # ts
     else tok_pair T_COMMA # sep_commas (map etoks args) @ tok_pair T_RPAREN # ts)"
  have sees: "sees p (etoks e @ rest)"
    using Cons.prems(4) by (cases args) (simp_all add: rest_def)
  obtain p1 where p1: "scanIgnoreWhitespace p = (t, p1)" "sees (unscan p1) (etoks e @ rest)"
    using sees_Cons [of p t "tl @ rest"] sees t(1) by auto
  have fr: "follow rest"
    by (simp add: rest_def)
  obtain p2 where p2: "pe (unscan p1) = Inr (e, p2)" "sees p2 rest"
    using readsD [OF _ p1(2), of pe] Cons.prems(1) fr by auto
  have first: "fst t \<noteq> T_RPAREN" "fst t \<noteq> T_ASTERISK"
    using t(2) by (auto simp: start_toks_def)
  show ?case
  proof (cases "args = []")
    case True
    obtain p3 where "scanIgnoreWhitespace p2 = (tok_pair T_RPAREN, p3)" "sees (unscan p3) (tok_pair T_RPAREN # ts)"
      using sees_Cons [of p2 "tok_pair T_RPAREN" ts] p2(2) True by (auto simp: rest_def)
    then show ?thesis
      using p1(1) p2(1) first k True by (cases t) (simp add: tok_pair_def)
  next
    case False
    obtain p3 where p3: "scanIgnoreWhitespace p2 = (tok_pair T_COMMA, p3)"
      "sees p3 (sep_commas (map etoks args) @ tok_pair T_RPAREN # ts)"
      using sees_Cons [of p2 "tok_pair T_COMMA"] p2(2) False by (auto simp: rest_def)
    obtain p4 where "call_loop ext pe name k' (acc @ [e]) p3 = Inr (Inr ((acc @ [e]) @ args), p4)" "sees p4 (tok_pair T_RPAREN # ts)"
      using Cons.IH [OF _ False _ p3(2), of k' "acc @ [e]"] Cons.prems(1,3) k by auto
    then show ?thesis
      using p1(1) p2(1) p3(1) first k by (cases t) (simp add: tok_pair_def)
  qed
qed simp

lemma unary_call:
  assumes "sees p (etoks (Call name args) @ ts)" "pexpr ext b (Call name args)" "list_all (reads pe) args" "length args \<le> n"
  shows "\<exists>p'. parseUnaryExpr ext pe n b p = Inr (Call name args, p') \<and> sees p' ts"
proof -
  have "sees p ((T_IDENT, name) # tok_pair T_LPAREN # sep_commas (map etoks args) @ tok_pair T_RPAREN # ts)"
    using assms(1) by simp
  then obtain p1 where p1: "parseUnaryExpr ext pe n b p = after_ident ext pe n b name p1"
    "sees p1 (tok_pair T_LPAREN # sep_commas (map etoks args) @ tok_pair T_RPAREN # ts)"
    by (rule unary_first [where ext = ext and pe = pe and n = n and b = b]) auto
  obtain p2 where p2: "scanIgnoreWhitespace p1 = (tok_pair T_LPAREN, p2)" "sees p2 (sep_commas (map etoks args) @ tok_pair T_RPAREN # ts)"
    using sees_Cons [OF p1(2)] by auto
  obtain p3 where p3: "call_loop ext pe name n [] p2 = Inr (Inr args, p3)" "sees p3 (tok_pair T_RPAREN # ts)"
    using call_loop_args [of pe ext args n p2 ts name "[]"] assms p2(2) by (auto simp: list_all_iff)
  obtain p4 where p4: "scanIgnoreWhitespace p3 = (tok_pair T_RPAREN, p4)" "sees p4 ts"
    using sees_Cons [OF p3(2)] by auto
  have "end_call ext pe name args p3 = Inr (Call name args, p4)"
    using p4(1) assms(2) by (simp add: end_call_def tok_pair_def split_beta)
  then show ?thesis
    using p1(1) p2(1) p3(1) p4(2) assms(2) by (simp add: after_ident_def parseCall_def tok_pair_def Let_def)
qed

text \<open>Windows are calls, too; the filter may follow.\<close>

lemma win_args_toks: "map lit_toks (win_args wt len itv) = map etoks (win_args wt len itv)"
  by (cases itv) (simp_all add: win_args_def)

lemma win_args_ok:
  assumes "win_ok wt len itv"
  shows "list_all (\<lambda>e. pexpr ext False e \<and> prec_ok e \<and> length (etoks e) = 1) (win_args wt len itv)" "win_args wt len itv \<noteq> []"
    "length (win_args wt len itv) \<le> 3"
  using assms by (auto simp: win_args_def win_ok_def lit_int_def IsTimeLiteral_def split: option.splits WindowType.splits)

lemma win_lower:
  "to_lower ''TUMBLINGWINDOW'' = ''tumblingwindow''" "to_lower ''HOPPINGWINDOW'' = ''hoppingwindow''"
  "to_lower ''SLIDINGWINDOW'' = ''slidingwindow''" "to_lower ''SESSIONWINDOW'' = ''sessionwindow''" "to_lower ''COUNTWINDOW'' = ''countwindow''"
  by code_simp+

lemma win_validates:
  assumes "win_ok wt len itv"
  shows "validateWindows (win_name wt) (win_args wt len itv) = (wt, None)" "wt \<noteq> NOT_WINDOW"
    "ConvertToWindows wt (win_args wt len itv) = Some (len, itv)" "to_lower (win_name wt) \<notin> {''meta'', ''mqtt''}"
  using assms
  by (cases wt; cases itv; simp add: win_ok_def win_args_def win_name_def validateWindows_def validateWindow_def ConvertToWindows_def
      unit_ms_def win_lower lit_int_def in_i64_def i64_id)+

lemma parseFilter_reads:
  assumes "sees p ((case flt of None \<Rightarrow> [] | Some f \<Rightarrow> (T_FILTER, ''FILTER'') # tok_pair T_LPAREN # tok_pair T_WHERE # etoks f @ [tok_pair T_RPAREN]) @ ts)"
    "\<And>f. flt = Some f \<Longrightarrow> reads pe f" "ends_name ts"
  shows "\<exists>p'. parseFilter pe p = Inr (flt, p') \<and> sees p' ts"
proof (cases flt)
  case None
  then show ?thesis
    using sees_peek [of p ts] assms(1,3) by (auto simp: parseFilter_def ends_name_def)
next
  case (Some f)
  obtain p1 where p1: "scanIgnoreWhitespace p = ((T_FILTER, ''FILTER''), p1)" "sees p1 (tok_pair T_LPAREN # tok_pair T_WHERE # etoks f @ tok_pair T_RPAREN # ts)"
    using sees_Cons [of p "(T_FILTER, ''FILTER'')"] assms(1) Some by auto
  obtain p2 where p2: "scanIgnoreWhitespace p1 = (tok_pair T_LPAREN, p2)" "sees p2 (tok_pair T_WHERE # etoks f @ tok_pair T_RPAREN # ts)"
    using sees_Cons [OF p1(2)] by auto
  obtain p3 where p3: "scanIgnoreWhitespace p2 = (tok_pair T_WHERE, p3)" "sees p3 (etoks f @ tok_pair T_RPAREN # ts)"
    using sees_Cons [OF p2(2)] by auto
  obtain p4 where p4: "pe p3 = Inr (f, p4)" "sees p4 (tok_pair T_RPAREN # ts)"
    using readsD [OF assms(2) [OF Some] p3(2)] by auto
  obtain p5 where "scanIgnoreWhitespace p4 = (tok_pair T_RPAREN, p5)" "sees p5 ts"
    using sees_Cons [OF p4(2)] by auto
  then show ?thesis
    using p1(1) p2(1) p3(1) p4(1) Some by (simp add: parseFilter_def tok_pair_def)
qed

lemma unary_window:
  assumes "sees p (etoks (Window wt len itv flt) @ ts)" "win_ok wt len itv" "\<And>f. flt = Some f \<Longrightarrow> reads pe f"
    "list_all (reads pe) (win_args wt len itv)" "3 \<le> n" "ends_name ts"
  shows "\<exists>p'. parseUnaryExpr ext pe n b p = Inr (Window wt len itv flt, p') \<and> sees p' ts"
proof -
  let ?args = "win_args wt len itv"
  let ?flt = "(case flt of None \<Rightarrow> [] | Some f \<Rightarrow> (T_FILTER, ''FILTER'') # tok_pair T_LPAREN # tok_pair T_WHERE # etoks f @ [tok_pair T_RPAREN]) @ ts"
  have "sees p ((T_IDENT, win_name wt) # tok_pair T_LPAREN # sep_commas (map etoks ?args) @ tok_pair T_RPAREN # ?flt)"
    using assms(1) by (simp add: win_args_toks)
  then obtain p1 where p1: "parseUnaryExpr ext pe n b p = after_ident ext pe n b (win_name wt) p1"
    "sees p1 (tok_pair T_LPAREN # sep_commas (map etoks ?args) @ tok_pair T_RPAREN # ?flt)"
    by (rule unary_first [where ext = ext and pe = pe and n = n and b = b]) auto
  obtain p2 where p2: "scanIgnoreWhitespace p1 = (tok_pair T_LPAREN, p2)" "sees p2 (sep_commas (map etoks ?args) @ tok_pair T_RPAREN # ?flt)"
    using sees_Cons [OF p1(2)] by auto
  have "list_all (\<lambda>e. reads pe e \<and> pexpr ext False e) ?args"
    using assms(4) win_args_ok(1) [OF assms(2)] by (auto simp: list_all_iff)
  then obtain p3 where p3: "call_loop ext pe (win_name wt) n [] p2 = Inr (Inr ?args, p3)" "sees p3 (tok_pair T_RPAREN # ?flt)"
    using call_loop_args [of pe ext ?args n p2 ?flt "win_name wt" "[]"] win_args_ok(2,3) [OF assms(2)] p2(2) assms(5) by auto
  obtain p4 where p4: "scanIgnoreWhitespace p3 = (tok_pair T_RPAREN, p4)" "sees p4 ?flt"
    using sees_Cons [OF p3(2)] by auto
  obtain p5 where p5: "parseFilter pe p4 = Inr (flt, p5)" "sees p5 ts"
    using parseFilter_reads [OF p4(2) assms(3,6)] by auto
  have "end_call ext pe (win_name wt) ?args p3 = Inr (Window wt len itv flt, p5)"
    using p4(1) p5(1) win_validates [OF assms(2)] by (simp add: end_call_def tok_pair_def)
  then show ?thesis
    using p1(1) p2(1) p3(1) p5(2) win_validates(4) [OF assms(2)] by (simp add: after_ident_def parseCall_def tok_pair_def Let_def)
qed

lemma length_sep_commas:
  "x \<in> set xs \<Longrightarrow> length x \<le> length (sep_commas xs)"
  "length xs \<le> Suc (length (sep_commas xs))"
  by (induction xs rule: sep_commas.induct) auto

section \<open>Sequences of operators\<close>

definition seq_toks :: "(token \<times> expr) list \<Rightarrow> (token \<times> string) list" where
  "seq_toks ops = concat (map (\<lambda>(op, x). op_toks op @ etoks x) ops)"

definition operand :: "ext_validator \<Rightarrow> token \<Rightarrow> expr \<Rightarrow> bool" where
  "operand ext op x \<longleftrightarrow> (if op = T_SUBSET then is_bracket x else op \<in> set bin_ops \<and> pexpr ext (op = T_ARROW) x)"

lemma bracket_leaf [simp]: "is_bracket x \<Longrightarrow> \<not> is_bin x"
  by (cases x) auto

lemma pexpr_operands:
  "pexpr ext b e \<Longrightarrow> pexpr ext b (fst (inorder e)) \<and> list_all (\<lambda>(op, x). operand ext op x) (snd (inorder e))"
  by (induction ext b e rule: pexpr.induct) (auto simp: operand_def)

lemma etoks_inorder: "etoks e = etoks (fst (inorder e)) @ seq_toks (snd (inorder e))"
  by (induction e rule: prec_ok.induct) (simp_all add: seq_toks_def)

lemma inorder_leaves: "\<not> is_bin (fst (inorder e)) \<and> list_all (\<lambda>x. \<not> is_bin (snd x)) (snd (inorder e))"
  by (induction e rule: prec_ok.induct) auto

lemma op_tok_operator:
  "op \<in> set bin_ops \<Longrightarrow> IsOperator (op_tok op) \<and> op_tok op \<notin> {T_LBRACKET, T_DOT, T_LPAREN, T_EOF, T_FILTER} \<and> op \<noteq> T_SUBSET
     \<and> (if op_tok op = T_ASTERISK then T_MUL else if op_tok op = T_LBRACKET then T_SUBSET else op_tok op) = op"
  by (auto simp: bin_ops_def op_tok_def IsOperator_def)

lemma seq_toks_follow:
  assumes "follow ts" "list_all (\<lambda>(op, x). operand ext op x) ops"
  shows "ends_name (seq_toks ops @ ts)"
proof (cases ops)
  case Nil
  then show ?thesis
    using assms(1) by (simp add: seq_toks_def follow_def)
next
  case (Cons a ops')
  then show ?thesis
    using assms(2) bracket_start [of "snd a"] op_tok_operator [of "fst a"]
    by (cases a) (auto simp: seq_toks_def operand_def op_toks_def ends_name_def split: if_splits)
qed

lemma seq_loop_reads:
  assumes "\<forall>(op, x) \<in> set ops. \<forall>p ts. sees p (etoks x @ ts) \<longrightarrow> ends_name ts \<longrightarrow> (\<exists>p'. unary (op = T_ARROW) p = Inr (x, p') \<and> sees p' ts)"
    "list_all (\<lambda>(op, x). operand ext op x) ops" "length ops < k" "sees p (seq_toks ops @ ts)" "follow ts"
  shows "\<exists>p'. seq_loop unary k acc p = Inr (acc @ ops, p') \<and> sees p' ts"
  using assms
proof (induction ops arbitrary: acc p k)
  case Nil
  obtain lit p1 where "scanIgnoreWhitespace p = ((peek ts, lit), p1)" "sees (unscan p1) ts"
    using sees_peek [of p ts] Nil.prems(4) by (auto simp: seq_toks_def)
  then show ?case
    using Nil.prems(3,5) by (cases k) (auto simp: follow_def)
next
  case (Cons a ops)
  obtain op x where a: "a = (op, x)"
    by (cases a)
  obtain k' where k: "k = Suc k'"
    using Cons.prems(3) by (cases k) auto
  let ?rest = "seq_toks ops @ ts"
  have op: "operand ext op x"
    using Cons.prems(2) a by simp
  obtain tk lit p1 p2 where p1: "scanIgnoreWhitespace p = ((tk, lit), p1)" "IsOperator tk"
    "(if tk = T_ASTERISK then T_MUL else if tk = T_LBRACKET then T_SUBSET else tk) = op"
    "p2 = (if tk = T_LBRACKET then unscan p1 else p1)" "sees p2 (etoks x @ ?rest)"
  proof (cases "op = T_SUBSET")
    case True
    then obtain q where q: "etoks x = tok_pair T_LBRACKET # q"
      using op bracket_start [of x] by (auto simp: operand_def)
    have s: "sees p (tok_pair T_LBRACKET # q @ ?rest)"
      using Cons.prems(4) a True q by (simp add: seq_toks_def op_toks_def)
    then obtain p1 where "scanIgnoreWhitespace p = (tok_pair T_LBRACKET, p1)" "sees (unscan p1) (etoks x @ ?rest)"
      using sees_Cons [OF s] q by auto
    then show ?thesis
      using that [of T_LBRACKET "tok_String T_LBRACKET" p1 "unscan p1"] True by (simp add: tok_pair_def IsOperator_def)
  next
    case False
    then have b: "op \<in> set bin_ops"
      using op by (simp add: operand_def)
    have s: "sees p (tok_pair (op_tok op) # etoks x @ ?rest)"
      using Cons.prems(4) a False by (simp add: seq_toks_def op_toks_def)
    then obtain p1 where "scanIgnoreWhitespace p = (tok_pair (op_tok op), p1)" "sees p1 (etoks x @ ?rest)"
      using sees_Cons [OF s] by auto
    then show ?thesis
      using that [of "op_tok op" "tok_String (op_tok op)" p1 p1] op_tok_operator [OF b] by (simp add: tok_pair_def)
  qed
  obtain p3 where p3: "unary (op = T_ARROW) p2 = Inr (x, p3)" "sees p3 ?rest"
    using Cons.prems(1) a p1(5) seq_toks_follow [OF Cons.prems(5), of ext ops] Cons.prems(2) by fastforce
  obtain p4 where "seq_loop unary k' (acc @ [(op, x)]) p3 = Inr ((acc @ [(op, x)]) @ ops, p4)" "sees p4 ts"
    using Cons.IH [of k' p3 "acc @ [(op, x)]"] Cons.prems k p3(2) by auto
  then show ?case
    using p1(1-4) p3(1) k a by (simp add: Let_def)
qed

section \<open>Round trip\<close>

lemma literal_bools:
  "literal_expr T_TRUE (tok_String T_TRUE) = Inr (BooleanLiteral True)"
  "literal_expr T_FALSE (tok_String T_FALSE) = Inr (BooleanLiteral False)"
  by code_simp+

lemma unary_reads:
  assumes "sees p (etoks x @ ts)" "pexpr ext b x" "\<not> is_bin x" "ends_name ts" "length (etoks x) \<le> n"
    "\<And>e. pexpr ext False e \<Longrightarrow> prec_ok e \<Longrightarrow> length (etoks e) < n \<Longrightarrow> reads (ParseExpr ext n) e"
  shows "\<exists>p'. parseUnaryExpr ext (ParseExpr ext n) n b p = Inr (x, p') \<and> sees p' ts"
proof (cases x)
  case (FieldRef sn nm al)
  then show ?thesis
    using unary_name [of p sn nm ts ext b] assms by simp
next
  case (ParenExpr e)
  then show ?thesis
    using unary_paren [of p e ts] assms by simp
next
  case (Call nm args)
  have len: "length (etoks e) < n" if "e \<in> set args" for e
    using assms(5) Call length_sep_commas(1) [of "etoks e" "map etoks args"] that by simp
  then have "list_all (reads (ParseExpr ext n)) args"
    using assms(2,6) Call by (auto simp: list_all_iff)
  moreover have "length args \<le> n"
    using assms(5) Call length_sep_commas(2) [of "map etoks args"] by simp
  ultimately show ?thesis
    using unary_call [of p nm args ts ext b "ParseExpr ext n" n] assms(1,2) Call by simp
next
  case (Window wt len itv flt)
  have w: "win_ok wt len itv" "\<And>f. flt = Some f \<Longrightarrow> pexpr ext False f \<and> prec_ok f"
    using assms(2) Window by auto
  have n: "4 \<le> n" "\<And>f. flt = Some f \<Longrightarrow> length (etoks f) < n"
    using assms(5) Window win_args_ok(2) [OF w(1)] length_sep_commas(1) [of "lit_toks (hd (win_args wt len itv))" "map lit_toks (win_args wt len itv)"]
      win_args_ok(1) [OF w(1)] win_args_toks [of wt len itv] by (cases "win_args wt len itv"; auto)+
  have "list_all (reads (ParseExpr ext n)) (win_args wt len itv)"
    using win_args_ok(1) [OF w(1), of ext] n(1) assms(6) by (auto simp: list_all_iff)
  then show ?thesis
    using unary_window [of p wt len itv flt ts "ParseExpr ext n" n] assms(1,4,6) Window w n by auto
next
  case (IntegerLiteral i)
  then show ?thesis
    using assms(1,2) by (intro unary_literal [of p T_INTEGER "itoa i"]) (auto simp: literal_expr_def lit_int_Atoi_value)
next
  case (StringLiteral s)
  then show ?thesis
    using assms(1,2) by (intro unary_literal [of p T_STRING s]) (auto simp: literal_expr_def)
next
  case (BooleanLiteral v)
  have "literal_expr (if v then T_TRUE else T_FALSE) (tok_String (if v then T_TRUE else T_FALSE)) = Inr (BooleanLiteral v)"
    using literal_bools by simp
  then show ?thesis
    using assms(1) BooleanLiteral
    by (intro unary_literal [of p "if v then T_TRUE else T_FALSE" "tok_String (if v then T_TRUE else T_FALSE)"]) (auto simp: tok_pair_def)
next
  case (TimeLiteral t)
  then have "t \<in> {T_DD, T_HH, T_MI, T_SS, T_MS}"
    using assms(2) time_toks by simp
  then show ?thesis
    using assms(1) TimeLiteral
    by (intro unary_literal [of p t "tok_String t"]) (auto simp: tok_pair_def literal_expr_def IsTimeLiteral_def)
qed (use assms(2,3) in simp_all)

lemma seq_toks_length:
  "list_all (\<lambda>(op, x). operand ext op x) ops \<Longrightarrow> length ops \<le> length (seq_toks ops) \<and> (\<forall>(op, x) \<in> set ops. length (etoks x) \<le> length (seq_toks ops))"
proof (induction ops)
  case (Cons a ops)
  obtain op x where a: "a = (op, x)"
    by (cases a)
  have "1 \<le> length (op_toks op @ etoks x)"
    using Cons.prems a bracket_start [of x] by (auto simp: op_toks_def operand_def split: if_splits)
  then show ?case
    using Cons a by (auto simp: seq_toks_def)
qed (simp add: seq_toks_def)

lemma reads_ParseExpr: "pexpr ext False e \<Longrightarrow> prec_ok e \<Longrightarrow> length (etoks e) < n \<Longrightarrow> reads (ParseExpr ext n) e"
proof (induction n arbitrary: e)
  case (Suc n)
  obtain u ops where uo: "inorder e = (u, ops)"
    by (cases "inorder e")
  have ops: "pexpr ext False u" "list_all (\<lambda>(op, x). operand ext op x) ops" "\<not> is_bin u" "list_all (\<lambda>x. \<not> is_bin (snd x)) ops"
    using pexpr_operands [OF Suc.prems(1)] inorder_leaves [of e] uo by auto
  have e: "etoks e = etoks u @ seq_toks ops"
    using etoks_inorder [of e] uo by simp
  obtain t tl where "etoks u = t # tl"
    using etoks_start [OF ops(1)] by blast
  then have len: "length ops < n" "length (etoks u) \<le> n" "\<forall>(op, x) \<in> set ops. length (etoks x) \<le> n"
    using Suc.prems(3) e seq_toks_length [OF ops(2)] by auto
  let ?unary = "parseUnaryExpr ext (ParseExpr ext n) n"
  have unary: "\<exists>p'. ?unary (op = T_ARROW) p = Inr (x, p') \<and> sees p' ts"
    if "(op, x) \<in> set ops" "sees p (etoks x @ ts)" "ends_name ts" for op x p ts
  proof (cases "op = T_SUBSET")
    case True
    then show ?thesis
      using ops(2) that unary_bracket [OF that(2)] by (auto simp: list_all_iff operand_def)
  next
    case False
    then show ?thesis
      using that ops(2,4) len(3) Suc.IH by (intro unary_reads) (auto simp: list_all_iff operand_def)
  qed
  show ?case
    unfolding reads_def
  proof (intro allI impI)
    fix p ts
    assume s: "sees p (etoks e @ ts)" and f: "follow ts"
    obtain p1 where p1: "?unary False p = Inr (u, p1)" "sees p1 (seq_toks ops @ ts)"
      using unary_reads [of p u "seq_toks ops @ ts" ext False n] s e ops(1,3) len(2) Suc.IH seq_toks_follow [OF f ops(2)] by auto
    obtain p2 where p2: "seq_loop ?unary n [] p1 = Inr (ops, p2)" "sees p2 ts"
      using seq_loop_reads [of ops ?unary ext n p1 ts "[]", OF _ ops(2) len(1) p1(2) f] unary by fastforce
    have "read_sequence ext n p = Inr ((u, ops), p2)"
      using p1(1) p2(1) by (simp add: read_sequence_def)
    then have "ParseExpr ext (Suc n) p = Inr (e, p2)"
      using attach_all_inorder [OF Suc.prems(2)] uo by (simp add: ParseExpr_sequence del: ParseExpr.simps)
    then show "\<exists>p'. ParseExpr ext (Suc n) p = Inr (e, p') \<and> sees p' ts"
      using p2(2) by blast
  qed
qed simp

text \<open>The printed tokens read back.\<close>

definition plain :: "token \<times> string \<Rightarrow> bool" where
  "plain t \<longleftrightarrow> fst t \<notin> set prefix_ops"

definition calm :: "token \<times> string \<Rightarrow> bool" where
  "calm t \<longleftrightarrow> hd (print_token t) \<notin> {CHR ''='', CHR ''-'', CHR ''>'', CHR ''.'', CHR ''*''}"

definition good :: "(token \<times> string) list \<Rightarrow> bool" where
  "good ts \<longleftrightarrow> list_all valid_token ts \<and> successively separable ts \<and> (ts \<noteq> [] \<longrightarrow> plain (last ts))"

lemma plain_separable: "plain t \<Longrightarrow> separable t u"
  by (auto simp: plain_def separable_def prefix_ops_def Let_def)

lemma calm_separable: "calm u \<Longrightarrow> separable t u"
  by (auto simp: calm_def separable_def Let_def)

lemma good_Nil [simp]: "good []"
  by (simp add: good_def)

lemma good_append: "good xs \<Longrightarrow> good ys \<Longrightarrow> good (xs @ ys)"
  by (cases "ys = []") (auto simp: good_def successively_append_iff plain_separable)

lemma good_Cons: "valid_token t \<Longrightarrow> plain t \<Longrightarrow> good ys \<Longrightarrow> good (t # ys)"
  using good_append [of "[t]" ys] by (simp add: good_def)

lemma good_op: "valid_token t \<Longrightarrow> good ys \<Longrightarrow> ys \<noteq> [] \<Longrightarrow> calm (hd ys) \<Longrightarrow> good (t # ys)"
  by (cases ys) (auto simp: good_def calm_separable)

lemma fixed_tokens:
  "list_all (\<lambda>t. valid_token (tok_pair t) \<and> plain (tok_pair t))
    [T_DOT, T_LPAREN, T_RPAREN, T_LBRACKET, T_RBRACKET, T_COLON, T_COMMA, T_TRUE, T_FALSE, T_DD, T_HH, T_MI, T_SS, T_MS]"
  by code_simp

lemma op_tokens: "list_all (\<lambda>op. valid_token (tok_pair (op_tok op))) bin_ops"
  by code_simp

lemma name_token: "is_name n \<Longrightarrow> valid_token (T_IDENT, n) \<and> plain (T_IDENT, n)"
  by (simp add: valid_token_def is_name_def plain_def prefix_ops_def)

lemma integer_token: "lit_int i \<Longrightarrow> valid_token (T_INTEGER, itoa i) \<and> plain (T_INTEGER, itoa i)"
  using nat_digits_chars by (auto simp: valid_token_def lit_int_def itoa_nat isDigit_eq list_all_iff plain_def prefix_ops_def)

lemma string_token: "list_all printable s \<Longrightarrow> valid_token (T_STRING, s) \<and> plain (T_STRING, s)"
  by (simp add: valid_token_def plain_def prefix_ops_def)

lemma start_calm: "valid_token t \<Longrightarrow> fst t \<in> set start_toks \<Longrightarrow> calm t"
proof -
  assume *: "valid_token t" "fst t \<in> set start_toks"
  obtain tok lit where t: "t = (tok, lit)"
    by (cases t)
  have ident: "is_ident lit \<Longrightarrow> hd lit \<notin> {CHR ''='', CHR ''-'', CHR ''>'', CHR ''.'', CHR ''*''}"
    using is_ident_first [of lit] by (auto simp: isLetter_def char_code_def)
  have digit: "lit \<noteq> [] \<Longrightarrow> list_all isDigit lit \<Longrightarrow> hd lit \<notin> {CHR ''='', CHR ''-'', CHR ''>'', CHR ''.'', CHR ''*''}"
    by (cases lit) (auto simp: isDigit_def char_code_def)
  have fixed: "tok_String T_LPAREN = ''(''" "\<forall>t \<in> set start_toks. t \<in> snd ` set simple_table \<longrightarrow> t = T_LPAREN"
    "set prefix_ops \<inter> set start_toks = {}" "set closed_ops \<inter> set start_toks = {}"
    by code_simp+
  from *(1)[unfolded t valid_token_def prod.case] show ?thesis
  proof (elim disjE conjE)
    assume "lit = tok_String tok" "tok \<in> snd ` set simple_table"
    moreover from this(2) have "tok = T_LPAREN"
      using *(2) fixed(2) t by auto
    ultimately show ?thesis
      using fixed(1) by (simp add: t calm_def print_token_def)
  qed (use * ident digit fixed(3,4) keyword_ident [of lit tok] in \<open>auto simp: t calm_def print_token_def quote_def\<close>)
qed

lemma bracket_good: "is_bracket e \<Longrightarrow> good (etoks e)"
  using fixed_tokens by (cases e) (auto intro!: good_Cons simp: integer_token)

lemma sep_commas_good: "list_all good xs \<Longrightarrow> good (sep_commas xs)"
  using fixed_tokens by (induction xs rule: sep_commas.induct) (auto intro!: good_append good_Cons)

lemma win_tokens: "list_all (\<lambda>wt. wt = NOT_WINDOW \<or> is_name (win_name wt))
    [NOT_WINDOW, TUMBLING_WINDOW, HOPPING_WINDOW, SLIDING_WINDOW, SESSION_WINDOW, COUNT_WINDOW]"
  by code_simp

lemma win_toks_good: "win_ok wt len itv \<Longrightarrow> is_name (win_name wt) \<and> good (sep_commas (map lit_toks (win_args wt len itv)))"
  using win_tokens fixed_tokens
  by (auto simp: win_ok_def win_args_def integer_token split: option.splits WindowType.splits intro!: sep_commas_good good_Cons)

lemma keyword_tokens:
  "list_all (\<lambda>t. valid_token t \<and> plain t) [(T_FILTER, ''FILTER''), tok_pair T_WHERE]"
  by code_simp

lemma etoks_good: "pexpr ext b e \<Longrightarrow> good (etoks e)"
proof (induction ext b e rule: pexpr.induct)
  case (8 ext b op l r)
  show ?case
  proof (cases "op = T_SUBSET")
    case True
    then show ?thesis
      using 8 bracket_good by (auto simp: op_toks_def intro!: good_append)
  next
    case False
    obtain t ts where t: "etoks r = t # ts" "fst t \<in> set start_toks"
      using etoks_start [of ext "op = T_ARROW" r] 8(3) False by auto
    have r: "good (etoks r)"
      using 8(2,3) False by simp
    then have "calm t"
      using start_calm [of t] t by (simp add: good_def)
    then have "good (tok_pair (op_tok op) # etoks r)"
      using r op_tokens 8(3) False t by (intro good_op) (auto simp: list_all_iff)
    then show ?thesis
      using 8 False by (auto simp: op_toks_def intro!: good_append)
  qed
next
  case (9 ext b wt len itv flt)
  have w: "is_name (win_name wt)" "good (sep_commas (map lit_toks (win_args wt len itv)))"
    using 9 win_toks_good [of wt len itv] by auto
  have f: "good (case flt of None \<Rightarrow> []
      | Some f \<Rightarrow> (T_FILTER, ''FILTER'') # tok_pair T_LPAREN # tok_pair T_WHERE # etoks f @ [tok_pair T_RPAREN])"
    using 9 fixed_tokens keyword_tokens by (cases flt) (auto intro!: good_Cons good_append)
  show ?case
    using w f fixed_tokens name_token by (auto intro!: good_Cons good_append)
next
  case (7 ext b name args)
  then have "good (sep_commas (map etoks args))"
    by (auto simp: list_all_iff intro!: sep_commas_good)
  then show ?case
    using 7 fixed_tokens name_token by (auto intro!: good_Cons good_append)
qed (use fixed_tokens in \<open>auto intro!: good_Cons good_append simp: name_token integer_token string_token dest: time_toks\<close>)

lemma lex_good: "good ts \<Longrightarrow> lex (NewScanner (print_tokens ts)) = ts"
  by (rule lex_print_tokens) (simp_all add: good_def NewScanner_def)

lemma valid_not_EOF: "valid_token t \<Longrightarrow> fst t \<noteq> T_EOF"
proof -
  have "T_EOF \<notin> snd ` set keywords_table" "T_EOF \<notin> snd ` set simple_table" "T_EOF \<notin> set prefix_ops" "T_EOF \<notin> set closed_ops"
    by code_simp+
  then show "valid_token t \<Longrightarrow> fst t \<noteq> T_EOF"
    by (cases t) (force simp: valid_token_def dest: map_of_SomeD)
qed

lemma sees_NewParser: "good ts \<Longrightarrow> sees (NewParser (print_tokens ts)) ts"
  using lex_good [of ts] valid_not_EOF wf_NewParser
  by (auto simp: sees_def toks_def NewParser_def good_def list_all_iff)

lemma print_tokens_length: "length ts \<le> length (print_tokens ts)"
  by (induction ts) (auto simp: print_tokens_def)

text \<open>
  Printing and parsing expressions are inverse: for every expression made of column references, literals, parentheses, subscripts, accepted
  calls and operators in precedence order, \<^verbatim>\<open>ParseExpr\<close> on the text of the expression returns the expression itself.
\<close>

theorem expr_print_parse:
  "pexpr ext False e \<Longrightarrow> prec_ok e \<Longrightarrow>
   \<exists>p. ParseExpr ext (sql_fuel (print_tokens (etoks e))) (NewParser (print_tokens (etoks e))) = Inr (e, p)"
proof -
  assume e: "pexpr ext False e" "prec_ok e"
  let ?s = "print_tokens (etoks e)"
  have "reads (ParseExpr ext (sql_fuel ?s)) e"
    using reads_ParseExpr [OF e] print_tokens_length [of "etoks e"] by (simp add: sql_fuel_def)
  moreover have "sees (NewParser ?s) (etoks e @ [])"
    using sees_NewParser [OF etoks_good [OF e(1)]] by simp
  moreover have "follow []"
    by (simp add: follow_def ends_name_def peek_def IsOperator_def)
  ultimately show ?thesis
    using readsD by blast
qed

theorem expr_print_parse_witness:
  "\<exists>p. ParseExpr (\<lambda>_ _. Some []) 25 (NewParser ''a + 2 * ( b - c [ 1 ] ) '') =
     Inr (BinaryExpr T_ADD (FieldRef DefaultStream ''a'' None) (BinaryExpr T_MUL (IntegerLiteral 2) (ParenExpr
       (BinaryExpr T_SUB (FieldRef DefaultStream ''b'' None) (BinaryExpr T_SUBSET (FieldRef DefaultStream ''c'' None) (IndexExpr 1))))), p)"
proof -
  let ?e = "BinaryExpr T_ADD (FieldRef DefaultStream ''a'' None) (BinaryExpr T_MUL (IntegerLiteral 2) (ParenExpr
       (BinaryExpr T_SUB (FieldRef DefaultStream ''b'' None) (BinaryExpr T_SUBSET (FieldRef DefaultStream ''c'' None) (IndexExpr 1)))))"
  have "pexpr (\<lambda>_ _. Some []) False ?e" "prec_ok ?e" "print_tokens (etoks ?e) = ''a + 2 * ( b - c [ 1 ] ) ''"
    "sql_fuel ''a + 2 * ( b - c [ 1 ] ) '' = 25"
    by code_simp+
  then show ?thesis
    using expr_print_parse [of "\<lambda>_ _. Some []" ?e] by simp
qed

end
