(* ===== verification/StmtPrint.thy ===== *)
theory StmtPrint
  imports PrintParse
begin

text \<open>
  Printing SELECT statements and reading them back: the round trip of \<open>PrintParse\<close> carried through the clauses of the statement up to the entry
  point \<^verbatim>\<open>GetStatementFromSql\<close>.
\<close>

section \<open>The tokens of a statement\<close>

definition alias_toks :: "string \<Rightarrow> (token \<times> string) list" where
  "alias_toks a = (if a = [] then [] else [tok_pair T_AS, (T_IDENT, a)])"

definition field_toks :: "field \<Rightarrow> (token \<times> string) list" where
  "field_toks f = etoks (fld_Expr f) @ alias_toks (fld_AName f)"

definition star_field :: field where
  "star_field = \<lparr>fld_Name = [], fld_AName = [], fld_Expr = Wildcard T_ASTERISK\<rparr>"

definition fields_toks :: "field list \<Rightarrow> (token \<times> string) list" where
  "fields_toks fs = (if fs = [star_field] then [tok_pair T_ASTERISK] else sep_commas (map field_toks fs))"

definition source_toks :: "string \<Rightarrow> string \<Rightarrow> (token \<times> string) list" where
  "source_toks n a = (T_IDENT, n) # alias_toks a"

definition join_kw :: "JoinType \<Rightarrow> token \<times> string" where
  "join_kw jt = (case jt of
     INNER_JOIN \<Rightarrow> (T_INNER, ''INNER'')
   | LEFT_JOIN \<Rightarrow> (T_LEFT, ''LEFT'')
   | RIGHT_JOIN \<Rightarrow> (T_RIGHT, ''RIGHT'')
   | FULL_JOIN \<Rightarrow> (T_FULL, ''FULL'')
   | CROSS_JOIN \<Rightarrow> (T_CROSS, ''CROSS''))"

definition join_toks :: "join \<Rightarrow> (token \<times> string) list" where
  "join_toks j = join_kw (jn_JoinType j) # tok_pair T_JOIN # source_toks (jn_Name j) (jn_Alias j) @
     (case jn_Expr j of None \<Rightarrow> [] | Some e \<Rightarrow> tok_pair T_ON # etoks e)"

definition clause_toks :: "token \<Rightarrow> expr option \<Rightarrow> (token \<times> string) list" where
  "clause_toks kw e = (case e of None \<Rightarrow> [] | Some e \<Rightarrow> tok_pair kw # etoks e)"

definition dims_toks :: "dimensions \<Rightarrow> (token \<times> string) list" where
  "dims_toks ds = (if ds = [] then [] else tok_pair T_GROUP # tok_pair T_BY # sep_commas (map etoks ds))"

definition sort_toks :: "sort_field \<Rightarrow> (token \<times> string) list" where
  "sort_toks s = [(T_IDENT, sf_Name s), tok_pair (if sf_Ascending s then T_ASC else T_DESC)]"

definition sorts_toks :: "sort_field list \<Rightarrow> (token \<times> string) list" where
  "sorts_toks ss = (if ss = [] then [] else tok_pair T_ORDER # tok_pair T_BY # sep_commas (map sort_toks ss))"

definition stmt_toks :: "SelectStatement \<Rightarrow> (token \<times> string) list" where
  "stmt_toks st = tok_pair T_SELECT # fields_toks (Fields st) @ tok_pair T_FROM #
     concat (map (\<lambda>t. source_toks (tbl_Name t) (tbl_Alias t)) (Sources st)) @ concat (map join_toks (Joins st)) @
     clause_toks T_WHERE (Condition st) @ dims_toks (Dimensions st) @ clause_toks T_HAVING (Having st) @ sorts_toks (SortFields st)"

text \<open>The statements that can be printed.\<close>

definition expr_ok :: "ext_validator \<Rightarrow> expr \<Rightarrow> bool" where
  "expr_ok ext e \<longleftrightarrow> pexpr ext False e \<and> prec_ok e"

fun opt_all :: "('a \<Rightarrow> bool) \<Rightarrow> 'a option \<Rightarrow> bool" where
  "opt_all P None = True"
| "opt_all P (Some x) = P x"

definition alias_ok :: "string \<Rightarrow> bool" where
  "alias_ok a \<longleftrightarrow> a = [] \<or> is_name a"

definition field_ok :: "ext_validator \<Rightarrow> field \<Rightarrow> bool" where
  "field_ok ext f \<longleftrightarrow> expr_ok ext (fld_Expr f) \<and> alias_ok (fld_AName f) \<and>
     fld_Name f = (case fld_Expr f of FieldRef sn n al \<Rightarrow> n | Call n args \<Rightarrow> n | _ \<Rightarrow> [])"

definition join_ok :: "ext_validator \<Rightarrow> join \<Rightarrow> bool" where
  "join_ok ext j \<longleftrightarrow> is_name (jn_Name j) \<and> alias_ok (jn_Alias j) \<and>
     (case jn_Expr j of None \<Rightarrow> True | Some e \<Rightarrow> jn_JoinType j \<noteq> CROSS_JOIN \<and> expr_ok ext e)"

definition stmt_ok :: "ext_validator \<Rightarrow> (string \<Rightarrow> bool) \<Rightarrow> SelectStatement \<Rightarrow> bool" where
  "stmt_ok ext rt st \<longleftrightarrow>
     (Fields st = [star_field] \<or> Fields st \<noteq> [] \<and> list_all (field_ok ext) (Fields st)) \<and>
     (case Sources st of [t] \<Rightarrow> is_name (tbl_Name t) \<and> alias_ok (tbl_Alias t) | _ \<Rightarrow> False) \<and>
     list_all (join_ok ext) (Joins st) \<and> opt_all (expr_ok ext) (Condition st) \<and> list_all (expr_ok ext) (Dimensions st) \<and>
     opt_all (expr_ok ext) (Having st) \<and> list_all (\<lambda>s. is_name (sf_Name s)) (SortFields st) \<and> Validate rt st = None"

section \<open>The clauses read back\<close>

definition after :: "token list \<Rightarrow> (token \<times> string) list \<Rightarrow> bool" where
  "after cls ts \<longleftrightarrow> peek ts \<in> set cls"

definition c_order :: "token list" where "c_order = [T_ORDER, T_EOF]"
definition c_having :: "token list" where "c_having = T_HAVING # c_order"
definition c_group :: "token list" where "c_group = T_GROUP # c_having"
definition c_where :: "token list" where "c_where = T_WHERE # c_group"
definition c_join :: "token list" where "c_join = [T_INNER, T_LEFT, T_RIGHT, T_FULL, T_CROSS] @ c_where"

lemmas cls_defs = c_join_def c_where_def c_group_def c_having_def c_order_def

lemma follow_after: "after cls ts \<Longrightarrow> set cls \<subseteq> set (T_FROM # c_join) \<Longrightarrow> follow ts"
  by (auto simp: after_def cls_defs follow_def ends_name_def IsOperator_def)

lemma parse_clause:
  assumes "sees p (clause_toks kw e @ ts)" "opt_all (reads pe) e" "after cls ts" "kw \<notin> set cls" "set cls \<subseteq> set c_join"
  shows "\<exists>p'. (case scanIgnoreWhitespace p of ((tok, lit), p1) \<Rightarrow>
     if tok \<noteq> kw then Inr (None, unscan p1) else bindE (pe p1) (\<lambda>e p2. Inr (Some e, p2))) = Inr (e, p') \<and> sees p' ts"
proof (cases e)
  case None
  then show ?thesis
    using sees_peek [of p ts] assms(1,3,4) by (auto simp: clause_toks_def after_def)
next
  case (Some x)
  obtain p1 where p1: "scanIgnoreWhitespace p = (tok_pair kw, p1)" "sees p1 (etoks x @ ts)"
    using sees_Cons [of p "tok_pair kw"] assms(1) Some by (auto simp: clause_toks_def)
  have "follow ts"
    using follow_after [OF assms(3)] assms(5) by auto
  then obtain p2 where "pe p1 = Inr (x, p2)" "sees p2 ts"
    using readsD [OF _ p1(2), of pe] assms(2) Some by auto
  then show ?thesis
    using p1(1) Some by (simp add: tok_pair_def)
qed

lemma parseCondition_reads:
  assumes "sees p (clause_toks T_WHERE e @ ts)" "opt_all (reads pe) e" "after c_group ts"
  shows "\<exists>p'. parseCondition pe p = Inr (e, p') \<and> sees p' ts"
  using parse_clause [OF assms] by (auto simp: parseCondition_def cls_defs)

lemma parseHaving_reads:
  assumes "sees p (clause_toks T_HAVING e @ ts)" "opt_all (reads pe) e" "after c_order ts"
  shows "\<exists>p'. parseHaving pe p = Inr (e, p') \<and> sees p' ts"
  using parse_clause [OF assms] by (auto simp: parseHaving_def cls_defs)

lemma alias_reads:
  assumes "sees p (alias_toks a @ ts)" "peek ts \<noteq> T_AS"
  shows "\<exists>p'. parseAlias p = Inr (a, p') \<and> sees p' ts"
proof (cases "a = []")
  case True
  then show ?thesis
    using sees_peek [of p ts] assms by (auto simp: parseAlias_def alias_toks_def)
next
  case False
  obtain p1 where p1: "scanIgnoreWhitespace p = (tok_pair T_AS, p1)" "sees p1 ((T_IDENT, a) # ts)"
    using sees_Cons [of p "tok_pair T_AS"] assms(1) False by (auto simp: alias_toks_def)
  then show ?thesis
    using sees_Cons [OF p1(2)] by (auto simp: parseAlias_def tok_pair_def)
qed

lemma source_reads:
  assumes "sees p (source_toks n a @ ts)" "peek ts \<noteq> T_AS" "\<not> AllowedSourceToken (peek ts)"
  shows "\<exists>p'. parseSourceLiteral p = Inr ((n, a), p') \<and> sees p' ts"
proof -
  have stop: "\<exists>p'. source_loop segs al q = Inr ((segs, al), p') \<and> sees p' ts" if "sees q ts" for segs al q
    using sees_peek [OF that] assms(3) by (auto simp: source_loop.simps [of segs al q])
  obtain p1 where p1: "scanIgnoreWhitespace p = ((T_IDENT, n), p1)" "sees p1 (alias_toks a @ ts)"
    using sees_Cons [of p "(T_IDENT, n)"] assms(1) by (auto simp: source_toks_def)
  have id: "AllowedSourceToken T_IDENT"
    by (simp add: AllowedSourceToken_def)
  show ?thesis
  proof (cases "a = []")
    case True
    obtain lit p2 where "scanIgnoreWhitespace p1 = ((peek ts, lit), p2)" "sees (unscan p2) ts"
      using sees_peek [of p1 ts] p1(2) True by (auto simp: alias_toks_def)
    then show ?thesis
      using p1(1) id assms(2,3) True by (simp add: parseSourceLiteral_def source_loop.simps [of _ _ p])
  next
    case False
    obtain p2 where p2: "scanIgnoreWhitespace p1 = (tok_pair T_AS, p2)" "sees p2 ((T_IDENT, a) # ts)"
      using sees_Cons [of p1 "tok_pair T_AS"] p1(2) False by (auto simp: alias_toks_def)
    obtain p3 where p3: "scanIgnoreWhitespace p2 = ((T_IDENT, a), p3)" "sees p3 ts"
      using sees_Cons [OF p2(2)] by auto
    obtain p4 where "source_loop [n] a p3 = Inr (([n], a), p4)" "sees p4 ts"
      using stop [OF p3(2), of "[n]" a] by auto
    then show ?thesis
      using p1(1) p2(1) p3(1) id by (simp add: parseSourceLiteral_def source_loop.simps [of _ _ p] tok_pair_def)
  qed
qed

lemma after_source: "after cls ts \<Longrightarrow> set cls \<subseteq> set (T_ON # c_join) \<Longrightarrow> peek ts \<noteq> T_AS \<and> \<not> AllowedSourceToken (peek ts)"
  by (auto simp: after_def cls_defs AllowedSourceToken_def)

lemma fields_loop_reads:
  assumes "list_all (\<lambda>f. field_ok ext f \<and> reads pe (fld_Expr f)) fs" "fs \<noteq> []" "length fs \<le> k"
    "sees p (sep_commas (map field_toks fs) @ ts)" "peek ts = T_FROM"
  shows "\<exists>p'. fields_loop pe k acc p = Inr (acc @ fs, p') \<and> sees p' ts"
  using assms
proof (induction fs arbitrary: acc p k)
  case (Cons f fs)
  obtain k' where k: "k = Suc k'"
    using Cons.prems(3) by (cases k) auto
  define rest where "rest = (if fs = [] then ts else tok_pair T_COMMA # sep_commas (map field_toks fs) @ ts)"
  have s: "sees p (etoks (fld_Expr f) @ alias_toks (fld_AName f) @ rest)"
    using Cons.prems(4) by (cases fs) (simp_all add: rest_def field_toks_def [of f])
  have peek: "peek rest \<in> {T_FROM, T_COMMA}"
    using Cons.prems(5) by (simp add: rest_def)
  then have "follow (alias_toks (fld_AName f) @ rest)"
    by (auto simp: alias_toks_def follow_def ends_name_def IsOperator_def)
  then obtain p1 where p1: "pe p = Inr (fld_Expr f, p1)" "sees p1 (alias_toks (fld_AName f) @ rest)"
    using readsD [OF _ s, of pe] Cons.prems(1) by auto
  obtain p2 where p2: "parseAlias p1 = Inr (fld_AName f, p2)" "sees p2 rest"
    using alias_reads [OF p1(2)] peek by auto
  have f: "parseField pe p = Inr (f, p2)"
    using p1(1) p2(1) Cons.prems(1) by (cases f) (simp add: parseField_def field_ok_def)
  show ?case
  proof (cases "fs = []")
    case True
    obtain lit p3 where "scanIgnoreWhitespace p2 = ((T_FROM, lit), p3)" "sees (unscan p3) ts"
      using sees_peek [of p2 ts] p2(2) True Cons.prems(5) by (auto simp: rest_def)
    then show ?thesis
      using f k True by simp
  next
    case False
    obtain p3 where p3: "scanIgnoreWhitespace p2 = (tok_pair T_COMMA, p3)" "sees p3 (sep_commas (map field_toks fs) @ ts)"
      using sees_Cons [of p2 "tok_pair T_COMMA"] p2(2) False by (auto simp: rest_def)
    obtain p4 where "fields_loop pe k' (acc @ [f]) p3 = Inr ((acc @ [f]) @ fs, p4)" "sees p4 ts"
      using Cons.IH [OF _ False _ p3(2) Cons.prems(5), of k' "acc @ [f]"] Cons.prems(1,3) k by auto
    then show ?thesis
      using f p3(1) k by (simp add: tok_pair_def)
  qed
qed simp

lemma dim_loop_reads:
  assumes "list_all (reads pe) ds" "ds \<noteq> []" "length ds \<le> k" "sees p (sep_commas (map etoks ds) @ ts)" "after c_having ts"
  shows "\<exists>p'. dim_loop pe k acc p = Inr (acc @ ds, p') \<and> sees p' ts"
  using assms
proof (induction ds arbitrary: acc p k)
  case (Cons d ds)
  obtain k' where k: "k = Suc k'"
    using Cons.prems(3) by (cases k) auto
  define rest where "rest = (if ds = [] then ts else tok_pair T_COMMA # sep_commas (map etoks ds) @ ts)"
  have s: "sees p (etoks d @ rest)"
    using Cons.prems(4) by (cases ds) (simp_all add: rest_def)
  have "follow rest"
    using follow_after [OF Cons.prems(5)] by (auto simp: rest_def cls_defs)
  then obtain p1 where p1: "pe p = Inr (d, p1)" "sees p1 rest"
    using readsD [OF _ s, of pe] Cons.prems(1) by auto
  show ?case
  proof (cases "ds = []")
    case True
    obtain lit p2 where "scanIgnoreWhitespace p1 = ((peek ts, lit), p2)" "sees (unscan p2) ts"
      using sees_peek [of p1 ts] p1(2) True by (auto simp: rest_def)
    moreover have "peek ts \<noteq> T_COMMA"
      using Cons.prems(5) by (auto simp: after_def cls_defs)
    ultimately show ?thesis
      using p1(1) k True by simp
  next
    case False
    obtain p2 where p2: "scanIgnoreWhitespace p1 = (tok_pair T_COMMA, p2)" "sees p2 (sep_commas (map etoks ds) @ ts)"
      using sees_Cons [of p1 "tok_pair T_COMMA"] p1(2) False by (auto simp: rest_def)
    obtain p3 where "dim_loop pe k' (acc @ [d]) p2 = Inr ((acc @ [d]) @ ds, p3)" "sees p3 ts"
      using Cons.IH [OF _ False _ p2(2) Cons.prems(5), of k' "acc @ [d]"] Cons.prems(1,3) k by auto
    then show ?thesis
      using p1(1) p2(1) k by (simp add: tok_pair_def)
  qed
qed simp

lemma parseDimensions_reads:
  assumes "list_all (reads pe) ds" "length ds \<le> n" "sees p (dims_toks ds @ ts)" "after c_having ts"
  shows "\<exists>p'. parseDimensions pe n p = Inr (ds, p') \<and> sees p' ts"
proof (cases "ds = []")
  case True
  then show ?thesis
    using sees_peek [of p ts] assms(3,4) by (auto simp: parseDimensions_def dims_toks_def after_def cls_defs)
next
  case False
  obtain p1 where p1: "scanIgnoreWhitespace p = (tok_pair T_GROUP, p1)" "sees p1 (tok_pair T_BY # sep_commas (map etoks ds) @ ts)"
    using sees_Cons [of p "tok_pair T_GROUP"] assms(3) False by (auto simp: dims_toks_def)
  obtain p2 where p2: "scanIgnoreWhitespace p1 = (tok_pair T_BY, p2)" "sees p2 (sep_commas (map etoks ds) @ ts)"
    using sees_Cons [OF p1(2)] by auto
  show ?thesis
    using dim_loop_reads [OF assms(1) False assms(2) p2(2) assms(4), of "[]"] p1(1) p2(1) by (auto simp: parseDimensions_def tok_pair_def)
qed

lemma join_type_kw: "join_type (fst (join_kw jt)) = Some jt"
  by (cases jt) (simp_all add: join_kw_def join_type_def)

lemma ParseJoin_reads:
  assumes "sees p (source_toks (jn_Name j) (jn_Alias j) @ (case jn_Expr j of None \<Rightarrow> [] | Some e \<Rightarrow> tok_pair T_ON # etoks e) @ ts)"
    "join_ok ext j" "opt_all (reads pe) (jn_Expr j)" "after c_join ts"
  shows "\<exists>p'. ParseJoin pe (jn_JoinType j) p = Inr (j, p') \<and> sees p' ts"
proof (cases "jn_Expr j")
  case None
  obtain p1 where p1: "parseSourceLiteral p = Inr ((jn_Name j, jn_Alias j), p1)" "sees p1 ts"
    using source_reads [of p "jn_Name j" "jn_Alias j" ts] assms(1,4) None after_source [OF assms(4)] by auto
  obtain lit p2 where "scanIgnoreWhitespace p1 = ((peek ts, lit), p2)" "sees (unscan p2) ts"
    using sees_peek [OF p1(2)] by auto
  moreover have "peek ts \<noteq> T_ON"
    using assms(4) by (auto simp: after_def cls_defs)
  ultimately show ?thesis
    using p1(1) None by (cases j) (simp add: ParseJoin_def Let_def)
next
  case (Some e)
  have "after [T_ON] (tok_pair T_ON # etoks e @ ts)"
    by (simp add: after_def)
  then obtain p1 where p1: "parseSourceLiteral p = Inr ((jn_Name j, jn_Alias j), p1)" "sees p1 (tok_pair T_ON # etoks e @ ts)"
    using source_reads [of p "jn_Name j" "jn_Alias j" "tok_pair T_ON # etoks e @ ts"] assms(1) Some after_source by fastforce
  obtain p2 where p2: "scanIgnoreWhitespace p1 = (tok_pair T_ON, p2)" "sees p2 (etoks e @ ts)"
    using sees_Cons [OF p1(2)] by auto
  have "follow ts"
    using follow_after [OF assms(4)] by auto
  then obtain p3 where "pe p2 = Inr (e, p3)" "sees p3 ts"
    using readsD [OF _ p2(2), of pe] assms(3) Some by auto
  then show ?thesis
    using p1(1) p2(1) Some assms(2) by (cases j) (simp add: ParseJoin_def Let_def tok_pair_def join_ok_def)
qed

lemma join_toks_after: "after c_where ts \<Longrightarrow> after c_join (concat (map join_toks js) @ ts)"
proof (cases js)
  case (Cons j js')
  have "fst (join_kw (jn_JoinType j)) \<in> set c_join"
    by (cases "jn_JoinType j") (simp_all add: join_kw_def cls_defs)
  then show ?thesis
    using Cons by (simp add: after_def join_toks_def)
qed (simp add: after_def cls_defs)

lemma parseJoins_reads:
  assumes "list_all (\<lambda>j. join_ok ext j \<and> opt_all (reads pe) (jn_Expr j)) js" "length js < k"
    "sees p (concat (map join_toks js) @ ts)" "after c_where ts"
  shows "\<exists>p'. parseJoins pe k acc p = Inr (acc @ js, p') \<and> sees p' ts"
  using assms
proof (induction js arbitrary: acc p k)
  case Nil
  obtain lit p1 where "scanIgnoreWhitespace p = ((peek ts, lit), p1)" "sees (unscan p1) ts"
    using sees_peek [of p ts] Nil.prems(3) by auto
  moreover have "join_type (peek ts) = None"
    using Nil.prems(4) by (auto simp: after_def cls_defs join_type_def)
  ultimately show ?case
    using Nil.prems(2) by (cases k) auto
next
  case (Cons j js)
  obtain k' where k: "k = Suc k'"
    using Cons.prems(2) by (cases k) auto
  let ?rest = "concat (map join_toks js) @ ts"
  obtain p1 where p1: "scanIgnoreWhitespace p = (join_kw (jn_JoinType j), p1)"
    "sees p1 (tok_pair T_JOIN # source_toks (jn_Name j) (jn_Alias j) @ (case jn_Expr j of None \<Rightarrow> [] | Some e \<Rightarrow> tok_pair T_ON # etoks e) @ ?rest)"
    using sees_Cons [of p "join_kw (jn_JoinType j)"] Cons.prems(3) by (auto simp: join_toks_def [of j])
  obtain p2 where p2: "scanIgnoreWhitespace p1 = (tok_pair T_JOIN, p2)"
    "sees p2 (source_toks (jn_Name j) (jn_Alias j) @ (case jn_Expr j of None \<Rightarrow> [] | Some e \<Rightarrow> tok_pair T_ON # etoks e) @ ?rest)"
    using sees_Cons [OF p1(2)] by auto
  obtain p3 where p3: "ParseJoin pe (jn_JoinType j) p2 = Inr (j, p3)" "sees p3 ?rest"
    using ParseJoin_reads [OF p2(2), of ext pe] Cons.prems(1) join_toks_after [OF Cons.prems(4)] by auto
  obtain p4 where "parseJoins pe k' (acc @ [j]) p3 = Inr ((acc @ [j]) @ js, p4)" "sees p4 ts"
    using Cons.IH [of k' p3 "acc @ [j]"] Cons.prems k p3(2) by auto
  then show ?case
    using p1(1) p2(1) p3(1) k join_type_kw [of "jn_JoinType j"] by (cases "join_kw (jn_JoinType j)") (simp add: tok_pair_def)
qed

lemma sort_loop_reads:
  assumes "ss \<noteq> []" "2 * length ss \<le> k" "sees p (sep_commas (map sort_toks ss))"
  shows "\<exists>p'. sort_loop k acc p = Inr (acc @ ss, p') \<and> sees p' []"
  using assms
proof (induction ss arbitrary: acc p k)
  case (Cons s ss)
  obtain k' where k: "k = Suc (Suc k')"
    using Cons.prems(2) by (metis Suc_le_D length_Cons mult_Suc_right add_2_eq_Suc le_iff_add add_Suc)
  let ?dir = "tok_pair (if sf_Ascending s then T_ASC else T_DESC)"
  define rest where "rest = (if ss = [] then [] else tok_pair T_COMMA # sep_commas (map sort_toks ss))"
  have sees: "sees p ((T_IDENT, sf_Name s) # ?dir # rest)"
    using Cons.prems(3) by (cases ss) (simp_all add: rest_def sort_toks_def [of s])
  have dir: "peek (?dir # rest) \<noteq> T_DOT"
    by simp
  obtain p1 where p1: "scanIgnoreWhitespace p = ((T_IDENT, sf_Name s), p1)" "sees (unscan p1) ((T_IDENT, sf_Name s) # ?dir # rest)"
    using sees_Cons [OF sees] by auto
  obtain p2 where p2: "name_sections (unscan p1) = ([sf_Name s], p2)" "sees p2 (?dir # rest)"
    using name_sections_one [OF p1(2)] dir by auto
  obtain p3 where p3: "scanIgnoreWhitespace p2 = (?dir, p3)" "sees p3 rest"
    using sees_Cons [OF p2(2)] by auto
  have step: "sort_loop (Suc n) acc p = sort_loop n (acc @ [s]) p3" for n acc
    using p1(1) p2(1) p3(1) by (cases s) (auto simp: parseFieldNameSections_def join_sep_def tok_pair_def Let_def)
  show ?case
  proof (cases "ss = []")
    case True
    obtain lit p4 where "scanIgnoreWhitespace p3 = ((T_EOF, lit), p4)" "sees (unscan p4) []"
      using sees_peek [OF p3(2)] True by (auto simp: rest_def peek_def)
    then show ?thesis
      using k True step by simp
  next
    case False
    obtain p4 where p4: "scanIgnoreWhitespace p3 = (tok_pair T_COMMA, p4)" "sees p4 (sep_commas (map sort_toks ss))"
      using sees_Cons [of p3 "tok_pair T_COMMA"] p3(2) False by (auto simp: rest_def)
    have "sort_loop (Suc k') (acc @ [s]) p3 = sort_loop k' (acc @ [s]) p4"
      using p4(1) by (simp add: tok_pair_def)
    moreover obtain p5 where "sort_loop k' (acc @ [s]) p4 = Inr ((acc @ [s]) @ ss, p5)" "sees p5 []"
      using Cons.IH [OF False _ p4(2), of k' "acc @ [s]"] Cons.prems(2) k by auto
    ultimately show ?thesis
      using k step [of "Suc k'"] by simp
  qed
qed simp

lemma parseSorts_reads:
  assumes "2 * length ss \<le> n" "sees p (sorts_toks ss)"
  shows "\<exists>p'. parseSorts n p = Inr (ss, p') \<and> sees p' []"
proof (cases "ss = []")
  case True
  then show ?thesis
    using sees_peek [of p "[]"] assms(2) by (auto simp: parseSorts_def sorts_toks_def peek_def)
next
  case False
  obtain p1 where p1: "scanIgnoreWhitespace p = (tok_pair T_ORDER, p1)" "sees p1 (tok_pair T_BY # sep_commas (map sort_toks ss))"
    using sees_Cons [of p "tok_pair T_ORDER"] assms(2) False by (auto simp: sorts_toks_def)
  obtain p2 where p2: "scanIgnoreWhitespace p1 = (tok_pair T_BY, p2)" "sees p2 (sep_commas (map sort_toks ss))"
    using sees_Cons [OF p1(2)] by auto
  show ?thesis
    using sort_loop_reads [OF False assms(1) p2(2), of "[]"] p1(1) p2(1) by (auto simp: parseSorts_def tok_pair_def)
qed

section \<open>Round trip\<close>

lemma after_clause: "after cls ts \<Longrightarrow> after (kw # cls) (clause_toks kw e @ ts)"
  by (simp add: after_def clause_toks_def split: option.split)

lemma after_dims: "after c_having ts \<Longrightarrow> after c_group (dims_toks ds @ ts)"
  by (simp add: after_def dims_toks_def c_group_def)

lemma after_sorts: "after c_order (sorts_toks ss)"
  by (simp add: after_def sorts_toks_def c_order_def peek_def)

lemma expr_reads: "expr_ok ext e \<Longrightarrow> length (etoks e) < n \<Longrightarrow> reads (ParseExpr ext n) e"
  by (simp add: expr_ok_def reads_ParseExpr)

lemma clause_reads: "opt_all (expr_ok ext) e \<Longrightarrow> length (clause_toks kw e) < n \<Longrightarrow> opt_all (reads (ParseExpr ext n)) e"
  by (cases e) (auto simp: clause_toks_def expr_reads)

lemma length_concat_le: "x \<in> set xs \<Longrightarrow> length x \<le> length (concat xs)"
  by (induction xs) auto

lemma length_sorts: "2 * length ss \<le> length (sep_commas (map sort_toks ss))"
proof (induction ss)
  case (Cons s ss)
  then show ?case
    by (cases ss) (simp_all add: sort_toks_def [of s])
qed simp

lemma joins_reads:
  assumes "list_all (join_ok ext) js" "length (concat (map join_toks js)) < n"
  shows "list_all (\<lambda>j. join_ok ext j \<and> opt_all (reads (ParseExpr ext n)) (jn_Expr j)) js" "length js < n"
proof -
  have "opt_all (reads (ParseExpr ext n)) (jn_Expr j)" if j: "j \<in> set js" for j
  proof (cases "jn_Expr j")
    case (Some e)
    have "length (join_toks j) < n"
      using length_concat_le [of "join_toks j" "map join_toks js"] j assms(2) by simp
    then have "length (etoks e) < n"
      using Some by (simp add: join_toks_def)
    moreover have "join_ok ext j"
      using assms(1) j by (simp add: list_all_iff)
    ultimately show ?thesis
      using Some by (simp add: join_ok_def expr_reads)
  qed simp
  then show "list_all (\<lambda>j. join_ok ext j \<and> opt_all (reads (ParseExpr ext n)) (jn_Expr j)) js"
    using assms(1) by (simp add: list_all_iff)
  have "length js \<le> length (concat (map join_toks js))"
    by (induction js) (auto simp: join_toks_def)
  then show "length js < n"
    using assms(2) by simp
qed

lemma parseFields_reads:
  assumes "fs = [star_field] \<or> fs \<noteq> [] \<and> list_all (field_ok ext) fs" "length (fields_toks fs) < n"
    "sees p (fields_toks fs @ ts)" "peek ts = T_FROM"
  shows "\<exists>p'. parseFields (ParseExpr ext n) n p = Inr (fs, p') \<and> sees p' ts"
proof (cases "fs = [star_field]")
  case True
  then show ?thesis
    using sees_Cons [of p "tok_pair T_ASTERISK" ts] assms(3) by (auto simp: fields_toks_def parseFields_def tok_pair_def star_field_def)
next
  case False
  then have fs: "fs \<noteq> []" "list_all (field_ok ext) fs" "fields_toks fs = sep_commas (map field_toks fs)"
    using assms(1) by (auto simp: fields_toks_def)
  have "reads (ParseExpr ext n) (fld_Expr f)" if "f \<in> set fs" for f
    using fs(2) that length_sep_commas(1) [of "field_toks f" "map field_toks fs"] assms(2) fs(3)
    by (intro expr_reads) (auto simp: list_all_iff field_ok_def field_toks_def)
  then have r: "list_all (\<lambda>f. field_ok ext f \<and> reads (ParseExpr ext n) (fld_Expr f)) fs"
    using fs(2) by (simp add: list_all_iff)
  have len: "length fs \<le> n"
    using length_sep_commas(2) [of "map field_toks fs"] assms(2) fs(3) by simp
  obtain f fs' where f: "fs = f # fs'" "pexpr ext False (fld_Expr f)"
    using fs(1,2) by (cases fs) (auto simp: field_ok_def expr_ok_def)
  obtain t tl where t: "fields_toks fs = t # tl" "fst t \<in> set start_toks"
    using etoks_start [OF f(2)] fs(3) f(1) by (cases fs') (auto simp: field_toks_def)
  obtain p1 where p1: "scanIgnoreWhitespace p = (t, p1)" "sees (unscan p1) (fields_toks fs @ ts)"
    using sees_Cons [of p t "tl @ ts"] assms(3) t(1) by auto
  have "fst t \<noteq> T_ASTERISK"
    using t(2) by (auto simp: start_toks_def)
  then show ?thesis
    using fields_loop_reads [OF r fs(1) len, of "unscan p1" ts "[]"] p1 fs(3) assms(4) by (cases t) (auto simp: parseFields_def)
qed

lemma Parse_reads:
  assumes "stmt_ok ext rt st" "length (stmt_toks st) < n" "sees p (stmt_toks st)"
  shows "\<exists>p'. Parse ext rt n p = Inr (Some st, p')"
proof -
  obtain src where src: "Sources st = [src]" "is_name (tbl_Name src)" "alias_ok (tbl_Alias src)"
    using assms(1) by (auto simp: stmt_ok_def split: list.splits)
  let ?pe = "ParseExpr ext n"
  let ?O = "sorts_toks (SortFields st)"
  let ?H = "clause_toks T_HAVING (Having st) @ ?O"
  let ?G = "dims_toks (Dimensions st) @ ?H"
  let ?W = "clause_toks T_WHERE (Condition st) @ ?G"
  let ?J = "concat (map join_toks (Joins st)) @ ?W"
  let ?T = "source_toks (tbl_Name src) (tbl_Alias src) @ ?J"
  have toks: "stmt_toks st = tok_pair T_SELECT # fields_toks (Fields st) @ tok_pair T_FROM # ?T"
    by (simp add: stmt_toks_def src(1))
  have a: "after c_order ?O" "after c_having ?H" "after c_group ?G" "after c_where ?W" "after c_join ?J"
    using after_sorts after_clause after_dims join_toks_after by (auto simp: c_having_def c_where_def)
  obtain p1 where p1: "scanIgnoreWhitespace p = (tok_pair T_SELECT, p1)" "sees p1 (fields_toks (Fields st) @ tok_pair T_FROM # ?T)"
    using sees_Cons [of p "tok_pair T_SELECT"] assms(3) toks by auto
  obtain p2 where p2: "parseFields ?pe n p1 = Inr (Fields st, p2)" "sees p2 (tok_pair T_FROM # ?T)"
  proof -
    have "Fields st = [star_field] \<or> Fields st \<noteq> [] \<and> list_all (field_ok ext) (Fields st)"
      using assms(1) by (simp add: stmt_ok_def)
    moreover have "length (fields_toks (Fields st)) < n"
      using assms(2) toks by simp
    ultimately show ?thesis
      using parseFields_reads [OF _ _ p1(2), of ext n] that by auto
  qed
  obtain p3 where p3: "parseSource p2 = Inr (Sources st, p3)" "sees p3 ?J"
  proof -
    obtain q where q: "scanIgnoreWhitespace p2 = (tok_pair T_FROM, q)" "sees q ?T"
      using sees_Cons [OF p2(2)] by auto
    obtain p3 where "parseSourceLiteral q = Inr ((tbl_Name src, tbl_Alias src), p3)" "sees p3 ?J"
      using source_reads [OF q(2)] after_source [OF a(5)] by auto
    then show ?thesis
      using that q(1) src(1) by (simp add: parseSource_def tok_pair_def)
  qed
  have len: "length (concat (map join_toks (Joins st))) < n" "length (clause_toks T_WHERE (Condition st)) < n"
    "length (dims_toks (Dimensions st)) < n" "length (clause_toks T_HAVING (Having st)) < n" "length ?O < n"
    using assms(2) toks by simp_all
  obtain p4 where p4: "parseJoins ?pe n [] p3 = Inr (Joins st, p4)" "sees p4 ?W"
    using parseJoins_reads [OF joins_reads [OF _ len(1), of ext] p3(2) a(4), of "[]"] assms(1) by (auto simp: stmt_ok_def)
  obtain p5 where p5: "parseCondition ?pe p4 = Inr (Condition st, p5)" "sees p5 ?G"
    using parseCondition_reads [OF p4(2) clause_reads [OF _ len(2)] a(3)] assms(1) by (auto simp: stmt_ok_def)
  obtain p6 where p6: "parseDimensions ?pe n p5 = Inr (Dimensions st, p6)" "sees p6 ?H"
  proof -
    have d: "length (etoks e) < n" if "e \<in> set (Dimensions st)" for e
      using that len(3) length_sep_commas(1) [of "etoks e" "map etoks (Dimensions st)"] by (auto simp: dims_toks_def split: if_splits)
    then have "list_all (reads ?pe) (Dimensions st)"
      using assms(1) by (auto simp: stmt_ok_def list_all_iff intro: expr_reads)
    moreover have "length (Dimensions st) \<le> n"
      using len(3) length_sep_commas(2) [of "map etoks (Dimensions st)"] by (auto simp: dims_toks_def split: if_splits)
    ultimately show ?thesis
      using parseDimensions_reads [OF _ _ p5(2) a(2)] that by auto
  qed
  obtain p7 where p7: "parseHaving ?pe p6 = Inr (Having st, p7)" "sees p7 ?O"
    using parseHaving_reads [OF p6(2) clause_reads [OF _ len(4)] a(1)] assms(1) by (auto simp: stmt_ok_def)
  have "2 * length (SortFields st) \<le> n"
    using len(5) length_sorts [of "SortFields st"] by (auto simp: sorts_toks_def split: if_splits)
  then obtain p8 where p8: "parseSorts n p7 = Inr (SortFields st, p8)" "sees p8 []"
    using parseSorts_reads [OF _ p7(2)] by auto
  obtain lit p9 where "scanIgnoreWhitespace p8 = ((T_EOF, lit), p9)"
    using sees_peek [OF p8(2)] by (auto simp: peek_def)
  then show ?thesis
    using p1(1) p2(1) p3(1) p4(1) p5(1) p6(1) p7(1) p8(1) assms(1)
    by (cases st) (simp add: Parse_def tok_pair_def Let_def stmt_ok_def)
qed

lemma keywords_good:
  "list_all (\<lambda>t. valid_token t \<and> plain t)
    [tok_pair T_SELECT, tok_pair T_FROM, tok_pair T_AS, tok_pair T_JOIN, tok_pair T_ON, tok_pair T_WHERE, tok_pair T_GROUP, tok_pair T_BY,
     tok_pair T_HAVING, tok_pair T_ORDER, tok_pair T_ASC, tok_pair T_DESC, tok_pair T_ASTERISK, (T_INNER, ''INNER''), (T_LEFT, ''LEFT''),
     (T_RIGHT, ''RIGHT''), (T_FULL, ''FULL''), (T_CROSS, ''CROSS'')]"
  by code_simp

lemma good_concat: "list_all good xs \<Longrightarrow> good (concat xs)"
  by (induction xs) (auto intro: good_append)

lemma alias_good: "alias_ok a \<Longrightarrow> good (alias_toks a)"
  using keywords_good name_token by (auto simp: alias_ok_def alias_toks_def intro!: good_Cons)

lemma expr_good: "expr_ok ext e \<Longrightarrow> good (etoks e)"
  by (auto simp: expr_ok_def intro: etoks_good)

lemma source_good: "is_name n \<Longrightarrow> alias_ok a \<Longrightarrow> good (source_toks n a)"
  using name_token by (auto simp: source_toks_def intro!: good_Cons alias_good)

lemma join_good: "join_ok ext j \<Longrightarrow> good (join_toks j)"
  using keywords_good
  by (auto simp: join_ok_def join_toks_def join_kw_def intro!: good_Cons good_append source_good expr_good split: option.split JoinType.split)

lemma clause_good: "opt_all (expr_ok ext) e \<Longrightarrow> kw \<in> {T_WHERE, T_HAVING} \<Longrightarrow> good (clause_toks kw e)"
  using keywords_good by (cases e) (auto simp: clause_toks_def intro!: good_Cons expr_good)

lemma dims_good: "list_all (expr_ok ext) ds \<Longrightarrow> good (dims_toks ds)"
  using keywords_good by (auto simp: dims_toks_def list_all_iff intro!: good_Cons sep_commas_good expr_good)

lemma sorts_good: "list_all (\<lambda>s. is_name (sf_Name s)) ss \<Longrightarrow> good (sorts_toks ss)"
  using keywords_good name_token
  by (auto simp: sorts_toks_def sort_toks_def list_all_iff intro!: good_Cons sep_commas_good)

lemma fields_good: "fs = [star_field] \<or> list_all (field_ok ext) fs \<Longrightarrow> good (fields_toks fs)"
  using keywords_good
  by (auto simp: fields_toks_def field_toks_def field_ok_def list_all_iff intro!: good_Cons good_append sep_commas_good expr_good alias_good)

lemma stmt_good:
  assumes "stmt_ok ext rt st"
  shows "good (stmt_toks st)"
proof -
  obtain src where src: "Sources st = [src]" "is_name (tbl_Name src)" "alias_ok (tbl_Alias src)"
    using assms by (auto simp: stmt_ok_def split: list.splits)
  have j: "good (concat (map join_toks (Joins st)))"
    using assms by (intro good_concat) (auto simp: stmt_ok_def list_all_iff intro: join_good)
  have rest: "good (source_toks (tbl_Name src) (tbl_Alias src) @ concat (map join_toks (Joins st)) @
      clause_toks T_WHERE (Condition st) @ dims_toks (Dimensions st) @ clause_toks T_HAVING (Having st) @ sorts_toks (SortFields st))"
    using assms src(2,3) j by (intro good_append source_good clause_good dims_good sorts_good) (auto simp: stmt_ok_def)
  have f: "good (fields_toks (Fields st))"
    using assms by (intro fields_good) (auto simp: stmt_ok_def)
  show ?thesis
    using f rest src(1) keywords_good by (auto simp: stmt_toks_def intro!: good_Cons good_append)
qed

text \<open>
  (C4) Printing and parsing SELECT statements are inverse: for every statement whose expressions can be printed, with any combination of
  fields and aliases, source, joins, WHERE, GROUP BY with windows and their filters, HAVING and ORDER BY, \<^verbatim>\<open>GetStatementFromSql\<close> on the text of
  the statement returns the statement itself.
\<close>

theorem select_print_parse:
  assumes "stmt_ok ext rt st"
  shows "GetStatementFromSql ext rt (print_tokens (stmt_toks st)) = Inr st"
proof -
  let ?s = "print_tokens (stmt_toks st)"
  have s: "sees (NewParser ?s) (stmt_toks st)"
    by (rule sees_NewParser [OF stmt_good [OF assms]])
  obtain p1 where p1: "scanIgnoreWhitespace (NewParser ?s) = (tok_pair T_SELECT, p1)" "sees (unscan p1) (stmt_toks st)"
    using sees_Cons [of "NewParser ?s" "tok_pair T_SELECT"] s by (auto simp: stmt_toks_def)
  have "length (stmt_toks st) < sql_fuel ?s"
    using print_tokens_length [of "stmt_toks st"] by (simp add: sql_fuel_def)
  then obtain p2 where "Parse ext rt (sql_fuel ?s) (unscan p1) = Inr (Some st, p2)"
    using Parse_reads [OF assms _ p1(2)] by blast
  then show ?thesis
    using p1(1) by (simp add: GetStatementFromSql_def Language_Parse_def tok_pair_def)
qed

theorem select_print_parse_witness:
  "GetStatementFromSql (\<lambda>_ _. Some []) (\<lambda>_. False)
     ''SELECT a AS x , count ( b ) FROM demo LEFT JOIN t ON demo . id = t . id WHERE a >= 3 GROUP BY TUMBLINGWINDOW ( MS , 500 ) ORDER BY x DESC '' =
   Inr \<lparr>Fields = [\<lparr>fld_Name = ''a'', fld_AName = ''x'', fld_Expr = FieldRef DefaultStream ''a'' None\<rparr>,
                  \<lparr>fld_Name = ''count'', fld_AName = [], fld_Expr = Call ''count'' [FieldRef DefaultStream ''b'' None]\<rparr>],
        Sources = [\<lparr>tbl_Name = ''demo'', tbl_Alias = []\<rparr>],
        Joins = [\<lparr>jn_Name = ''t'', jn_Alias = [], jn_JoinType = LEFT_JOIN,
                  jn_Expr = Some (BinaryExpr T_EQ (FieldRef ''demo'' ''id'' None) (FieldRef ''t'' ''id'' None))\<rparr>],
        Condition = Some (BinaryExpr T_GTE (FieldRef DefaultStream ''a'' None) (IntegerLiteral 3)),
        Dimensions = [Window TUMBLING_WINDOW 500 (Some 0) None], Having = None,
        SortFields = [\<lparr>sf_Name = ''x'', sf_Ascending = False\<rparr>]\<rparr>"
proof -
  let ?st = "\<lparr>Fields = [\<lparr>fld_Name = ''a'', fld_AName = ''x'', fld_Expr = FieldRef DefaultStream ''a'' None\<rparr>,
                  \<lparr>fld_Name = ''count'', fld_AName = [], fld_Expr = Call ''count'' [FieldRef DefaultStream ''b'' None]\<rparr>],
        Sources = [\<lparr>tbl_Name = ''demo'', tbl_Alias = []\<rparr>],
        Joins = [\<lparr>jn_Name = ''t'', jn_Alias = [], jn_JoinType = LEFT_JOIN,
                  jn_Expr = Some (BinaryExpr T_EQ (FieldRef ''demo'' ''id'' None) (FieldRef ''t'' ''id'' None))\<rparr>],
        Condition = Some (BinaryExpr T_GTE (FieldRef DefaultStream ''a'' None) (IntegerLiteral 3)),
        Dimensions = [Window TUMBLING_WINDOW 500 (Some 0) None], Having = None,
        SortFields = [\<lparr>sf_Name = ''x'', sf_Ascending = False\<rparr>]\<rparr>"
  have "stmt_ok (\<lambda>_ _. Some []) (\<lambda>_. False) ?st"
    by code_simp
  moreover have "print_tokens (stmt_toks ?st) =
     ''SELECT a AS x , count ( b ) FROM demo LEFT JOIN t ON demo . id = t . id WHERE a >= 3 GROUP BY TUMBLINGWINDOW ( MS , 500 ) ORDER BY x DESC ''"
    by code_simp
  ultimately show ?thesis
    using select_print_parse [of "\<lambda>_ _. Some []" "\<lambda>_. False" ?st] by simp
qed

end
