(* ===== verification/Values.thy ===== *)
theory Values
  imports Ast "HOL-Library.Word"
begin

unbundle bit_operations_syntax

text \<open>
  Run-time values and the binary operators of \<^verbatim>\<open>internal/xsql/valuer.go\<close>.

  A value is a Go \<^verbatim>\<open>interface{}\<close> as the rule engine sees it: one constructor per dynamic
  type. Integers keep their width as words and wrap around; \<^verbatim>\<open>int\<close> has 64 bits. A
  \<^verbatim>\<open>time.Time\<close> is its instant in nanoseconds since the Unix epoch. Errors are values too,
  as in the source, with one constructor per message of the source.

  \<^verbatim>\<open>time.Parse\<close> is the parameter \<open>tp\<close>: \<open>tp layout text\<close> is the instant, or
  \<open>None\<close> for an error.
\<close>

section \<open>Values\<close>

type_synonym i64w = "64 word"

datatype val =
    VNil
  | VBool bool
  | VInt i64w
  | VInt8 "8 word"
  | VInt16 "16 word"
  | VInt32 "32 word"
  | VInt64 i64w
  | VUint64 i64w
  | VFloat32 f64
  | VFloat64 f64
  | VString string
  | VTime int
  | VMap "(string \<times> val) list"      \<comment> \<open>\<^verbatim>\<open>map[string]interface{}\<close>\<close>
  | VMessage "(string \<times> val) list"  \<comment> \<open>\<^verbatim>\<open>xsql.Message\<close>\<close>
  | VSlice "val list"
  | VBracket int int
  | VErr err
and err =
    DividedByZero
  | InvalidOperation val token val
  | RightNotFieldRef
  | ResultNotMap val
  | InvalidJsonOp token val
  | OutOfIndex int nat
  | StartOutOfIndex int nat
  | EndOutOfIndex int nat
  | StartGreaterThanEnd int int
  | InvalidEvaluation
  | CaseError err
  | CallFuncError string val
  | OtherError string

definition is_err :: "val \<Rightarrow> bool" where
  "is_err v = (case v of VErr _ \<Rightarrow> True | _ \<Rightarrow> False)"

section \<open>Time conversions (pkg/cast/time.go)\<close>

type_synonym time_parse = "string \<Rightarrow> string \<Rightarrow> int option"

definition JSISO :: string where
  "JSISO = ''2006-01-02T15:04:05.000Z07:00''"

definition TimeToUnixMilli :: "int \<Rightarrow> int" where
  "TimeToUnixMilli ns = go_div (i64 ns) 1000000"

definition TimeFromUnixMilli :: "int \<Rightarrow> int" where
  "TimeFromUnixMilli t = go_div t 1000 * 1000000000 + go_mod t 1000 * 1000000"

text \<open>\<^verbatim>\<open>int64(f)\<close> truncates; a value out of range is the amd64 result, the smallest
  \<^verbatim>\<open>int64\<close>.\<close>

definition f_to_int64 :: "f64 \<Rightarrow> int" where
  "f_to_int64 f = (case f of
     FNum q \<Rightarrow> if in_i64 (rat_trunc q) then rat_trunc q else - (2 ^ 63)
   | FZero _ \<Rightarrow> 0
   | _ \<Rightarrow> - (2 ^ 63))"

text \<open>\<^verbatim>\<open>InterfaceToTime(i, "")\<close>, the only form the operators use.\<close>

definition InterfaceToTime :: "time_parse \<Rightarrow> val \<Rightarrow> int option" where
  "InterfaceToTime tp i = (case i of
     VInt64 t \<Rightarrow> Some (TimeFromUnixMilli (sint t))
   | VInt t \<Rightarrow> Some (TimeFromUnixMilli (sint t))
   | VFloat64 f \<Rightarrow> Some (TimeFromUnixMilli (f_to_int64 f))
   | VTime t \<Rightarrow> Some t
   | VString s \<Rightarrow> tp JSISO s
   | _ \<Rightarrow> None)"

section \<open>Binary operators (valuer.go)\<close>

fun isInt :: "val \<Rightarrow> bool" where
  "isInt (VInt _) = True"
| "isInt (VInt8 _) = True"
| "isInt (VInt16 _) = True"
| "isInt (VInt32 _) = True"
| "isInt (VInt64 _) = True"
| "isInt _ = False"

fun toInt64 :: "val \<Rightarrow> i64w" where
  "toInt64 (VInt w) = w"
| "toInt64 (VInt8 w) = scast w"
| "toInt64 (VInt16 w) = scast w"
| "toInt64 (VInt32 w) = scast w"
| "toInt64 (VInt64 w) = w"
| "toInt64 _ = 0"

fun isFloat :: "val \<Rightarrow> bool" where
  "isFloat (VFloat32 _) = True"
| "isFloat (VFloat64 _) = True"
| "isFloat _ = False"

fun toFloat64 :: "val \<Rightarrow> f64" where
  "toFloat64 (VFloat32 f) = f"
| "toFloat64 (VFloat64 f) = f"
| "toFloat64 _ = FZero False"

definition convertNum :: "val \<Rightarrow> val" where
  "convertNum para =
     (if isInt para then VInt64 (toInt64 para)
      else if isFloat para then VFloat64 (toFloat64 para) else para)"

definition invalidOpError :: "val \<Rightarrow> token \<Rightarrow> val \<Rightarrow> val" where
  "invalidOpError lhs op rhs = VErr (InvalidOperation lhs op rhs)"

text \<open>A nil operand.\<close>

definition nil_op :: "val \<Rightarrow> val \<Rightarrow> token \<Rightarrow> val" where
  "nil_op lhs rhs op =
     (if op \<in> {T_EQ, T_LTE, T_GTE} then
        (if lhs = VNil \<and> rhs = VNil then VBool True else VBool False)
      else if op = T_NEQ then
        (if lhs = VNil \<and> rhs = VNil then VBool False else VBool True)
      else if op \<in> {T_LT, T_GT} then VBool False
      else VNil)"

text \<open>The operators on two booleans, floats, strings and times.\<close>

definition bool_op :: "bool \<Rightarrow> token \<Rightarrow> bool \<Rightarrow> val" where
  "bool_op l op r =
     (if op = T_AND then VBool (l \<and> r)
      else if op = T_OR then VBool (l \<or> r)
      else if op = T_BITWISE_AND then VBool (l \<and> r)
      else if op = T_BITWISE_OR then VBool (l \<or> r)
      else if op = T_BITWISE_XOR then VBool (l \<noteq> r)
      else if op = T_EQ then VBool (l = r)
      else if op = T_NEQ then VBool (l \<noteq> r)
      else invalidOpError (VBool l) op (VBool r))"

definition float_op :: "f64 \<Rightarrow> token \<Rightarrow> f64 \<Rightarrow> val" where
  "float_op l op r =
     (if op = T_EQ then VBool (f_eq l r)
      else if op = T_NEQ then VBool (\<not> f_eq l r)
      else if op = T_LT then VBool (f_lt l r)
      else if op = T_LTE then VBool (f_le l r)
      else if op = T_GT then VBool (f_lt r l)
      else if op = T_GTE then VBool (f_le r l)
      else if op = T_ADD then VFloat64 (f_add l r)
      else if op = T_SUB then VFloat64 (f_sub l r)
      else if op = T_MUL then VFloat64 (f_mul l r)
      else if op = T_DIV then (if f_is_zero r then VErr DividedByZero else VFloat64 (f_div l r))
      else if op = T_MOD then (if f_is_zero r then VErr DividedByZero else VFloat64 (f_mod l r))
      else invalidOpError (VFloat64 l) op (VFloat64 r))"

text \<open>Go compares strings bytewise.\<close>

fun str_lt :: "string \<Rightarrow> string \<Rightarrow> bool" where
  "str_lt _ [] = False"
| "str_lt [] (_ # _) = True"
| "str_lt (x # xs) (y # ys) =
     ((of_char x :: nat) < of_char y \<or> (x = y \<and> str_lt xs ys))"

definition string_op :: "string \<Rightarrow> token \<Rightarrow> string \<Rightarrow> val" where
  "string_op l op r =
     (if op = T_EQ then VBool (l = r)
      else if op = T_NEQ then VBool (l \<noteq> r)
      else if op = T_LT then VBool (str_lt l r)
      else if op = T_LTE then VBool (\<not> str_lt r l)
      else if op = T_GT then VBool (str_lt r l)
      else if op = T_GTE then VBool (\<not> str_lt l r)
      else invalidOpError (VString l) op (VString r))"

text \<open>An invalid operator reports the right operand as it was before the conversion.\<close>

definition time_op :: "int \<Rightarrow> token \<Rightarrow> int \<Rightarrow> val \<Rightarrow> val" where
  "time_op l op rt rhs =
     (if op = T_EQ then VBool (l = rt)
      else if op = T_NEQ then VBool (l \<noteq> rt)
      else if op = T_LT then VBool (l < rt)
      else if op = T_LTE then VBool (l < rt \<or> l = rt)
      else if op = T_GT then VBool (l > rt)
      else if op = T_GTE then VBool (l > rt \<or> l = rt)
      else invalidOpError (VTime l) op rhs)"

text \<open>Two signed integers; \<open>ifd\<close> is \<^verbatim>\<open>IntegerFloatDivision\<close>.\<close>

definition int_op :: "bool \<Rightarrow> i64w \<Rightarrow> token \<Rightarrow> i64w \<Rightarrow> val" where
  "int_op ifd l op r =
     (if op = T_EQ then VBool (l = r)
      else if op = T_NEQ then VBool (l \<noteq> r)
      else if op = T_LT then VBool (sint l < sint r)
      else if op = T_LTE then VBool (sint l \<le> sint r)
      else if op = T_GT then VBool (sint l > sint r)
      else if op = T_GTE then VBool (sint l \<ge> sint r)
      else if op = T_ADD then VInt64 (l + r)
      else if op = T_SUB then VInt64 (l - r)
      else if op = T_MUL then VInt64 (l * r)
      else if op = T_DIV then
        (if ifd then
           (if r = 0 then VErr DividedByZero
            else VFloat64 (f_div (f_of_int (sint l)) (f_of_int (sint r))))
         else if r = 0 then VErr DividedByZero
         else VInt64 (word_of_int (go_div (sint l) (sint r))))
      else if op = T_MOD then
        (if r = 0 then VErr DividedByZero else VInt64 (word_of_int (go_mod (sint l) (sint r))))
      else if op = T_BITWISE_AND then VInt64 (l AND r)
      else if op = T_BITWISE_OR then VInt64 (l OR r)
      else if op = T_BITWISE_XOR then VInt64 (l XOR r)
      else invalidOpError (VInt64 l) op (VInt64 r))"

text \<open>Two unsigned integers.\<close>

definition uint_op :: "i64w \<Rightarrow> token \<Rightarrow> i64w \<Rightarrow> val" where
  "uint_op l op r =
     (if op = T_EQ then VBool (l = r)
      else if op = T_NEQ then VBool (l \<noteq> r)
      else if op = T_LT then VBool (l < r)
      else if op = T_LTE then VBool (l \<le> r)
      else if op = T_GT then VBool (l > r)
      else if op = T_GTE then VBool (l \<ge> r)
      else if op = T_ADD then VUint64 (l + r)
      else if op = T_SUB then VUint64 (l - r)
      else if op = T_MUL then VUint64 (l * r)
      else if op = T_DIV then (if r = 0 then VErr DividedByZero else VUint64 (l div r))
      else if op = T_MOD then (if r = 0 then VErr DividedByZero else VUint64 (l mod r))
      else if op = T_BITWISE_AND then VUint64 (l AND r)
      else if op = T_BITWISE_OR then VUint64 (l OR r)
      else if op = T_BITWISE_XOR then VUint64 (l XOR r)
      else invalidOpError (VUint64 l) op (VUint64 r))"

text \<open>
  A signed left and an unsigned right operand, and the other way round. The order comparisons
  look at the sign of the signed operand first; every other operator works on
  \<^verbatim>\<open>uint64\<close> of it, the same bits.
\<close>

definition int_uint_op :: "i64w \<Rightarrow> token \<Rightarrow> i64w \<Rightarrow> val" where
  "int_uint_op l op r =
     (if op = T_LT then (if sint l < 0 then VBool True else VBool (l < r))
      else if op = T_LTE then (if sint l < 0 then VBool True else VBool (l \<le> r))
      else if op = T_GT then (if sint l < 0 then VBool False else VBool (l > r))
      else if op = T_GTE then (if sint l < 0 then VBool False else VBool (l \<ge> r))
      else if op \<in> {T_EQ, T_NEQ, T_ADD, T_SUB, T_MUL, T_DIV, T_MOD,
                    T_BITWISE_AND, T_BITWISE_OR, T_BITWISE_XOR} then uint_op l op r
      else invalidOpError (VInt64 l) op (VUint64 r))"

definition uint_int_op :: "i64w \<Rightarrow> token \<Rightarrow> i64w \<Rightarrow> val" where
  "uint_int_op l op r =
     (if op = T_LT then (if sint r < 0 then VBool False else VBool (l < r))
      else if op = T_LTE then (if sint r < 0 then VBool False else VBool (l \<le> r))
      else if op = T_GT then (if sint r < 0 then VBool True else VBool (l > r))
      else if op = T_GTE then (if sint r < 0 then VBool True else VBool (l \<ge> r))
      else if op \<in> {T_EQ, T_NEQ, T_ADD, T_SUB, T_MUL, T_DIV, T_MOD,
                    T_BITWISE_AND, T_BITWISE_OR, T_BITWISE_XOR} then uint_op l op r
      else invalidOpError (VUint64 l) op (VInt64 r))"

text \<open>The cases of \<^verbatim>\<open>simpleDataEval\<close> by the type of the left operand.\<close>

definition eval_lhs_float :: "f64 \<Rightarrow> token \<Rightarrow> val \<Rightarrow> val" where
  "eval_lhs_float l op rhs = (case rhs of
     VFloat64 r \<Rightarrow> float_op l op r
   | VInt64 r \<Rightarrow> float_op l op (f_of_int (sint r))
   | VUint64 r \<Rightarrow> float_op l op (f_of_int (uint r))
   | _ \<Rightarrow> invalidOpError (VFloat64 l) op rhs)"

definition eval_lhs_int :: "bool \<Rightarrow> i64w \<Rightarrow> token \<Rightarrow> val \<Rightarrow> val" where
  "eval_lhs_int ifd l op rhs = (case rhs of
     VFloat64 r \<Rightarrow> float_op (f_of_int (sint l)) op r
   | VInt64 r \<Rightarrow> int_op ifd l op r
   | VUint64 r \<Rightarrow> int_uint_op l op r
   | _ \<Rightarrow> invalidOpError (VInt64 l) op rhs)"

definition eval_lhs_uint :: "i64w \<Rightarrow> token \<Rightarrow> val \<Rightarrow> val" where
  "eval_lhs_uint l op rhs = (case rhs of
     VFloat64 r \<Rightarrow> float_op (f_of_int (uint l)) op r
   | VInt64 r \<Rightarrow> uint_int_op l op r
   | VUint64 r \<Rightarrow> uint_op l op r
   | _ \<Rightarrow> invalidOpError (VUint64 l) op rhs)"

text \<open>
  In the boolean case the failed assertion \<^verbatim>\<open>rhs, ok := rhs.(bool)\<close> leaves false in the
  error.
\<close>

definition simpleDataEval :: "time_parse \<Rightarrow> bool \<Rightarrow> val \<Rightarrow> val \<Rightarrow> token \<Rightarrow> val" where
  "simpleDataEval tp ifd lhs0 rhs0 op =
     (if lhs0 = VNil \<or> rhs0 = VNil then nil_op lhs0 rhs0 op
      else let lhs = convertNum lhs0; rhs = convertNum rhs0 in
        (case lhs of
           VBool l \<Rightarrow> (case rhs of VBool r \<Rightarrow> bool_op l op r
                       | _ \<Rightarrow> invalidOpError lhs op (VBool False))
         | VFloat64 l \<Rightarrow> eval_lhs_float l op rhs
         | VInt64 l \<Rightarrow> eval_lhs_int ifd l op rhs
         | VUint64 l \<Rightarrow> eval_lhs_uint l op rhs
         | VString l \<Rightarrow> (case rhs of VString r \<Rightarrow> string_op l op r
                         | _ \<Rightarrow> invalidOpError lhs op rhs)
         | VTime l \<Rightarrow> (case InterfaceToTime tp rhs of Some rt \<Rightarrow> time_op l op rt rhs
                       | None \<Rightarrow> invalidOpError lhs op rhs)
         | _ \<Rightarrow> invalidOpError lhs op rhs))"

section \<open>Integer operands\<close>

text \<open>The mathematical integer a value of an integer kind stands for.\<close>

fun int_val :: "val \<Rightarrow> int option" where
  "int_val (VInt w) = Some (sint w)"
| "int_val (VInt8 w) = Some (sint w)"
| "int_val (VInt16 w) = Some (sint w)"
| "int_val (VInt32 w) = Some (sint w)"
| "int_val (VInt64 w) = Some (sint w)"
| "int_val (VUint64 w) = Some (uint w)"
| "int_val _ = None"

lemma sint_toInt64:
  "isInt v \<Longrightarrow> int_val v = Some (sint (toInt64 v))"
  by (cases v) (simp_all add: sint_up_scast is_up.rep_eq)

lemma uint_of_nonneg_sint:
  fixes w :: i64w
  shows "0 \<le> sint w \<Longrightarrow> uint w = sint w"
proof (cases "uint w < 2 ^ 63")
  case True
  then show ?thesis
    by (simp add: sint_uint signed_take_bit_int_eq_self order_trans [OF _ uint_ge_0])
next
  case False
  have "uint w < 2 ^ 64"
    using uint_bounded [of w] by simp
  with False have "((uint w - 2 ^ 63) + 2 ^ 64) mod 2 ^ 64 = uint w - 2 ^ 63"
    unfolding mod_add_self2 by (intro mod_pos_pos_trivial) auto
  moreover assume "0 \<le> sint w"
  ultimately show ?thesis
    using \<open>uint w < 2 ^ 64\<close>
    by (simp add: sint_uint signed_take_bit_eq_take_bit_shift take_bit_eq_mod add.commute)
qed

lemma int_val_convertNum:
  assumes "int_val v = Some n"
  shows "(\<exists>w. convertNum v = VInt64 w \<and> n = sint w) \<or> (\<exists>w. convertNum v = VUint64 w \<and> n = uint w)"
  using assms by (cases v) (auto simp: convertNum_def sint_up_scast is_up.rep_eq)

text \<open>The order an operator names.\<close>

definition cmp_op :: "token \<Rightarrow> int \<Rightarrow> int \<Rightarrow> bool" where
  "cmp_op op a b =
     (if op = T_LT then a < b else if op = T_LTE then a \<le> b else if op = T_GT then a > b else a \<ge> b)"

lemma int_uint_cmp:
  assumes "op \<in> {T_LT, T_LTE, T_GT, T_GTE}"
  shows "int_uint_op l op r = VBool (cmp_op op (sint l) (uint r))"
    and "uint_int_op r op l = VBool (cmp_op op (uint r) (sint l))"
proof -
  have "sint l < uint r" if "sint l < 0"
    using that uint_ge_0 [of r] by linarith
  with assms show "int_uint_op l op r = VBool (cmp_op op (sint l) (uint r))"
    and "uint_int_op r op l = VBool (cmp_op op (uint r) (sint l))"
    by (auto simp: int_uint_op_def uint_int_op_def cmp_op_def uint_of_nonneg_sint word_less_def
        word_le_def not_less not_le)
qed

lemma same_kind_cmp:
  assumes "op \<in> {T_LT, T_LTE, T_GT, T_GTE}"
  shows "int_op ifd l op r = VBool (cmp_op op (sint l) (sint r))"
    and "uint_op l op r = VBool (cmp_op op (uint l) (uint r))"
  using assms by (auto simp: int_op_def uint_op_def cmp_op_def word_less_def word_le_def)

lemma sint_word_of_int_i64: "sint (word_of_int x :: i64w) = i64 x"
  by (simp add: i64_def signed_of_int signed_take_bit_eq_take_bit_shift take_bit_eq_mod)

lemma simpleDataEval_signed:
  assumes "isInt x" "isInt y"
  shows "simpleDataEval tp ifd x y op = int_op ifd (toInt64 x) op (toInt64 y)"
  using assms by (auto simp: simpleDataEval_def convertNum_def eval_lhs_int_def)

lemma go_div_mod: "b * go_div a b + go_mod a b = a"
  by (simp add: go_mod_def)

lemma sint_eq_0: "sint w = 0 \<longleftrightarrow> w = 0" for w :: i64w
  by (rule signed_eq_0_iff)



text \<open>
  (C15) Arithmetic on signed integers of any widths is that of Go's \<^verbatim>\<open>int64\<close>: sums,
  differences and products wrap around at 64 bits; quotient and remainder truncate towards
  zero, and they report a division by zero exactly when the divisor is zero.
\<close>

theorem simpleDataEval_int_arith:
  assumes "isInt x" "isInt y" "int_val x = Some a" "int_val y = Some b"
  shows "int_val (simpleDataEval tp False x y T_ADD) = Some (i64 (a + b)) \<and>
    int_val (simpleDataEval tp False x y T_SUB) = Some (i64 (a - b)) \<and>
    int_val (simpleDataEval tp False x y T_MUL) = Some (i64 (a * b)) \<and>
    simpleDataEval tp False x y T_DIV =
      (if b = 0 then VErr DividedByZero else VInt64 (word_of_int (go_div a b))) \<and>
    simpleDataEval tp False x y T_MOD =
      (if b = 0 then VErr DividedByZero else VInt64 (word_of_int (go_mod a b)))"
proof -
  have ab: "a = sint (toInt64 x)" "b = sint (toInt64 y)"
    using assms sint_toInt64 by auto
  note e = simpleDataEval_signed [OF assms(1,2)] int_op_def ab
  have "int_val (simpleDataEval tp False x y T_ADD) = Some (i64 (a + b))"
    by (simp add: e sint_word_of_int_i64 [symmetric])
  moreover have "int_val (simpleDataEval tp False x y T_SUB) = Some (i64 (a - b))"
    by (simp add: e sint_word_of_int_i64 [symmetric])
  moreover have "int_val (simpleDataEval tp False x y T_MUL) = Some (i64 (a * b))"
    by (simp add: e sint_word_of_int_i64 [symmetric])
  ultimately show ?thesis
    by (simp add: e sint_eq_0)
qed

theorem simpleDataEval_int_arith_witness:
  "int_val (simpleDataEval (\<lambda>_ _. None) False (VInt32 (- 7)) (VInt64 2) T_ADD) = Some (- 5) \<and>
   simpleDataEval (\<lambda>_ _. None) False (VInt32 (- 7)) (VInt64 2) T_DIV = VInt64 (- 3)"
  using simpleDataEval_int_arith [of "VInt32 (- 7)" "VInt64 2" "- 7" 2 "\<lambda>_ _. None"]
  by (simp add: i64_def go_div_def)

text \<open> Equality is not treated the same way: \<^verbatim>\<open>=\<close> between a signed and an unsigned
  integer compares the bits, so -1 equals the largest \<^verbatim>\<open>uint64\<close> although it is
  smaller.
\<close>

theorem simpleDataEval_eq_wraps:
  "simpleDataEval tp ifd (VInt64 (- 1)) (VUint64 (2 ^ 64 - 1)) T_EQ = VBool True \<and>
   simpleDataEval tp ifd (VInt64 (- 1)) (VUint64 (2 ^ 64 - 1)) T_LT = VBool True"
  by (simp add: simpleDataEval_def convertNum_def eval_lhs_int_def int_uint_op_def uint_op_def)

end
