(* ===== verification/Cast.thy ===== *)
theory Cast
  imports Strconv Values
begin

text \<open>
  The casts of \<^verbatim>\<open>pkg/cast/cast.go\<close>. A \<open>gval\<close> is the \<^verbatim>\<open>interface{}\<close> a cast inspects, with one constructor per dynamic
  type it distinguishes. \<open>Inl\<close> is a returned error. Conversions between integer types reduce modulo the width, as in Go; a float is
  truncated, and where its value does not fit, which Go leaves to the implementation, the result is the one of amd64: the conversion
  goes through \<^verbatim>\<open>int32\<close> for the widths 8, 16 and \<^verbatim>\<open>int32\<close>, through \<^verbatim>\<open>int64\<close> for the others, and yields the smallest value of that type (for \<^verbatim>\<open>uint64\<close>, \<open>2\<^sup>6\<^sup>3\<close>).
  \<^verbatim>\<open>FormatFloat(f, 'f', -1, bits)\<close> is the argument \<open>ff\<close>.
\<close>

datatype Strictness = STRICT | CONVERT_SAMEKIND | CONVERT_ALL

datatype gval =
    GNil
  | GBool bool
  | GInt "64 word"
  | GInt64 "64 word"
  | GInt32 "32 word"
  | GInt16 "16 word"
  | GInt8 "8 word"
  | GUint "64 word"
  | GUint64 "64 word"
  | GUint32 "32 word"
  | GUint16 "16 word"
  | GUint8 "8 word"
  | GFloat64 f64
  | GFloat32 f64
  | GString string
  | GBytes string
  | GTemplate string                \<comment> \<open>the string types of \<^verbatim>\<open>html/template\<close>\<close>
  | GStringer string                \<comment> \<open>a \<^verbatim>\<open>fmt.Stringer\<close> and its text\<close>
  | GError string
  | GSlice "gval list"
  | GStrMap "(string \<times> gval) list"  \<comment> \<open>\<^verbatim>\<open>map[string]interface{}\<close>\<close>
  | GMap "(gval \<times> gval) list"        \<comment> \<open>\<^verbatim>\<open>map[interface{}]interface{}\<close>\<close>
  | GOther

datatype cast_err = CannotConvert gval | NegativeNotAllowed gval | ElementError nat cast_err | ParseError string

section \<open>Strings\<close>

definition ToString :: "(f64 \<Rightarrow> nat \<Rightarrow> string) \<Rightarrow> gval \<Rightarrow> Strictness \<Rightarrow> cast_err + string" where
  "ToString ff input sn = (case input of
     GString s \<Rightarrow> Inr s
   | GBytes s \<Rightarrow> Inr s
   | _ \<Rightarrow>
       if sn = CONVERT_ALL then
         (case input of
            GBool b \<Rightarrow> Inr (if b then ''true'' else ''false'')
          | GFloat64 f \<Rightarrow> Inr (ff f 64)
          | GFloat32 f \<Rightarrow> Inr (ff f 32)
          | GInt w \<Rightarrow> Inr (itoa (sint w))
          | GInt64 w \<Rightarrow> Inr (itoa (sint w))
          | GInt32 w \<Rightarrow> Inr (itoa (sint w))
          | GInt16 w \<Rightarrow> Inr (itoa (sint w))
          | GInt8 w \<Rightarrow> Inr (itoa (sint w))
          | GUint w \<Rightarrow> Inr (itoa (uint w))
          | GUint64 w \<Rightarrow> Inr (itoa (uint w))
          | GUint32 w \<Rightarrow> Inr (itoa (uint w))
          | GUint16 w \<Rightarrow> Inr (itoa (uint w))
          | GUint8 w \<Rightarrow> Inr (itoa (uint w))
          | GTemplate s \<Rightarrow> Inr s
          | GNil \<Rightarrow> Inr []
          | GStringer s \<Rightarrow> Inr s
          | GError s \<Rightarrow> Inr s
          | _ \<Rightarrow> Inl (CannotConvert input))
       else Inl (CannotConvert input))"

section \<open>Integers\<close>

text \<open>The mathematical value of an integer of any kind.\<close>

fun int_value :: "gval \<Rightarrow> int option" where
  "int_value (GInt w) = Some (sint w)"
| "int_value (GInt64 w) = Some (sint w)"
| "int_value (GInt32 w) = Some (sint w)"
| "int_value (GInt16 w) = Some (sint w)"
| "int_value (GInt8 w) = Some (sint w)"
| "int_value (GUint w) = Some (uint w)"
| "int_value (GUint64 w) = Some (uint w)"
| "int_value (GUint32 w) = Some (uint w)"
| "int_value (GUint16 w) = Some (uint w)"
| "int_value (GUint8 w) = Some (uint w)"
| "int_value _ = None"

definition f32_round :: "bool \<Rightarrow> rat \<Rightarrow> f64" where
  "f32_round s q =
     (if q = 0 then FZero s
      else let e = max (ilog2 \<bar>q\<bar> - 23) (-149);
               r = of_int (round_even (\<bar>q\<bar> / pow2 e)) * pow2 e in
        if r = 0 then FZero (q < 0)
        else if 128 \<le> ilog2 r then FInf (q < 0)
        else FNum (if q < 0 then - r else r))"

definition to_f32 :: "f64 \<Rightarrow> f64" where
  "to_f32 f = (case f of FNum q \<Rightarrow> f32_round False q | _ \<Rightarrow> f)"

definition isIntegral64 :: "f64 \<Rightarrow> bool" where
  "isIntegral64 f = f_eq f (f_of_int (f_to_int64 f))"

definition isIntegral32 :: "f64 \<Rightarrow> bool" where
  "isIntegral32 f = f_eq f (f32_round False (of_int (f_to_int64 f)))"

definition f_to_int32 :: "f64 \<Rightarrow> int" where
  "f_to_int32 f = (case f of
     FNum q \<Rightarrow> if - (2 ^ 31) \<le> rat_trunc q \<and> rat_trunc q < 2 ^ 31 then rat_trunc q else - (2 ^ 31)
   | FZero _ \<Rightarrow> 0
   | _ \<Rightarrow> - (2 ^ 31))"

text \<open>
  The switch that \<^verbatim>\<open>ToInt\<close>, \<^verbatim>\<open>ToInt8\<close>, \<^verbatim>\<open>ToInt16\<close>, \<^verbatim>\<open>ToInt32\<close> and \<^verbatim>\<open>ToInt64\<close> share, before the conversion to the width; \<open>fc\<close> is the conversion of a float.
\<close>

definition to_signed :: "(f64 \<Rightarrow> int) \<Rightarrow> gval \<Rightarrow> Strictness \<Rightarrow> cast_err + int" where
  "to_signed fc input sn = (case int_value input of
     Some n \<Rightarrow> Inr n
   | None \<Rightarrow> (case input of
       GFloat64 s \<Rightarrow> if sn \<noteq> STRICT \<or> isIntegral64 s then Inr (fc s) else Inl (CannotConvert input)
     | GFloat32 s \<Rightarrow> if sn \<noteq> STRICT \<or> isIntegral32 s then Inr (fc s) else Inl (CannotConvert input)
     | GString s \<Rightarrow>
         if sn = CONVERT_ALL then (case ParseInt s of Some v \<Rightarrow> Inr v | None \<Rightarrow> Inl (CannotConvert input))
         else Inl (CannotConvert input)
     | GBool b \<Rightarrow> if sn = CONVERT_ALL then Inr (if b then 1 else 0) else Inl (CannotConvert input)
     | GNil \<Rightarrow> if sn = CONVERT_ALL then Inr 0 else Inl (CannotConvert input)
     | _ \<Rightarrow> Inl (CannotConvert input)))"

definition ToInt :: "gval \<Rightarrow> Strictness \<Rightarrow> cast_err + 64 word" where
  "ToInt input sn = map_sum id word_of_int (to_signed f_to_int64 input sn)"

definition ToInt8 :: "gval \<Rightarrow> Strictness \<Rightarrow> cast_err + 8 word" where
  "ToInt8 input sn = map_sum id word_of_int (to_signed f_to_int32 input sn)"

definition ToInt16 :: "gval \<Rightarrow> Strictness \<Rightarrow> cast_err + 16 word" where
  "ToInt16 input sn = map_sum id word_of_int (to_signed f_to_int32 input sn)"

definition ToInt32 :: "gval \<Rightarrow> Strictness \<Rightarrow> cast_err + 32 word" where
  "ToInt32 input sn = map_sum id word_of_int (to_signed f_to_int32 input sn)"

definition ToInt64 :: "gval \<Rightarrow> Strictness \<Rightarrow> cast_err + 64 word" where
  "ToInt64 input sn = map_sum id word_of_int (to_signed f_to_int64 input sn)"

definition f_to_uint64 :: "f64 \<Rightarrow> int" where
  "f_to_uint64 f = (case f of
     FNum q \<Rightarrow> if 0 \<le> rat_trunc q \<and> rat_trunc q < 2 ^ 64 then rat_trunc q else 2 ^ 63
   | FZero _ \<Rightarrow> 0
   | _ \<Rightarrow> 2 ^ 63)"

text \<open>The switch of the unsigned casts.\<close>

definition to_unsigned :: "(f64 \<Rightarrow> int) \<Rightarrow> gval \<Rightarrow> Strictness \<Rightarrow> cast_err + int" where
  "to_unsigned fc i sn = (case int_value i of
     Some n \<Rightarrow> if n < 0 then Inl (NegativeNotAllowed i) else Inr n
   | None \<Rightarrow> (case i of
       GString s \<Rightarrow>
         if sn = CONVERT_ALL then (case ParseUint s of Some v \<Rightarrow> Inr (int v) | None \<Rightarrow> Inl (CannotConvert i))
         else Inl (CannotConvert i)
     | GFloat32 s \<Rightarrow>
         if f_lt s (FZero False) then Inl (NegativeNotAllowed i)
         else if sn \<noteq> STRICT \<or> isIntegral32 s then Inr (fc s) else Inl (CannotConvert i)
     | GFloat64 s \<Rightarrow>
         if f_lt s (FZero False) then Inl (NegativeNotAllowed i)
         else if sn \<noteq> STRICT \<or> isIntegral64 s then Inr (fc s) else Inl (CannotConvert i)
     | GBool b \<Rightarrow> if sn = CONVERT_ALL then Inr (if b then 1 else 0) else Inl (CannotConvert i)
     | GNil \<Rightarrow> if sn = CONVERT_ALL then Inr 0 else Inl (CannotConvert i)
     | _ \<Rightarrow> Inl (CannotConvert i)))"

definition ToUint64 :: "gval \<Rightarrow> Strictness \<Rightarrow> cast_err + 64 word" where
  "ToUint64 i sn = map_sum id word_of_int (to_unsigned f_to_uint64 i sn)"

definition ToUint8 :: "gval \<Rightarrow> Strictness \<Rightarrow> cast_err + 8 word" where
  "ToUint8 i sn = map_sum id word_of_int (to_unsigned f_to_int32 i sn)"

definition ToUint16 :: "gval \<Rightarrow> Strictness \<Rightarrow> cast_err + 16 word" where
  "ToUint16 i sn = map_sum id word_of_int (to_unsigned f_to_int32 i sn)"

definition ToUint32 :: "gval \<Rightarrow> Strictness \<Rightarrow> cast_err + 32 word" where
  "ToUint32 i sn = map_sum id word_of_int (to_unsigned f_to_int64 i sn)"

section \<open>Floats, booleans, bytes\<close>

definition ToFloat64 :: "gval \<Rightarrow> Strictness \<Rightarrow> cast_err + f64" where
  "ToFloat64 input sn = (case int_value input of
     Some n \<Rightarrow> if sn \<noteq> STRICT then Inr (f_of_int n) else Inl (CannotConvert input)
   | None \<Rightarrow> (case input of
       GFloat64 f \<Rightarrow> Inr f
     | GFloat32 f \<Rightarrow> Inr f
     | GString s \<Rightarrow>
         if sn = CONVERT_ALL then (case ParseFloat s of Some v \<Rightarrow> Inr v | None \<Rightarrow> Inl (CannotConvert input))
         else Inl (CannotConvert input)
     | GBool b \<Rightarrow> if sn = CONVERT_ALL then Inr (if b then FNum 1 else FZero False) else Inl (CannotConvert input)
     | _ \<Rightarrow> Inl (CannotConvert input)))"

definition ParseFloat32 :: "string \<Rightarrow> f64 option" where
  "ParseFloat32 s = (case special_float s of
     Some f \<Rightarrow> Some f
   | None \<Rightarrow> (case read_float s of
       None \<Rightarrow> None
     | Some (neg, q) \<Rightarrow> (case f32_round neg (if neg then - q else q) of FInf _ \<Rightarrow> None | f \<Rightarrow> Some f)))"

definition ToFloat32 :: "gval \<Rightarrow> Strictness \<Rightarrow> cast_err + f64" where
  "ToFloat32 input sn = (case int_value input of
     Some n \<Rightarrow> if sn \<noteq> STRICT then Inr (f32_round False (of_int n)) else Inl (CannotConvert input)
   | None \<Rightarrow> (case input of
       GFloat64 f \<Rightarrow> Inr (to_f32 f)
     | GFloat32 f \<Rightarrow> Inr f
     | GString s \<Rightarrow>
         if sn = CONVERT_ALL then (case ParseFloat32 s of Some v \<Rightarrow> Inr v | None \<Rightarrow> Inl (CannotConvert input))
         else Inl (CannotConvert input)
     | GBool b \<Rightarrow> if sn = CONVERT_ALL then Inr (if b then FNum 1 else FZero False) else Inl (CannotConvert input)
     | _ \<Rightarrow> Inl (CannotConvert input)))"

definition ToBool :: "gval \<Rightarrow> Strictness \<Rightarrow> cast_err + bool" where
  "ToBool input sn = (case input of
     GBool b \<Rightarrow> Inr b
   | GNil \<Rightarrow> if sn = CONVERT_ALL then Inr False else Inl (CannotConvert input)
   | GInt b \<Rightarrow> if sn = CONVERT_ALL then Inr (b \<noteq> 0) else Inl (CannotConvert input)
   | GString s \<Rightarrow>
       if sn = CONVERT_ALL then (case ParseBool s of Some b \<Rightarrow> Inr b | None \<Rightarrow> Inl (ParseError s))
       else Inl (CannotConvert input)
   | _ \<Rightarrow> Inl (CannotConvert input))"

definition ToBytes :: "gval \<Rightarrow> Strictness \<Rightarrow> cast_err + string" where
  "ToBytes input sn = (case input of
     GBytes b \<Rightarrow> Inr b
   | GString b \<Rightarrow> if sn \<noteq> STRICT then Inr b else Inl (CannotConvert input)
   | _ \<Rightarrow> Inl (CannotConvert input))"

section \<open>Maps and slices\<close>

text \<open>\<open>sp\<close> is \<^verbatim>\<open>fmt.Sprintf("%v", k)\<close>.\<close>

definition ToStringMap :: "(gval \<Rightarrow> string) \<Rightarrow> gval \<Rightarrow> cast_err + (string \<times> gval) list" where
  "ToStringMap sp input = (case input of
     GMap v \<Rightarrow> Inr (fold (\<lambda>(k, x) m. AList.update (sp k) x m) v [])
   | GStrMap v \<Rightarrow> Inr v
   | _ \<Rightarrow> Inl (CannotConvert input))"

fun slice_loop :: "(gval \<Rightarrow> cast_err + 'a) \<Rightarrow> nat \<Rightarrow> gval list \<Rightarrow> cast_err + 'a list" where
  "slice_loop conv i [] = Inr []"
| "slice_loop conv i (x # xs) = (case conv x of
     Inl e \<Rightarrow> Inl (ElementError i e)
   | Inr y \<Rightarrow> (case slice_loop conv (Suc i) xs of Inl e \<Rightarrow> Inl e | Inr ys \<Rightarrow> Inr (y # ys)))"

definition to_slice :: "(gval \<Rightarrow> cast_err + 'a) \<Rightarrow> gval \<Rightarrow> cast_err + 'a list" where
  "to_slice conv input = (case input of GSlice xs \<Rightarrow> slice_loop conv 0 xs | _ \<Rightarrow> Inl (CannotConvert input))"

text \<open>A \<^verbatim>\<open>[]byte\<close> is a slice too.\<close>

definition slice_of :: "gval \<Rightarrow> gval" where
  "slice_of input = (case input of GBytes b \<Rightarrow> GSlice (map (\<lambda>c. GUint8 (of_char c)) b) | _ \<Rightarrow> input)"

definition ToInt64Slice :: "gval \<Rightarrow> Strictness \<Rightarrow> cast_err + 64 word list" where
  "ToInt64Slice input sn = to_slice (\<lambda>x. ToInt64 x sn) (slice_of input)"

definition ToUint64Slice :: "gval \<Rightarrow> Strictness \<Rightarrow> cast_err + 64 word list" where
  "ToUint64Slice input sn = to_slice (\<lambda>x. ToUint64 x sn) (slice_of input)"

definition ToFloat64Slice :: "gval \<Rightarrow> Strictness \<Rightarrow> cast_err + f64 list" where
  "ToFloat64Slice input sn = to_slice (\<lambda>x. ToFloat64 x sn) (slice_of input)"

definition ToBoolSlice :: "gval \<Rightarrow> Strictness \<Rightarrow> cast_err + bool list" where
  "ToBoolSlice input sn = to_slice (\<lambda>x. ToBool x sn) (slice_of input)"

definition ToStringSlice :: "(f64 \<Rightarrow> nat \<Rightarrow> string) \<Rightarrow> gval \<Rightarrow> Strictness \<Rightarrow> cast_err + string list" where
  "ToStringSlice ff input sn = to_slice (\<lambda>x. ToString ff x sn) (slice_of input)"

definition ToBytesSlice :: "gval \<Rightarrow> Strictness \<Rightarrow> cast_err + string list" where
  "ToBytesSlice input sn = to_slice (\<lambda>x. ToBytes x sn) (slice_of input)"

text \<open>\<^verbatim>\<open>ToTypedSlice\<close> looks at the first element unconditionally: \<open>None\<close> is the panic on an empty slice.\<close>

definition ToTypedSlice :: "(gval \<Rightarrow> cast_err + 'a) \<Rightarrow> gval \<Rightarrow> (cast_err + 'a list) option" where
  "ToTypedSlice conv input = (case slice_of input of
     GSlice [] \<Rightarrow> None
   | GSlice xs \<Rightarrow> Some (slice_loop conv 0 xs)
   | _ \<Rightarrow> Some (Inl (CannotConvert input)))"

text \<open>The keys of nested maps become strings.\<close>

function ConvertMap :: "(gval \<Rightarrow> string) \<Rightarrow> (gval \<times> gval) list \<Rightarrow> (string \<times> gval) list"
  and ConvertArray :: "(gval \<Rightarrow> string) \<Rightarrow> gval list \<Rightarrow> gval list"
  and convert_elem :: "(gval \<Rightarrow> string) \<Rightarrow> gval \<Rightarrow> gval" where
  "ConvertMap sp s = fold (\<lambda>(k, v) r. AList.update (sp k) v r) (map (\<lambda>(k, v). (k, convert_elem sp v)) s) []"
| "ConvertArray sp s = map (convert_elem sp) s"
| "convert_elem sp v = (case v of
     GMap t \<Rightarrow> GStrMap (ConvertMap sp t)
   | GSlice t \<Rightarrow> GSlice (ConvertArray sp t)
   | _ \<Rightarrow> v)"
  by pat_completeness auto
termination
proof (relation "measure (\<lambda>x. case x of
    Inl (sp, s) \<Rightarrow> 2 * size_list (size_prod size size) s + 1
  | Inr (Inl (sp, s)) \<Rightarrow> 2 * size_list size s + 1
  | Inr (Inr (sp, v)) \<Rightarrow> 2 * size v)", goal_cases)
  case (2 sp s x y z)
  then show ?case
    by (induction s) (auto simp: less_Suc_eq_le)
next
  case (3 sp s z)
  then show ?case
    by (induction s) auto
qed (auto simp: size_list_conv_sum_list)

declare ConvertMap.simps [simp del] ConvertArray.simps [simp del] convert_elem.simps [simp del]

section \<open>Integer casts are exact where the value fits\<close>

lemma sint_word_of_int_eq_iff:
  "sint (word_of_int n :: 'a::len word) = n \<longleftrightarrow> - (2 ^ (LENGTH('a) - 1)) \<le> n \<and> n < 2 ^ (LENGTH('a) - 1)"
proof
  assume "sint (word_of_int n :: 'a word) = n"
  then show "- (2 ^ (LENGTH('a) - 1)) \<le> n \<and> n < 2 ^ (LENGTH('a) - 1)"
    using sint_greater_eq [of "word_of_int n :: 'a word"] sint_less [of "word_of_int n :: 'a word"] by simp
next
  assume "- (2 ^ (LENGTH('a) - 1)) \<le> n \<and> n < 2 ^ (LENGTH('a) - 1)"
  then show "sint (word_of_int n :: 'a word) = n"
    by (simp add: sint_sbintrunc' signed_take_bit_int_eq_self)
qed

lemma uint_word_of_int_eq_iff:
  "uint (word_of_int n :: 'a::len word) = n \<longleftrightarrow> 0 \<le> n \<and> n < 2 ^ LENGTH('a)"
proof
  assume "uint (word_of_int n :: 'a word) = n"
  then show "0 \<le> n \<and> n < 2 ^ LENGTH('a)"
    using uint_lt2p [of "word_of_int n :: 'a word"] uint_ge_0 [of "word_of_int n :: 'a word"] by simp
qed (simp add: uint_word_of_int)



section \<open>Printing and parsing integers\<close>

lemma is_digit_not_underscore: "is_digit c \<Longrightarrow> c \<noteq> CHR ''_''"
  by (auto simp: is_digit_def char_code_def)

lemma digits_val_dec_val: "list_all is_digit s \<Longrightarrow> digits_val 10 s acc = dec_val s acc"
  by (induction s arbitrary: acc) (auto simp: is_digit_not_underscore digit_val_def is_digit_def char_code_def)

lemma nat_digits_all_digits: "list_all is_digit (nat_digits n)"
  using nat_digits_chars by (auto simp: list_all_iff)

lemma nat_digits_hd: "0 < n \<Longrightarrow> hd (nat_digits n) \<noteq> CHR ''0''"
proof (induction n rule: nat_digits.induct)
  case (1 n)
  show ?case
  proof (cases "n < 10")
    case True
    have "char_code (char_of (48 + n)) \<noteq> char_code CHR ''0''"
      using True 1(2) char_code_digit [of n] by (simp add: char_code_def)
    then show ?thesis
      using True by (subst nat_digits.simps) auto
  next
    case False
    then have "hd (nat_digits (n div 10)) \<noteq> CHR ''0''"
      using 1(1) by simp
    then show ?thesis
      using False by (subst nat_digits.simps) simp
  qed
qed

lemma nat_digits_0: "nat_digits 0 = ''0''"
  by code_simp

lemma ParseUint_nat_digits: "n < 2 ^ 64 \<Longrightarrow> ParseUint (nat_digits n) = Some n"
proof (cases "n = 0")
  case True
  then show ?thesis
    by (simp add: ParseUint_def base_of_def nat_digits_0)
next
  case False
  assume n: "n < 2 ^ 64"
  have "base_of (nat_digits n) = (10, nat_digits n)"
    using False nat_digits_hd [of n] by (auto simp: base_of_def split: list.splits)
  moreover have "CHR ''_'' \<notin> set (nat_digits n)"
    using nat_digits_chars is_digit_not_underscore by blast
  ultimately show ?thesis
    using n by (simp add: ParseUint_def digits_val_dec_val [OF nat_digits_all_digits] dec_val_nat_digits)
qed

lemma nat_digits_no_sign: "hd (nat_digits n) \<noteq> CHR ''-'' \<and> hd (nat_digits n) \<noteq> CHR ''+''"
  using nat_digits_chars [of "hd (nat_digits n)" n] by (auto simp: is_digit_def char_code_def)

lemma ParseInt_itoa:
  assumes "in_i64 i"
  shows "ParseInt (itoa i) = Some i"
proof (cases "i < 0")
  case True
  then show ?thesis
    using assms by (simp add: ParseInt_def itoa_def ParseUint_nat_digits in_i64_def)
next
  case False
  obtain c cs where c: "nat_digits (nat i) = c # cs" "c \<noteq> CHR ''-''" "c \<noteq> CHR ''+''"
    using nat_digits_no_sign [of "nat i"] by (cases "nat_digits (nat i)") auto
  have "ParseUint (c # cs) = Some (nat i)"
    using False assms ParseUint_nat_digits [of "nat i"] by (simp add: c in_i64_def)
  then show ?thesis
    using False assms c by (simp add: ParseInt_def itoa_def in_i64_def)
qed

lemma in_i64_sint:
  assumes "LENGTH('a) \<le> 64"
  shows "in_i64 (sint (x :: 'a::len word))"
proof -
  have "(2::int) ^ (LENGTH('a) - 1) \<le> 2 ^ 63"
    using assms by (intro power_increasing) auto
  then show ?thesis
    using sint_greater_eq [of x] sint_less [of x] by (auto simp: in_i64_def)
qed

text \<open>
  An integer that \<^verbatim>\<open>ToString\<close> prints is read back by \<^verbatim>\<open>ToInt64\<close> under \<^verbatim>\<open>CONVERT_ALL\<close>: for each signed width the value returns,
  and for \<^verbatim>\<open>uint64\<close> \<^verbatim>\<open>ToUint64\<close> returns it.
\<close>

theorem cast_string_roundtrip:
  "(ToString ff (GInt64 w) CONVERT_ALL = Inr s \<longrightarrow> ToInt64 (GString s) CONVERT_ALL = Inr w) \<and>
   (ToString ff (GInt32 w32) CONVERT_ALL = Inr s \<longrightarrow> ToInt32 (GString s) CONVERT_ALL = Inr w32) \<and>
   (ToString ff (GInt16 w16) CONVERT_ALL = Inr s \<longrightarrow> ToInt16 (GString s) CONVERT_ALL = Inr w16) \<and>
   (ToString ff (GInt8 w8) CONVERT_ALL = Inr s \<longrightarrow> ToInt8 (GString s) CONVERT_ALL = Inr w8) \<and>
   (ToString ff (GUint64 u) CONVERT_ALL = Inr s \<longrightarrow> ToUint64 (GString s) CONVERT_ALL = Inr u)"
proof -
  have "unat u < 2 ^ 64"
    using unsigned_less [of u] by simp
  then show ?thesis
    by (auto simp: ToString_def ToInt64_def ToInt32_def ToInt16_def ToInt8_def to_signed_def ParseInt_itoa in_i64_sint
        ToUint64_def to_unsigned_def itoa_def [of "uint u"] ParseUint_nat_digits)
qed

theorem cast_string_roundtrip_witness:
  "ToInt64 (GString ''-42'') CONVERT_ALL = Inr (- 42)"
proof -
  have "ToString (\<lambda>_ _. []) (GInt64 (- 42)) CONVERT_ALL = Inr ''-42''"
    by code_simp
  then show ?thesis
    using cast_string_roundtrip [of "\<lambda>_ _. []" "- 42" "''-42''"] by simp
qed

section \<open>Slices\<close>

lemma slice_loop_Inr_iff:
  "slice_loop conv i xs = Inr ys \<longleftrightarrow> map conv xs = map Inr ys"
proof (induction xs arbitrary: i ys)
  case (Cons x xs)
  note IH = Cons.IH
  show ?case
  proof (cases ys)
    case (Cons y ys')
    then show ?thesis
      using IH [of "Suc i" ys'] by (cases "slice_loop conv (Suc i) xs") (auto split: sum.splits)
  qed (auto split: sum.splits)
qed auto

lemma slice_loop_Inl_iff:
  "slice_loop conv i xs = Inl e \<longleftrightarrow>
     (\<exists>j d. j < length xs \<and> conv (xs ! j) = Inl d \<and> e = ElementError (i + j) d \<and> (\<forall>k<j. \<exists>y. conv (xs ! k) = Inr y))"
proof (induction xs arbitrary: i)
  case (Cons x xs)
  show ?case
  proof (cases "conv x")
    case (Inl d)
    then show ?thesis
      by (force simp: less_Suc_eq_0_disj)
  next
    case (Inr y)
    have "slice_loop conv i (x # xs) = Inl e \<longleftrightarrow> slice_loop conv (Suc i) xs = Inl e"
      using Inr by (auto split: sum.splits)
    also have "\<dots> \<longleftrightarrow> (\<exists>j d. j < length xs \<and> conv (xs ! j) = Inl d \<and> e = ElementError (Suc i + j) d
        \<and> (\<forall>k<j. \<exists>y. conv (xs ! k) = Inr y))"
      by (rule Cons.IH)
    also have "\<dots> \<longleftrightarrow> (\<exists>j d. j < length (x # xs) \<and> conv ((x # xs) ! j) = Inl d \<and> e = ElementError (i + j) d
        \<and> (\<forall>k<j. \<exists>y. conv ((x # xs) ! k) = Inr y))" (is "?l \<longleftrightarrow> ?r")
    proof
      assume ?l
      then obtain j d where "j < length xs" "conv (xs ! j) = Inl d" "e = ElementError (Suc i + j) d"
        "\<forall>k<j. \<exists>y. conv (xs ! k) = Inr y"
        by blast
      then show ?r
        using Inr by (intro exI [of _ "Suc j"] exI [of _ d]) (auto simp: less_Suc_eq_0_disj)
    next
      assume ?r
      then obtain j d where j: "j < length (x # xs)" "conv ((x # xs) ! j) = Inl d" "e = ElementError (i + j) d"
        "\<forall>k<j. \<exists>y. conv ((x # xs) ! k) = Inr y"
        by blast
      then obtain j' where "j = Suc j'"
        using Inr by (cases j) auto
      then show ?l
        using j by (intro exI [of _ j'] exI [of _ d]) auto
    qed
    finally show ?thesis .
  qed
qed simp

text \<open>
  \<^verbatim>\<open>ToInt64Slice\<close> converts every element, in order, or reports the first element that does not convert, with its index.
\<close>

theorem ToInt64Slice_spec:
  "(ToInt64Slice (GSlice xs) sn = Inr ys \<longleftrightarrow> map (\<lambda>x. ToInt64 x sn) xs = map Inr ys) \<and>
   (ToInt64Slice (GSlice xs) sn = Inl e \<longleftrightarrow>
     (\<exists>j d. j < length xs \<and> ToInt64 (xs ! j) sn = Inl d \<and> e = ElementError j d \<and> (\<forall>k<j. \<exists>y. ToInt64 (xs ! k) sn = Inr y)))"
  by (simp add: ToInt64Slice_def to_slice_def slice_of_def slice_loop_Inr_iff slice_loop_Inl_iff)

section \<open>Nested maps\<close>

text \<open>A value as a YAML decoder builds it has only maps with interface keys; after the conversion every map has string keys.\<close>

fun no_str_map :: "gval \<Rightarrow> bool" where
  "no_str_map (GSlice xs) = list_all no_str_map xs"
| "no_str_map (GMap m) = list_all (\<lambda>(k, x). no_str_map x) m"
| "no_str_map (GStrMap m) = False"
| "no_str_map _ = True"

fun no_iface_map :: "gval \<Rightarrow> bool" where
  "no_iface_map (GSlice xs) = list_all no_iface_map xs"
| "no_iface_map (GStrMap m) = list_all (\<lambda>(k, x). no_iface_map x) m"
| "no_iface_map (GMap m) = False"
| "no_iface_map _ = True"

lemma update_values_subset: "(k, x) \<in> set (AList.update k' v m) \<Longrightarrow> x = v \<or> (k, x) \<in> set m"
  by (induction m) (auto split: if_splits)

lemma fold_update_values:
  "(k, x) \<in> set (fold (\<lambda>(k, v) r. AList.update (f k) v r) s r0) \<Longrightarrow> x \<in> snd ` set s \<or> x \<in> snd ` set r0"
proof (induction s arbitrary: r0)
  case (Cons a s)
  then show ?case
    by (cases a) (force dest!: Cons.IH update_values_subset)
qed force

lemma Convert_no_iface_map:
  "list_all (\<lambda>(k, x). no_str_map x) s \<Longrightarrow> list_all (\<lambda>(k, x). no_iface_map x) (ConvertMap sp s)"
  "list_all no_str_map xs \<Longrightarrow> list_all no_iface_map (ConvertArray sp xs)"
  "no_str_map v \<Longrightarrow> no_iface_map (convert_elem sp v)"
proof (induction sp s and sp xs and sp v rule: ConvertMap_ConvertArray_convert_elem.induct)
  case (1 sp s)
  then show ?case
    by (fastforce simp: ConvertMap.simps list_all_iff dest!: fold_update_values)
next
  case (2 sp s)
  then show ?case
    by (simp add: ConvertArray.simps list_all_iff)
next
  case (3 sp v)
  then show ?case
    by (cases v) (simp_all add: convert_elem.simps)
qed

text \<open>
  \<^verbatim>\<open>ConvertMap\<close> types its result: from a map without string-keyed maps inside, as a YAML decoder builds it, it returns a map in
  which, at every depth below slices and maps, no map with interface keys is left.
\<close>

theorem ConvertMap_string_keys:
  "no_str_map (GMap m) \<Longrightarrow> no_iface_map (GStrMap (ConvertMap sp m))"
  by (simp add: Convert_no_iface_map)

theorem ConvertMap_string_keys_witness:
  "no_iface_map (GStrMap (ConvertMap (\<lambda>_. ''k'') [(GInt 1, GSlice [GMap [(GBool True, GNil)]])]))"
  by (rule ConvertMap_string_keys) simp

end
