(* ===== verification/Analyzer.thy ===== *)
theory Analyzer
  imports StreamParser
begin

text \<open>
  \<^verbatim>\<open>internal/topo/planner/analyzer.go\<close>, \<^verbatim>\<open>NewAliasRef\<close> of \<^verbatim>\<open>pkg/ast/expr.go\<close> and the stream lookup of \<^verbatim>\<open>internal/xsql/stmtx.go\<close>: the analysis that
  binds every column reference of a statement to a stream or an alias before the statement is planned.

  The code binds a reference by writing to the \<^verbatim>\<open>FieldRef\<close> it points to while it walks the statement. Here the walk returns the rewritten
  expression; the order of the visits is that of \<^verbatim>\<open>Walk\<close>, since binding fills the map of fields. An error is \<open>Some\<close> message; the closure's
  variable \<^verbatim>\<open>walkErr\<close> is part of the state that is passed along, and each visit overwrites it, as in the code.
\<close>

section \<open>Streams of the store (stmtx.go)\<close>

record StreamInfo =
  si_StreamType :: StreamType
  si_Statement :: string

text \<open>
  The key-value store is the map of its entries; \<open>unmarshal\<close> stands for \<^verbatim>\<open>json.Unmarshal\<close>. Opening the store succeeds.
\<close>

definition GetDataSourceStatement :: "(string \<Rightarrow> StreamInfo option) \<Rightarrow> (string \<Rightarrow> string option) \<Rightarrow> string \<Rightarrow> string + StreamInfo" where
  "GetDataSourceStatement unmarshal m name = (case m name of
     Some v \<Rightarrow> (case unmarshal v of
         Some vs \<Rightarrow> Inr vs
       | None \<Rightarrow> Inl (''error unmarshall '' @ name @ '', the data in db may be corrupted''))
   | None \<Rightarrow> Inl (name @ '' is not found''))"

definition GetDataSource ::
  "ext_validator \<Rightarrow> (string \<Rightarrow> bool) \<Rightarrow> (string \<Rightarrow> StreamInfo option) \<Rightarrow> (string \<Rightarrow> string option) \<Rightarrow> string \<Rightarrow> string + StreamStmt" where
  "GetDataSource ext rt unmarshal m name = (case GetDataSourceStatement unmarshal m name of
     Inl e \<Rightarrow> Inl e
   | Inr info \<Rightarrow>
       (case Language_Parse ext rt (sql_fuel (si_Statement info)) (NewParser (si_Statement info)) of
          Inr (Some (CreateStmt stmt), p) \<Rightarrow> Inr stmt
        | _ \<Rightarrow> Inl (''Error resolving the stream '' @ name @ '', the data in db may be corrupted.'')))"

section \<open>Alias references (expr.go)\<close>

text \<open>The visitor of \<^verbatim>\<open>NewAliasRef\<close>: its state is \<^verbatim>\<open>walkErr\<close> and the set of streams, in the order in which they are met.\<close>

definition alias_visitor :: "(string option \<times> StreamName list) visitor" where
  "alias_visitor n s = (case n of
     NExpr (FieldRef sn name al) \<Rightarrow>
       if sn = AliasStream then (False, Some (''cannot use alias '' @ name @ '' inside another alias''), snd s)
       else (True, fst s, List.insert sn (snd s))
   | _ \<Rightarrow> (True, s))"

definition NewAliasRef :: "expr \<Rightarrow> string + AliasRef" where
  "NewAliasRef e = (case walk_expr alias_visitor e (None, []) of
     (Some err, rs) \<Rightarrow> Inl err
   | (None, rs) \<Rightarrow> Inr (AliasRef e rs))"

section \<open>The map of fields\<close>

text \<open>Per field name: the streams that have such a field, with no alias reference, and under \<^verbatim>\<open>$$alias\<close> the alias of that name.\<close>

datatype streamFieldStore =
    streamFieldMap (sf_content: "(StreamName \<times> AliasRef option) list")
  | streamFieldMapSchemaless (sf_content: "(StreamName \<times> AliasRef option) list") StreamName

definition newStreamFieldStore :: "bool \<Rightarrow> StreamName \<Rightarrow> streamFieldStore" where
  "newStreamFieldStore isSchemaless defaultStream =
     (if \<not> isSchemaless then streamFieldMap [] else streamFieldMapSchemaless [] defaultStream)"

fun store_add :: "StreamName \<Rightarrow> streamFieldStore \<Rightarrow> streamFieldStore" where
  "store_add k (streamFieldMap c) = streamFieldMap (AList.update k None c)"
| "store_add k (streamFieldMapSchemaless c d) = streamFieldMapSchemaless (AList.update k None c) d"

definition schema_ref :: "StreamName \<Rightarrow> AliasRef \<Rightarrow> (StreamName \<times> AliasRef option) list \<Rightarrow> string option \<times> (StreamName \<times> AliasRef option) list" where
  "schema_ref k v c =
     (if k = AliasStream then
        (if map_of c k \<noteq> None then (Some ''duplicate alias '', c) else (None, AList.update k (Some v) c))
      else if k = DefaultStream then
        (if length c = 0 then (Some ''unknow field '', c)
         else if length c = 1 then (None, c)
         else (Some ''ambiguous field '', c))
      else if map_of c k = None then (Some (''unknow field '' @ k @ ''.''), c)
      else (None, c))"

definition schemaless_ref :: "StreamName \<Rightarrow> AliasRef \<Rightarrow> (StreamName \<times> AliasRef option) list \<Rightarrow> string option \<times> (StreamName \<times> AliasRef option) list" where
  "schemaless_ref k v c =
     (if k = AliasStream then
        (if map_of c k \<noteq> None then (Some ''duplicate alias '', c) else (None, AList.update k (Some v) c))
      else if k = DefaultStream then
        (if length c < 1 then (None, c) else (Some ''ambiguous field '', c))
      else if length c = 1 \<and> fst (hd c) = DefaultStream then (None, AList.delete k c)
      else (None, c))"

fun store_ref :: "StreamName \<Rightarrow> AliasRef \<Rightarrow> streamFieldStore \<Rightarrow> string option \<times> streamFieldStore" where
  "store_ref k v (streamFieldMap c) = (case schema_ref k v c of (err, c1) \<Rightarrow> (err, streamFieldMap c1))"
| "store_ref k v (streamFieldMapSchemaless c d) = (case schemaless_ref k v c of (err, c1) \<Rightarrow> (err, streamFieldMapSchemaless c1 d))"

text \<open>\<^verbatim>\<open>bindRef\<close> writes the stream name and the alias of the reference; both are returned. In the map of a schema it changes nothing else.\<close>

definition schema_bindRef ::
  "StreamName \<Rightarrow> AliasRef option \<Rightarrow> (StreamName \<times> AliasRef option) list \<Rightarrow> string option \<times> StreamName \<times> AliasRef option" where
  "schema_bindRef sn al c =
     (let k = (if sn = [] then DefaultStream else sn)
      in if k = DefaultStream then
           (case c of
              [] \<Rightarrow> (Some ''unknown field '', k, al)
            | [(sk, sv)] \<Rightarrow> (None, sk, sv)
            | _ \<Rightarrow> (case map_of c AliasStream of
                Some r \<Rightarrow> (None, AliasStream, r)
              | None \<Rightarrow> (Some ''ambiguous field '', k, al)))
         else (case map_of c k of
            Some r \<Rightarrow> (None, k, r)
          | None \<Rightarrow> (Some (''unknown field '' @ k @ ''.''), k, al)))"

definition schemaless_bindRef ::
  "StreamName \<Rightarrow> AliasRef option \<Rightarrow> (StreamName \<times> AliasRef option) list \<Rightarrow> StreamName \<Rightarrow>
   string option \<times> (StreamName \<times> AliasRef option) list \<times> StreamName \<times> AliasRef option" where
  "schemaless_bindRef sn al c d =
     (let k = (if sn = [] \<or> sn = DefaultStream then (case c of [(sk, sv)] \<Rightarrow> sk | _ \<Rightarrow> d) else sn)
      in if k = DefaultStream then
           (case c of
              [] \<Rightarrow> (None, AList.update k None c, k, al)
            | [(sk, sv)] \<Rightarrow> (None, c, sk, sv)
            | _ \<Rightarrow> (case map_of c AliasStream of
                Some r \<Rightarrow> (None, c, AliasStream, r)
              | None \<Rightarrow> (Some ''ambiguous field '', c, k, al)))
         else (case map_of c k of
            None \<Rightarrow> (None, AList.update k None c, k, al)
          | Some r \<Rightarrow> (None, c, k, r)))"

fun store_bindRef ::
  "StreamName \<Rightarrow> AliasRef option \<Rightarrow> streamFieldStore \<Rightarrow> string option \<times> streamFieldStore \<times> StreamName \<times> AliasRef option" where
  "store_bindRef sn al (streamFieldMap c) = (case schema_bindRef sn al c of (err, sn1, al1) \<Rightarrow> (err, streamFieldMap c, sn1, al1))"
| "store_bindRef sn al (streamFieldMapSchemaless c d) =
     (case schemaless_bindRef sn al c d of (err, c1, sn1, al1) \<Rightarrow> (err, streamFieldMapSchemaless c1 d, sn1, al1))"

record fieldsMap =
  fm_content :: "(string \<times> streamFieldStore) list"
  fm_isSchemaless :: bool
  fm_defaultStream :: StreamName

definition newFieldsMap :: "bool \<Rightarrow> StreamName \<Rightarrow> fieldsMap" where
  "newFieldsMap isSchemaless defaultStream =
     \<lparr>fm_content = [], fm_isSchemaless = isSchemaless, fm_defaultStream = defaultStream\<rparr>"

definition fm_put :: "string \<Rightarrow> streamFieldStore \<Rightarrow> fieldsMap \<Rightarrow> fieldsMap" where
  "fm_put k st f = f\<lparr>fm_content := AList.update k st (fm_content f)\<rparr>"

definition fm_new :: "fieldsMap \<Rightarrow> streamFieldStore" where
  "fm_new f = newStreamFieldStore (fm_isSchemaless f) (fm_defaultStream f)"

definition fm_reserve :: "string \<Rightarrow> StreamName \<Rightarrow> fieldsMap \<Rightarrow> fieldsMap" where
  "fm_reserve fieldName streamName f =
     fm_put (to_lower fieldName)
       (store_add streamName (case map_of (fm_content f) (to_lower fieldName) of Some fm \<Rightarrow> fm | None \<Rightarrow> fm_new f)) f"

definition fm_save :: "string \<Rightarrow> StreamName \<Rightarrow> AliasRef \<Rightarrow> fieldsMap \<Rightarrow> string option \<times> fieldsMap" where
  "fm_save fieldName streamName fld f =
     (let k = to_lower fieldName in
      case (case map_of (fm_content f) k of
              Some fm \<Rightarrow> Some fm
            | None \<Rightarrow> if streamName = AliasStream \<or> fm_isSchemaless f then Some (fm_new f) else None) of
        None \<Rightarrow> (Some (''unknown field '' @ fieldName), f)
      | Some fm \<Rightarrow> (case store_ref streamName fld fm of (err, fm1) \<Rightarrow>
          (case err of Some e \<Rightarrow> Some (e @ fieldName) | None \<Rightarrow> None, fm_put k fm1 f)))"

definition fm_bind ::
  "StreamName \<Rightarrow> string \<Rightarrow> AliasRef option \<Rightarrow> fieldsMap \<Rightarrow> string option \<times> fieldsMap \<times> StreamName \<times> AliasRef option" where
  "fm_bind sn name al f =
     (let k = to_lower name in
      case (case map_of (fm_content f) k of
              Some fm \<Rightarrow> Some fm
            | None \<Rightarrow> if fm_isSchemaless f \<and> name \<noteq> [] then Some (fm_new f) else None) of
        None \<Rightarrow> (Some (''unknown field '' @ name), f, sn, al)
      | Some fm \<Rightarrow> (case store_bindRef sn al fm of (err, fm1, sn1, al1) \<Rightarrow>
          (case err of Some e \<Rightarrow> Some (e @ name) | None \<Rightarrow> None, fm_put k fm1 f, sn1, al1)))"

definition DEFAULT_FIELD_NAME_PREFIX :: string where
  "DEFAULT_FIELD_NAME_PREFIX = ''kuiper_field_''"

definition getDefaultName :: "fieldsMap \<Rightarrow> string" where
  "getDefaultName f =
     (case find (\<lambda>key. map_of (fm_content f) key = None) (map (\<lambda>i. DEFAULT_FIELD_NAME_PREFIX @ itoa (int i)) [0..<2048]) of
        Some key \<Rightarrow> key | None \<Rightarrow> [])"

section \<open>Walking and rewriting references\<close>

fun map_acc :: "('a \<Rightarrow> 's \<Rightarrow> 'b \<times> 's) \<Rightarrow> 'a list \<Rightarrow> 's \<Rightarrow> 'b list \<times> 's" where
  "map_acc f [] s = ([], s)"
| "map_acc f (x # xs) s = (case f x s of (y, s1) \<Rightarrow> case map_acc f xs s1 of (ys, s2) \<Rightarrow> (y # ys, s2))"

lemma map_acc_cong [fundef_cong]:
  "xs = ys \<Longrightarrow> s = t \<Longrightarrow> (\<And>x u. x \<in> set ys \<Longrightarrow> f x u = g x u) \<Longrightarrow> map_acc f xs s = map_acc g ys t"
proof (induction ys arbitrary: xs s t)
  case (Cons y ys)
  have "map_acc f ys u = map_acc g ys u" for u
    using Cons.IH [OF refl refl] Cons.prems(3) by simp
  then show ?case
    using Cons.prems by simp
qed simp

text \<open>\<^verbatim>\<open>Walk\<close> with a visitor that rewrites the references it meets and always descends.\<close>

type_synonym 's rebind = "StreamName \<Rightarrow> string \<Rightarrow> AliasRef option \<Rightarrow> 's \<Rightarrow> expr \<times> 's"

fun bind_walk :: "'s rebind \<Rightarrow> expr \<Rightarrow> 's \<Rightarrow> expr \<times> 's" where
  "bind_walk g (FieldRef sn n al) s = g sn n al s"
| "bind_walk g (BinaryExpr op l r) s =
     (case bind_walk g l s of (l1, s1) \<Rightarrow> case bind_walk g r s1 of (r1, s2) \<Rightarrow> (BinaryExpr op l1 r1, s2))"
| "bind_walk g (Call n args) s = (case map_acc (bind_walk g) args s of (as, s1) \<Rightarrow> (Call n as, s1))"
| "bind_walk g (ParenExpr e) s = (case bind_walk g e s of (e1, s1) \<Rightarrow> (ParenExpr e1, s1))"
| "bind_walk g (CaseExpr val ws els) s =
     (case (case val of Some x \<Rightarrow> (case bind_walk g x s of (x1, s1) \<Rightarrow> (Some x1, s1)) | None \<Rightarrow> (None, s)) of (val1, s1) \<Rightarrow>
      case map_acc (\<lambda>(c, r) t. case bind_walk g c t of (c1, t1) \<Rightarrow> case bind_walk g r t1 of (r1, t2) \<Rightarrow> ((c1, r1), t2)) ws s1 of (ws1, s2) \<Rightarrow>
      case (case els of Some x \<Rightarrow> (case bind_walk g x s2 of (x1, s3) \<Rightarrow> (Some x1, s3)) | None \<Rightarrow> (None, s2)) of (els1, s3) \<Rightarrow>
        (CaseExpr val1 ws1 els1, s3))"
| "bind_walk g (Window wt len itv flt) s =
     (case flt of Some x \<Rightarrow> (case bind_walk g x s of (x1, s1) \<Rightarrow> (Window wt len itv (Some x1), s1)) | None \<Rightarrow> (Window wt len itv None, s))"
| "bind_walk g e s = (e, s)"

definition bind_opt :: "'s rebind \<Rightarrow> expr option \<Rightarrow> 's \<Rightarrow> expr option \<times> 's" where
  "bind_opt g e s = (case e of Some x \<Rightarrow> (case bind_walk g x s of (x1, s1) \<Rightarrow> (Some x1, s1)) | None \<Rightarrow> (None, s))"

definition bind_join :: "'s rebind \<Rightarrow> join \<Rightarrow> 's \<Rightarrow> join \<times> 's" where
  "bind_join g j s = (case bind_opt g (jn_Expr j) s of (e, s1) \<Rightarrow> (j\<lparr>jn_Expr := e\<rparr>, s1))"

text \<open>\<^verbatim>\<open>Walk\<close> on the dimensions visits the first window, then the groups; further windows are not visited.\<close>

fun bind_window :: "'s rebind \<Rightarrow> dimensions \<Rightarrow> 's \<Rightarrow> dimensions \<times> 's" where
  "bind_window g [] s = ([], s)"
| "bind_window g (e # es) s =
     (if is_Window e then (case bind_walk g e s of (e1, s1) \<Rightarrow> (e1 # es, s1))
      else (case bind_window g es s of (es1, s1) \<Rightarrow> (e # es1, s1)))"

definition bind_dims :: "'s rebind \<Rightarrow> dimensions \<Rightarrow> 's \<Rightarrow> dimensions \<times> 's" where
  "bind_dims g ds s = (case bind_window g ds s of (ds1, s1) \<Rightarrow>
     map_acc (\<lambda>e s. if is_Window e then (e, s) else bind_walk g e s) ds1 s1)"

definition bind_stmt :: "'s rebind \<Rightarrow> SelectStatement \<Rightarrow> 's \<Rightarrow> SelectStatement \<times> 's" where
  "bind_stmt g st s =
     (case map_acc (bind_join g) (Joins st) s of (js, s1) \<Rightarrow>
      case bind_opt g (Condition st) s1 of (c, s2) \<Rightarrow>
      case bind_dims g (Dimensions st) s2 of (ds, s3) \<Rightarrow>
      case bind_opt g (Having st) s3 of (h, s4) \<Rightarrow>
        (st\<lparr>Joins := js, Condition := c, Dimensions := ds, Having := h\<rparr>, s4))"

section \<open>decorateStmt\<close>

type_synonym bind_state = "string option \<times> fieldsMap"

text \<open>The visitor of the selected fields leaves the keys of JSON paths alone; the one of the other clauses binds them too.\<close>

definition bind_any :: "bind_state rebind" where
  "bind_any sn n al s = (case fm_bind sn n al (snd s) of (err, f, sn1, al1) \<Rightarrow> (FieldRef sn1 n al1, err, f))"

definition bind_sql :: "bind_state rebind" where
  "bind_sql sn n al s = (if IsSQLField sn then bind_any sn n al s else (FieldRef sn n al, s))"

fun bind_fields :: "field list \<Rightarrow> fieldsMap \<Rightarrow> string + field list \<times> fieldsMap" where
  "bind_fields [] fm = Inr ([], fm)"
| "bind_fields (f # fs) fm = (case bind_walk bind_sql (fld_Expr f) (None, fm) of
     (e, Some err, fm1) \<Rightarrow> Inl err
   | (e, None, fm1) \<Rightarrow>
       (case bind_fields fs fm1 of
          Inl err \<Rightarrow> Inl err
        | Inr (fs1, fm2) \<Rightarrow>
            Inr (f\<lparr>fld_Expr := e, fld_Name := (if fld_Name f = [] \<and> fld_AName f = [] then getDefaultName fm1 else fld_Name f)\<rparr> # fs1, fm2)))"

definition bind_alias :: "field \<Rightarrow> bind_state \<Rightarrow> field \<times> bind_state" where
  "bind_alias f s =
     (if fld_AName f = [] then (f, s)
      else case NewAliasRef (fld_Expr f) of
        Inl err \<Rightarrow> (f, Some err, snd s)
      | Inr ar \<Rightarrow> (f\<lparr>fld_Expr := FieldRef AliasStream (fld_AName f) (Some ar)\<rparr>, fm_save (fld_AName f) AliasStream ar (snd s)))"

fun allAggregate :: "(string \<Rightarrow> bool) \<Rightarrow> expr \<Rightarrow> bool" where
  "allAggregate rt (BinaryExpr op l r) =
     (if op = T_SUBSET \<or> op = T_ARROW then True else allAggregate rt l \<and> allAggregate rt r)"
| "allAggregate rt (Call n args) = IsAggregate rt (Call n args)"
| "allAggregate rt (FieldRef sn n al) = IsAggregate rt (FieldRef sn n al)"
| "allAggregate rt _ = True"

definition agg_arg_visitor :: "(string \<Rightarrow> bool) \<Rightarrow> string option visitor" where
  "agg_arg_visitor rt n s = (case n of
     NExpr (Call name args) \<Rightarrow>
       if IsAggFunc rt name \<and> list_ex (IsAggregate rt) args
       then (False, Some (''invalid argument for func '' @ name @ '': aggregate argument is not allowed'')) else (True, s)
   | _ \<Rightarrow> (True, s))"

definition opt_agg :: "(string \<Rightarrow> bool) \<Rightarrow> expr option \<Rightarrow> bool" where
  "opt_agg rt e = (case e of Some x \<Rightarrow> IsAggregate rt x | None \<Rightarrow> False)"

definition validate :: "(string \<Rightarrow> bool) \<Rightarrow> SelectStatement \<Rightarrow> string option" where
  "validate rt s =
     (if opt_agg rt (Condition s) then Some ''Not allowed to call aggregate functions in WHERE clause.''
      else if \<not> (case Having s of Some h \<Rightarrow> allAggregate rt h | None \<Rightarrow> True)
      then Some ''Not allowed to call non-aggregate functions in HAVING clause.''
      else if list_ex (IsAggregate rt) (Dimensions s) then Some ''Not allowed to call aggregate functions in GROUP BY clause.''
      else walk_select (agg_arg_visitor rt) s None)"

text \<open>\<open>store\<close> is \<^verbatim>\<open>xsql.GetDataSource\<close> on the opened key-value store.\<close>

fun get_streams :: "(string \<Rightarrow> string + StreamStmt) \<Rightarrow> string list \<Rightarrow> string + StreamStmt list" where
  "get_streams store [] = Inr []"
| "get_streams store (s # ss) = (case store s of
     Inl e \<Rightarrow> Inl (''fail to get stream '' @ s @ '', please check if stream is created'')
   | Inr st \<Rightarrow> (case get_streams store ss of Inl e \<Rightarrow> Inl e | Inr sts \<Rightarrow> Inr (st # sts)))"

definition reserve_stream :: "StreamStmt \<Rightarrow> fieldsMap \<Rightarrow> fieldsMap" where
  "reserve_stream st f = (case ss_StreamFields st of
     Some fs \<Rightarrow> fold (\<lambda>(n, t). fm_reserve n (ss_Name st)) fs f | None \<Rightarrow> f)"

definition init_fields :: "StreamStmt list \<Rightarrow> fieldsMap" where
  "init_fields sts =
     (let isSchemaless = list_ex (\<lambda>st. ss_StreamFields st = None) sts;
          dsn = (if length sts = 1 then ss_Name (hd sts) else DefaultStream);
          fm = newFieldsMap isSchemaless dsn
      in if \<not> isSchemaless then fold reserve_stream sts fm else fm)"

definition decorateStmt ::
  "(string \<Rightarrow> bool) \<Rightarrow> (string \<Rightarrow> string + StreamStmt) \<Rightarrow> SelectStatement \<Rightarrow> string + SelectStatement \<times> StreamStmt list" where
  "decorateStmt rt store s = (case get_streams store (GetStreams (Some s)) of
     Inl e \<Rightarrow> Inl e
   | Inr sts \<Rightarrow> (case bind_fields (Fields s) (init_fields sts) of
       Inl e \<Rightarrow> Inl e
     | Inr (fs, fm) \<Rightarrow> (case map_acc bind_alias fs (None, fm) of (fs1, st1) \<Rightarrow>
         (case bind_stmt bind_any (s\<lparr>Fields := fs1\<rparr>) st1 of
           (s1, Some e, fm1) \<Rightarrow> Inl e
         | (s1, None, fm1) \<Rightarrow> (case validate rt s1 of Some e \<Rightarrow> Inl e | None \<Rightarrow> Inr (s1, sts))))))"

section \<open>What the analysis leaves alone\<close>

text \<open>An expression without the streams and aliases of its references.\<close>

fun erase :: "expr \<Rightarrow> expr" where
  "erase (FieldRef sn n al) = FieldRef [] n None"
| "erase (BinaryExpr op l r) = BinaryExpr op (erase l) (erase r)"
| "erase (Call n args) = Call n (map erase args)"
| "erase (ParenExpr e) = ParenExpr (erase e)"
| "erase (CaseExpr val ws els) = CaseExpr (map_option erase val) (map (\<lambda>(c, r). (erase c, erase r)) ws) (map_option erase els)"
| "erase (Window wt len itv flt) = Window wt len itv (map_option erase flt)"
| "erase e = e"

text \<open>A rewriting of references keeps their names.\<close>

definition keeps_names :: "'s rebind \<Rightarrow> bool" where
  "keeps_names g \<longleftrightarrow> (\<forall>sn n al s. erase (fst (g sn n al s)) = FieldRef [] n None)"

lemma map_acc_erase:
  "(\<And>x s. x \<in> set xs \<Longrightarrow> h (fst (f x s)) = h' x) \<Longrightarrow> map h (fst (map_acc f xs s)) = map h' xs"
  by (induction xs arbitrary: s) (auto split: prod.splits, metis fst_conv, metis fst_conv)

lemma fst_case_prod [simp]: "fst (case p of (a, b) \<Rightarrow> (f a b, g a b)) = f (fst p) (snd p)"
  by (cases p) simp

lemma bind_walk_erase: "keeps_names g \<Longrightarrow> erase (fst (bind_walk g e s)) = erase e"
proof (induction e arbitrary: s rule: measure_induct_rule [of size])
  case (less e)
  show ?case
  proof (cases e)
    case (Call n args)
    have "map erase (fst (map_acc (bind_walk g) args s)) = map erase args"
      by (rule map_acc_erase, rule less) (use less.prems in \<open>simp_all add: Call size_in_args less_SucI\<close>)
    then show ?thesis
      by (simp add: Call split: prod.splits)
  next
    case (CaseExpr val ws els)
    have val: "map_option erase (fst (case val of Some x \<Rightarrow> (case bind_walk g x s of (x1, s1) \<Rightarrow> (Some x1, s1)) | None \<Rightarrow> (None, s))) = map_option erase val"
      for s using less CaseExpr by (cases val) simp_all
    have els: "map_option erase (fst (case els of Some x \<Rightarrow> (case bind_walk g x s of (x1, s1) \<Rightarrow> (Some x1, s1)) | None \<Rightarrow> (None, s))) = map_option erase els"
      for s using less CaseExpr by (cases els) simp_all
    have ws: "map (\<lambda>(c, r). (erase c, erase r))
        (fst (map_acc (\<lambda>(c, r) t. case bind_walk g c t of (c1, t1) \<Rightarrow> case bind_walk g r t1 of (r1, t2) \<Rightarrow> ((c1, r1), t2)) ws s)) =
        map (\<lambda>(c, r). (erase c, erase r)) ws" for s
    proof (rule map_acc_erase, clarify)
      fix c d t
      assume "(c, d) \<in> set ws"
      then have "size c < size e" "size d < size e"
        using size_in_when CaseExpr by (fastforce simp: less_SucI trans_less_add1 trans_less_add2)+
      then show "(case fst (case bind_walk g c t of (c1, t1) \<Rightarrow> case bind_walk g d t1 of (r1, t2) \<Rightarrow> ((c1, r1), t2)) of
          (c, r) \<Rightarrow> (erase c, erase r)) = (erase c, erase d)"
        using less by (auto split: prod.splits) (metis fst_conv)+
    qed
    show ?thesis
      using val ws els by (simp add: CaseExpr split: prod.splits) (metis fst_conv)
  next
    case (BinaryExpr op l r)
    then show ?thesis
      using less by (auto split: prod.splits) (metis fst_conv less_add_Suc1 less_add_Suc2)+
  qed (use less in \<open>auto simp: keeps_names_def split: option.splits prod.splits\<close>)
qed

lemma bind_opt_erase: "keeps_names g \<Longrightarrow> map_option erase (fst (bind_opt g e s)) = map_option erase e"
  by (cases e) (simp_all add: bind_opt_def bind_walk_erase)

definition erase_join :: "join \<Rightarrow> join" where
  "erase_join j = j\<lparr>jn_Expr := map_option erase (jn_Expr j)\<rparr>"

lemma bind_join_erase: "keeps_names g \<Longrightarrow> erase_join (fst (bind_join g j s)) = erase_join j"
  by (simp add: bind_join_def erase_join_def bind_opt_erase)

lemma bind_window_erase: "keeps_names g \<Longrightarrow> map erase (fst (bind_window g ds s)) = map erase ds"
  by (induction ds arbitrary: s) (simp_all add: bind_walk_erase)

lemma bind_dims_erase: "keeps_names g \<Longrightarrow> map erase (fst (bind_dims g ds s)) = map erase ds"
proof -
  assume g: "keeps_names g"
  have "map erase (fst (map_acc (\<lambda>e s. if is_Window e then (e, s) else bind_walk g e s) es t)) = map erase es" for es t
    by (rule map_acc_erase) (simp add: bind_walk_erase g)
  then show ?thesis
    using bind_window_erase [OF g, of ds s] by (simp add: bind_dims_def split_beta)
qed

text \<open>The clauses of a statement other than the selection.\<close>

definition erase_clauses :: "SelectStatement \<Rightarrow> SelectStatement" where
  "erase_clauses s = s\<lparr>Fields := [], Joins := map erase_join (Joins s), Condition := map_option erase (Condition s),
     Dimensions := map erase (Dimensions s), Having := map_option erase (Having s)\<rparr>"

lemma bind_stmt_erase:
  assumes g: "keeps_names g" and b: "bind_stmt g st s = (st', s')"
  shows "erase_clauses st' = erase_clauses st \<and> Fields st' = Fields st"
proof -
  have js: "map erase_join (fst (map_acc (bind_join g) (Joins st) t)) = map erase_join (Joins st)" for t
    by (rule map_acc_erase) (simp add: bind_join_erase g)
  show ?thesis
    using b js bind_opt_erase [OF g, of "Condition st"] bind_dims_erase [OF g, of "Dimensions st"] bind_opt_erase [OF g, of "Having st"]
    by (auto simp: bind_stmt_def erase_clauses_def split_beta)
qed

lemma keeps_names_bind [simp]: "keeps_names bind_any" "keeps_names bind_sql"
  by (auto simp: keeps_names_def bind_any_def bind_sql_def split: prod.splits)

definition same_field :: "field \<Rightarrow> field \<Rightarrow> bool" where
  "same_field f f1 \<longleftrightarrow> fld_AName f1 = fld_AName f \<and> erase (fld_Expr f1) = erase (fld_Expr f) \<and>
     (fld_Name f1 = fld_Name f \<or> fld_Name f = [] \<and> fld_AName f = [])"

lemma bind_fields_same: "bind_fields fs fm = Inr (fs1, fm1) \<Longrightarrow> list_all2 same_field fs fs1"
proof (induction fs arbitrary: fm fs1 fm1)
  case (Cons f fs)
  obtain e err fm2 where 1: "bind_walk bind_sql (fld_Expr f) (None, fm) = (e, err, fm2)"
    by (metis prod_cases3)
  have "erase e = erase (fld_Expr f)"
    using bind_walk_erase [OF keeps_names_bind(2), of "fld_Expr f" "(None, fm)"] 1 by simp
  then show ?case
    using Cons 1 by (auto simp: same_field_def split: option.splits sum.splits if_splits)
qed simp

text \<open>
  Binding an alias wraps the expression; an alias whose expression refers to an alias keeps it and reports an error.
\<close>

definition wrapped :: "field \<Rightarrow> field \<Rightarrow> bool" where
  "wrapped f f1 \<longleftrightarrow> f1 = f \<or> fld_AName f \<noteq> [] \<and>
     (\<exists>rs. f1 = f\<lparr>fld_Expr := FieldRef AliasStream (fld_AName f) (Some (AliasRef (fld_Expr f) rs))\<rparr>)"

lemma bind_alias_wrapped: "wrapped f (fst (bind_alias f s))"
  by (auto simp: bind_alias_def wrapped_def NewAliasRef_def split: sum.splits prod.splits option.splits)

lemma map_acc_rel: "(\<And>x s. R x (fst (f x s))) \<Longrightarrow> list_all2 R xs (fst (map_acc f xs s))"
  by (induction xs arbitrary: s) (simp_all add: split_beta)

lemma decorateStmt_steps:
  assumes "decorateStmt rt store s = Inr (s1, sts)"
  obtains fs fm fs1 st1 fm1 where "get_streams store (GetStreams (Some s)) = Inr sts" "bind_fields (Fields s) (init_fields sts) = Inr (fs, fm)"
    "map_acc bind_alias fs (None, fm) = (fs1, st1)" "bind_stmt bind_any (s\<lparr>Fields := fs1\<rparr>) st1 = (s1, None, fm1)" "validate rt s1 = None"
  using assms by (auto simp: decorateStmt_def split: sum.splits prod.splits option.splits)

lemma decorateStmt_shape:
  assumes "decorateStmt rt store s = Inr (s1, sts)"
  shows "get_streams store (GetStreams (Some s)) = Inr sts \<and> erase_clauses s1 = erase_clauses s \<and>
    (\<exists>fs. list_all2 same_field (Fields s) fs \<and> list_all2 wrapped fs (Fields s1))"
  using assms
proof (cases rule: decorateStmt_steps)
  case (1 fs fm fs1 st1 fm1)
  have "erase_clauses s1 = erase_clauses (s\<lparr>Fields := fs1\<rparr>)" "Fields s1 = fs1"
    using bind_stmt_erase [OF keeps_names_bind(1) 1(4)] by simp_all
  moreover have "list_all2 wrapped fs fs1"
    using map_acc_rel [of wrapped bind_alias fs "(None, fm)"] bind_alias_wrapped 1(3) by simp
  ultimately show ?thesis
    using 1(1) bind_fields_same [OF 1(2)] by (auto simp: erase_clauses_def)
qed

end
