(* ===== verification/Planner.thy ===== *)
theory Planner
  imports Analyzer "HOL-Library.Char_ord" "HOL-Library.List_Lexorder"
begin

text \<open>
  The logical plans of \<^verbatim>\<open>internal/topo/planner\<close>: how a decorated statement becomes a tree of plans, and the two optimizations, pruning of the columns
  that the sources read and push-down of conditions towards the sources.

  A plan node is a constructor with its own data and the list of its children; the code changes nodes in place and returns the node that takes their
  place, the model returns the new node. A nil expression is \<^term>\<open>None\<close>. \<^verbatim>\<open>joins\<close> of a \<^verbatim>\<open>JoinPlan\<close> is never empty, so its first element is a separate
  argument.
\<close>

section \<open>References of an expression (util.go)\<close>

definition source_visitor :: "StreamName list visitor" where
  "source_visitor n s = (case n of
     NExpr (FieldRef sn name al) \<Rightarrow> (False, fold List.insert (RefSources (FieldRef sn name al)) s)
   | _ \<Rightarrow> (True, s))"

text \<open>The streams an expression refers to, each once, and whether the default stream is among them.\<close>

definition getRefSources :: "expr option \<Rightarrow> StreamName list \<times> bool" where
  "getRefSources e = (let ks = walk_opt source_visitor e [] in (ks, DefaultStream \<in> set ks))"

definition combine :: "expr option \<Rightarrow> expr option \<Rightarrow> expr option" where
  "combine l r = (case (l, r) of
     (Some a, Some b) \<Rightarrow> Some (BinaryExpr T_AND a b)
   | (Some a, None) \<Rightarrow> Some a
   | _ \<Rightarrow> r)"

text \<open>The visitor of \<^verbatim>\<open>getFields\<close> keeps columns, wildcards and references to the metadata of a stream.\<close>

definition field_visitor :: "expr list visitor" where
  "field_visitor n s = (case n of
     NExpr (FieldRef sn name al) \<Rightarrow> (True, if IsColumn sn then s @ [FieldRef sn name al] else s)
   | NExpr (Wildcard t) \<Rightarrow> (True, s @ [Wildcard t])
   | NExpr (MetaRef sn name) \<Rightarrow> (True, if sn \<noteq> [] then s @ [MetaRef sn name] else s)
   | NExpr (SortField name asc) \<Rightarrow> (True, s @ [SortField name asc])
   | _ \<Rightarrow> (True, s))"

definition getFields_expr :: "expr option \<Rightarrow> expr list" where
  "getFields_expr e = walk_opt field_visitor e []"

definition getFields_fields :: "field list \<Rightarrow> expr list" where
  "getFields_fields fs = walk_fields field_visitor fs []"

definition getFields_joins :: "join list \<Rightarrow> expr list" where
  "getFields_joins js = walk_joins field_visitor js []"

definition getFields_dims :: "dimensions \<Rightarrow> expr list" where
  "getFields_dims ds = walk_dimensions field_visitor ds []"

text \<open>
  \<^verbatim>\<open>Walk\<close> visits the sort fields through the address of its loop variable and \<^verbatim>\<open>getFields\<close> keeps that address. When the list is read, the variable
  holds the last sort field, so every entry is the last one.
\<close>

definition getFields_sorts :: "sort_field list \<Rightarrow> expr list" where
  "getFields_sorts sfs = (let es = walk_sortfields field_visitor sfs [] in map (\<lambda>_. last es) es)"

section \<open>Plans\<close>

text \<open>A field of a source: one of its schema, or the name alone for the timestamp and for a stream without schema.\<close>

datatype stream_field = SchemaField (sfd_name: string) "FieldType option" | NameField (sfd_name: string)

text \<open>\<^verbatim>\<open>fields\<close> and \<^verbatim>\<open>metaMap\<close> of the code are local to \<^verbatim>\<open>PruneColumns\<close>, which sets them to nil at its end.\<close>

record DataSourcePlan =
  ds_name :: StreamName
  ds_streamFields :: "stream_field list option"
  ds_metaFields :: "string list"
  ds_streamStmt :: StreamStmt
  ds_allMeta :: bool
  ds_isBinary :: bool
  ds_iet :: bool
  ds_timestampFormat :: string
  ds_timestampField :: string
  ds_isWildCard :: bool

record WindowPlan =
  wp_condition :: "expr option"
  wp_wtype :: WindowType
  wp_length :: int
  wp_interval :: int
  wp_isEventTime :: bool

datatype LogicalPlan =
    DataSource DataSourcePlan
  | WindowP WindowPlan "LogicalPlan list"
  | JoinAlign "string list" "LogicalPlan list"
  | JoinP table join "join list" "LogicalPlan list"
  | Filter "expr option" "LogicalPlan list"
  | Aggregate dimensions "LogicalPlan list"
  | HavingP "expr option" "LogicalPlan list"
  | Order "sort_field list" "LogicalPlan list"
  | Project "field list" bool bool "LogicalPlan list"

fun Children :: "LogicalPlan \<Rightarrow> LogicalPlan list" where
  "Children (DataSource d) = []"
| "Children (WindowP w cs) = cs"
| "Children (JoinAlign es cs) = cs"
| "Children (JoinP f j js cs) = cs"
| "Children (Filter c cs) = cs"
| "Children (Aggregate ds cs) = cs"
| "Children (HavingP c cs) = cs"
| "Children (Order s cs) = cs"
| "Children (Project f a m cs) = cs"

fun is_DataSource :: "LogicalPlan \<Rightarrow> bool" where
  "is_DataSource (DataSource d) = True"
| "is_DataSource _ = False"

section \<open>Predicate push-down\<close>

text \<open>\<^verbatim>\<open>extractCondition\<close> of joinPlan.go: the part that needs several streams, and the part that can move below the join.\<close>

fun extractCondition :: "expr \<Rightarrow> expr option \<times> expr option" where
  "extractCondition e = (case getRefSources (Some e) of (s, hasDefault) \<Rightarrow>
     let l = length s + (if hasDefault then 1 else 0) in
     if l = 0 \<or> (l = 1 \<and> hd s \<noteq> DefaultStream) then (None, Some e)
     else (case e of
       BinaryExpr op lhs rhs \<Rightarrow>
         if op = T_AND then
           (case extractCondition lhs of (ul, pl) \<Rightarrow> case extractCondition rhs of (ur, pr) \<Rightarrow> (combine ul ur, combine pl pr))
         else (Some e, None)
     | _ \<Rightarrow> (Some e, None)))"

declare extractCondition.simps [simp del]

definition extract_opt :: "expr option \<Rightarrow> expr option \<times> expr option" where
  "extract_opt c = (case c of Some e \<Rightarrow> extractCondition e | None \<Rightarrow> (None, None))"

text \<open>\<^verbatim>\<open>DataSourcePlan.extract\<close>: the part of a condition a source takes, and the rest.\<close>

fun ds_extract :: "StreamName \<Rightarrow> expr \<Rightarrow> expr option \<times> expr option" where
  "ds_extract name e = (case getRefSources (Some e) of (s, hasDefault) \<Rightarrow>
     (case s of
        [] \<Rightarrow> (Some e, None)
      | [k] \<Rightarrow> if k = name \<or> k = DefaultStream then (Some e, None) else (None, Some e)
      | _ \<Rightarrow> (case e of
          BinaryExpr op lhs rhs \<Rightarrow>
            if op = T_AND then
              (case ds_extract name lhs of (ul, pl) \<Rightarrow> case ds_extract name rhs of (ur, pr) \<Rightarrow> (combine ul ur, combine pl pr))
            else (None, Some e)
        | _ \<Rightarrow> (None, Some e))))"

declare ds_extract.simps [simp del]

definition ds_extract_opt :: "StreamName \<Rightarrow> expr option \<Rightarrow> expr option \<times> expr option" where
  "ds_extract_opt name c = (case c of Some e \<Rightarrow> ds_extract name e | None \<Rightarrow> (None, None))"

text \<open>The method of \<^verbatim>\<open>DataSourcePlan\<close>, and what \<^verbatim>\<open>FilterPlan\<close> does with the result of its children for the combined condition.\<close>

definition push_source :: "expr option \<Rightarrow> DataSourcePlan \<Rightarrow> expr option \<times> LogicalPlan" where
  "push_source c d = (case ds_extract_opt (ds_name d) c of (owned, other) \<Rightarrow>
     if owned \<noteq> None then (other, Filter owned [DataSource d]) else (other, DataSource d))"

definition filter_result :: "expr option \<Rightarrow> expr option \<times> LogicalPlan list \<Rightarrow> expr option \<times> LogicalPlan" where
  "filter_result fc r = (case r of (rest, cs) \<Rightarrow>
     if rest \<noteq> None then (None, Filter rest cs)
     else if length cs = 1 then (None, hd cs)
     else (None, Filter fc cs))"

fun push_sources :: "expr option \<Rightarrow> LogicalPlan list \<Rightarrow> expr option \<times> LogicalPlan list" where
  "push_sources c [] = (c, [])"
| "push_sources c (p # ps) = (case (case p of DataSource d \<Rightarrow> push_source c d | _ \<Rightarrow> (c, p)) of (rest, p1) \<Rightarrow>
     case push_sources rest ps of (rest1, ps1) \<Rightarrow> (rest1, p1 # ps1))"

text \<open>
  \<^verbatim>\<open>PushDownPredicate\<close> of every plan: the condition from above and the plan give the condition that could not be placed and the new plan. \<open>push_children\<close>
  is the loop of the base plan; \<open>push_sources\<close> and \<open>push_others\<close> are the two loops of \<^verbatim>\<open>JoinAlignPlan\<close>. The second loop of the code runs over the
  children as the first has left them and pushes into all that are no data sources; a source that took a condition in the first loop is a filter now and is
  visited again. \<open>push_others\<close> receives the old and the new children, so that the recursion is over the old ones, and \<open>push_others_loop\<close> below
  shows that it is the loop of the code.
\<close>

function (sequential) PushDownPredicate :: "expr option \<Rightarrow> LogicalPlan \<Rightarrow> expr option \<times> LogicalPlan"
  and push_children :: "expr option \<Rightarrow> LogicalPlan list \<Rightarrow> expr option \<times> LogicalPlan list"
  and push_others :: "expr option \<Rightarrow> LogicalPlan list \<Rightarrow> LogicalPlan list \<Rightarrow> expr option \<times> LogicalPlan list" where
  "PushDownPredicate c (DataSource d) = push_source c d"
| "PushDownPredicate c (WindowP w cs) =
     (if wp_wtype w = COUNT_WINDOW then (c, WindowP w cs)
      else if wp_isEventTime w then (c, WindowP w cs)
      else (case push_children (combine c (wp_condition w)) cs of (rest, cs1) \<Rightarrow> (None, WindowP (w\<lparr>wp_condition := rest\<rparr>) cs1)))"
| "PushDownPredicate c (JoinAlign es cs) = (case push_sources c cs of (rest, cs1) \<Rightarrow>
     case push_others rest cs cs1 of (rest1, cs2) \<Rightarrow> (rest1, JoinAlign es cs2))"
| "PushDownPredicate c (JoinP f j js cs) =
     (if jn_JoinType j = INNER_JOIN then
        (case extract_opt (combine c (jn_Expr j)) of (multi, single) \<Rightarrow>
         case push_children single cs of (rest, cs1) \<Rightarrow> (None, JoinP f (j\<lparr>jn_Expr := combine multi rest\<rparr>) js cs1))
      else
        (case extract_opt c of (multi, single) \<Rightarrow>
         case push_children single cs of (rest, cs1) \<Rightarrow> (combine multi rest, JoinP f j js cs1)))"
| "PushDownPredicate c (Filter fc cs) =
     (if cs = [] then (None, Filter (combine c fc) []) else filter_result fc (push_children (combine c fc) cs))"
| "PushDownPredicate c (Aggregate ds cs) = (case push_children c cs of (rest, cs1) \<Rightarrow> (rest, Aggregate ds cs1))"
| "PushDownPredicate c (HavingP h cs) = (case push_children c cs of (rest, cs1) \<Rightarrow> (rest, HavingP h cs1))"
| "PushDownPredicate c (Order s cs) = (case push_children c cs of (rest, cs1) \<Rightarrow> (rest, Order s cs1))"
| "PushDownPredicate c (Project fs a m cs) = (case push_children c cs of (rest, cs1) \<Rightarrow> (rest, Project fs a m cs1))"
| "push_children c [] = (c, [])"
| "push_children c (p # ps) = (case PushDownPredicate c p of (rest, p1) \<Rightarrow>
     case push_children rest ps of (rest1, ps1) \<Rightarrow> (rest1, p1 # ps1))"
| "push_others c (p # ps) (q # qs) = (case (case p of
       DataSource d \<Rightarrow> (case q of Filter owned _ \<Rightarrow> filter_result owned (case push_source (combine c owned) d of (rest, p1) \<Rightarrow> (rest, [p1])) | _ \<Rightarrow> (c, q))
     | _ \<Rightarrow> PushDownPredicate c p) of (rest, p1) \<Rightarrow>
     case push_others rest ps qs of (rest1, ps1) \<Rightarrow> (rest1, p1 # ps1))"
| "push_others c ps qs = (c, qs)"
  by pat_completeness auto
termination
  by (relation "measure (\<lambda>x. case x of
        Inl (c, p) \<Rightarrow> size p
      | Inr (Inl (c, ps)) \<Rightarrow> size_list size ps
      | Inr (Inr (c, ps, qs)) \<Rightarrow> size_list size ps)") auto

section \<open>Column pruning (dataSourcePlan.go)\<close>

definition getField :: "StreamStmt \<Rightarrow> string \<Rightarrow> stream_field option" where
  "getField st name = (case ss_StreamFields st of
     Some fs \<Rightarrow> (case find (\<lambda>f. fst f = name) fs of Some (n, t) \<Rightarrow> Some (SchemaField n t) | None \<Rightarrow> None)
   | None \<Rightarrow> Some (NameField name))"

definition FormatBinary :: string where
  "FormatBinary = ''binary''"

text \<open>An error returns before the format is looked at; \<^verbatim>\<open>PruneColumns\<close> ignores it.\<close>

definition getProps :: "DataSourcePlan \<Rightarrow> string option \<times> DataSourcePlan" where
  "getProps d =
     (let opts = ss_Options (ds_streamStmt d);
          binary = (\<lambda>d. if to_lower (FORMAT opts) = FormatBinary then d\<lparr>ds_isBinary := True\<rparr> else d)
      in if ds_iet d then
           (if TIMESTAMP opts \<noteq> [] then
              (None, binary (d\<lparr>ds_timestampField := TIMESTAMP opts,
                 ds_timestampFormat := (if TIMESTAMP_FORMAT opts \<noteq> [] then TIMESTAMP_FORMAT opts else ds_timestampFormat d)\<rparr>))
            else (Some ''preprocessor is set to be event time but stream option TIMESTAMP not found'', d))
         else (None, binary d))"

text \<open>The state of the loop over the needed fields.\<close>

record prune_state =
  ps_isWildCard :: bool
  ps_fields :: "(string \<times> stream_field) list"
  ps_allMeta :: bool
  ps_metaMap :: "(string \<times> string) list"

definition of_source :: "StreamName \<Rightarrow> StreamName \<Rightarrow> bool" where
  "of_source name sn \<longleftrightarrow> sn = DefaultStream \<or> sn = name"

fun prune_step :: "DataSourcePlan \<Rightarrow> expr \<Rightarrow> prune_state \<Rightarrow> string + prune_state" where
  "prune_step d (Wildcard t) s = Inr (s\<lparr>ps_isWildCard := True\<rparr>)"
| "prune_step d (FieldRef sn name al) s =
     (if \<not> ps_isWildCard s \<and> of_source (ds_name d) sn \<and> map_of (ps_fields s) name = None then
        (case getField (ds_streamStmt d) name of
           Some sf \<Rightarrow> Inr (s\<lparr>ps_fields := AList.update name sf (ps_fields s)\<rparr>)
         | None \<Rightarrow> Inr s)
      else Inr s)"
| "prune_step d (MetaRef sn name) s =
     (if ps_allMeta s then Inr s
      else if of_source (ds_name d) sn then
        (if name = ''*'' then Inr (s\<lparr>ps_allMeta := True, ps_metaMap := []\<rparr>)
         else Inr (s\<lparr>ps_metaMap := AList.update (to_lower name) name (ps_metaMap s)\<rparr>))
      else Inr s)"
| "prune_step d (SortField name asc) s =
     (if \<not> ps_isWildCard s then
        (case getField (ds_streamStmt d) name of
           Some sf \<Rightarrow> Inr (s\<lparr>ps_fields := AList.update name sf (ps_fields s)\<rparr>)
         | None \<Rightarrow> Inr s)
      else Inr s)"
| "prune_step d e s = Inl ''unsupported field''"

fun prune_loop :: "DataSourcePlan \<Rightarrow> expr list \<Rightarrow> prune_state \<Rightarrow> string + prune_state" where
  "prune_loop d [] s = Inr s"
| "prune_loop d (e # es) s = (case prune_step d e s of Inl err \<Rightarrow> Inl err | Inr s1 \<Rightarrow> prune_loop d es s1)"

text \<open>The order of the fields is that of a Go map, except in tests, where the keys are sorted; the model sorts them.\<close>

definition getAllFields :: "DataSourcePlan \<Rightarrow> prune_state \<Rightarrow> DataSourcePlan" where
  "getAllFields d s = d\<lparr>
     ds_isWildCard := ps_isWildCard s, ds_allMeta := ps_allMeta s,
     ds_streamFields :=
       (if ps_isWildCard s then map_option (map (\<lambda>(n, t). SchemaField n t)) (ss_StreamFields (ds_streamStmt d))
        else Some (map (\<lambda>k. the (map_of (ps_fields s) k)) (sort (map fst (ps_fields s))))),
     ds_metaFields := sort (map snd (ps_metaMap s))\<rparr>"

definition prune_source :: "expr list \<Rightarrow> DataSourcePlan \<Rightarrow> string + DataSourcePlan" where
  "prune_source fs d =
     (let d1 = snd (getProps d);
          ts = ds_timestampField d1
      in case prune_loop d1 fs \<lparr>ps_isWildCard = ds_isWildCard d1, ps_fields = (if ts \<noteq> [] then [(ts, NameField ts)] else []),
             ps_allMeta = ds_allMeta d1, ps_metaMap = []\<rparr> of
           Inl err \<Rightarrow> Inl err
         | Inr s \<Rightarrow> Inr (getAllFields d1 s))"

text \<open>The fields that a plan itself needs.\<close>

fun plan_fields :: "LogicalPlan \<Rightarrow> expr list" where
  "plan_fields (WindowP w cs) = getFields_expr (wp_condition w)"
| "plan_fields (JoinP f j js cs) = getFields_joins (j # js)"
| "plan_fields (Filter c cs) = getFields_expr c"
| "plan_fields (Aggregate ds cs) = getFields_dims ds"
| "plan_fields (HavingP c cs) = getFields_expr c"
| "plan_fields (Order sfs cs) = getFields_sorts sfs"
| "plan_fields (Project fs a m cs) = getFields_fields fs"
| "plan_fields _ = []"

fun set_children :: "LogicalPlan \<Rightarrow> LogicalPlan list \<Rightarrow> LogicalPlan" where
  "set_children (DataSource d) cs = DataSource d"
| "set_children (WindowP w _) cs = WindowP w cs"
| "set_children (JoinAlign es _) cs = JoinAlign es cs"
| "set_children (JoinP f j js _) cs = JoinP f j js cs"
| "set_children (Filter c _) cs = Filter c cs"
| "set_children (Aggregate ds _) cs = Aggregate ds cs"
| "set_children (HavingP c _) cs = HavingP c cs"
| "set_children (Order s _) cs = Order s cs"
| "set_children (Project f a m _) cs = Project f a m cs"

text \<open>\<^verbatim>\<open>PruneColumns\<close> of every plan and the loop of the base plan over the children.\<close>

function (sequential) PruneColumns :: "expr list \<Rightarrow> LogicalPlan \<Rightarrow> string + LogicalPlan"
  and prune_children :: "expr list \<Rightarrow> LogicalPlan list \<Rightarrow> string + LogicalPlan list" where
  "PruneColumns fs (DataSource d) = map_sum id DataSource (prune_source fs d)"
| "PruneColumns fs p = map_sum id (set_children p) (prune_children (fs @ plan_fields p) (Children p))"
| "prune_children fs [] = Inr []"
| "prune_children fs (p # ps) = (case PruneColumns fs p of
     Inl err \<Rightarrow> Inl err
   | Inr p1 \<Rightarrow> (case prune_children fs ps of Inl err \<Rightarrow> Inl err | Inr ps1 \<Rightarrow> Inr (p1 # ps1)))"
  by pat_completeness auto
termination
  by (relation "measure (\<lambda>x. case x of Inl (fs, p) \<Rightarrow> size p | Inr (fs, ps) \<Rightarrow> size_list size ps)") auto

section \<open>The planner (optimizer.go, rules.go, planner.go)\<close>

definition predicatePushDown :: "LogicalPlan \<Rightarrow> string + LogicalPlan" where
  "predicatePushDown lp = Inr (snd (PushDownPredicate None lp))"

definition columnPruner :: "LogicalPlan \<Rightarrow> string + LogicalPlan" where
  "columnPruner lp = PruneColumns [] lp"

definition optRuleList :: "(LogicalPlan \<Rightarrow> string + LogicalPlan) list" where
  "optRuleList = [columnPruner, predicatePushDown]"

definition optimize :: "LogicalPlan \<Rightarrow> string + LogicalPlan" where
  "optimize p = fold (\<lambda>rule r. case r of Inl e \<Rightarrow> Inl e | Inr q \<Rightarrow> rule q) optRuleList (Inr p)"

record RuleOption =
  IsEventTime :: bool
  LateTol :: int
  Concurrency :: int
  BufferLength :: int
  SendMetaToSink :: bool
  SendError :: bool
  Qos :: int
  CheckpointInterval :: int

definition init_source :: "RuleOption \<Rightarrow> StreamStmt \<Rightarrow> LogicalPlan" where
  "init_source opt st = DataSource \<lparr>ds_name = ss_Name st, ds_streamFields = None, ds_metaFields = [], ds_streamStmt = st,
     ds_allMeta = SendMetaToSink opt, ds_isBinary = False, ds_iet = IsEventTime opt,
     ds_timestampFormat = [], ds_timestampField = [], ds_isWildCard = False\<rparr>"

fun init_window :: "RuleOption \<Rightarrow> expr \<Rightarrow> WindowPlan" where
  "init_window opt (Window wt len itv flt) =
     \<lparr>wp_condition = flt, wp_wtype = wt, wp_length = len,
      wp_interval = (case itv of Some i \<Rightarrow> i | None \<Rightarrow> if wt = COUNT_WINDOW then len else 0),
      wp_isEventTime = IsEventTime opt\<rparr>"
| "init_window opt _ = \<lparr>wp_condition = None, wp_wtype = NOT_WINDOW, wp_length = 0, wp_interval = 0, wp_isEventTime = IsEventTime opt\<rparr>"

text \<open>The plan of a decorated statement before it is optimized: \<open>children\<close> is the list of the plans built last.\<close>

definition plan_streams :: "RuleOption \<Rightarrow> SelectStatement \<Rightarrow> StreamStmt list \<Rightarrow> string + LogicalPlan list" where
  "plan_streams opt stmt sts =
     (let children = map (init_source opt) (filter (\<lambda>st. ss_StreamType st = TypeStream) sts) in
      case GetWindow (Dimensions stmt) of
        None \<Rightarrow> Inr children
      | Some w \<Rightarrow>
          if children = [] then Inl ''cannot run window for TABLE sources'' else Inr [WindowP (init_window opt w) children])"

definition plan_joins :: "RuleOption \<Rightarrow> SelectStatement \<Rightarrow> StreamStmt list \<Rightarrow> LogicalPlan list \<Rightarrow> string + LogicalPlan list" where
  "plan_joins opt stmt sts children =
     (let tables = filter (\<lambda>st. ss_StreamType st \<noteq> TypeStream) sts in
      case Joins stmt of
        [] \<Rightarrow> Inr children
      | j # js \<Rightarrow>
          if tables = [] \<and> GetWindow (Dimensions stmt) = None then Inl ''need to run stream join in windows''
          else Inr [JoinP (hd (Sources stmt)) j js
                 (if tables \<noteq> [] then [JoinAlign (map ss_Name tables) (children @ map (init_source opt) tables)] else children)])"

definition plan_clauses :: "(string \<Rightarrow> bool) \<Rightarrow> RuleOption \<Rightarrow> SelectStatement \<Rightarrow> LogicalPlan list \<Rightarrow> LogicalPlan list" where
  "plan_clauses rt opt stmt c0 =
     (let c1 = (case Condition stmt of Some e \<Rightarrow> [Filter (Some e) c0] | None \<Rightarrow> c0);
          c2 = (if GetGroups (Dimensions stmt) \<noteq> [] then [Aggregate (GetGroups (Dimensions stmt)) c1] else c1);
          c3 = (case Having stmt of Some h \<Rightarrow> [HavingP (Some h) c2] | None \<Rightarrow> c2);
          c4 = (if SortFields stmt \<noteq> [] then [Order (SortFields stmt) c3] else c3)
      in c4)"

text \<open>A parsed statement has fields, so the plan that is optimized is the projection.\<close>

definition build_plan :: "(string \<Rightarrow> bool) \<Rightarrow> RuleOption \<Rightarrow> SelectStatement \<Rightarrow> StreamStmt list \<Rightarrow> string + LogicalPlan" where
  "build_plan rt opt stmt sts = (case plan_streams opt stmt sts of
     Inl e \<Rightarrow> Inl e
   | Inr c0 \<Rightarrow> (case plan_joins opt stmt sts c0 of
       Inl e \<Rightarrow> Inl e
     | Inr c1 \<Rightarrow> Inr (Project (Fields stmt) (IsAggStatement rt stmt) (SendMetaToSink opt) (plan_clauses rt opt stmt c1))))"

definition createLogicalPlan ::
  "(string \<Rightarrow> bool) \<Rightarrow> SelectStatement \<Rightarrow> RuleOption \<Rightarrow> (string \<Rightarrow> string + StreamStmt) \<Rightarrow> string + LogicalPlan" where
  "createLogicalPlan rt stmt opt store = (case decorateStmt rt store stmt of
     Inl e \<Rightarrow> Inl e
   | Inr (stmt1, sts) \<Rightarrow> (case build_plan rt opt stmt1 sts of Inl e \<Rightarrow> Inl e | Inr p \<Rightarrow> optimize p))"

end
