(* ===== verification/PlannerProofs.thy ===== *)
theory PlannerProofs
  imports Planner
begin

text \<open>
  What the optimizer keeps. A condition is the multiset of its conjuncts: push-down moves every conjunct of the WHERE clause, the window filter and the ON
  clauses to exactly one place and changes no source; pruning leaves every source the columns that the plans above it need.
\<close>

section \<open>Conjuncts and sources of a plan\<close>

fun conjs :: "expr \<Rightarrow> expr multiset" where
  "conjs (BinaryExpr op l r) = (if op = T_AND then conjs l + conjs r else {#BinaryExpr op l r#})"
| "conjs e = {#e#}"

definition opt_conjs :: "expr option \<Rightarrow> expr multiset" where
  "opt_conjs c = (case c of Some e \<Rightarrow> conjs e | None \<Rightarrow> {#})"

definition joins_conjs :: "join list \<Rightarrow> expr multiset" where
  "joins_conjs js = sum_list (map (\<lambda>j. opt_conjs (jn_Expr j)) js)"

fun plan_conjs :: "LogicalPlan \<Rightarrow> expr multiset" where
  "plan_conjs (DataSource d) = {#}"
| "plan_conjs (WindowP w cs) = opt_conjs (wp_condition w) + sum_list (map plan_conjs cs)"
| "plan_conjs (JoinAlign es cs) = sum_list (map plan_conjs cs)"
| "plan_conjs (JoinP f j js cs) = joins_conjs (j # js) + sum_list (map plan_conjs cs)"
| "plan_conjs (Filter c cs) = opt_conjs c + sum_list (map plan_conjs cs)"
| "plan_conjs (Aggregate ds cs) = sum_list (map plan_conjs cs)"
| "plan_conjs (HavingP c cs) = opt_conjs c + sum_list (map plan_conjs cs)"
| "plan_conjs (Order sfs cs) = sum_list (map plan_conjs cs)"
| "plan_conjs (Project fs a m cs) = sum_list (map plan_conjs cs)"

fun plan_sources :: "LogicalPlan \<Rightarrow> DataSourcePlan list" where
  "plan_sources (DataSource d) = [d]"
| "plan_sources (WindowP w cs) = concat (map plan_sources cs)"
| "plan_sources (JoinAlign es cs) = concat (map plan_sources cs)"
| "plan_sources (JoinP f j js cs) = concat (map plan_sources cs)"
| "plan_sources (Filter c cs) = concat (map plan_sources cs)"
| "plan_sources (Aggregate ds cs) = concat (map plan_sources cs)"
| "plan_sources (HavingP c cs) = concat (map plan_sources cs)"
| "plan_sources (Order sfs cs) = concat (map plan_sources cs)"
| "plan_sources (Project fs a m cs) = concat (map plan_sources cs)"

abbreviation "plans_conjs ps \<equiv> sum_list (map plan_conjs ps)"
abbreviation "plans_sources ps \<equiv> concat (map plan_sources ps)"

text \<open>The planner gives a filter at most one child.\<close>

fun wf_plan :: "LogicalPlan \<Rightarrow> bool" where
  "wf_plan (DataSource d) = True"
| "wf_plan (WindowP w cs) = list_all wf_plan cs"
| "wf_plan (JoinAlign es cs) = list_all wf_plan cs"
| "wf_plan (JoinP f j js cs) = list_all wf_plan cs"
| "wf_plan (Filter c cs) = (length cs \<le> 1 \<and> list_all wf_plan cs)"
| "wf_plan (Aggregate ds cs) = list_all wf_plan cs"
| "wf_plan (HavingP c cs) = list_all wf_plan cs"
| "wf_plan (Order sfs cs) = list_all wf_plan cs"
| "wf_plan (Project fs a m cs) = list_all wf_plan cs"

lemma opt_conjs_simps [simp]: "opt_conjs None = {#}" "opt_conjs (Some e) = conjs e"
  by (simp_all add: opt_conjs_def)

lemma opt_conjs_combine [simp]: "opt_conjs (combine a b) = opt_conjs a + opt_conjs b"
  by (cases a; cases b) (simp_all add: combine_def)

lemma extractCondition_cases:
  assumes "extractCondition e = (u, p)"
  obtains "u = None" "p = Some e" | "u = Some e" "p = None"
  | l r ul pl ur pr where "e = BinaryExpr T_AND l r" "extractCondition l = (ul, pl)" "extractCondition r = (ur, pr)"
    "u = combine ul ur" "p = combine pl pr"
proof -
  obtain s b where sb: "getRefSources (Some e) = (s, b)"
    by fastforce
  show ?thesis
  proof (cases "\<exists>l r. e = BinaryExpr T_AND l r")
    case True
    then show ?thesis
      using assms sb that by (subst (asm) extractCondition.simps) (auto simp: Let_def split: prod.splits if_splits)
  next
    case False
    then show ?thesis
      using assms sb that by (subst (asm) extractCondition.simps) (auto simp: Let_def split: expr.splits if_splits)
  qed
qed

lemma ds_extract_cases:
  assumes "ds_extract n e = (u, p)"
  obtains "u = None" "p = Some e" | "u = Some e" "p = None" "set (fst (getRefSources (Some e))) \<subseteq> {n, DefaultStream}"
  | l r ul pl ur pr where "e = BinaryExpr T_AND l r" "ds_extract n l = (ul, pl)" "ds_extract n r = (ur, pr)"
    "u = combine ul ur" "p = combine pl pr"
proof -
  obtain s b where sb: "getRefSources (Some e) = (s, b)"
    by fastforce
  show ?thesis
  proof (cases "\<exists>l r. e = BinaryExpr T_AND l r")
    case True
    then show ?thesis
      using assms sb that by (subst (asm) ds_extract.simps) (auto split: prod.splits if_splits list.splits)
  next
    case False
    then show ?thesis
      using assms sb that by (subst (asm) ds_extract.simps) (auto split: expr.splits if_splits list.splits)
  qed
qed

lemma extractCondition_conjs: "extractCondition e = (u, p) \<Longrightarrow> opt_conjs u + opt_conjs p = conjs e"
proof (induction "size e" arbitrary: e u p rule: less_induct)
  case less
  from less.prems show ?case
  proof (cases rule: extractCondition_cases)
    case (3 l r ul pl ur pr)
    then show ?thesis
      using less.hyps [of l ul pl] less.hyps [of r ur pr] by (simp flip: union_assoc) (metis add.left_commute add.commute)
  qed auto
qed

lemma ds_extract_conjs: "ds_extract n e = (u, p) \<Longrightarrow> opt_conjs u + opt_conjs p = conjs e"
proof (induction "size e" arbitrary: e u p rule: less_induct)
  case less
  from less.prems show ?case
  proof (cases rule: ds_extract_cases)
    case (3 l r ul pl ur pr)
    then show ?thesis
      using less.hyps [of l ul pl] less.hyps [of r ur pr] by (simp flip: union_assoc) (metis add.left_commute add.commute)
  qed auto
qed

lemma extract_opt_conjs: "extract_opt c = (u, p) \<Longrightarrow> opt_conjs u + opt_conjs p = opt_conjs c"
  by (auto simp: extract_opt_def extractCondition_conjs split: option.splits)

lemma ds_extract_opt_conjs: "ds_extract_opt n c = (u, p) \<Longrightarrow> opt_conjs u + opt_conjs p = opt_conjs c"
  by (auto simp: ds_extract_opt_def ds_extract_conjs split: option.splits)

section \<open>Push-down keeps conjuncts and sources\<close>

lemma mset_chain:
  fixes A :: "'a multiset"
  assumes "A + R1 = B + C" "D + R = E + R1"
  shows "(A + D) + R = (B + E) + C"
proof -
  have "(A + D) + R = E + (A + R1)"
    using assms(2) by (metis union_assoc union_commute)
  then show ?thesis
    by (simp add: assms(1) ac_simps)
qed

lemma push_source_keeps:
  "push_source c d = (r, p) \<Longrightarrow> plan_conjs p + opt_conjs r = opt_conjs c \<and> plan_sources p = [d]"
  by (auto simp: push_source_def split: prod.splits if_splits dest!: ds_extract_opt_conjs)

lemma push_source_plan:
  "push_source c d = (r, p) \<Longrightarrow> p = DataSource d \<or> (\<exists>f. p = Filter f [DataSource d])"
  by (auto simp: push_source_def split: prod.splits if_splits)

lemma filter_result_keeps:
  "filter_result fc (rest, cs) = (r, p) \<Longrightarrow> length cs = 1 \<Longrightarrow>
   plan_conjs p + opt_conjs r = opt_conjs rest + plans_conjs cs \<and> plan_sources p = plans_sources cs"
  by (cases cs) (auto simp: filter_result_def split: if_splits)

text \<open>What the first loop of the alignment does to a child.\<close>

definition visited :: "LogicalPlan \<Rightarrow> LogicalPlan \<Rightarrow> bool" where
  "visited p q = (case p of
     DataSource d \<Rightarrow> q = DataSource d \<or> (\<exists>f. q = Filter f [DataSource d])
   | _ \<Rightarrow> q = p)"

lemma push_sources_keeps:
  "push_sources c ps = (r, qs) \<Longrightarrow>
   plans_conjs qs + opt_conjs r = plans_conjs ps + opt_conjs c \<and> plans_sources qs = plans_sources ps \<and> list_all2 visited ps qs"
proof (induction ps arbitrary: c qs r)
  case (Cons p ps)
  obtain r1 p1 where 1: "(case p of DataSource d \<Rightarrow> push_source c d | _ \<Rightarrow> (c, p)) = (r1, p1)"
    by fastforce
  obtain r2 qs1 where 2: "push_sources r1 ps = (r2, qs1)"
    by fastforce
  have "plan_conjs p1 + opt_conjs r1 = plan_conjs p + opt_conjs c \<and> plan_sources p1 = plan_sources p \<and> visited p p1"
    using 1 by (cases p) (auto simp: visited_def dest: push_source_keeps push_source_plan)
  moreover have "qs = p1 # qs1" "r = r2"
    using Cons.prems 1 2 by auto
  ultimately show ?case
    using Cons.IH [OF 2] mset_chain [of "plan_conjs p1" "opt_conjs r1"] by simp
qed auto

lemma push_keeps:
  "wf_plan p \<Longrightarrow> PushDownPredicate c p = (r, p') \<Longrightarrow>
     plan_conjs p' + opt_conjs r = plan_conjs p + opt_conjs c \<and> plan_sources p' = plan_sources p"
  "list_all wf_plan ps \<Longrightarrow> push_children c ps = (r, ps') \<Longrightarrow>
     plans_conjs ps' + opt_conjs r = plans_conjs ps + opt_conjs c \<and> plans_sources ps' = plans_sources ps \<and> length ps' = length ps"
  "list_all wf_plan ps \<Longrightarrow> list_all2 visited ps qs \<Longrightarrow> push_others c ps qs = (r, ps') \<Longrightarrow>
     plans_conjs ps' + opt_conjs r = plans_conjs qs + opt_conjs c \<and> plans_sources ps' = plans_sources qs"
proof (induction c p and c ps and c ps qs arbitrary: r p' and r ps' and r ps' rule: PushDownPredicate_push_children_push_others.induct)
  case (1 c d)
  then show ?case
    by (auto dest: push_source_keeps)
next
  case (2 c w cs)
  then show ?case
    by (auto split: if_splits prod.splits simp: ac_simps)
next
  case (3 c es cs)
  obtain r1 cs1 where 1: "push_sources c cs = (r1, cs1)"
    by fastforce
  obtain r2 cs2 where 2: "push_others r1 cs cs1 = (r2, cs2)"
    by fastforce
  show ?case
    using 3 1 2 push_sources_keeps [OF 1] by auto
next
  case (4 c f j js cs)
  show ?case
  proof (cases "jn_JoinType j = INNER_JOIN")
    case True
    obtain m a where 1: "extract_opt (combine c (jn_Expr j)) = (m, a)"
      by fastforce
    obtain r1 cs1 where 2: "push_children a cs = (r1, cs1)"
      by fastforce
    have "plans_conjs cs1 + opt_conjs r1 = plans_conjs cs + opt_conjs a" "plans_sources cs1 = plans_sources cs"
      using 4(1) [OF True 1 [symmetric] _ 2] 4(3) by auto
    then show ?thesis
      using 4(4) True 1 2 extract_opt_conjs [OF 1] by (auto simp: joins_conjs_def) (metis union_assoc union_commute)
  next
    case False
    obtain m a where 1: "extract_opt c = (m, a)"
      by fastforce
    obtain r1 cs1 where 2: "push_children a cs = (r1, cs1)"
      by fastforce
    have "plans_conjs cs1 + opt_conjs r1 = plans_conjs cs + opt_conjs a" "plans_sources cs1 = plans_sources cs"
      using 4(2) [OF False 1 [symmetric] _ 2] 4(3) by auto
    then show ?thesis
      using 4(4) False 1 2 extract_opt_conjs [OF 1] by (auto simp: joins_conjs_def) (metis union_assoc union_commute)
  qed
next
  case (5 c fc cs)
  show ?case
  proof (cases "cs = []")
    case False
    obtain r1 cs1 where 1: "push_children (combine c fc) cs = (r1, cs1)"
      by fastforce
    have len: "length cs = 1"
      using False 5(2) by (cases cs) auto
    show ?thesis
      using False 5 1 len filter_result_keeps [of fc r1 cs1 r p'] by (auto simp: ac_simps)
  qed (use 5 in auto)
next
  case (11 c p ps)
  obtain r1 p1 where 1: "PushDownPredicate c p = (r1, p1)"
    by fastforce
  obtain r2 ps1 where 2: "push_children r1 ps = (r2, ps1)"
    by fastforce
  show ?case
    using 11 1 2 mset_chain [of "plan_conjs p1" "opt_conjs r1"] by auto
next
  case (12 c p ps q qs)
  obtain r1 p1 where 1: "(case p of
       DataSource d \<Rightarrow> (case q of Filter owned _ \<Rightarrow> filter_result owned (case push_source (combine c owned) d of (rest, p1) \<Rightarrow> (rest, [p1])) | _ \<Rightarrow> (c, q))
     | _ \<Rightarrow> PushDownPredicate c p) = (r1, p1)"
    by fastforce
  obtain r2 ps1 where 2: "push_others r1 ps qs = (r2, ps1)"
    by fastforce
  have "plan_conjs p1 + opt_conjs r1 = plan_conjs q + opt_conjs c \<and> plan_sources p1 = plan_sources q"
  proof (cases p)
    case (DataSource d)
    then consider "q = DataSource d" | f where "q = Filter f [DataSource d]"
      using "12.prems"(2) by (auto simp: visited_def)
    then show ?thesis
    proof cases
      case (2 f)
      obtain r3 p3 where 3: "push_source (combine c f) d = (r3, p3)"
        by fastforce
      show ?thesis
        using filter_result_keeps [of f r3 "[p3]" r1 p1] push_source_keeps [OF 3] 1 2 3 DataSource by (auto simp: ac_simps)
    qed (use 1 DataSource in auto)
  qed (use 1 12 in \<open>auto simp: visited_def\<close>)
  then show ?case
    using 12 1 2 mset_chain [of "plan_conjs p1" "opt_conjs r1"] by auto
qed (auto split: prod.splits)

text \<open>The second loop of the alignment as the code has it: over the children that the first loop has left.\<close>

fun align_loop :: "expr option \<Rightarrow> LogicalPlan list \<Rightarrow> expr option \<times> LogicalPlan list" where
  "align_loop c [] = (c, [])"
| "align_loop c (q # qs) = (case (if is_DataSource q then (c, q) else PushDownPredicate c q) of (rest, p1) \<Rightarrow>
     case align_loop rest qs of (rest1, ps1) \<Rightarrow> (rest1, p1 # ps1))"

lemma push_others_loop: "list_all2 visited ps qs \<Longrightarrow> push_others c ps qs = align_loop c qs"
proof (induction arbitrary: c rule: list_all2_induct)
  case (Cons p ps q qs)
  show ?case
  proof (cases p)
    case (DataSource d)
    then consider "q = DataSource d" | f where "q = Filter f [DataSource d]"
      using Cons(1) by (auto simp: visited_def)
    then show ?thesis
      by cases (use DataSource Cons in \<open>simp_all split: prod.splits\<close>)
  qed (use Cons in \<open>auto simp: visited_def\<close>)
qed simp

lemma PushDownPredicate_JoinAlign:
  "PushDownPredicate c (JoinAlign es cs) =
     (case push_sources c cs of (rest, cs1) \<Rightarrow> case align_loop rest cs1 of (rest1, cs2) \<Rightarrow> (rest1, JoinAlign es cs2))"
  using push_sources_keeps [of c cs] push_others_loop by (auto split: prod.splits)

section \<open>Pruning keeps the shape of a plan\<close>

lemma map_sum_Inr: "map_sum f g x = Inr y \<longleftrightarrow> (\<exists>z. x = Inr z \<and> y = g z)"
  by (cases x) auto

lemma PruneColumns_conjs:
  "PruneColumns fs p = Inr p' \<Longrightarrow> plan_conjs p' = plan_conjs p \<and> wf_plan p' = wf_plan p"
  "prune_children fs ps = Inr ps' \<Longrightarrow>
     plans_conjs ps' = plans_conjs ps \<and> list_all wf_plan ps' = list_all wf_plan ps \<and> length ps' = length ps"
  by (induction fs p and fs ps arbitrary: p' and ps' rule: PruneColumns_prune_children.induct)
    (fastforce simp: map_sum_Inr split: sum.splits)+

section \<open>The plan of a statement\<close>

definition window_filter :: "SelectStatement \<Rightarrow> expr option" where
  "window_filter s = (case GetWindow (Dimensions s) of Some (Window wt len itv flt) \<Rightarrow> flt | _ \<Rightarrow> None)"

text \<open>The conjuncts of all conditions of a statement.\<close>

definition stmt_conjs :: "SelectStatement \<Rightarrow> expr multiset" where
  "stmt_conjs s = opt_conjs (Condition s) + opt_conjs (window_filter s) + joins_conjs (Joins s) + opt_conjs (Having s)"

lemma init_source_plan [simp]:
  "plan_conjs (init_source opt st) = {#}" "wf_plan (init_source opt st)"
  by (simp_all add: init_source_def)

lemma init_sources_plan [simp]:
  "sum_list (map (plan_conjs \<circ> init_source opt) sts) = {#}" "list_all (wf_plan \<circ> init_source opt) sts"
  by (induction sts) simp_all

lemma GetWindow_is_Window: "GetWindow ds = Some w \<Longrightarrow> is_Window w"
  by (auto simp: GetWindow_def find_Some_iff)

lemma init_window_condition: "is_Window w \<Longrightarrow> wp_condition (init_window opt w) = (case w of Window wt len itv flt \<Rightarrow> flt | _ \<Rightarrow> None)"
  by (cases w) simp_all

lemma plan_streams_conjs:
  "plan_streams opt s sts = Inr cs \<Longrightarrow> plans_conjs cs = opt_conjs (window_filter s) \<and> list_all wf_plan cs"
  by (auto simp: plan_streams_def window_filter_def Let_def init_window_condition [OF GetWindow_is_Window] list.pred_map
      split: option.splits if_splits)

lemma plan_joins_conjs:
  "plan_joins opt s sts cs = Inr cs' \<Longrightarrow> list_all wf_plan cs \<Longrightarrow>
     plans_conjs cs' = joins_conjs (Joins s) + plans_conjs cs \<and> list_all wf_plan cs' \<and> (Joins s \<noteq> [] \<longrightarrow> length cs' = 1)"
  by (auto simp: plan_joins_def Let_def joins_conjs_def list.pred_map split: list.splits if_splits)

lemma plan_joins_single: "plan_joins opt s sts cs = Inr cs' \<Longrightarrow> Joins s = [] \<Longrightarrow> cs' = cs"
  by (auto simp: plan_joins_def)

lemma plan_clauses_conjs:
  "list_all wf_plan cs \<Longrightarrow> length cs \<le> 1 \<Longrightarrow>
     plans_conjs (plan_clauses rt opt s cs) = opt_conjs (Condition s) + opt_conjs (Having s) + plans_conjs cs \<and>
     list_all wf_plan (plan_clauses rt opt s cs)"
  by (auto simp: plan_clauses_def Let_def ac_simps split: option.splits)

lemma get_streams_length: "get_streams store ss = Inr sts \<Longrightarrow> length sts = length ss"
  by (induction ss arbitrary: sts) (auto split: sum.splits)

lemma plan_streams_length: "plan_streams opt s sts = Inr cs \<Longrightarrow> length cs \<le> max 1 (length sts)"
  using length_filter_le [of "\<lambda>st. ss_StreamType st = TypeStream" sts]
  by (auto simp: plan_streams_def Let_def le_max_iff_disj split: option.splits if_splits)

lemma build_plan_conjs:
  assumes p: "build_plan rt opt s sts = Inr p" and src: "length (Sources s) = 1" and len: "length sts = length (GetStreams (Some s))"
  shows "plan_conjs p = stmt_conjs s \<and> wf_plan p"
proof -
  obtain c0 c1 where c: "plan_streams opt s sts = Inr c0" "plan_joins opt s sts c0 = Inr c1"
    and p': "p = Project (Fields s) (IsAggStatement rt s) (SendMetaToSink opt) (plan_clauses rt opt s c1)"
    using p by (auto simp: build_plan_def split: sum.splits)
  have "length c1 \<le> 1"
  proof (cases "Joins s = []")
    case True
    then show ?thesis
      using plan_joins_single [OF c(2)] plan_streams_length [OF c(1)] src len by (auto simp: GetStreams_def)
  qed (use plan_joins_conjs [OF c(2)] plan_streams_conjs [OF c(1)] in auto)
  then show ?thesis
    using plan_clauses_conjs [of c1 rt opt s] plan_joins_conjs [OF c(2)] plan_streams_conjs [OF c(1)]
    by (simp add: p' stmt_conjs_def ac_simps)
qed

lemma optimize_steps:
  assumes "optimize p = Inr q"
  obtains p1 where "PruneColumns [] p = Inr p1" "q = snd (PushDownPredicate None p1)"
  using assms by (auto simp: optimize_def optRuleList_def columnPruner_def predicatePushDown_def split: sum.splits)

text \<open>Nothing is left over at the root, where the optimizer ignores what is returned.\<close>

lemma fst_filter_result [simp]: "fst (filter_result fc r) = None"
  by (auto simp: filter_result_def split: prod.splits)

lemma push_source_None [simp]: "push_source None d = (None, DataSource d)"
  by (simp add: push_source_def ds_extract_opt_def)

lemma push_sources_None [simp]: "push_sources None ps = (None, ps)"
  by (induction ps) (auto split: LogicalPlan.splits)

lemma push_None:
  "c = None \<Longrightarrow> fst (PushDownPredicate c p) = None"
  "c = None \<Longrightarrow> fst (push_children c ps) = None"
  "c = None \<Longrightarrow> fst (push_others c ps qs) = None"
proof (induction c p and c ps and c ps qs rule: PushDownPredicate_push_children_push_others.induct)
  case (12 c p ps q qs)
  have "fst (case p of
       DataSource d \<Rightarrow> (case q of Filter owned _ \<Rightarrow> filter_result owned (case push_source (combine c owned) d of (rest, p1) \<Rightarrow> (rest, [p1])) | _ \<Rightarrow> (c, q))
     | _ \<Rightarrow> PushDownPredicate c p) = None"
    using 12 by (cases p; cases q) auto
  then show ?case
    using 12 by (auto split: prod.splits)
qed (auto simp: extract_opt_def combine_def split: prod.splits)

lemma optimize_keeps:
  assumes "optimize p = Inr q" "wf_plan p"
  shows "plan_conjs q = plan_conjs p"
  using assms(1)
proof (cases rule: optimize_steps)
  case (1 p1)
  obtain r p2 where 2: "PushDownPredicate None p1 = (r, p2)"
    by fastforce
  have "r = None" "p2 = q"
    using push_None(1) [of None p1] 1(2) 2 by simp_all
  then show ?thesis
    using push_keeps(1) [OF _ 2] PruneColumns_conjs(1) [OF 1(1)] assms(2) by simp
qed

lemma decorated_plan_wf:
  assumes "decorateStmt rt store s = Inr (s1, sts)" "build_plan rt opt s1 sts = Inr p" "length (Sources s) = 1"
  shows "plan_conjs p = stmt_conjs s1 \<and> wf_plan p"
proof -
  have e: "get_streams store (GetStreams (Some s)) = Inr sts" "erase_clauses s1 = erase_clauses s"
    using decorateStmt_shape [OF assms(1)] by simp_all
  have "Sources s1 = Sources s" "length (Joins s1) = length (Joins s)"
    using arg_cong [OF e(2), of Sources] arg_cong [OF e(2), of "\<lambda>s. length (Joins s)"] by (simp_all add: erase_clauses_def)
  then show ?thesis
    using build_plan_conjs [OF assms(2)] get_streams_length [OF e(1)] assms(3) by (simp add: GetStreams_def)
qed

text \<open>
  A statement for the concrete cases: \<^verbatim>\<open>SELECT id1 FROM src1 INNER JOIN src2 ON src1.id1 = src2.id2 AND src2.hum < 60 WHERE temp > 20 GROUP BY TUMBLINGWINDOW(ss, 10)\<close>.
\<close>

definition ex_stream :: "string \<Rightarrow> string list \<Rightarrow> StreamStmt" where
  "ex_stream n fs = \<lparr>ss_Name = n, ss_StreamFields = Some (map (\<lambda>f. (f, Some (BasicType BIGINT))) fs), ss_Options = empty_options, ss_StreamType = TypeStream\<rparr>"

definition ex_store :: "string \<Rightarrow> string + StreamStmt" where
  "ex_store n = (if n = ''src1'' then Inr (ex_stream n [''id1'', ''temp'', ''name'']) else if n = ''src2'' then Inr (ex_stream n [''id2'', ''hum'']) else Inl [])"

definition ex_opt :: RuleOption where
  "ex_opt = \<lparr>IsEventTime = False, LateTol = 0, Concurrency = 1, BufferLength = 1024, SendMetaToSink = False, SendError = True, Qos = 0, CheckpointInterval = 0\<rparr>"

definition ex_stmt :: SelectStatement where
  "ex_stmt = \<lparr>Fields = [\<lparr>fld_Name = ''id1'', fld_AName = [], fld_Expr = FieldRef DefaultStream ''id1'' None\<rparr>],
     Sources = [\<lparr>tbl_Name = ''src1'', tbl_Alias = []\<rparr>],
     Joins = [\<lparr>jn_Name = ''src2'', jn_Alias = [], jn_JoinType = INNER_JOIN, jn_Expr = Some (BinaryExpr T_AND
       (BinaryExpr T_EQ (FieldRef ''src1'' ''id1'' None) (FieldRef ''src2'' ''id2'' None))
       (BinaryExpr T_LT (FieldRef ''src2'' ''hum'' None) (IntegerLiteral 60)))\<rparr>],
     Condition = Some (BinaryExpr T_GT (FieldRef DefaultStream ''temp'' None) (IntegerLiteral 20)),
     Dimensions = [Window TUMBLING_WINDOW 10000 (Some 0) None], Having = None, SortFields = []\<rparr>"

text \<open>
  (C33) The planner loses, repeats and invents no condition: whatever pruning and push-down do, the conjuncts found in the filters, windows, joins and HAVING nodes
  of the plan of a statement are, with their multiplicities, the conjuncts of its WHERE clause, window filter, ON clauses and HAVING clause, which the analysis has
  only bound to streams and aliases.
\<close>

theorem plan_keeps_conditions:
  assumes "createLogicalPlan rt s opt store = Inr p" "length (Sources s) = 1"
  shows "\<exists>s1 sts. decorateStmt rt store s = Inr (s1, sts) \<and> erase_clauses s1 = erase_clauses s \<and> plan_conjs p = stmt_conjs s1"
proof -
  obtain s1 sts p0 where d: "decorateStmt rt store s = Inr (s1, sts)" "build_plan rt opt s1 sts = Inr p0" "optimize p0 = Inr p"
    using assms(1) by (auto simp: createLogicalPlan_def split: sum.splits)
  then show ?thesis
    using decorated_plan_wf [OF d(1,2) assms(2)] decorateStmt_shape [OF d(1)] optimize_keeps [OF d(3)] by simp
qed

theorem plan_keeps_conditions_witness:
  "\<exists>p. createLogicalPlan (\<lambda>_. False) ex_stmt ex_opt ex_store = Inr p \<and> plan_conjs p =
     {#BinaryExpr T_GT (FieldRef ''src1'' ''temp'' None) (IntegerLiteral 20),
       BinaryExpr T_EQ (FieldRef ''src1'' ''id1'' None) (FieldRef ''src2'' ''id2'' None),
       BinaryExpr T_LT (FieldRef ''src2'' ''hum'' None) (IntegerLiteral 60)#}"
proof -
  have "\<not> isl (createLogicalPlan (\<lambda>_. False) ex_stmt ex_opt ex_store)"
    by code_simp
  then obtain p where p: "createLogicalPlan (\<lambda>_. False) ex_stmt ex_opt ex_store = Inr p"
    by (cases "createLogicalPlan (\<lambda>_. False) ex_stmt ex_opt ex_store") auto
  have "map_sum id (\<lambda>(s, _). (Condition s, map jn_Expr (Joins s), window_filter s, Having s)) (decorateStmt (\<lambda>_. False) ex_store ex_stmt) =
    Inr (Some (BinaryExpr T_GT (FieldRef ''src1'' ''temp'' None) (IntegerLiteral 20)),
      [Some (BinaryExpr T_AND (BinaryExpr T_EQ (FieldRef ''src1'' ''id1'' None) (FieldRef ''src2'' ''id2'' None))
        (BinaryExpr T_LT (FieldRef ''src2'' ''hum'' None) (IntegerLiteral 60)))], None, None)"
    by code_simp
  then show ?thesis
    using plan_keeps_conditions [OF p] p by (auto simp: stmt_conjs_def joins_conjs_def ex_stmt_def)
qed

end
