(* ===== verification/Pruning.thy ===== *)
theory Pruning
  imports PlannerProofs
begin

text \<open>
  Column pruning: which fields a source keeps. The loop of \<^verbatim>\<open>DataSourcePlan.PruneColumns\<close> is characterised by the set of fields it is given, and the walk over the
  plans by the nodes above a source; together they give the columns that a planned statement reads.
\<close>

section \<open>The loop of a source\<close>

fun field_kind :: "expr \<Rightarrow> bool" where
  "field_kind (Wildcard t) = True"
| "field_kind (FieldRef sn n al) = True"
| "field_kind (MetaRef sn n) = True"
| "field_kind (SortField n a) = True"
| "field_kind e = False"

text \<open>The columns that the needed fields ask of the source \<open>d\<close>, as far as its schema has them.\<close>

definition asked :: "DataSourcePlan \<Rightarrow> expr list \<Rightarrow> string set" where
  "asked d es = {n. getField (ds_streamStmt d) n \<noteq> None \<and>
     ((\<exists>sn al. FieldRef sn n al \<in> set es \<and> of_source (ds_name d) sn) \<or> (\<exists>a. SortField n a \<in> set es))}"

definition has_wildcard :: "expr list \<Rightarrow> bool" where
  "has_wildcard es \<longleftrightarrow> (\<exists>t. Wildcard t \<in> set es)"

definition meta_asked :: "DataSourcePlan \<Rightarrow> expr list \<Rightarrow> string set" where
  "meta_asked d es = {n. \<exists>sn. MetaRef sn n \<in> set es \<and> of_source (ds_name d) sn}"

definition ps_wf :: "prune_state \<Rightarrow> bool" where
  "ps_wf s \<longleftrightarrow> distinct (map fst (ps_fields s)) \<and> (\<forall>(k, v) \<in> set (ps_fields s). sfd_name v = k) \<and>
     distinct (map fst (ps_metaMap s)) \<and> (\<forall>(k, v) \<in> set (ps_metaMap s). to_lower v = k)"

lemma getField_name: "getField st n = Some sf \<Longrightarrow> sfd_name sf = n"
  by (auto simp: getField_def find_Some_iff split: option.splits) (metis fst_conv)

lemma set_alist_update: "distinct (map fst xs) \<Longrightarrow> set (AList.update k v xs) = {x \<in> set xs. fst x \<noteq> k} \<union> {(k, v)}"
  by (induction xs) (auto simp: image_iff)

lemma ps_wf_update: "ps_wf s \<Longrightarrow> sfd_name sf = n \<Longrightarrow> ps_wf (s\<lparr>ps_fields := AList.update n sf (ps_fields s)\<rparr>)"
  by (auto simp: ps_wf_def set_alist_update distinct_update)

lemma prune_step_kind: "field_kind e \<Longrightarrow> \<exists>s1. prune_step d e s = Inr s1"
  by (cases e) (auto split: option.splits)

lemma prune_step_wf: "prune_step d e s = Inr s1 \<Longrightarrow> ps_wf s \<Longrightarrow> ps_wf s1"
  by (cases e) (auto split: if_splits option.splits dest!: getField_name intro: ps_wf_update, auto simp: ps_wf_def set_alist_update distinct_update)

lemma prune_step_spec:
  "case prune_step d e s of Inl _ \<Rightarrow> True | Inr s1 \<Rightarrow>
     ps_isWildCard s1 = (ps_isWildCard s \<or> has_wildcard [e]) \<and>
     (\<not> ps_isWildCard s1 \<longrightarrow> fst ` set (ps_fields s1) = fst ` set (ps_fields s) \<union> asked d [e]) \<and>
     ps_allMeta s1 = (ps_allMeta s \<or> ''*'' \<in> meta_asked d [e]) \<and>
     (\<not> ps_allMeta s1 \<longrightarrow> fst ` set (ps_metaMap s1) = fst ` set (ps_metaMap s) \<union> to_lower ` meta_asked d [e])"
  by (cases e)
    (auto simp: asked_def has_wildcard_def meta_asked_def fst_set_update map_of_eq_None_iff split: option.splits)

lemma asked_Cons: "asked d (e # es) = asked d [e] \<union> asked d es"
  by (auto simp: asked_def)

lemma has_wildcard_Cons: "has_wildcard (e # es) \<longleftrightarrow> has_wildcard [e] \<or> has_wildcard es"
  by (auto simp: has_wildcard_def)

lemma meta_asked_Cons: "meta_asked d (e # es) = meta_asked d [e] \<union> meta_asked d es"
  by (auto simp: meta_asked_def)

lemma asked_simps [simp]: "asked d [] = {}" "has_wildcard [] = False" "meta_asked d [] = {}"
  by (simp_all add: asked_def has_wildcard_def meta_asked_def)

lemma prune_loop_spec:
  "prune_loop d es s = Inr s1 \<Longrightarrow> ps_wf s \<Longrightarrow>
   ps_wf s1 \<and> ps_isWildCard s1 = (ps_isWildCard s \<or> has_wildcard es) \<and>
   (\<not> ps_isWildCard s1 \<longrightarrow> fst ` set (ps_fields s1) = fst ` set (ps_fields s) \<union> asked d es) \<and>
   ps_allMeta s1 = (ps_allMeta s \<or> ''*'' \<in> meta_asked d es) \<and>
   (\<not> ps_allMeta s1 \<longrightarrow> fst ` set (ps_metaMap s1) = fst ` set (ps_metaMap s) \<union> to_lower ` meta_asked d es)"
proof (induction es arbitrary: s)
  case (Cons e es)
  obtain s2 where 2: "prune_step d e s = Inr s2" "prune_loop d es s2 = Inr s1"
    using Cons.prems(1) by (auto split: sum.splits)
  show ?case
    using Cons.IH [OF 2(2) prune_step_wf [OF 2(1) Cons.prems(2)]]
      prune_step_spec [where d = d and e = e and s = s] 2(1)
    unfolding asked_Cons [of d e es] has_wildcard_Cons [of e es] meta_asked_Cons [of d e es]
    by (auto simp: image_Un Un_assoc)
qed simp

lemma prune_loop_ok: "list_all field_kind es \<Longrightarrow> \<exists>s1. prune_loop d es s = Inr s1"
proof (induction es arbitrary: s)
  case (Cons e es)
  then obtain s1 where "prune_step d e s = Inr s1"
    using prune_step_kind by force
  then show ?case
    using Cons by simp
qed simp

text \<open>What pruning gives a source: the timestamp field is kept for event time.\<close>

definition ts_fields :: "DataSourcePlan \<Rightarrow> string set" where
  "ts_fields d = (if ds_iet d \<and> TIMESTAMP (ss_Options (ds_streamStmt d)) \<noteq> [] then {TIMESTAMP (ss_Options (ds_streamStmt d))} else {})"

lemma getProps_source:
  "snd (getProps d) = d1 \<Longrightarrow> ds_name d1 = ds_name d \<and> ds_streamStmt d1 = ds_streamStmt d \<and> ds_isWildCard d1 = ds_isWildCard d \<and>
     ds_allMeta d1 = ds_allMeta d \<and> ds_iet d1 = ds_iet d \<and> ds_timestampField d1 = (if ds_iet d \<and> TIMESTAMP (ss_Options (ds_streamStmt d)) \<noteq> []
       then TIMESTAMP (ss_Options (ds_streamStmt d)) else ds_timestampField d)"
  by (auto simp: getProps_def Let_def split: if_splits)

lemma prune_source_spec:
  assumes "prune_source fs d = Inr d'" "\<not> ds_isWildCard d" "ds_timestampField d = []"
  shows "ds_name d' = ds_name d \<and> ds_streamStmt d' = ds_streamStmt d \<and> ds_isWildCard d' = has_wildcard fs \<and>
    (if has_wildcard fs then ds_streamFields d' = map_option (map (\<lambda>(n, t). SchemaField n t)) (ss_StreamFields (ds_streamStmt d))
     else \<exists>sfs. ds_streamFields d' = Some sfs \<and> sfd_name ` set sfs = ts_fields d \<union> asked d fs) \<and>
    ds_allMeta d' = (ds_allMeta d \<or> ''*'' \<in> meta_asked d fs) \<and>
    (ds_allMeta d' \<or> to_lower ` set (ds_metaFields d') = to_lower ` meta_asked d fs)"
proof -
  obtain d1 where d1: "snd (getProps d) = d1"
    by blast
  let ?ts = "ds_timestampField d1"
  let ?s0 = "\<lparr>ps_isWildCard = ds_isWildCard d1, ps_fields = (if ?ts \<noteq> [] then [(?ts, NameField ?ts)] else []), ps_allMeta = ds_allMeta d1, ps_metaMap = []\<rparr>"
  note p = getProps_source [OF d1]
  obtain s1 where s1: "prune_loop d1 fs ?s0 = Inr s1" "d' = getAllFields d1 s1"
    using assms(1) d1 by (auto simp: prune_source_def Let_def split: sum.splits)
  have spec: "ps_wf s1" "ps_isWildCard s1 = has_wildcard fs"
    "\<not> ps_isWildCard s1 \<longrightarrow> fst ` set (ps_fields s1) = ts_fields d \<union> asked d fs"
    "ps_allMeta s1 = (ds_allMeta d \<or> ''*'' \<in> meta_asked d fs)"
    "\<not> ps_allMeta s1 \<longrightarrow> fst ` set (ps_metaMap s1) = to_lower ` meta_asked d fs"
    using prune_loop_spec [OF s1(1)] p assms(2,3) by (auto simp: ps_wf_def asked_def meta_asked_def ts_fields_def)
  have "sfd_name (the (map_of (ps_fields s1) k)) = k" if "k \<in> fst ` set (ps_fields s1)" for k
    using spec(1) that by (force simp: ps_wf_def)
  then have "sfd_name ` set (map (\<lambda>k. the (map_of (ps_fields s1) k)) (sort (map fst (ps_fields s1)))) = fst ` set (ps_fields s1)"
    by (simp add: image_image cong: image_cong_simp)
  moreover have "to_lower ` set (sort (map snd (ps_metaMap s1))) = fst ` set (ps_metaMap s1)"
  proof -
    have "(\<lambda>x. to_lower (snd x)) ` set (ps_metaMap s1) = fst ` set (ps_metaMap s1)"
      using spec(1) by (intro image_cong) (auto simp: ps_wf_def)
    then show ?thesis
      by (simp add: image_image)
  qed
  ultimately show ?thesis
    using spec(2-5) p unfolding s1(2) getAllFields_def by (simp del: set_map set_sort) blast
qed

section \<open>The walk over the plans\<close>

text \<open>The sources of a plan, each with the fields that reach it.\<close>

function source_needs :: "expr list \<Rightarrow> LogicalPlan \<Rightarrow> (expr list \<times> DataSourcePlan) list" where
  "source_needs fs p = (case p of
     DataSource d \<Rightarrow> [(fs, d)]
   | _ \<Rightarrow> concat (map (source_needs (fs @ plan_fields p)) (Children p)))"
  by auto
termination
  by (relation "measure (\<lambda>(fs, p). size p)") (auto simp: size_in_args)

declare source_needs.simps [simp del]

lemma source_needs_simps [simp]:
  "source_needs fs (DataSource d) = [(fs, d)]"
  "source_needs fs (WindowP w cs) = concat (map (source_needs (fs @ getFields_expr (wp_condition w))) cs)"
  "source_needs fs (JoinAlign es cs) = concat (map (source_needs fs) cs)"
  "source_needs fs (JoinP f j js cs) = concat (map (source_needs (fs @ getFields_joins (j # js))) cs)"
  "source_needs fs (Filter c cs) = concat (map (source_needs (fs @ getFields_expr c)) cs)"
  "source_needs fs (Aggregate ds cs) = concat (map (source_needs (fs @ getFields_dims ds)) cs)"
  "source_needs fs (HavingP c cs) = concat (map (source_needs (fs @ getFields_expr c)) cs)"
  "source_needs fs (Order sfs cs) = concat (map (source_needs (fs @ getFields_sorts sfs)) cs)"
  "source_needs fs (Project fl a m cs) = concat (map (source_needs (fs @ getFields_fields fl)) cs)"
  by (simp_all add: source_needs.simps)

definition pruned :: "expr list \<times> DataSourcePlan \<Rightarrow> DataSourcePlan \<Rightarrow> bool" where
  "pruned x d' \<longleftrightarrow> prune_source (fst x) (snd x) = Inr d'"

lemma PruneColumns_sources:
  "PruneColumns fs p = Inr p' \<Longrightarrow> list_all2 pruned (source_needs fs p) (plan_sources p')"
  "prune_children fs ps = Inr ps' \<Longrightarrow> list_all2 pruned (concat (map (source_needs fs) ps)) (plans_sources ps')"
  by (induction fs p and fs ps arbitrary: p' and ps' rule: PruneColumns_prune_children.induct)
    (fastforce simp: map_sum_Inr pruned_def split: sum.splits intro: list_all2_appendI)+

text \<open>The fields that the clauses of a statement mention, except those of the window filter, which only the streams below the window see.\<close>

definition stmt_fields :: "SelectStatement \<Rightarrow> expr list" where
  "stmt_fields s = getFields_fields (Fields s) @ getFields_joins (Joins s) @ getFields_expr (Condition s) @
     getFields_dims (GetGroups (Dimensions s)) @ getFields_expr (Having s) @ getFields_sorts (SortFields s)"

lemma no_fields [simp]: "getFields_expr None = []" "getFields_dims [] = []" "getFields_sorts [] = []" "getFields_joins [] = []"
  by (simp_all add: getFields_expr_def getFields_dims_def getFields_sorts_def getFields_joins_def
      walk_opt_def walk_dimensions_def walk_sortfields_def walk_joins_def)

abbreviation "needs fs ps \<equiv> concat (map (source_needs fs) ps)"

lemma plan_clauses_needs:
  "(fs', d) \<in> set (needs fs (plan_clauses rt opt s cs)) \<Longrightarrow>
   \<exists>fs1. (fs', d) \<in> set (needs fs1 cs) \<and> set fs1 = set fs \<union> set (getFields_expr (Condition s)) \<union>
     set (getFields_dims (GetGroups (Dimensions s))) \<union> set (getFields_expr (Having s)) \<union> set (getFields_sorts (SortFields s))"
  by (cases "Condition s"; cases "Having s"; cases "SortFields s = []"; cases "GetGroups (Dimensions s) = []")
    (fastforce simp: plan_clauses_def Let_def)+

lemma plan_joins_needs:
  "plan_joins opt s sts cs = Inr cs' \<Longrightarrow> (fs', d) \<in> set (needs fs cs') \<Longrightarrow>
   (\<exists>fs1. (fs', d) \<in> set (needs fs1 cs) \<and> set fs1 = set fs \<union> set (getFields_joins (Joins s))) \<or>
   (set fs' = set fs \<union> set (getFields_joins (Joins s)) \<and> (\<exists>st. DataSource d = init_source opt st))"
proof (cases "Joins s")
  case (Cons j js)
  let ?tables = "filter (\<lambda>st. ss_StreamType st \<noteq> TypeStream) sts"
  let ?fs = "fs @ getFields_joins (j # js)"
  assume "plan_joins opt s sts cs = Inr cs'" "(fs', d) \<in> set (needs fs cs')"
  then have "(fs', d) \<in> set (needs ?fs (cs @ map (init_source opt) ?tables))"
    using Cons by (auto simp: plan_joins_def Let_def split: if_splits)
  then consider "(fs', d) \<in> set (needs ?fs cs)" | st where "fs' = ?fs" "DataSource d = init_source opt st"
    by (auto simp: init_source_def)
  then show ?thesis
    by cases (use Cons in auto)
qed (auto simp: plan_joins_def)

lemma plan_streams_needs:
  "plan_streams opt s sts = Inr cs \<Longrightarrow> (fs', d) \<in> set (needs fs cs) \<Longrightarrow>
   (\<exists>st. DataSource d = init_source opt st) \<and> set fs \<subseteq> set fs' \<and> set fs' \<subseteq> set fs \<union> set (getFields_expr (window_filter s))"
  by (auto simp: plan_streams_def Let_def init_source_def window_filter_def init_window_condition [OF GetWindow_is_Window]
      split: option.splits if_splits)

lemma build_plan_needs:
  assumes "build_plan rt opt s sts = Inr p" "(fs, d) \<in> set (source_needs [] p)"
  shows "(\<exists>st. DataSource d = init_source opt st) \<and> set (stmt_fields s) \<subseteq> set fs \<and>
    set fs \<subseteq> set (stmt_fields s) \<union> set (getFields_expr (window_filter s))"
proof -
  obtain c0 c1 where c: "plan_streams opt s sts = Inr c0" "plan_joins opt s sts c0 = Inr c1"
    and p: "p = Project (Fields s) (IsAggStatement rt s) (SendMetaToSink opt) (plan_clauses rt opt s c1)"
    using assms(1) by (auto simp: build_plan_def split: sum.splits)
  have "(fs, d) \<in> set (needs (getFields_fields (Fields s)) (plan_clauses rt opt s c1))"
    using assms(2) by (simp add: p)
  then obtain fs1 where f1: "(fs, d) \<in> set (needs fs1 c1)" "set fs1 = set (getFields_fields (Fields s)) \<union> set (getFields_expr (Condition s)) \<union>
      set (getFields_dims (GetGroups (Dimensions s))) \<union> set (getFields_expr (Having s)) \<union> set (getFields_sorts (SortFields s))"
    using plan_clauses_needs by blast
  then have 1: "(fs, d) \<in> set (needs fs1 c1)" "set fs1 \<union> set (getFields_joins (Joins s)) = set (stmt_fields s)"
    by (auto simp: stmt_fields_def)
  from plan_joins_needs [OF c(2) 1(1)] show ?thesis
  proof (elim disjE exE conjE)
    fix fs2
    assume "(fs, d) \<in> set (needs fs2 c0)" "set fs2 = set fs1 \<union> set (getFields_joins (Joins s))"
    then show ?thesis
      using plan_streams_needs [OF c(1)] 1(2) by metis
  qed (use 1(2) in auto)
qed

lemma init_source_fresh: "DataSource d = init_source opt st \<Longrightarrow> \<not> ds_isWildCard d \<and> ds_timestampField d = [] \<and> ds_iet d = IsEventTime opt"
  by (simp add: init_source_def)

lemma optimize_sources:
  assumes "optimize p = Inr q" "wf_plan p"
  shows "list_all2 pruned (source_needs [] p) (plan_sources q)"
  using assms(1)
proof (cases rule: optimize_steps)
  case (1 p1)
  then show ?thesis
    using push_keeps(1) [of p1 None] PruneColumns_sources(1) [OF 1(1)] PruneColumns_conjs(1) [OF 1(1)] assms(2)
    by (metis prod.collapse)
qed

lemma prune_source_iet: "prune_source fs d = Inr d' \<Longrightarrow> ds_iet d' = ds_iet d"
  using getProps_source [OF refl, of d] by (auto simp: prune_source_def Let_def getAllFields_def split: sum.splits)

lemma asked_mono: "set es \<subseteq> set es' \<Longrightarrow> asked d es \<subseteq> asked d es'"
  by (auto simp: asked_def)



end
