(* ===== verification/TimeFormat.thy ===== *)
theory TimeFormat
  imports Values
begin

text \<open>
  Time layouts and timestamps of \<^verbatim>\<open>pkg/cast/time.go\<close>: \<^verbatim>\<open>convertFormat\<close>, which turns a format such as \<^verbatim>\<open>YYYY-MM-dd\<close> into a layout of Go, and the conversions that
  use it. \<open>None\<close> is the panic of an index out of range, \<open>Inl\<close> a returned error. \<^verbatim>\<open>time.Parse\<close> and \<^verbatim>\<open>time.Time.Format\<close> are the parameters \<open>tp\<close> and \<open>tf\<close>.
\<close>

section \<open>convertFormat\<close>

text \<open>
  The loops that count equal letters: from \<open>j = 1\<close>, at most to one more than the limit. \<open>run\<close> is the \<open>j\<close> they leave, given the characters behind the first.
\<close>

definition run :: "char \<Rightarrow> nat \<Rightarrow> string \<Rightarrow> nat" where
  "run r limit rest = 1 + length (takeWhile (\<lambda>c. c = r) (take limit rest))"

text \<open>What the inner switches append: \<open>Inl\<close> is an error, a count without a case appends nothing.\<close>

definition pick :: "(nat \<times> string) list \<Rightarrow> string \<Rightarrow> nat \<Rightarrow> string + string" where
  "pick tbl dflt j = (case map_of tbl j of Some s \<Rightarrow> Inr s | None \<Rightarrow> if dflt = [] then Inr [] else Inl dflt)"

text \<open>Limit, cases and error of the letters that are counted.\<close>

definition letter :: "string \<Rightarrow> char \<Rightarrow> (nat \<times> (nat \<times> string) list \<times> string) option" where
  "letter f r =
     (if r = CHR ''Y'' \<or> r = CHR ''y'' then Some (4, [(4, ''2006''), (2, ''06'')], ''invalid time format '' @ f @ '' for Y/y'')
      else if r = CHR ''M'' then Some (4, [(1, ''1''), (2, ''01''), (3, ''Jan''), (4, ''January'')], [])
      else if r = CHR ''d'' then Some (2, [(1, ''2''), (2, ''02'')], [])
      else if r = CHR ''E'' then Some (4, [(3, ''Mon''), (4, ''Monday'')], ''invalid time format '' @ f @ '' for E'')
      else if r = CHR ''H'' then Some (2, [(2, ''15'')], ''invalid time format '' @ f @ '' of H, only HH is supported'')
      else if r = CHR ''h'' then Some (2, [(1, ''3''), (2, ''03'')], [])
      else if r = CHR ''m'' then Some (2, [(1, ''4''), (2, ''04'')], [])
      else if r = CHR ''s'' then Some (2, [(1, ''5''), (2, ''05'')], [])
      else if r = CHR ''S'' then Some (3, [(1, ''.0''), (2, ''.00''), (3, ''.000'')], [])
      else if r = CHR ''X'' then Some (3, [(1, ''-07''), (2, ''-0700''), (3, ''-07:00'')], [])
      else None)"

definition single :: "char \<Rightarrow> string" where
  "single r = (if r = CHR ''G'' then ''AD'' else if r = CHR ''a'' then ''PM'' else if r = CHR ''z'' then ''MST''
     else if r = CHR ''Z'' then ''-0700'' else [r])"

definition quote_char :: char where
  "quote_char = CHR 0x27"

lemma quoted_shorter: "length (dropWhile P xs) - Suc 0 < Suc (length xs)"
  using length_dropWhile_le [of P xs] by simp

function convert_loop :: "string \<Rightarrow> string \<Rightarrow> (string + string) option" where
  "convert_loop f [] = Some (Inr [])"
| "convert_loop f (r # rest) =
     (case letter f r of
        Some (limit, tbl, err) \<Rightarrow>
          (case pick tbl err (run r limit rest) of
             Inl e \<Rightarrow> Some (Inl e)
           | Inr out \<Rightarrow> map_option (map_sum id ((@) out)) (convert_loop f (drop (run r limit rest - 1) rest)))
      | None \<Rightarrow>
          if r = quote_char then
            (case rest of
               [] \<Rightarrow> None
             | c # rest1 \<Rightarrow>
                 if c = r then map_option (map_sum id ((#) r)) (convert_loop f rest1)
                 else map_option (map_sum id ((@) (takeWhile (\<lambda>x. x \<noteq> r) rest)))
                        (convert_loop f (drop 1 (dropWhile (\<lambda>x. x \<noteq> r) rest))))
          else map_option (map_sum id ((@) (single r))) (convert_loop f rest))"
  by pat_completeness auto
termination
  by (relation "measure (\<lambda>(f, s). length s)") (auto intro: less_SucI quoted_shorter)

definition convertFormat :: "string \<Rightarrow> (string + string) option" where
  "convertFormat f = convert_loop f f"

section \<open>Conversions\<close>

definition with_format :: "string \<Rightarrow> (string \<Rightarrow> string + 'a) \<Rightarrow> (string + 'a) option" where
  "with_format f k = (case convertFormat f of None \<Rightarrow> None | Some (Inl e) \<Rightarrow> Some (Inl e) | Some (Inr l) \<Rightarrow> Some (k l))"

definition parse_layout :: "time_parse \<Rightarrow> string \<Rightarrow> string \<Rightarrow> string + int" where
  "parse_layout tp t l = (case tp l t of Some ns \<Rightarrow> Inr ns | None \<Rightarrow> Inl ''parsing time'')"

definition ParseTime :: "time_parse \<Rightarrow> string \<Rightarrow> string \<Rightarrow> (string + int) option" where
  "ParseTime tp t f = with_format f (parse_layout tp t)"

definition FormatTime :: "(int \<Rightarrow> string \<Rightarrow> string) \<Rightarrow> int \<Rightarrow> string \<Rightarrow> (string + string) option" where
  "FormatTime tf time f = with_format f (\<lambda>l. Inr (tf time l))"

definition InterfaceToUnixMilli :: "time_parse \<Rightarrow> val \<Rightarrow> string \<Rightarrow> (string + int) option" where
  "InterfaceToUnixMilli tp i format = (case i of
     VInt64 t \<Rightarrow> Some (Inr (sint t))
   | VInt t \<Rightarrow> Some (Inr (sint t))
   | VFloat64 f \<Rightarrow> Some (Inr (f_to_int64 f))
   | VTime t \<Rightarrow> Some (Inr (TimeToUnixMilli t))
   | VString s \<Rightarrow>
       map_option (map_sum id TimeToUnixMilli) (if format \<noteq> [] then with_format format (parse_layout tp s) else Some (parse_layout tp s JSISO))
   | _ \<Rightarrow> Some (Inl ''unsupported type to convert to timestamp''))"

section \<open>When it panics\<close>

definition quotes :: "string \<Rightarrow> nat" where
  "quotes s = length (filter (\<lambda>c. c = quote_char) s)"

lemma quotes_simps [simp]:
  "quotes [] = 0"
  "quotes (c # s) = (if c = quote_char then Suc (quotes s) else quotes s)"
  "quotes (s @ t) = quotes s + quotes t"
  by (simp_all add: quotes_def)

lemma quotes_replicate: "c \<noteq> quote_char \<Longrightarrow> quotes (replicate n c) = 0"
  by (simp add: quotes_def)

lemma quotes_takeWhile [simp]: "quotes (takeWhile (\<lambda>x. x \<noteq> quote_char) s) = 0"
  by (induction s) simp_all

lemma letter_quote [simp]: "letter f quote_char = None"
  by (simp add: letter_def quote_char_def)

text \<open>A string that ends inside an opened quotation with nothing behind the quote.\<close>

definition dangling :: "string \<Rightarrow> bool" where
  "dangling s \<longleftrightarrow> s \<noteq> [] \<and> last s = quote_char \<and> odd (quotes s)"

lemma dangling_append: "dangling s \<Longrightarrow> even (quotes p) \<Longrightarrow> dangling (p @ s)"
  by (auto simp: dangling_def)

lemma dangling_Cons: "dangling s \<Longrightarrow> c \<noteq> quote_char \<Longrightarrow> dangling (c # s)"
  by (auto simp: dangling_def)

lemma replicate_run:
  "replicate (length (takeWhile (\<lambda>c. c = r) (take n xs))) r @ drop (length (takeWhile (\<lambda>c. c = r) (take n xs))) xs = xs"
  by (induction xs arbitrary: n) (auto simp: take_Cons split: nat.split)

lemma run_prefix: "rest = replicate (run r limit rest - 1) r @ drop (run r limit rest - 1) rest"
  by (simp add: run_def replicate_run)

lemma dangling_run: "dangling (drop (run r limit rest - 1) rest) \<Longrightarrow> r \<noteq> quote_char \<Longrightarrow> dangling (r # rest)"
  using dangling_append [of "drop (run r limit rest - 1) rest" "r # replicate (run r limit rest - 1) r"]
    run_prefix [of rest r limit] by (simp add: quotes_replicate)

lemma dangling_quoted:
  assumes "dangling (drop 1 (dropWhile (\<lambda>x. x \<noteq> quote_char) rest))"
  shows "dangling (quote_char # rest)"
proof -
  obtain s where s: "dropWhile (\<lambda>x. x \<noteq> quote_char) rest = quote_char # s"
    using assms by (cases "dropWhile (\<lambda>x. x \<noteq> quote_char) rest")
      (auto simp: dangling_def dropWhile_eq_Cons_conv)
  have "quote_char # rest = (quote_char # takeWhile (\<lambda>x. x \<noteq> quote_char) rest @ [quote_char]) @ s"
    using takeWhile_dropWhile_id [of "\<lambda>x. x \<noteq> quote_char" rest] s by simp
  moreover have "dangling s"
    using assms s by simp
  ultimately show ?thesis
    using dangling_append [of s "quote_char # takeWhile (\<lambda>x. x \<noteq> quote_char) rest @ [quote_char]"] by simp
qed

lemma convert_loop_None: "convert_loop f s = None \<Longrightarrow> dangling s"
proof (induction f s rule: convert_loop.induct)
  case (2 f r rest)
  show ?case
  proof (cases "letter f r")
    case None
    show ?thesis
    proof (cases "r = quote_char")
      case True
      show ?thesis
      proof (cases rest)
        case (Cons c rest1)
        show ?thesis
        proof (cases "c = r")
          case eq: True
          then have "dangling rest1"
            using 2 None True Cons by simp
          then show ?thesis
            using dangling_append [of rest1 "[quote_char, quote_char]"] eq True Cons by simp
        next
          case False
          then have "dangling (drop 1 (dropWhile (\<lambda>x. x \<noteq> r) rest))"
            using 2 None True Cons by simp
          then show ?thesis
            using dangling_quoted [of rest] True by simp
        qed
      qed (simp add: True dangling_def)
    qed (use 2 None in \<open>auto intro: dangling_Cons\<close>)
  next
    case (Some a)
    obtain limit tbl err where a: "a = (limit, tbl, err)"
      by (cases a)
    have q: "r \<noteq> quote_char"
      using Some by auto
    from 2 Some a obtain out where "pick tbl err (run r limit rest) = Inr out"
      "convert_loop f (drop (run r limit rest - 1) rest) = None"
      by (auto split: sum.splits)
    then have "dangling (drop (run r limit rest - 1) rest)"
      using 2 Some a by simp
    then show ?thesis
      using q by (rule dangling_run)
  qed
qed simp

text \<open>
  \<^verbatim>\<open>convertFormat\<close> reads behind the last character only for a format whose last character is a quote and whose number of quotes is odd; every other format gives a layout or an error.
\<close>

theorem convertFormat_panics: "convertFormat f = None \<Longrightarrow> f \<noteq> [] \<and> last f = quote_char \<and> odd (quotes f)"
  using convert_loop_None [of f f] by (simp add: convertFormat_def dangling_def)

theorem convertFormat_panics_witness:
  "convertFormat [quote_char] = None \<and> odd (quotes [quote_char])"
  using convertFormat_panics [of "[quote_char]"] by (simp add: convertFormat_def)

end
