(* ===== verification/Rows.thy ===== *)
theory Rows
  imports Values
begin

text \<open>
  The rows a rule processes, \<^verbatim>\<open>internal/xsql/collections.go\<close>: messages with
  case-insensitive keys, tuples and joined tuples with their alias caches, and the window and
  group collections built of them.

  A \<^verbatim>\<open>DataValuer\<close> is a \<open>row\<close>; the third kind, \<open>RMessage\<close>, is a bare message
  used as a valuer by the arrow operator. A look-up returns \<open>Some v\<close> for
  \<^verbatim>\<open>(v, true)\<close> and \<open>None\<close> for \<^verbatim>\<open>(nil, false)\<close>. The one look-up that can
  panic, on a joined tuple without parts, has a further \<open>option\<close> around it, \<open>None\<close>
  being the panic.
\<close>

section \<open>Messages\<close>

type_synonym Message = "(string \<times> val) list"

definition PRIVATE_PREFIX :: string where
  "PRIVATE_PREFIX = ''$$''"

definition getIgnoreCase :: "(string \<times> 'v) list \<Rightarrow> string \<Rightarrow> 'v option" where
  "getIgnoreCase m key = map_option snd (find (\<lambda>(k, v). to_lower k = to_lower key) m)"

definition Message_Value :: "(string \<times> 'v) list \<Rightarrow> string \<Rightarrow> 'v option" where
  "Message_Value m key = (case split_on COLUMN_SEPARATOR key of
     [k] \<Rightarrow> (case map_of m (to_lower key) of Some v \<Rightarrow> Some v | None \<Rightarrow> getIgnoreCase m key)
   | [s, k] \<Rightarrow> (case map_of m (to_lower k) of Some v \<Rightarrow> Some v | None \<Rightarrow> getIgnoreCase m k)
   | _ \<Rightarrow> None)"

definition Message_Meta :: "Message \<Rightarrow> string \<Rightarrow> val option" where
  "Message_Meta m key = (if key = ''*'' then Some (VMap m) else Message_Value m key)"

section \<open>Aliases and tuples\<close>

type_synonym Alias = "Message option"

definition AppendAlias :: "Alias \<Rightarrow> string \<Rightarrow> val \<Rightarrow> Alias" where
  "AppendAlias a key v =
     Some (AList.update (PRIVATE_PREFIX @ key) v (case a of None \<Rightarrow> [] | Some m \<Rightarrow> m))"

definition AliasValue :: "Alias \<Rightarrow> string \<Rightarrow> val option" where
  "AliasValue a key = (case a of None \<Rightarrow> None | Some m \<Rightarrow> Message_Value m key)"

record Tuple =
  t_Emitter :: string
  t_Message :: Message
  t_Timestamp :: int
  t_Metadata :: "Message option"
  t_Alias :: Alias

definition Tuple_Value :: "Tuple \<Rightarrow> string \<Rightarrow> val option" where
  "Tuple_Value t key = (case AliasValue (t_Alias t) key of
     Some r \<Rightarrow> Some r | None \<Rightarrow> Message_Value (t_Message t) key)"

text \<open>Reading a nil map finds nothing.\<close>

definition map_entries :: "Message option \<Rightarrow> Message" where
  "map_entries m = (case m of None \<Rightarrow> [] | Some es \<Rightarrow> es)"

definition Tuple_Meta :: "Tuple \<Rightarrow> string \<Rightarrow> val option" where
  "Tuple_Meta t key =
     (if key = ''*'' then Some (VMap (map_entries (t_Metadata t)))
      else Message_Value (map_entries (t_Metadata t)) key)"

definition Tuple_All :: "Tuple \<Rightarrow> string \<Rightarrow> val option" where
  "Tuple_All t _ = Some (VMessage (t_Message t))"

text \<open>\<^verbatim>\<open>Clone\<close> copies the maps and leaves the alias cache behind.\<close>

definition Tuple_Clone :: "Tuple \<Rightarrow> Tuple" where
  "Tuple_Clone t = t\<lparr>t_Alias := None\<rparr>"

section \<open>Joined tuples\<close>

record JoinTuple =
  jt_Tuples :: "Tuple list"
  jt_Alias :: Alias

definition jt_AddTuple :: "JoinTuple \<Rightarrow> Tuple \<Rightarrow> JoinTuple" where
  "jt_AddTuple jt t = jt\<lparr>jt_Tuples := jt_Tuples jt @ [t]\<rparr>"

definition jt_AddTuples :: "JoinTuple \<Rightarrow> Tuple list \<Rightarrow> JoinTuple" where
  "jt_AddTuples jt ts = jt\<lparr>jt_Tuples := jt_Tuples jt @ ts\<rparr>"

text \<open>\<^verbatim>\<open>getTupleValue\<close> selects by the strings \<open>value\<close> and \<open>meta\<close>; the
  flag is true for \<open>meta\<close>.\<close>

definition getTupleValue :: "Tuple \<Rightarrow> bool \<Rightarrow> string \<Rightarrow> val option" where
  "getTupleValue t meta key = (if meta then Tuple_Meta t key else Tuple_Value t key)"

fun first_value :: "bool \<Rightarrow> string \<Rightarrow> Tuple list \<Rightarrow> val option" where
  "first_value meta key [] = None"
| "first_value meta key (t # ts) =
     (case getTupleValue t meta key of Some v \<Rightarrow> Some v | None \<Rightarrow> first_value meta key ts)"

definition jt_doGetValue :: "JoinTuple \<Rightarrow> bool \<Rightarrow> string \<Rightarrow> val option option" where
  "jt_doGetValue jt meta key = (let tuples = jt_Tuples jt in
     case split_on COLUMN_SEPARATOR key of
       [_] \<Rightarrow>
         if length tuples > 1 then Some (first_value meta key tuples)
         else (case tuples of [] \<Rightarrow> None | t # _ \<Rightarrow> Some (getTupleValue t meta key))
     | [emitter, k] \<Rightarrow>
         (case find (\<lambda>t. t_Emitter t = emitter) tuples of
            Some t \<Rightarrow> Some (getTupleValue t meta k) | None \<Rightarrow> Some None)
     | _ \<Rightarrow> Some None)"

definition jt_Value :: "JoinTuple \<Rightarrow> string \<Rightarrow> val option option" where
  "jt_Value jt key = (case AliasValue (jt_Alias jt) key of
     Some r \<Rightarrow> Some (Some r) | None \<Rightarrow> jt_doGetValue jt False key)"

definition jt_Meta :: "JoinTuple \<Rightarrow> string \<Rightarrow> val option option" where
  "jt_Meta jt key = jt_doGetValue jt True key"

text \<open>\<open>add_new r m\<close> adds the entries of \<open>m\<close> whose keys \<open>r\<close> does not have.\<close>

fun add_new :: "Message \<Rightarrow> Message \<Rightarrow> Message" where
  "add_new r [] = r"
| "add_new r ((k, v) # m) = add_new (if map_of r k = None then r @ [(k, v)] else r) m"

definition jt_All :: "JoinTuple \<Rightarrow> string \<Rightarrow> val option" where
  "jt_All jt stream =
     (if stream \<noteq> []
      then map_option (\<lambda>t. VMessage (t_Message t)) (find (\<lambda>t. t_Emitter t = stream) (jt_Tuples jt))
      else Some (VMessage (fold (\<lambda>t r. add_new r (t_Message t)) (jt_Tuples jt) [])))"

definition jt_Clone :: "JoinTuple \<Rightarrow> JoinTuple" where
  "jt_Clone jt = \<lparr>jt_Tuples = map Tuple_Clone (jt_Tuples jt), jt_Alias = None\<rparr>"

section \<open>Rows\<close>

text \<open>
  \<open>RLeftRight\<close> and \<open>RRightLeft\<close> are the lists of valuers of a join with more than two
  streams, \<^verbatim>\<open>MultiValuer(&left, &right, ..)\<close> and \<^verbatim>\<open>MultiValuer(&right,
  &left, ..)\<close>: the first valuer that knows a key answers, and the first one takes the aliases.
\<close>

datatype row =
    RTuple Tuple
  | RJoin JoinTuple
  | RMessage Message
  | RLeftRight JoinTuple Tuple
  | RRightLeft Tuple JoinTuple

fun first_of :: "val option option \<Rightarrow> val option option \<Rightarrow> val option option" where
  "first_of None _ = None"
| "first_of (Some (Some v)) _ = Some (Some v)"
| "first_of (Some None) w = w"

fun row_Value :: "row \<Rightarrow> string \<Rightarrow> val option option" where
  "row_Value (RTuple t) key = Some (Tuple_Value t key)"
| "row_Value (RJoin jt) key = jt_Value jt key"
| "row_Value (RMessage m) key = Some (Message_Value m key)"
| "row_Value (RLeftRight jt t) key = first_of (jt_Value jt key) (Some (Tuple_Value t key))"
| "row_Value (RRightLeft t jt) key = first_of (Some (Tuple_Value t key)) (jt_Value jt key)"

fun row_Meta :: "row \<Rightarrow> string \<Rightarrow> val option option" where
  "row_Meta (RTuple t) key = Some (Tuple_Meta t key)"
| "row_Meta (RJoin jt) key = jt_Meta jt key"
| "row_Meta (RMessage m) key = Some (Message_Meta m key)"
| "row_Meta (RLeftRight jt t) key = first_of (jt_Meta jt key) (Some (Tuple_Meta t key))"
| "row_Meta (RRightLeft t jt) key = first_of (Some (Tuple_Meta t key)) (jt_Meta jt key)"

definition row_All :: "row \<Rightarrow> string \<Rightarrow> val option" where
  "row_All r s = (case r of RTuple t \<Rightarrow> Tuple_All t s | RJoin jt \<Rightarrow> jt_All jt s | _ \<Rightarrow> None)"

fun row_Alias :: "row \<Rightarrow> Alias" where
  "row_Alias (RTuple t) = t_Alias t"
| "row_Alias (RJoin jt) = jt_Alias jt"
| "row_Alias (RMessage m) = None"
| "row_Alias (RLeftRight jt t) = jt_Alias jt"
| "row_Alias (RRightLeft t jt) = t_Alias t"

fun row_set_Alias :: "row \<Rightarrow> Alias \<Rightarrow> row" where
  "row_set_Alias (RTuple t) a = RTuple (t\<lparr>t_Alias := a\<rparr>)"
| "row_set_Alias (RJoin jt) a = RJoin (jt\<lparr>jt_Alias := a\<rparr>)"
| "row_set_Alias (RMessage m) a = RMessage m"
| "row_set_Alias (RLeftRight jt t) a = RLeftRight (jt\<lparr>jt_Alias := a\<rparr>) t"
| "row_set_Alias (RRightLeft t jt) a = RRightLeft (t\<lparr>t_Alias := a\<rparr>) jt"

definition row_AppendAlias :: "row \<Rightarrow> string \<Rightarrow> val \<Rightarrow> row" where
  "row_AppendAlias r key v = row_set_Alias r (AppendAlias (row_Alias r) key v)"

text \<open>\<^verbatim>\<open>WildcardValuer.Value\<close>; \<open>index_star\<close> is the first occurrence of the
  separator followed by an asterisk.\<close>

fun index_star :: "string \<Rightarrow> nat option" where
  "index_star (c # d # s) =
     (if c = COLUMN_SEPARATOR \<and> d = CHR ''*'' then Some 0 else map_option Suc (index_star (d # s)))"
| "index_star _ = None"

definition Wildcard_Value :: "row \<Rightarrow> string \<Rightarrow> val option" where
  "Wildcard_Value r key =
     (if key = [] then row_All r key
      else (case index_star key of
              None \<Rightarrow> None | Some a \<Rightarrow> if a = 0 then None else row_All r (take a key)))"

section \<open>Collections\<close>

record WindowRange =
  WindowStart :: int
  WindowEnd :: int

record WindowTuples =
  wt_Emitter :: string
  wt_Tuples :: "Tuple list"

record WindowTuplesSet =
  wts_Content :: "WindowTuples list"
  wts_Range :: "WindowRange option"

definition GetBySrc :: "WindowTuplesSet \<Rightarrow> string \<Rightarrow> Tuple list" where
  "GetBySrc w src = (case find (\<lambda>me. wt_Emitter me = src) (wts_Content w) of
     Some me \<Rightarrow> wt_Tuples me | None \<Rightarrow> [])"

definition wts_Len :: "WindowTuplesSet \<Rightarrow> nat" where
  "wts_Len w = (case wts_Content w of [] \<Rightarrow> 0 | c # _ \<Rightarrow> length (wt_Tuples c))"

fun add_tuple :: "Tuple \<Rightarrow> WindowTuples list \<Rightarrow> WindowTuples list" where
  "add_tuple tuple [] = [\<lparr>wt_Emitter = t_Emitter tuple, wt_Tuples = [tuple]\<rparr>]"
| "add_tuple tuple (t # ts) =
     (if wt_Emitter t = t_Emitter tuple then t\<lparr>wt_Tuples := wt_Tuples t @ [tuple]\<rparr> # ts
      else t # add_tuple tuple ts)"

definition wts_AddTuple :: "WindowTuplesSet \<Rightarrow> Tuple \<Rightarrow> WindowTuplesSet" where
  "wts_AddTuple w tuple = w\<lparr>wts_Content := add_tuple tuple (wts_Content w)\<rparr>"

text \<open>\<^verbatim>\<open>sort.SliceStable\<close> by timestamp is \<^const>\<open>sort_key\<close>.\<close>

definition wts_Sort :: "WindowTuplesSet \<Rightarrow> WindowTuplesSet" where
  "wts_Sort w = w\<lparr>wts_Content :=
     map (\<lambda>t. t\<lparr>wt_Tuples := sort_key t_Timestamp (wt_Tuples t)\<rparr>) (wts_Content w)\<rparr>"

record JoinTupleSets =
  jts_Content :: "JoinTuple list"
  jts_Range :: "WindowRange option"

record GroupedTuples =
  gt_Content :: "row list"
  gt_Range :: "WindowRange option"

section \<open>Lemmas\<close>

text \<open>Column names are case-insensitive: the case of the key never matters.\<close>

lemma char_lower_sep: "char_lower c = COLUMN_SEPARATOR \<longleftrightarrow> c = COLUMN_SEPARATOR"
  by (auto simp: char_lower_def COLUMN_SEPARATOR_def Let_def of_char_of dest!: arg_cong [where f = "of_char :: char \<Rightarrow> nat"])

lemma split_on_to_lower:
  "split_on COLUMN_SEPARATOR (to_lower s) = map to_lower (split_on COLUMN_SEPARATOR s)"
  by (induction s) (auto simp: to_lower_def char_lower_sep split: list.splits)

lemma getIgnoreCase_to_lower: "getIgnoreCase m (to_lower key) = getIgnoreCase m key"
  by (simp add: getIgnoreCase_def)

lemma Message_Value_to_lower: "Message_Value m (to_lower key) = Message_Value m key"
  by (simp add: Message_Value_def split_on_to_lower getIgnoreCase_to_lower split: list.splits option.splits)

text \<open>A set after \<^verbatim>\<open>AddTuple\<close>: the tuple joins its own source and no other changes.\<close>

lemma find_add_tuple:
  "find (\<lambda>me. wt_Emitter me = src) (add_tuple t c) =
     (if src = t_Emitter t
      then Some \<lparr>wt_Emitter = src, wt_Tuples =
        (case find (\<lambda>me. wt_Emitter me = src) c of Some me \<Rightarrow> wt_Tuples me | None \<Rightarrow> []) @ [t]\<rparr>
      else find (\<lambda>me. wt_Emitter me = src) c)"
  by (induction c) auto

lemma GetBySrc_AddTuple:
  "GetBySrc (wts_AddTuple w t) src = GetBySrc w src @ (if src = t_Emitter t then [t] else [])"
  by (simp add: GetBySrc_def wts_AddTuple_def find_add_tuple split: option.splits)

lemma GetBySrc_empty: "GetBySrc \<lparr>wts_Content = [], wts_Range = r\<rparr> src = []"
  by (simp add: GetBySrc_def)

lemma add_tuple_emitters:
  "wt_Emitter ` set (add_tuple t c) = insert (t_Emitter t) (wt_Emitter ` set c)"
  by (induction c) auto

lemma distinct_add_tuple:
  "distinct (map wt_Emitter c) \<Longrightarrow> distinct (map wt_Emitter (add_tuple t c))"
proof (induction c)
  case (Cons a c)
  then show ?case
    using add_tuple_emitters [of t c] by (auto simp: image_iff)
qed simp

lemma GetBySrc_fold_AddTuple:
  "GetBySrc (fold (\<lambda>t w. wts_AddTuple w t) ts w) src =
     GetBySrc w src @ filter (\<lambda>t. t_Emitter t = src) ts"
  by (induction ts arbitrary: w) (auto simp: GetBySrc_AddTuple)

lemma wts_Range_fold_AddTuple:
  "wts_Range (fold (\<lambda>t w. wts_AddTuple w t) ts w) = wts_Range w"
  by (induction ts arbitrary: w) (auto simp: wts_AddTuple_def)

lemma find_map_same:
  "(\<And>x. P (f x) = P x) \<Longrightarrow> find P (map f xs) = map_option f (find P xs)"
  by (induction xs) auto

lemma GetBySrc_Sort: "GetBySrc (wts_Sort w) src = sort_key t_Timestamp (GetBySrc w src)"
  unfolding GetBySrc_def wts_Sort_def
  by (simp add: find_map_same split: option.splits)

text \<open>Merging messages keeps the first value of every key.\<close>

lemma map_of_add_new: "map_of (add_new r m) = map_of m ++ map_of r"
proof (induction r m rule: add_new.induct)
  case (2 r k v m)
  then show ?case
    by (auto simp: map_add_def fun_eq_iff split: option.splits)
qed simp

lemma jt_All_parts:
  "map_of (fold (\<lambda>t r. add_new r (t_Message t)) ts r) =
     foldr (\<lambda>t f. f ++ map_of (t_Message t)) ts (\<lambda>_. None) ++ map_of r"
proof (induction ts arbitrary: r)
  case (Cons t ts)
  then show ?case
    by (simp add: map_of_add_new)
qed (simp add: map_add_def)

end
