(* ===== verification/FieldProcessor.thy ===== *)
theory FieldProcessor
  imports Planner Rows Cast TimeFormat
begin

text \<open>
  The entry of a tuple into a rule: \<^verbatim>\<open>operator/field_processor.go\<close>, which checks and converts every field to the type its stream declares, \<^verbatim>\<open>operator/preprocessor.go\<close>
  and \<^verbatim>\<open>operator/table_processor.go\<close>.

  \<open>None\<close> is a panic, \<open>Inl\<close> a returned error; the printed value is left out of the messages. \<^verbatim>\<open>time.Parse\<close>, \<^verbatim>\<open>base64\<close> and \<^verbatim>\<open>json.Unmarshal\<close> are the fields of
  the record \<open>codec\<close>.
\<close>

section \<open>Values before and after the conversion\<close>

text \<open>
  The dynamic types that \<^typ>\<open>val\<close> leaves out: byte slices, typed slices and maps that hold them. \<open>None\<close> in a slice or a map is the nil one. \<open>elem_ty\<close> is the element type of a
  slice.
\<close>

datatype elem_ty = ElInt | ElFloat | ElString | ElTime | ElBool | ElBytes | ElIface | ElMap | ElSlice elem_ty

datatype fval =
    FVal val
  | FBytes "8 word list"
  | FRec "(string \<times> fval) list option"
  | FSlice elem_ty "fval list option"

type_synonym fmap = "(string \<times> fval) list"

text \<open>\<open>cd_json_arr\<close> gives \<open>Some None\<close> for the text \<^verbatim>\<open>null\<close>, which leaves a nil slice; \<open>cd_json_map\<close> gives the entries of the map it leaves.\<close>

record codec =
  cd_time :: time_parse
  cd_b64 :: "string \<Rightarrow> 8 word list option"
  cd_json_arr :: "string \<Rightarrow> val list option option"
  cd_json_map :: "string \<Rightarrow> (string \<times> val) list option"

section \<open>Sequencing\<close>

type_synonym 'a outcome = "(string + 'a) option"

abbreviation ok :: "'a \<Rightarrow> 'a outcome" where
  "ok x \<equiv> Some (Inr x)"

abbreviation bad :: "string \<Rightarrow> 'a outcome" where
  "bad e \<equiv> Some (Inl e)"

definition obind :: "'a outcome \<Rightarrow> ('a \<Rightarrow> 'b outcome) \<Rightarrow> 'b outcome" where
  "obind x k = (case x of None \<Rightarrow> None | Some (Inl e) \<Rightarrow> Some (Inl e) | Some (Inr a) \<Rightarrow> k a)"

definition relabel :: "(string \<Rightarrow> string) \<Rightarrow> 'a outcome \<Rightarrow> 'a outcome" where
  "relabel g = map_option (map_sum g id)"

primrec traverse :: "('a \<Rightarrow> 'b outcome) \<Rightarrow> 'a list \<Rightarrow> 'b list outcome" where
  "traverse g [] = ok []"
| "traverse g (x # xs) = obind (g x) (\<lambda>y. obind (traverse g xs) (\<lambda>ys. ok (y # ys)))"

lemma obind_ok: "obind x k = ok r \<longleftrightarrow> (\<exists>a. x = ok a \<and> k a = ok r)"
  by (auto simp: obind_def split: option.splits sum.splits)

lemma relabel_ok [simp]: "relabel g x = ok r \<longleftrightarrow> x = ok r"
  by (cases x rule: option.exhaust; cases "the x") (auto simp: relabel_def)

lemma traverse_all: "traverse g xs = ok ys \<Longrightarrow> (\<And>x y. g x = ok y \<Longrightarrow> P y) \<Longrightarrow> \<forall>y \<in> set ys. P y"
  by (induction xs arbitrary: ys) (auto simp: obind_ok)

section \<open>Basic types\<close>

text \<open>\<^verbatim>\<open>parseTime\<close>.\<close>

definition parseTime :: "codec \<Rightarrow> string \<Rightarrow> string \<Rightarrow> int outcome" where
  "parseTime c fmt s = (if fmt \<noteq> [] then ParseTime (cd_time c) s fmt else Some (parse_layout (cd_time c) s JSISO))"

definition of_option :: "string \<Rightarrow> ('a \<Rightarrow> 'b) \<Rightarrow> 'a option \<Rightarrow> 'b outcome" where
  "of_option e g x = (case x of None \<Rightarrow> bad e | Some a \<Rightarrow> ok (g a))"

definition expect :: "string \<Rightarrow> string \<Rightarrow> string" where
  "expect n ty = ''invalid data type for '' @ n @ '', expect '' @ ty"

abbreviation vint :: "int \<Rightarrow> fval" where
  "vint i \<equiv> FVal (VInt (word_of_int i))"

text \<open>
  The branches of \<^verbatim>\<open>addRecField\<close> for a basic type: the value to store, or nothing when the code stores nothing. A \<^verbatim>\<open>DATETIME\<close> given as \<^verbatim>\<open>int\<close> is asserted to be an
  \<^verbatim>\<open>int64\<close>, which panics.
\<close>

definition bigint_field :: "string \<Rightarrow> fval \<Rightarrow> fval outcome" where
  "bigint_field n t = (case t of
     FVal (VInt i) \<Rightarrow> ok t
   | FVal (VFloat64 x) \<Rightarrow>
       ok (if f_lt (f_of_int max_i64) x then FVal (VUint64 (word_of_int (f_to_uint64 x))) else vint (f_to_int64 x))
   | FVal (VString s) \<Rightarrow> of_option (expect n ''bigint'') vint (Atoi s)
   | FVal (VUint64 i) \<Rightarrow> ok t
   | _ \<Rightarrow> bad (expect n ''bigint''))"

definition float_field :: "string \<Rightarrow> fval \<Rightarrow> fval outcome" where
  "float_field n t = (case t of
     FVal (VFloat64 x) \<Rightarrow> ok t
   | FVal (VString s) \<Rightarrow> of_option (expect n ''float'') (\<lambda>x. FVal (VFloat64 x)) (ParseFloat s)
   | _ \<Rightarrow> bad (expect n ''float''))"

definition string_field :: "string \<Rightarrow> fval \<Rightarrow> fval outcome" where
  "string_field n t = (case t of FVal (VString s) \<Rightarrow> ok t | _ \<Rightarrow> bad (expect n ''string''))"

definition datetime_field :: "codec \<Rightarrow> string \<Rightarrow> string \<Rightarrow> fval \<Rightarrow> fval outcome" where
  "datetime_field c fmt n t = (case t of
     FVal (VInt i) \<Rightarrow> None
   | FVal (VFloat64 x) \<Rightarrow> ok (FVal (VTime (TimeFromUnixMilli (f_to_int64 x))))
   | FVal (VString s) \<Rightarrow>
       obind (relabel (\<lambda>e. ''invalid data type for '' @ n @ '', cannot convert to datetime: '' @ e) (parseTime c fmt s))
         (\<lambda>ns. ok (FVal (VTime ns)))
   | _ \<Rightarrow> bad (expect n ''datetime''))"

definition boolean_field :: "string \<Rightarrow> fval \<Rightarrow> fval outcome" where
  "boolean_field n t = (case t of
     FVal (VBool b) \<Rightarrow> ok t
   | FVal (VString s) \<Rightarrow> of_option (expect n ''boolean'') (\<lambda>b. FVal (VBool b)) (ParseBool s)
   | _ \<Rightarrow> bad (expect n ''boolean''))"

text \<open>A value that is neither a string nor a slice is left out without an error.\<close>

definition bytea_field :: "codec \<Rightarrow> string \<Rightarrow> fval \<Rightarrow> fval option outcome" where
  "bytea_field c n t = (case t of
     FVal (VString s) \<Rightarrow> of_option (expect n ''bytea'') (\<lambda>b. Some (FBytes b)) (cd_b64 c s)
   | FBytes b \<Rightarrow> ok (Some t)
   | FVal (VSlice _) \<Rightarrow> bad (expect n ''bytea'')
   | FSlice _ _ \<Rightarrow> bad (expect n ''bytea'')
   | _ \<Rightarrow> ok None)"

definition basic_field :: "codec \<Rightarrow> string \<Rightarrow> DataType \<Rightarrow> string \<Rightarrow> fval \<Rightarrow> fval option outcome" where
  "basic_field c fmt d n t = (case d of
     UNKNOWN \<Rightarrow> bad ''invalid data type unknown defined, please check the stream definition''
   | BIGINT \<Rightarrow> obind (bigint_field n t) (\<lambda>v. ok (Some v))
   | FLOAT \<Rightarrow> obind (float_field n t) (\<lambda>v. ok (Some v))
   | STRINGS \<Rightarrow> obind (string_field n t) (\<lambda>v. ok (Some v))
   | DATETIME \<Rightarrow> obind (datetime_field c fmt n t) (\<lambda>v. ok (Some v))
   | BOOLEAN \<Rightarrow> obind (boolean_field n t) (\<lambda>v. ok (Some v))
   | BYTEA \<Rightarrow> bytea_field c n t
   | _ \<Rightarrow> bad ''invalid data type, it is not supported yet'')"

section \<open>Arrays of basic types\<close>

text \<open>The element conversions of \<^verbatim>\<open>addArrayField\<close>; here an \<^verbatim>\<open>int\<close> is refused for \<^verbatim>\<open>BIGINT\<close>.\<close>

definition bigint_elem :: "fval \<Rightarrow> fval outcome" where
  "bigint_elem t = (case t of
     FVal (VFloat64 x) \<Rightarrow> ok (vint (f_to_int64 x))
   | FVal (VString s) \<Rightarrow> of_option (expect ''element'' ''float'') vint (Atoi s)
   | _ \<Rightarrow> bad (expect ''element'' ''float''))"

definition typed_slice :: "elem_ty \<Rightarrow> (fval \<Rightarrow> fval outcome) \<Rightarrow> fval list option \<Rightarrow> fval outcome" where
  "typed_slice e g src = (case src of
     None \<Rightarrow> ok (FSlice e None)
   | Some ts \<Rightarrow> obind (traverse g ts) (\<lambda>vs. ok (FSlice e (Some vs))))"

definition basic_array :: "codec \<Rightarrow> string \<Rightarrow> DataType \<Rightarrow> fval list option \<Rightarrow> fval outcome" where
  "basic_array c fmt d src = (case d of
     UNKNOWN \<Rightarrow> bad ''invalid data type unknown defined, please check the stream definition''
   | BIGINT \<Rightarrow> typed_slice ElInt bigint_elem src
   | FLOAT \<Rightarrow> typed_slice ElFloat (float_field ''element'') src
   | STRINGS \<Rightarrow> typed_slice ElString (string_field ''element'') src
   | DATETIME \<Rightarrow> typed_slice ElTime (datetime_field c fmt ''element'') src
   | BOOLEAN \<Rightarrow> typed_slice ElBool (boolean_field ''element'') src
   | BYTEA \<Rightarrow> (case src of
       None \<Rightarrow> ok (FSlice ElBytes None)
     | Some ts \<Rightarrow> obind (traverse (bytea_field c ''element'') ts) (\<lambda>vs. ok (FSlice ElBytes (Some (List.map_filter id vs)))))
   | _ \<Rightarrow> bad ''invalid data type'')"

section \<open>Structures and nested arrays\<close>

text \<open>The assertion to \<^verbatim>\<open>[]interface{}\<close> panics for a slice of another type.\<close>

definition iface_slice :: "codec \<Rightarrow> string \<Rightarrow> fval \<Rightarrow> fval list option outcome" where
  "iface_slice c n t = (case t of
     FVal VNil \<Rightarrow> ok None
   | FVal (VSlice xs) \<Rightarrow> ok (Some (map FVal xs))
   | FSlice e xs \<Rightarrow> if e = ElIface then ok xs else None
   | FBytes _ \<Rightarrow> None
   | FVal (VString s) \<Rightarrow> of_option (expect n ''array'') (map_option (map FVal)) (cd_json_arr c s)
   | _ \<Rightarrow> bad (expect n ''array''))"

definition map_of_fval :: "codec \<Rightarrow> string \<Rightarrow> fval \<Rightarrow> fmap outcome" where
  "map_of_fval c n t = (case t of
     FVal (VMap es) \<Rightarrow> ok (map (\<lambda>(k, v). (k, FVal v)) es)
   | FRec es \<Rightarrow> ok (case es of None \<Rightarrow> [] | Some m \<Rightarrow> m)
   | FVal (VString s) \<Rightarrow> of_option (expect n ''map'') (map (\<lambda>(k, v). (k, FVal v))) (cd_json_map c s)
   | _ \<Rightarrow> bad (expect n ''map''))"

definition assign :: "fmap \<Rightarrow> string \<Rightarrow> fval option \<Rightarrow> fmap" where
  "assign r n v = (case v of None \<Rightarrow> r | Some x \<Rightarrow> AList.update n x r)"

fun slice_ty :: "fval \<Rightarrow> elem_ty" where
  "slice_ty (FSlice e _) = ElSlice e"
| "slice_ty _ = ElIface"

text \<open>
  The slice of slices is built by reflection: its type is that of the first element, appending another type panics, and so does the empty one, which never gets a type.
\<close>

fun collect :: "(fval \<Rightarrow> fval outcome) \<Rightarrow> fval list \<Rightarrow> fval list \<Rightarrow> fval outcome" where
  "collect g acc [] = (case acc of [] \<Rightarrow> None | v # _ \<Rightarrow> ok (FSlice (slice_ty v) (Some acc)))"
| "collect g acc (t # ts) =
     obind (g t) (\<lambda>v. if acc \<noteq> [] \<and> slice_ty v \<noteq> slice_ty (hd acc) then None else collect g (acc @ [v]) ts)"

text \<open>
  \<^verbatim>\<open>addRecField\<close> and \<^verbatim>\<open>addArrayField\<close>. \<open>field_value\<close> is the body of \<^verbatim>\<open>addRecField\<close> once the field has been found, \<open>rec_fields\<close> its loop over the fields
  of a structure, which looks up the lower-case name in a structure (\<open>low\<close>) and the plain name in an array of structures.
\<close>

fun field_value :: "codec \<Rightarrow> string \<Rightarrow> FieldType option \<Rightarrow> string \<Rightarrow> fval \<Rightarrow> fval option outcome"
  and rec_fields :: "codec \<Rightarrow> string \<Rightarrow> bool \<Rightarrow> (string \<times> FieldType option) list \<Rightarrow> fmap \<Rightarrow> fmap \<Rightarrow> fmap outcome"
  and addArrayField :: "codec \<Rightarrow> string \<Rightarrow> DataType \<Rightarrow> FieldType option \<Rightarrow> fval list option \<Rightarrow> fval outcome" where
  "field_value c fmt None n t = bad ''unsupported type''"
| "field_value c fmt (Some (BasicType d)) n t = basic_field c fmt d n t"
| "field_value c fmt (Some (ArrayType d e)) n t =
     obind (iface_slice c n t) (\<lambda>s.
       obind (relabel (\<lambda>m. ''fail to parse field '' @ n @ '': '' @ m) (addArrayField c fmt d e s)) (\<lambda>v. ok (Some v)))"
| "field_value c fmt (Some (RecType fs)) n t =
     (if t = FVal VNil then ok (Some (FRec None))
      else obind (map_of_fval c n t) (\<lambda>j. obind (rec_fields c fmt True fs [] j) (\<lambda>r. ok (Some (FRec (Some r))))))"
| "rec_fields c fmt low [] r j = ok r"
| "rec_fields c fmt low ((n, ft) # fs) r j =
     (let k = (if low then to_lower n else n) in
      case Message_Value j k of
        None \<Rightarrow> bad (''field '' @ k @ '' not found'')
      | Some t \<Rightarrow> obind (field_value c fmt ft k t) (\<lambda>v. rec_fields c fmt low fs (assign r k v) j))"
| "addArrayField c fmt d None s = basic_array c fmt d s"
| "addArrayField c fmt d (Some (BasicType _)) s = bad ''unsupported type''"
| "addArrayField c fmt d (Some (ArrayType d2 e)) s = (case s of
     None \<Rightarrow> ok (FSlice (ElSlice ElIface) None)
   | Some ts \<Rightarrow> collect (\<lambda>t. obind (iface_slice c ''element'' t) (addArrayField c fmt d2 e)) [] ts)"
| "addArrayField c fmt d (Some (RecType fs)) s =
     typed_slice ElMap (\<lambda>t.
       if t = FVal VNil then ok (FRec None)
       else obind (map_of_fval c ''element'' t) (\<lambda>j. obind (rec_fields c fmt False fs [] j) (\<lambda>r. ok (FRec (Some r))))) s"

definition addRecField :: "codec \<Rightarrow> string \<Rightarrow> FieldType option \<Rightarrow> fmap \<Rightarrow> fmap \<Rightarrow> string \<Rightarrow> fmap outcome" where
  "addRecField c fmt ft r j n = (case Message_Value j n of
     None \<Rightarrow> bad (''field '' @ n @ '' not found'')
   | Some t \<Rightarrow> obind (field_value c fmt ft n t) (\<lambda>v. ok (assign r n v)))"

section \<open>processField\<close>

record defaultFieldProcessor =
  streamFields :: "stream_field list option"
  timestampFormat :: string
  isBinary :: bool

definition DefaultField :: string where
  "DefaultField = ''self''"

text \<open>The message of a tuple may be nil: reading it finds nothing, writing to it panics.\<close>

definition fentries :: "fmap option \<Rightarrow> fmap" where
  "fentries m = (case m of None \<Rightarrow> [] | Some es \<Rightarrow> es)"

definition process_one :: "codec \<Rightarrow> defaultFieldProcessor \<Rightarrow> fmap option \<Rightarrow> stream_field \<Rightarrow> fmap option \<Rightarrow> fmap option outcome" where
  "process_one c p m sf r = (case sf of
     SchemaField n ft \<Rightarrow>
       if isBinary p then
         (case m of
            None \<Rightarrow> None
          | Some es \<Rightarrow>
              (let self = (case map_of es DefaultField of None \<Rightarrow> FVal VNil | Some v \<Rightarrow> v)
               in obind (addRecField c (timestampFormat p) ft (fentries r) (AList.update n self es) n) (\<lambda>r1. ok (Some r1))))
       else obind (addRecField c (timestampFormat p) ft (fentries r) (fentries m) n) (\<lambda>r1. ok (Some r1))
   | NameField n \<Rightarrow>
       if isBinary p then ok m
       else ok (Some (assign (fentries r) n (Message_Value (fentries m) n))))"

fun process_fields :: "codec \<Rightarrow> defaultFieldProcessor \<Rightarrow> fmap option \<Rightarrow> stream_field list \<Rightarrow> fmap option \<Rightarrow> fmap option outcome" where
  "process_fields c p m [] r = ok r"
| "process_fields c p m (sf # sfs) r =
     obind (process_one c p m sf r) (\<lambda>r1. if isBinary p then ok r1 else process_fields c p m sfs r1)"

definition processField :: "codec \<Rightarrow> defaultFieldProcessor \<Rightarrow> fmap option \<Rightarrow> fmap option outcome" where
  "processField c p m = (case streamFields p of None \<Rightarrow> ok m | Some sfs \<Rightarrow> process_fields c p m sfs (Some []))"

section \<open>Preprocessor and TableProcessor\<close>

record PTuple =
  pt_Emitter :: string
  pt_Message :: "fmap option"
  pt_Timestamp :: int
  pt_Metadata :: "Message option"

record Preprocessor = defaultFieldProcessor +
  pp_allMeta :: bool
  pp_metaFields :: "string list"
  pp_isEventTime :: bool
  pp_timestampField :: string

definition NewPreprocessor :: "stream_field list option \<Rightarrow> bool \<Rightarrow> string list \<Rightarrow> bool \<Rightarrow> string \<Rightarrow> string \<Rightarrow> bool \<Rightarrow> Preprocessor" where
  "NewPreprocessor fs allMeta metaFields iet timestampF format binary =
     \<lparr>streamFields = fs, timestampFormat = format, isBinary = binary, pp_allMeta = allMeta, pp_metaFields = metaFields,
      pp_isEventTime = iet, pp_timestampField = timestampF\<rparr>"

definition fval_millis :: "time_parse \<Rightarrow> fval \<Rightarrow> string \<Rightarrow> int outcome" where
  "fval_millis tp t fmt = (case t of FVal v \<Rightarrow> InterfaceToUnixMilli tp v fmt | _ \<Rightarrow> bad ''unsupported type to convert to timestamp'')"

text \<open>The time of the tuple: with event time it is read from the timestamp field.\<close>

definition stamp :: "codec \<Rightarrow> Preprocessor \<Rightarrow> fmap \<Rightarrow> int \<Rightarrow> int outcome" where
  "stamp c p m old =
     (if pp_isEventTime p then
        (case map_of m (pp_timestampField p) of
           None \<Rightarrow> bad (''cannot find timestamp field '' @ pp_timestampField p)
         | Some t \<Rightarrow> relabel (\<lambda>e. ''cannot convert timestamp field '' @ pp_timestampField p @ '': '' @ e) (fval_millis (cd_time c) t (timestampFormat p)))
      else ok old)"

definition pruned_meta :: "Preprocessor \<Rightarrow> Message option \<Rightarrow> Message option" where
  "pruned_meta p meta =
     (if \<not> pp_allMeta p \<and> pp_metaFields p \<noteq> [] then
        Some (fold (\<lambda>f m. case Message_Value (map_entries meta) f of None \<Rightarrow> m | Some v \<Rightarrow> AList.update (to_lower f) v m) (pp_metaFields p) [])
      else meta)"

text \<open>\<open>None\<close> as data is a value that is not a tuple.\<close>

definition Preprocessor_Apply :: "codec \<Rightarrow> Preprocessor \<Rightarrow> PTuple option \<Rightarrow> PTuple outcome" where
  "Preprocessor_Apply c p data = (case data of
     None \<Rightarrow> bad ''expect tuple data type''
   | Some t \<Rightarrow>
       obind (relabel ((@) ''error in preprocessor: '') (processField c (defaultFieldProcessor.truncate p) (pt_Message t))) (\<lambda>result.
         obind (stamp c p (fentries result) (pt_Timestamp t)) (\<lambda>ts.
           ok (t\<lparr>pt_Message := result, pt_Timestamp := ts, pt_Metadata := pruned_meta p (pt_Metadata t)\<rparr>))))"

record TableProcessor = defaultFieldProcessor +
  tbl_isBatchInput :: bool
  tbl_retainSize :: int
  tbl_emitterName :: string
  tbl_output :: "PTuple list"
  tbl_batchEmitted :: bool

definition isBatch :: "string \<Rightarrow> bool" where
  "isBatch t \<longleftrightarrow> t = ''file'' \<or> t = []"

definition NewTableProcessor :: "string \<Rightarrow> stream_field list option \<Rightarrow> Options \<Rightarrow> TableProcessor" where
  "NewTableProcessor name fs options =
     (let p = \<lparr>streamFields = fs, timestampFormat = TIMESTAMP_FORMAT options, isBinary = False, tbl_isBatchInput = False,
               tbl_retainSize = 1, tbl_emitterName = name, tbl_output = [], tbl_batchEmitted = True\<rparr>
      in if RETAIN_SIZE options > 0 then p\<lparr>tbl_retainSize := RETAIN_SIZE options\<rparr>
         else if isBatch (opt_TYPE options) then p\<lparr>tbl_isBatchInput := True, tbl_retainSize := 0\<rparr>
         else p)"

definition retain :: "int \<Rightarrow> PTuple list \<Rightarrow> PTuple \<Rightarrow> PTuple list" where
  "retain k out t = (if k > 0 \<and> int (length out) = k then tl out else out) @ [t]"

text \<open>The state after the call and what it returns: an error, nothing, or the batch.\<close>

definition TableProcessor_Apply :: "codec \<Rightarrow> TableProcessor \<Rightarrow> PTuple option \<Rightarrow> (TableProcessor \<times> (string + PTuple list option)) option" where
  "TableProcessor_Apply c p data = (case data of
     None \<Rightarrow> Some (p, Inl ''expect *xsql.Tuple data type'')
   | Some t \<Rightarrow>
       (let p1 = (if tbl_batchEmitted p then p\<lparr>tbl_output := [], tbl_batchEmitted := False\<rparr> else p) in
        case pt_Message t of
          Some m \<Rightarrow>
            (case processField c (defaultFieldProcessor.truncate p1) (Some m) of
               None \<Rightarrow> None
             | Some (Inl e) \<Rightarrow> Some (p1, Inl (''error in table processor: '' @ e))
             | Some (Inr result) \<Rightarrow>
                 (let p2 = p1\<lparr>tbl_output := retain (tbl_retainSize p1) (tbl_output p1) (t\<lparr>pt_Message := result\<rparr>)\<rparr>
                  in Some (p2, Inr (if tbl_isBatchInput p2 then None else Some (tbl_output p2)))))
        | None \<Rightarrow>
            if tbl_isBatchInput p1 then Some (p1\<lparr>tbl_batchEmitted := True\<rparr>, Inr (Some (tbl_output p1)))
            else Some (p1, Inr None)))"

section \<open>Processed fields have the declared types\<close>

definition basic_typed :: "DataType \<Rightarrow> fval \<Rightarrow> bool" where
  "basic_typed d t = (case t of
     FVal v \<Rightarrow>
       (case v of
          VInt _ \<Rightarrow> d = BIGINT
        | VUint64 _ \<Rightarrow> d = BIGINT
        | VFloat64 _ \<Rightarrow> d = FLOAT
        | VString _ \<Rightarrow> d = STRINGS
        | VTime _ \<Rightarrow> d = DATETIME
        | VBool _ \<Rightarrow> d = BOOLEAN
        | _ \<Rightarrow> False)
   | FBytes _ \<Rightarrow> d = BYTEA
   | _ \<Rightarrow> False)"

fun el_of :: "DataType \<Rightarrow> elem_ty" where
  "el_of BIGINT = ElInt"
| "el_of FLOAT = ElFloat"
| "el_of STRINGS = ElString"
| "el_of DATETIME = ElTime"
| "el_of BOOLEAN = ElBool"
| "el_of BYTEA = ElBytes"
| "el_of _ = ElIface"

definition opt_list :: "'a list option \<Rightarrow> 'a list" where
  "opt_list xs = (case xs of None \<Rightarrow> [] | Some ys \<Rightarrow> ys)"

definition field_key :: "bool \<Rightarrow> string \<Rightarrow> string" where
  "field_key low n = (if low then to_lower n else n)"

text \<open>Every field but one of type \<^verbatim>\<open>BYTEA\<close> has been stored.\<close>

definition all_present :: "bool \<Rightarrow> (string \<times> FieldType option) list \<Rightarrow> fmap \<Rightarrow> bool" where
  "all_present low fs m = (\<forall>(n, ft) \<in> set fs. ft = Some (BasicType BYTEA) \<or> field_key low n \<in> fst ` set m)"

fun typed :: "FieldType option \<Rightarrow> fval \<Rightarrow> bool"
  and typed_array :: "DataType \<Rightarrow> FieldType option \<Rightarrow> fval \<Rightarrow> bool"
  and declared :: "bool \<Rightarrow> (string \<times> FieldType option) list \<Rightarrow> string \<Rightarrow> fval \<Rightarrow> bool" where
  "typed None v = False"
| "typed (Some (BasicType d)) v = basic_typed d v"
| "typed (Some (ArrayType d e)) v = typed_array d e v"
| "typed (Some (RecType fs)) v =
     (case v of FRec None \<Rightarrow> True
      | FRec (Some m) \<Rightarrow> all_present True fs m \<and> (\<forall>(k, x) \<in> set m. declared True fs k x) | _ \<Rightarrow> False)"
| "typed_array d None v = (case v of FSlice e xs \<Rightarrow> e = el_of d \<and> (\<forall>x \<in> set (opt_list xs). basic_typed d x) | _ \<Rightarrow> False)"
| "typed_array d (Some (BasicType _)) v = False"
| "typed_array d (Some (ArrayType d2 e2)) v =
     (case v of FSlice e xs \<Rightarrow> \<forall>x \<in> set (opt_list xs). slice_ty x = e \<and> typed_array d2 e2 x | _ \<Rightarrow> False)"
| "typed_array d (Some (RecType fs)) v =
     (case v of FSlice e xs \<Rightarrow> e = ElMap \<and> (\<forall>x \<in> set (opt_list xs).
        case x of FRec None \<Rightarrow> True
        | FRec (Some m) \<Rightarrow> all_present False fs m \<and> (\<forall>(k, y) \<in> set m. declared False fs k y) | _ \<Rightarrow> False)
      | _ \<Rightarrow> False)"
| "declared low [] k v = False"
| "declared low ((n, ft) # fs) k v = ((k = field_key low n \<and> typed ft v) \<or> declared low fs k v)"

lemma basic_typed_simps [simp]:
  "basic_typed d (FVal (VInt i)) \<longleftrightarrow> d = BIGINT"
  "basic_typed d (FVal (VUint64 i)) \<longleftrightarrow> d = BIGINT"
  "basic_typed d (FVal (VFloat64 x)) \<longleftrightarrow> d = FLOAT"
  "basic_typed d (FVal (VString s)) \<longleftrightarrow> d = STRINGS"
  "basic_typed d (FVal (VTime ns)) \<longleftrightarrow> d = DATETIME"
  "basic_typed d (FVal (VBool b)) \<longleftrightarrow> d = BOOLEAN"
  "basic_typed d (FBytes bs) \<longleftrightarrow> d = BYTEA"
  by (simp_all add: basic_typed_def)

lemma of_option_ok: "of_option e g x = ok r \<longleftrightarrow> (\<exists>a. x = Some a \<and> r = g a)"
  by (auto simp: of_option_def split: option.splits)

lemma bigint_field_typed: "bigint_field n t = ok v \<Longrightarrow> basic_typed BIGINT v"
  unfolding bigint_field_def
  by (cases t; simp; rename_tac x, case_tac x) (auto simp: of_option_ok split: if_splits)

lemma bigint_elem_typed: "bigint_elem t = ok v \<Longrightarrow> basic_typed BIGINT v"
  unfolding bigint_elem_def
  by (cases t; simp; rename_tac x, case_tac x) (auto simp: of_option_ok)

lemma float_field_typed: "float_field n t = ok v \<Longrightarrow> basic_typed FLOAT v"
  unfolding float_field_def
  by (cases t; simp; rename_tac x, case_tac x) (auto simp: of_option_ok)

lemma string_field_typed: "string_field n t = ok v \<Longrightarrow> basic_typed STRINGS v"
  unfolding string_field_def
  by (cases t; simp; rename_tac x, case_tac x) (auto simp: of_option_ok)

lemma datetime_field_typed: "datetime_field c fmt n t = ok v \<Longrightarrow> basic_typed DATETIME v"
  unfolding datetime_field_def
  by (cases t; simp; rename_tac x, case_tac x) (auto simp: obind_ok)

lemma boolean_field_typed: "boolean_field n t = ok v \<Longrightarrow> basic_typed BOOLEAN v"
  unfolding boolean_field_def
  by (cases t; simp; rename_tac x, case_tac x) (auto simp: of_option_ok)

lemma bytea_field_typed: "bytea_field c n t = ok (Some v) \<Longrightarrow> basic_typed BYTEA v"
  unfolding bytea_field_def
  by (cases t; simp; rename_tac x, case_tac x) (auto simp: of_option_ok)

lemmas basic_types = bigint_field_typed bigint_elem_typed float_field_typed string_field_typed datetime_field_typed
  boolean_field_typed bytea_field_typed

lemma basic_field_typed:
  "basic_field c fmt d n t = ok w \<Longrightarrow> (case w of None \<Rightarrow> d = BYTEA | Some v \<Rightarrow> basic_typed d v)"
  by (cases d) (auto simp: basic_field_def obind_ok dest: basic_types split: option.split)

lemma typed_slice_ok:
  assumes "typed_slice e g src = ok v" and "\<And>t x. g t = ok x \<Longrightarrow> P x"
  shows "\<exists>xs. v = FSlice e xs \<and> (\<forall>x \<in> set (opt_list xs). P x)"
proof (cases src)
  case None
  then show ?thesis
    using assms(1) by (auto simp: typed_slice_def opt_list_def)
next
  case (Some ts)
  then obtain vs where "traverse g ts = ok vs" "v = FSlice e (Some vs)"
    using assms(1) by (auto simp: typed_slice_def obind_ok)
  moreover have "\<forall>x \<in> set vs. P x"
    using traverse_all [OF \<open>traverse g ts = ok vs\<close>] assms(2) by blast
  ultimately show ?thesis
    by (auto simp: opt_list_def)
qed

lemma basic_array_typed: "basic_array c fmt d src = ok v \<Longrightarrow> typed_array d None v"
proof (cases "d = BYTEA")
  case True
  assume "basic_array c fmt d src = ok v"
  then show ?thesis
    using True by (auto simp: basic_array_def obind_ok opt_list_def map_filter_def split: option.splits
        dest!: traverse_all [where P = "\<lambda>w. \<forall>x. w = Some x \<longrightarrow> basic_typed BYTEA x"] bytea_field_typed)
next
  case False
  assume "basic_array c fmt d src = ok v"
  then show ?thesis
    using False by (cases d) (auto simp: basic_array_def dest!: typed_slice_ok [where P = "basic_typed d"] dest: basic_types)
qed

lemma collect_typed:
  assumes "collect g acc ts = ok v" and "\<And>t x. g t = ok x \<Longrightarrow> P x"
    and "\<forall>x \<in> set acc. P x \<and> slice_ty x = slice_ty (hd acc)"
  shows "\<exists>e xs. v = FSlice e (Some xs) \<and> (\<forall>x \<in> set xs. slice_ty x = e \<and> P x)"
  using assms(1,3)
proof (induction ts arbitrary: acc)
  case Nil
  then show ?case
    by (auto split: list.splits)
next
  case (Cons t ts)
  from Cons.prems(1) obtain x where x: "g t = ok x" "acc \<noteq> [] \<longrightarrow> slice_ty x = slice_ty (hd acc)" "collect g (acc @ [x]) ts = ok v"
    by (auto simp: obind_ok split: if_splits)
  have "P x"
    using x(1) by (rule assms(2))
  then have "\<forall>y \<in> set (acc @ [x]). P y \<and> slice_ty y = slice_ty (hd (acc @ [x]))"
    using Cons.prems(2) x(2) by (cases acc) simp_all
  then show ?case
    by (rule Cons.IH [OF x(3)])
qed

lemma set_update_sub: "set (AList.update k v m) \<subseteq> insert (k, v) (set m)"
  by (induction m) auto

lemma set_assign: "set (assign r k w) \<subseteq> set r \<union> {(k, v) | v. w = Some v}"
  using set_update_sub [of k] by (fastforce simp: assign_def split: option.splits)

lemma keys_assign: "fst ` set (assign r k w) = fst ` set r \<union> (if w = None then {} else {k})"
  by (auto simp: assign_def fst_set_update split: option.splits)

lemma field_types:
  "field_value c fmt ft n t = ok w \<Longrightarrow> (case w of None \<Rightarrow> ft = Some (BasicType BYTEA) | Some v \<Rightarrow> typed ft v)"
  "rec_fields c fmt low fs r j = ok r1 \<Longrightarrow>
     (\<forall>(k, v) \<in> set r1. (k, v) \<in> set r \<or> declared low fs k v) \<and> fst ` set r \<subseteq> fst ` set r1 \<and> all_present low fs r1"
  "addArrayField c fmt d e s = ok v \<Longrightarrow> typed_array d e v"
proof (induction c fmt ft n t and c fmt low fs r j and c fmt d e s arbitrary: w and r1 and v
    rule: field_value_rec_fields_addArrayField.induct)
  case (2 c fmt d n t)
  then show ?case
    using basic_field_typed [of c fmt d n t w] by (simp split: option.splits)
next
  case (6 c fmt low n ft fs r j)
  let ?k = "field_key low n"
  from 6(3) obtain t w where t: "Message_Value j ?k = Some t" "field_value c fmt ft ?k t = ok w"
    and f: "rec_fields c fmt low fs (assign r ?k w) j = ok r1"
    by (auto simp: obind_ok Let_def field_key_def split: option.splits)
  have w: "case w of None \<Rightarrow> ft = Some (BasicType BYTEA) | Some v \<Rightarrow> typed ft v"
    using 6(1) t by (simp add: field_key_def)
  have ih: "(\<forall>(k, v) \<in> set r1. (k, v) \<in> set (assign r ?k w) \<or> declared low fs k v)
      \<and> fst ` set (assign r ?k w) \<subseteq> fst ` set r1 \<and> all_present low fs r1"
    using 6(2) t f by (simp add: field_key_def)
  have "(k, v) \<in> set r \<or> declared low ((n, ft) # fs) k v" if "(k, v) \<in> set r1" for k v
  proof -
    from that ih have "(k, v) \<in> set (assign r ?k w) \<or> declared low fs k v"
      by blast
    moreover have "(k, v) \<in> set r \<or> declared low ((n, ft) # fs) k v" if "(k, v) \<in> set (assign r ?k w)"
      using that w set_assign [of r ?k w] by auto
    ultimately show ?thesis
      by auto
  qed
  moreover have "all_present low ((n, ft) # fs) r1"
    using ih w by (auto simp: keys_assign all_present_def split: if_splits)
  ultimately show ?case
    using ih by (auto simp: keys_assign)
next
  case (7 c fmt d s)
  then show ?case
    using basic_array_typed by simp
next
  case (9 c fmt d d2 e s)
  show ?case
  proof (cases s)
    case None
    then show ?thesis
      using 9(2) by (auto simp: opt_list_def)
  next
    case (Some ts)
    then have "collect (\<lambda>t. obind (iface_slice c ''element'' t) (addArrayField c fmt d2 e)) [] ts = ok v"
      using 9(2) by simp
    then have "\<exists>e1 xs. v = FSlice e1 (Some xs) \<and> (\<forall>x \<in> set xs. slice_ty x = e1 \<and> typed_array d2 e x)"
      by (rule collect_typed) (use 9(1) Some in \<open>auto simp: obind_ok\<close>)
    then show ?thesis
      by (auto simp: opt_list_def)
  qed
next
  case (10 c fmt d fs s)
  let ?P = "\<lambda>x. case x of FRec None \<Rightarrow> True
        | FRec (Some m) \<Rightarrow> all_present False fs m \<and> (\<forall>(k, y) \<in> set m. declared False fs k y) | _ \<Rightarrow> False"
  have "\<exists>xs. v = FSlice ElMap xs \<and> (\<forall>x \<in> set (opt_list xs). ?P x)"
    using 10(2) by (simp only: addArrayField.simps, elim typed_slice_ok) (use 10(1) in \<open>auto simp: obind_ok split: if_splits\<close>)
  then show ?case
    by auto
qed (auto simp: obind_ok all_present_def split: if_splits option.splits)

lemma addRecField_types:
  assumes "addRecField c fmt ft r j n = ok r1"
  shows "\<exists>w. (case w of None \<Rightarrow> ft = Some (BasicType BYTEA) | Some v \<Rightarrow> typed ft v) \<and> r1 = assign r n w"
  using assms by (auto simp: addRecField_def obind_ok split: option.split_asm dest!: field_types(1))

text \<open>What the loop has stored so far: declared fields of their types, and copied fields of a schemaless stream.\<close>

definition stored :: "fmap \<Rightarrow> stream_field list \<Rightarrow> string \<Rightarrow> fval \<Rightarrow> bool" where
  "stored m sfs k v \<longleftrightarrow> (\<exists>ft. SchemaField k ft \<in> set sfs \<and> typed ft v) \<or> (NameField k \<in> set sfs \<and> Message_Value m k = Some v)"

lemma stored_mono: "stored m sfs k v \<Longrightarrow> set sfs \<subseteq> set sfs1 \<Longrightarrow> stored m sfs1 k v"
  by (auto simp: stored_def)

lemma process_one_step:
  assumes "process_one c p m sf (Some r) = ok r1" and "\<not> isBinary p"
  obtains w where "r1 = Some (assign r (sfd_name sf) w)" "\<And>v. w = Some v \<Longrightarrow> stored (fentries m) [sf] (sfd_name sf) v"
    "\<And>ft. sf = SchemaField (sfd_name sf) ft \<Longrightarrow> w = None \<Longrightarrow> ft = Some (BasicType BYTEA)"
proof (cases sf)
  case (SchemaField n ft)
  then obtain r2 where r2: "addRecField c (timestampFormat p) ft r (fentries m) n = ok r2" "r1 = Some r2"
    using assms by (auto simp: process_one_def obind_ok fentries_def)
  obtain w where w: "case w of None \<Rightarrow> ft = Some (BasicType BYTEA) | Some v \<Rightarrow> typed ft v" "r2 = assign r n w"
    using addRecField_types [OF r2(1)] by blast
  show ?thesis
    by (rule that [of w]) (use SchemaField r2 w in \<open>auto simp: stored_def\<close>)
next
  case (NameField n)
  show ?thesis
    by (rule that [of "Message_Value (fentries m) n"])
      (use NameField assms in \<open>auto simp: process_one_def fentries_def stored_def\<close>)
qed

lemma process_fields_types:
  assumes "process_fields c p m sfs (Some r) = ok r1" and "\<not> isBinary p"
  shows "\<exists>r2. r1 = Some r2 \<and> (\<forall>(k, v) \<in> set r2. (k, v) \<in> set r \<or> stored (fentries m) sfs k v)
     \<and> fst ` set r \<subseteq> fst ` set r2
     \<and> (\<forall>n ft. SchemaField n ft \<in> set sfs \<longrightarrow> ft = Some (BasicType BYTEA) \<or> n \<in> fst ` set r2)"
  using assms(1)
proof (induction sfs arbitrary: r)
  case (Cons sf sfs)
  from Cons.prems assms(2) obtain x where x: "process_one c p m sf (Some r) = ok x" "process_fields c p m sfs x = ok r1"
    by (auto simp: obind_ok)
  obtain w where w: "x = Some (assign r (sfd_name sf) w)" "\<And>v. w = Some v \<Longrightarrow> stored (fentries m) [sf] (sfd_name sf) v"
    "\<And>ft. sf = SchemaField (sfd_name sf) ft \<Longrightarrow> w = None \<Longrightarrow> ft = Some (BasicType BYTEA)"
    using process_one_step [OF x(1) assms(2)] by blast
  obtain r2 where r2: "r1 = Some r2" "\<forall>(k, v) \<in> set r2. (k, v) \<in> set (assign r (sfd_name sf) w) \<or> stored (fentries m) sfs k v"
    "fst ` set (assign r (sfd_name sf) w) \<subseteq> fst ` set r2"
    "\<forall>n ft. SchemaField n ft \<in> set sfs \<longrightarrow> ft = Some (BasicType BYTEA) \<or> n \<in> fst ` set r2"
    using Cons.IH [of "assign r (sfd_name sf) w"] x(2) w(1) by blast
  have "(k, v) \<in> set r \<or> stored (fentries m) (sf # sfs) k v" if "(k, v) \<in> set r2" for k v
  proof (cases "stored (fentries m) sfs k v")
    case False
    then have "(k, v) \<in> set r \<or> k = sfd_name sf \<and> w = Some v"
      using that r2(2) set_assign [of r "sfd_name sf" w] by fastforce
    then show ?thesis
      using w(2) stored_mono [of "fentries m" "[sf]"] by fastforce
  qed (auto intro: stored_mono)
  moreover have "ft = Some (BasicType BYTEA) \<or> n \<in> fst ` set r2" if "SchemaField n ft \<in> set (sf # sfs)" for n ft
  proof (cases "sf = SchemaField n ft")
    case True
    then show ?thesis
      using w(3) [of ft] r2(3) by (cases w) (auto simp: keys_assign)
  qed (use that r2(4) in auto)
  ultimately show ?case
    using r2(1,3) by (auto simp: keys_assign)
qed auto

text \<open>
  (C35) A tuple that leaves the preprocessor of a text format holds nothing but what its stream declares: every value of the new message has the type declared for its field, down to
  the elements of arrays and the fields of structures, or is the value the message had for a field without a type; and every declared field is there unless its type is \<^verbatim>\<open>BYTEA\<close>.
\<close>

theorem preprocessed_types:
  assumes "Preprocessor_Apply c p (Some t) = ok t1" and "streamFields p = Some sfs" and "\<not> isBinary p"
  shows "\<exists>m. pt_Message t1 = Some m \<and> (\<forall>(k, v) \<in> set m. stored (fentries (pt_Message t)) sfs k v)
    \<and> (\<forall>n ft. SchemaField n ft \<in> set sfs \<longrightarrow> ft = Some (BasicType BYTEA) \<or> n \<in> fst ` set m)"
proof -
  have "process_fields c (defaultFieldProcessor.truncate p) (pt_Message t) sfs (Some []) = ok (pt_Message t1)"
    using assms(1,2) by (auto simp: Preprocessor_Apply_def obind_ok processField_def defaultFieldProcessor.truncate_def)
  then show ?thesis
    using process_fields_types [of c "defaultFieldProcessor.truncate p" "pt_Message t" sfs "[]" "pt_Message t1"] assms(3)
    by (auto simp: defaultFieldProcessor.truncate_def)
qed

section \<open>The table processor keeps the last tuples\<close>

text \<open>The tuple a message adds, and what the table holds: nothing once the batch has been emitted.\<close>

definition accepted :: "codec \<Rightarrow> defaultFieldProcessor \<Rightarrow> PTuple \<Rightarrow> PTuple list" where
  "accepted c p t = (case pt_Message t of
     None \<Rightarrow> []
   | Some m \<Rightarrow> (case processField c p (Some m) of Some (Inr r) \<Rightarrow> [t\<lparr>pt_Message := r\<rparr>] | _ \<Rightarrow> []))"

definition held :: "TableProcessor \<Rightarrow> PTuple list" where
  "held p = (if tbl_batchEmitted p then [] else tbl_output p)"

fun table_run :: "codec \<Rightarrow> TableProcessor \<Rightarrow> PTuple list \<Rightarrow> TableProcessor option" where
  "table_run c p [] = Some p"
| "table_run c p (t # ts) = (case TableProcessor_Apply c p (Some t) of None \<Rightarrow> None | Some (p1, _) \<Rightarrow> table_run c p1 ts)"

text \<open>The contract: a batch table collects up to the end of the file, any other table keeps the last tuples.\<close>

definition table_spec :: "codec \<Rightarrow> TableProcessor \<Rightarrow> PTuple \<Rightarrow> PTuple list \<Rightarrow> PTuple list" where
  "table_spec c p t acc =
     (if tbl_isBatchInput p then (if pt_Message t = None then [] else acc @ accepted c (defaultFieldProcessor.truncate p) t)
      else lastn (nat (tbl_retainSize p)) (acc @ accepted c (defaultFieldProcessor.truncate p) t))"

definition table_inv :: "TableProcessor \<Rightarrow> bool" where
  "table_inv p \<longleftrightarrow> (if tbl_isBatchInput p then tbl_retainSize p = 0 else tbl_retainSize p > 0 \<and> int (length (held p)) \<le> tbl_retainSize p)"

definition same_config :: "TableProcessor \<Rightarrow> TableProcessor \<Rightarrow> bool" where
  "same_config p q \<longleftrightarrow> defaultFieldProcessor.truncate p = defaultFieldProcessor.truncate q \<and> tbl_isBatchInput p = tbl_isBatchInput q
     \<and> tbl_retainSize p = tbl_retainSize q"

lemma new_table_inv: "table_inv (NewTableProcessor name fs opts)"
  by (simp add: NewTableProcessor_def table_inv_def held_def Let_def)

lemma retain_lastn:
  "k > 0 \<Longrightarrow> int (length xs) \<le> k \<Longrightarrow> retain k xs t = lastn (nat k) (xs @ [t])"
  by (auto simp: retain_def lastn_def drop_Suc Suc_diff_le)

lemma table_step:
  assumes "TableProcessor_Apply c p (Some t) = Some (q, res)" and "table_inv p"
  shows "held q = table_spec c p t (held p) \<and> table_inv q \<and> same_config p q
    \<and> (\<forall>out. res = Inr (Some out) \<longrightarrow> out = (if pt_Message t = None then held p else held q))"
proof -
  define p1 where "p1 = (if tbl_batchEmitted p then p\<lparr>tbl_output := [], tbl_batchEmitted := False\<rparr> else p)"
  have p1: "held p1 = held p" "tbl_output p1 = held p" "\<not> tbl_batchEmitted p1" "same_config p p1" "table_inv p1"
    using assms(2) by (auto simp: p1_def held_def same_config_def defaultFieldProcessor.truncate_def table_inv_def)
  show ?thesis
  proof (cases "pt_Message t")
    case None
    then show ?thesis
      using assms p1 by (auto simp: TableProcessor_Apply_def Let_def table_spec_def accepted_def held_def table_inv_def same_config_def
          defaultFieldProcessor.truncate_def lastn_all simp flip: p1_def split: if_splits)
  next
    case (Some m)
    note trunc = p1(4) [unfolded same_config_def]
    show ?thesis
    proof (cases "the (processField c (defaultFieldProcessor.truncate p) (Some m))")
      case (Inl e)
      then show ?thesis
        using assms p1 Some trunc by (auto simp: TableProcessor_Apply_def Let_def table_spec_def accepted_def held_def table_inv_def
            lastn_all simp flip: p1_def split: option.splits if_splits)
    next
      case (Inr r)
      then have q: "q = p1\<lparr>tbl_output := retain (tbl_retainSize p1) (held p) (t\<lparr>pt_Message := r\<rparr>)\<rparr>"
        "res = Inr (if tbl_isBatchInput q then None else Some (tbl_output q))"
        "accepted c (defaultFieldProcessor.truncate p) t = [t\<lparr>pt_Message := r\<rparr>]"
        using assms(1) p1(2) Some trunc by (auto simp: TableProcessor_Apply_def Let_def accepted_def simp flip: p1_def split: option.splits)
      have "same_config p q"
        using q(1) p1(4) by (simp add: same_config_def defaultFieldProcessor.truncate_def)
      moreover have hq: "held q = retain (tbl_retainSize p) (held p) (t\<lparr>pt_Message := r\<rparr>)"
        using q(1) p1 trunc by (simp add: held_def)
      moreover have "held q = table_spec c p t (held p) \<and> table_inv q"
      proof (cases "tbl_isBatchInput p")
        case True
        then show ?thesis
          using hq q p1 assms(2) trunc Some by (simp add: table_spec_def table_inv_def retain_def)
      next
        case False
        then have "held q = lastn (nat (tbl_retainSize p)) (held p @ [t\<lparr>pt_Message := r\<rparr>])"
          using hq assms(2) by (simp add: table_inv_def retain_lastn)
        then show ?thesis
          using False q p1 assms(2) trunc Some by (auto simp: table_spec_def table_inv_def min_def)
      qed
      ultimately show ?thesis
        using q p1 Some by (auto simp: held_def split: if_splits)
    qed
  qed
qed

lemma table_spec_config: "same_config p q \<Longrightarrow> table_spec c p = table_spec c q"
  by (auto simp: same_config_def table_spec_def fun_eq_iff)

lemma table_run_refines:
  "table_run c p ts = Some q \<Longrightarrow> table_inv p \<Longrightarrow> held q = fold (table_spec c p) ts (held p) \<and> table_inv q"
proof (induction ts arbitrary: p)
  case (Cons t ts)
  then obtain p1 res where p1: "TableProcessor_Apply c p (Some t) = Some (p1, res)" "table_run c p1 ts = Some q"
    by (auto split: option.splits)
  note step = table_step [OF p1(1) Cons.prems(2)]
  then have "table_spec c p = table_spec c p1"
    by (auto intro: table_spec_config)
  then show ?case
    using Cons.IH [OF p1(2)] step by simp
qed simp

text \<open>
  (C36) A table holds what its options promise, whatever the tuples before: a batch table every accepted tuple since the last end of file, any other table the last accepted tuples, as
  many as are to be retained. What the next tuple makes it emit is that content.
\<close>

theorem table_content:
  assumes "table_run c (NewTableProcessor name fs opts) ts = Some q"
    and "TableProcessor_Apply c q (Some t) = Some (q1, Inr (Some out))"
  shows "held q = fold (table_spec c (NewTableProcessor name fs opts)) ts []
    \<and> out = (if pt_Message t = None then held q else held q1)"
proof -
  have "held (NewTableProcessor name fs opts) = []"
    by (simp add: NewTableProcessor_def held_def Let_def)
  then show ?thesis
    using table_run_refines [OF assms(1) new_table_inv] table_step [OF assms(2)] by auto
qed

definition ex_codec :: codec where
  "ex_codec = \<lparr>cd_time = (\<lambda>_ _. None), cd_b64 = (\<lambda>_. None), cd_json_arr = (\<lambda>_. None), cd_json_map = (\<lambda>_. None)\<rparr>"

definition ex_tuple :: "val \<Rightarrow> PTuple" where
  "ex_tuple v = \<lparr>pt_Emitter = ''demo'', pt_Message = Some [(''a'', FVal v), (''b'', FVal (VSlice [VString ''1'']))], pt_Timestamp = 0, pt_Metadata = None\<rparr>"

definition ex_fields :: "stream_field list" where
  "ex_fields = [SchemaField ''A'' (Some (BasicType BIGINT)), SchemaField ''b'' (Some (ArrayType BIGINT None))]"

theorem preprocessed_types_witness:
  "\<exists>m. pt_Message (the (map_option projr (Preprocessor_Apply ex_codec (NewPreprocessor (Some ex_fields) True [] False [] [] False)
       (Some (ex_tuple (VString ''7'')))))) = Some m \<and> m = [(''A'', vint 7), (''b'', FSlice ElInt (Some [vint 1]))]
     \<and> (\<forall>(k, v) \<in> set m. stored (fentries (pt_Message (ex_tuple (VString ''7'')))) ex_fields k v)"
proof -
  let ?p = "NewPreprocessor (Some ex_fields) True [] False [] [] False"
  have p: "streamFields ?p = Some ex_fields" "\<not> isBinary ?p"
    by (simp_all add: NewPreprocessor_def)
  have r: "Preprocessor_Apply ex_codec ?p (Some (ex_tuple (VString ''7''))) =
    ok \<lparr>pt_Emitter = ''demo'', pt_Message = Some [(''A'', vint 7), (''b'', FSlice ElInt (Some [vint 1]))], pt_Timestamp = 0, pt_Metadata = None\<rparr>"
    by code_simp
  show ?thesis
    using preprocessed_types [OF r p] r by simp
qed

definition ex_options :: Options where
  "ex_options = \<lparr>DATASOURCE = [], KEY = [], FORMAT = [], CONF_KEY = [], opt_TYPE = [], STRICT_VALIDATION = False, TIMESTAMP = [],
     TIMESTAMP_FORMAT = [], RETAIN_SIZE = 2, SHARED = False\<rparr>"

definition ex_row :: "int \<Rightarrow> PTuple" where
  "ex_row i = \<lparr>pt_Emitter = ''demo'', pt_Message = Some [(''a'', vint i)], pt_Timestamp = 0, pt_Metadata = None\<rparr>"

theorem table_content_witness:
  "\<exists>q q1 out. table_run ex_codec (NewTableProcessor ''t'' None ex_options) [ex_row 1, ex_row 2, ex_row 3] = Some q
     \<and> TableProcessor_Apply ex_codec q (Some (ex_row 4)) = Some (q1, Inr (Some out)) \<and> held q = [ex_row 2, ex_row 3] \<and> out = [ex_row 3, ex_row 4]"
proof -
  let ?q = "\<lambda>out. \<lparr>streamFields = None, timestampFormat = [], isBinary = False, tbl_isBatchInput = False, tbl_retainSize = 2,
      tbl_emitterName = ''t'', tbl_output = out, tbl_batchEmitted = False\<rparr>"
  have 1: "table_run ex_codec (NewTableProcessor ''t'' None ex_options) [ex_row 1, ex_row 2, ex_row 3] = Some (?q [ex_row 2, ex_row 3])"
    by code_simp
  have 2: "TableProcessor_Apply ex_codec (?q [ex_row 2, ex_row 3]) (Some (ex_row 4)) = Some (?q [ex_row 3, ex_row 4], Inr (Some [ex_row 3, ex_row 4]))"
    by code_simp
  have "fold (table_spec ex_codec (NewTableProcessor ''t'' None ex_options)) [ex_row 1, ex_row 2, ex_row 3] [] = [ex_row 2, ex_row 3]"
    by code_simp
  then show ?thesis
    using table_content [OF 1 2] 1 2 by auto
qed

end
