(* ===== verification/Eval.thy ===== *)
theory Eval
  imports Rows
begin

text \<open>
  The expression evaluator, \<^verbatim>\<open>ValuerEval\<close> of \<^verbatim>\<open>internal/xsql/valuer.go\<close>.

  The evaluator looks columns up in a list of valuers: the row, the function valuer
  \<^verbatim>\<open>fv\<close>, in an aggregate context the aggregate function valuer \<^verbatim>\<open>afv\<close>, and
  the wildcard valuer of the row. The record \<open>env\<close> says which of them are there and holds
  their calls; the row and the rows of the aggregate data, whose alias caches an evaluation
  extends, are the state \<open>est\<close>. A result \<open>None\<close> is a run-time panic.

  The functions behind \<^verbatim>\<open>fv.Call\<close> and \<^verbatim>\<open>afv.Call\<close> are parameters, functions of
  the name and the arguments: those whose answer also depends on the clock, a random source or
  the state of a plug-in are modelled for one answer.
\<close>

section \<open>Environment and state\<close>

text \<open>
  \<open>en_agg\<close> is \<open>Some wr\<close> in an aggregate context, \<open>wr\<close> being the window range of the
  aggregate data, itself nil when the data come from no window. A \<^verbatim>\<open>*Tuple\<close> as
  aggregate data has the range 0 to 0.
\<close>

record env =
  en_call :: "string \<Rightarrow> val list \<Rightarrow> val \<times> bool"   \<comment> \<open>\<^verbatim>\<open>FunctionValuer.Call\<close>\<close>
  en_acall :: "string \<Rightarrow> val list \<Rightarrow> val \<times> bool"  \<comment> \<open>\<^verbatim>\<open>AggregateFunctionValuer.Call\<close>\<close>
  en_rt :: "string \<Rightarrow> bool"                        \<comment> \<open>aggregate functions of the runtime\<close>
  en_tp :: time_parse
  en_wild :: bool                                 \<comment> \<open>the wildcard valuer is there\<close>
  en_agg :: "WindowRange option option"

text \<open>
  The aggregate data are \<open>es_data\<close>. Evaluating an alias on one of their rows stores it in
  that row only if the collection holds pointers (\<open>es_ptr\<close>: groups) or the row already has an
  alias map, since \<^verbatim>\<open>range\<close> copies a tuple but not its map. \<open>es_shared\<close> is the index of
  the aggregate row whose alias map is also that of the current row: the same object for a
  group, a copy with a map for the others.
\<close>

record est =
  es_row :: row
  es_data :: "row list"
  es_shared :: "nat option"
  es_ptr :: bool

definition est_of :: "row \<Rightarrow> est" where
  "est_of r = \<lparr>es_row = r, es_data = [], es_shared = None, es_ptr = False\<rparr>"

definition est_append :: "string \<Rightarrow> val \<Rightarrow> est \<Rightarrow> est" where
  "est_append key v s = (let r = row_AppendAlias (es_row s) key v in
     s\<lparr>es_row := r,
       es_data := (case es_shared s of None \<Rightarrow> es_data s
         | Some i \<Rightarrow> (es_data s)[i := row_set_Alias (es_data s ! i) (row_Alias r)])\<rparr>)"

text \<open>The state after the aggregate rows were evaluated to \<open>ds\<close>.\<close>

definition est_write_back :: "row list \<Rightarrow> est \<Rightarrow> est" where
  "est_write_back ds s =
     (let ds' = map2 (\<lambda>old new. if es_ptr s \<or> row_Alias old \<noteq> None then new else old) (es_data s) ds
      in s\<lparr>es_data := ds',
           es_row := (case es_shared s of None \<Rightarrow> es_row s
             | Some i \<Rightarrow> row_set_Alias (es_row s) (row_Alias (ds' ! i)))\<rparr>)"

text \<open>\<^verbatim>\<open>multiValuer.Value\<close> and \<^verbatim>\<open>multiValuer.Meta\<close>; \<^verbatim>\<open>fv\<close> and
  \<^verbatim>\<open>afv\<close> never answer. A bare message has no other valuer beside it.\<close>

definition multi_Value :: "env \<Rightarrow> row \<Rightarrow> string \<Rightarrow> val option option" where
  "multi_Value E r key = (case row_Value r key of
     None \<Rightarrow> None
   | Some (Some v) \<Rightarrow> Some (Some v)
   | Some None \<Rightarrow> if en_wild E then Some (Wildcard_Value r key) else Some None)"

text \<open>\<^verbatim>\<open>multiValuer.Call\<close> and \<^verbatim>\<open>multiAggregateValuer.Call\<close>; the caller
  drops the flag.\<close>

definition multi_Call :: "env \<Rightarrow> string \<Rightarrow> val list \<Rightarrow> val" where
  "multi_Call E name args = (case en_agg E of
     None \<Rightarrow> (case en_call E name args of (v, ok) \<Rightarrow> if ok then v else VErr (CallFuncError name v))
   | Some _ \<Rightarrow>
       if IsAggFunc (en_rt E) name then
         (case en_acall E name args of (v, ok) \<Rightarrow> if ok then v else VErr (CallFuncError name v))
       else (case en_call E name args of (v, ok) \<Rightarrow>
         if ok then v
         else (case en_acall E name args of (w, ok2) \<Rightarrow> if ok2 then w else VNil)))"

definition opt_val :: "val option \<Rightarrow> val" where
  "opt_val v = (case v of Some x \<Rightarrow> x | None \<Rightarrow> VNil)"

section \<open>Subscripts\<close>

definition isSliceOrArray :: "val \<Rightarrow> bool" where
  "isSliceOrArray v = (case v of VSlice _ \<Rightarrow> True | _ \<Rightarrow> False)"

definition min_int32 :: int where
  "min_int32 = - (2 ^ 31)"

text \<open>\<^verbatim>\<open>val.Slice(i, j)\<close> panics unless \<open>0 \<le> i \<le> j \<le> len\<close>.\<close>

definition slice_val :: "val list \<Rightarrow> int \<Rightarrow> int \<Rightarrow> val option" where
  "slice_val xs i j =
     (if 0 \<le> i \<and> i \<le> j \<and> j \<le> int (length xs)
      then Some (VSlice (take (nat (j - i)) (drop (nat i) xs))) else None)"

definition subset_end :: "val list \<Rightarrow> int \<Rightarrow> int \<Rightarrow> val option" where
  "subset_end xs start e = (let n = int (length xs) in
     if min_int32 = e then slice_val xs start n
     else if 0 > e then
       (if 0 > e + n then Some (VErr (OutOfIndex e (length xs))) else slice_val xs start (e + n))
     else if e > n then Some (VErr (EndOutOfIndex e (length xs)))
     else if start \<ge> e then Some (VErr (StartGreaterThanEnd start e))
     else slice_val xs start e)"

definition subset_ber :: "val list \<Rightarrow> int \<Rightarrow> int \<Rightarrow> val option" where
  "subset_ber xs start e = (let n = int (length xs) in
     if start = e then
       (if 0 > start then
          (if 0 > start + n then Some (VErr (OutOfIndex start (length xs)))
           else Some (xs ! nat (start + n)))
        else if start \<ge> n then Some (VErr (OutOfIndex start (length xs)))
        else Some (xs ! nat start))
     else if 0 > start then
       (if 0 > start + n then Some (VErr (OutOfIndex start (length xs)))
        else subset_end xs (start + n) e)
     else if start \<ge> n then Some (VErr (StartOutOfIndex start (length xs)))
     else subset_end xs start e)"

section \<open>Evaluation\<close>

definition field_key :: "StreamName \<Rightarrow> string \<Rightarrow> string" where
  "field_key sn n =
     (if IsAlias sn then PRIVATE_PREFIX @ n
      else if sn = DefaultStream then n
      else sn @ [COLUMN_SEPARATOR] @ n)"

definition meta_key :: "StreamName \<Rightarrow> string \<Rightarrow> string" where
  "meta_key sn n = (if sn = [] \<or> sn = DefaultStream then n else sn @ [COLUMN_SEPARATOR] @ n)"

text \<open>Type switches on a value, an expression and a row.\<close>

definition as_map :: "val \<Rightarrow> Message option" where
  "as_map v = (case v of VMap m \<Rightarrow> Some m | _ \<Rightarrow> None)"

definition as_map_or_message :: "val \<Rightarrow> Message option" where
  "as_map_or_message v = (case v of VMap m \<Rightarrow> Some m | VMessage m \<Rightarrow> Some m | _ \<Rightarrow> None)"

definition as_slice :: "val \<Rightarrow> val list option" where
  "as_slice v = (case v of VSlice xs \<Rightarrow> Some xs | _ \<Rightarrow> None)"

definition as_bracket :: "val \<Rightarrow> (int \<times> int) option" where
  "as_bracket v = (case v of VBracket a b \<Rightarrow> Some (a, b) | _ \<Rightarrow> None)"

definition as_err :: "val \<Rightarrow> err option" where
  "as_err v = (case v of VErr e \<Rightarrow> Some e | _ \<Rightarrow> None)"

definition is_ref :: "expr \<Rightarrow> bool" where
  "is_ref e = (case e of FieldRef _ _ _ \<Rightarrow> True | MetaRef _ _ \<Rightarrow> True | _ \<Rightarrow> False)"

definition is_message :: "row \<Rightarrow> bool" where
  "is_message r = (case r of RMessage _ \<Rightarrow> True | _ \<Rightarrow> False)"

text \<open>
  The mutual recursion: \<open>eval\<close> is \<^verbatim>\<open>Eval\<close> with \<^verbatim>\<open>evalBinaryExpr\<close>,
  \<^verbatim>\<open>evalCase\<close> and \<^verbatim>\<open>evalJsonExpr\<close> as its parts, \<open>eval_args\<close> the loop over
  the arguments of a call (an \<open>Inl\<close> is the error that ends it), \<open>eval_rows\<close> the
  \<^verbatim>\<open>AggregateEval\<close> of the collections, \<open>eval_whens\<close> the loop over the branches of
  a case expression (with the value compared to, if there is one). The arrow operator looks its
  right side up in a message; that evaluation has no call valuer.
\<close>

definition inner_env :: "env \<Rightarrow> env" where
  "inner_env E = E\<lparr>en_agg := None, en_wild := True\<rparr>"

definition json_env :: "env \<Rightarrow> env" where
  "json_env E = E\<lparr>en_agg := None, en_wild := False\<rparr>"

function (sequential) eval :: "env \<Rightarrow> expr \<Rightarrow> est \<Rightarrow> (val \<times> est) option"
  and eval_json :: "env \<Rightarrow> val \<Rightarrow> token \<Rightarrow> expr \<Rightarrow> est \<Rightarrow> (val \<times> est) option"
  and eval_args :: "env \<Rightarrow> bool \<Rightarrow> expr list \<Rightarrow> est \<Rightarrow> ((val + val list) \<times> est) option"
  and eval_rows :: "env \<Rightarrow> expr \<Rightarrow> row list \<Rightarrow> (val list \<times> row list) option"
  and eval_whens :: "env \<Rightarrow> val option \<Rightarrow> (expr \<times> expr) list \<Rightarrow> expr option \<Rightarrow> est \<Rightarrow> (val \<times> est) option"
  where
  "eval E (BinaryExpr op l r) s = (case eval E l s of
     None \<Rightarrow> None
   | Some (lhs, s1) \<Rightarrow>
       (case as_map_or_message lhs of
          Some m \<Rightarrow> eval_json E (VMap m) op r s1
        | None \<Rightarrow>
            if is_err lhs then Some (lhs, s1)
            else if op = T_AND \<and> lhs = VBool False then Some (VBool False, s1)
            else if op = T_OR \<and> lhs = VBool True then Some (VBool True, s1)
            else if isSliceOrArray lhs then eval_json E lhs op r s1
            else (case eval E r s1 of
              None \<Rightarrow> None
            | Some (rhs, s2) \<Rightarrow>
                if is_err rhs then Some (rhs, s2)
                else Some (simpleDataEval (en_tp E) False lhs rhs op, s2))))"
| "eval E (IntegerLiteral i) s = Some (VInt (word_of_int i), s)"
| "eval E (NumberLiteral f) s = Some (VFloat64 f, s)"
| "eval E (ParenExpr e) s = eval E e s"
| "eval E (StringLiteral x) s = Some (VString x, s)"
| "eval E (BooleanLiteral b) s = Some (VBool b, s)"
| "eval E (ColonExpr a b) s = Some (VBracket a b, s)"
| "eval E (IndexExpr a) s = Some (VBracket a a, s)"
| "eval E (Call name args) s =
     (if is_message (es_row s) then Some (VNil, s)
      else if name = ''window_start'' \<or> name = ''window_end'' then
         (case en_agg E of
            None \<Rightarrow> Some (VNil, s)
          | Some None \<Rightarrow> None
          | Some (Some wr) \<Rightarrow> Some (VInt64 (word_of_int
              (if name = ''window_start'' then WindowStart wr else WindowEnd wr)), s))
       else (case eval_args E (en_agg E \<noteq> None \<and> IsAggFunc (en_rt E) name) args s of
          None \<Rightarrow> None
        | Some (Inl e, s1) \<Rightarrow> Some (e, s1)
        | Some (Inr vs, s1) \<Rightarrow> Some (multi_Call E name vs, s1)))"
| "eval E (FieldRef sn n al) s =
     (let key = field_key sn n in
      case (if key = [] then Some None else multi_Value E (es_row s) key) of
        None \<Rightarrow> None
      | Some (Some v) \<Rightarrow> Some (v, s)
      | Some None \<Rightarrow>
          if IsAlias sn then
            (case al of
               None \<Rightarrow> None
             | Some (AliasRef e rs) \<Rightarrow> (case eval E e s of
                 None \<Rightarrow> None | Some (r, s1) \<Rightarrow> Some (r, est_append n r s1)))
          else Some (VNil, s))"
| "eval E (MetaRef sn n) s = (case row_Meta (es_row s) (meta_key sn n) of
     None \<Rightarrow> None | Some v \<Rightarrow> Some (opt_val v, s))"
| "eval E (Wildcard t) s = (case multi_Value E (es_row s) [] of
     None \<Rightarrow> None | Some v \<Rightarrow> Some (opt_val v, s))"
| "eval E (CaseExpr val ws els) s = (case val of
     None \<Rightarrow> eval_whens E None ws els s
   | Some e \<Rightarrow> (case eval E e s of
       None \<Rightarrow> None | Some (ev, s1) \<Rightarrow> eval_whens E (Some ev) ws els s1))"
| "eval E _ s = Some (VNil, s)"

| "eval_json E result op e s =
     (if op = T_ARROW then
        (case as_map result of
           Some m \<Rightarrow>
             if is_ref e then
               (case eval (json_env E) e (est_of (RMessage m)) of
                  None \<Rightarrow> None | Some (v, _) \<Rightarrow> Some (v, s))
             else Some (VErr RightNotFieldRef, s)
         | None \<Rightarrow> Some (VErr (ResultNotMap result), s))
      else if op = T_SUBSET then
        (case as_slice result of
           Some xs \<Rightarrow> (case eval E e s of
               None \<Rightarrow> None
             | Some (ber, s1) \<Rightarrow> (case as_bracket ber of
                 Some (a, b) \<Rightarrow> (case subset_ber xs a b of None \<Rightarrow> None | Some v \<Rightarrow> Some (v, s1))
               | None \<Rightarrow> Some (VErr InvalidEvaluation, s1)))
         | None \<Rightarrow> Some (VErr (InvalidJsonOp op result), s))
      else Some (VErr (InvalidJsonOp op result), s))"

| "eval_args E agg [] s = Some (Inr [], s)"
| "eval_args E agg (a # as) s =
     (if agg then
        (case eval_rows (inner_env E) a (es_data s) of
           None \<Rightarrow> None
         | Some (vs, ds) \<Rightarrow>
             (case eval_args E agg as (est_write_back ds s) of
                None \<Rightarrow> None
              | Some (Inl e, s2) \<Rightarrow> Some (Inl e, s2)
              | Some (Inr ws, s2) \<Rightarrow> Some (Inr (VSlice vs # ws), s2)))
      else
        (case eval E a s of
           None \<Rightarrow> None
         | Some (v, s1) \<Rightarrow>
             if is_err v then Some (Inl v, s1)
             else (case eval_args E agg as s1 of
                None \<Rightarrow> None
              | Some (Inl e, s2) \<Rightarrow> Some (Inl e, s2)
              | Some (Inr ws, s2) \<Rightarrow> Some (Inr (v # ws), s2))))"

| "eval_rows E a [] = Some ([], [])"
| "eval_rows E a (r # rs) = (case eval E a (est_of r) of
     None \<Rightarrow> None
   | Some (v, s1) \<Rightarrow> (case eval_rows E a rs of
       None \<Rightarrow> None | Some (vs, ds) \<Rightarrow> Some (v # vs, es_row s1 # ds)))"

| "eval_whens E ev [] els s =
     (case els of Some e \<Rightarrow> eval E e s | None \<Rightarrow> Some (VNil, s))"
| "eval_whens E ev ((c, res) # ws) els s = (case eval E c s of
     None \<Rightarrow> None
   | Some (wv, s1) \<Rightarrow>
       let r = (case ev of Some x \<Rightarrow> simpleDataEval (en_tp E) False x wv T_EQ | None \<Rightarrow> wv) in
       (case as_err r of
          Some e \<Rightarrow> Some (VErr (CaseError e), s1)
        | None \<Rightarrow> if r = VBool True then eval E res s1 else eval_whens E ev ws els s1))"
  by pat_completeness auto

text \<open>
  Every call is on a smaller expression; the arrow operator and the aggregate arguments call
  back on the same one, hence the factor.
\<close>

definition eval_measure where
  "eval_measure = (\<lambda>x. case x of
      Inl (Inl (E::env, e, s::est)) \<Rightarrow> (2 * size e, 0)
    | Inl (Inr (E::env, v::val, op::token, e, s::est)) \<Rightarrow> (2 * size e + 1, 0)
    | Inr (Inl (E::env, b::bool, as, s::est)) \<Rightarrow> (2 * size_list size as, 0)
    | Inr (Inr (Inl (E::env, e, rs::row list))) \<Rightarrow> (2 * size e + 1, length rs)
    | Inr (Inr (Inr (E::env, ev::val option, ws, els, s::est))) \<Rightarrow>
        (2 * (size_list (size_prod size size) ws + size_option size els) + 1, 0))"

termination eval
  by (relation "inv_image (less_than <*lex*> less_than) eval_measure") (auto simp: eval_measure_def)

declare eval_json.simps [simp del]

section \<open>What an evaluation may change\<close>

text \<open>A row without its alias cache.\<close>

definition row_base :: "row \<Rightarrow> row" where
  "row_base r = row_set_Alias r None"

lemma row_base_simps [simp]:
  "row_base (row_AppendAlias r k v) = row_base r"
  "row_base (row_set_Alias r a) = row_base r"
  by (cases r; simp add: row_base_def row_AppendAlias_def)+

definition same_base :: "est \<Rightarrow> est \<Rightarrow> bool" where
  "same_base s s' \<longleftrightarrow> row_base (es_row s') = row_base (es_row s) \<and>
     map row_base (es_data s') = map row_base (es_data s) \<and>
     es_shared s' = es_shared s \<and> es_ptr s' = es_ptr s"

lemma same_base_refl [simp]: "same_base s s"
  by (simp add: same_base_def)

lemma same_base_trans [trans]: "same_base s s1 \<Longrightarrow> same_base s1 s2 \<Longrightarrow> same_base s s2"
  by (simp add: same_base_def)

lemma map_row_base_update:
  "map row_base (xs[i := row_set_Alias (xs ! i) a]) = map row_base xs"
proof (cases "i < length xs")
  case True
  then show ?thesis
    using list_update_id [of "map row_base xs" i] by (simp add: map_update)
qed (simp add: list_update_beyond not_less)

lemma same_base_append [simp]: "same_base s (est_append k v s)"
  by (simp add: same_base_def est_append_def Let_def map_row_base_update split: option.splits)

lemma map_row_base_map2:
  "map row_base ds = map row_base xs \<Longrightarrow>
     map row_base (map2 (\<lambda>old new. if P old then new else old) xs ds) = map row_base xs"
proof (induction xs arbitrary: ds)
  case (Cons x xs)
  then show ?case by (cases ds) auto
qed simp

lemma same_base_write_back:
  "map row_base ds = map row_base (es_data s) \<Longrightarrow> same_base s (est_write_back ds s)"
  by (simp add: same_base_def est_write_back_def Let_def map_row_base_map2 del: map_map
      split: option.splits)

lemma eval_same_base:
  "eval E e s = Some (v, s') \<Longrightarrow> same_base s s'"
  "eval_json E res op e s = Some (v, s') \<Longrightarrow> same_base s s'"
  "eval_args E agg as s = Some (w, s') \<Longrightarrow> same_base s s'"
  "eval_rows E e rs = Some (vs, ds) \<Longrightarrow> map row_base ds = map row_base rs"
  "eval_whens E ev ws els s = Some (v, s') \<Longrightarrow> same_base s s'"
proof (induction E e s and E res op e s and E agg as s and E e rs and E ev ws els s
    arbitrary: v s' and v s' and w s' and vs ds and v s'
    rule: eval_eval_json_eval_args_eval_rows_eval_whens.induct)
  case (1 E op l r s)
  obtain lhs s1 where l: "eval E l s = Some (lhs, s1)"
    using 1(5) by (auto split: option.splits)
  have "same_base s1 s'"
  proof (cases "as_map_or_message lhs")
    case None
    show ?thesis
    proof (cases "eval E r s1")
      case N: None
      then show ?thesis
        using 1(5) 1(2) [OF l refl None] by (auto simp: l None split: if_splits)
    next
      case (Some a)
      then show ?thesis
        using 1(5) 1(2) [OF l refl None] 1(3) [OF l refl None]
        by (cases a) (auto simp: l None split: if_splits)
    qed
  next
    case (Some m)
    then show ?thesis
      using 1(5) 1(4) [OF l refl Some] by (auto simp: l)
  qed
  then show ?case
    using 1(1) [OF l] by (rule same_base_trans [rotated])
next
  case (9 E name args s)
  then show ?case
    by (auto split: option.splits sum.splits if_splits)
next
  case (10 E sn n al s)
  then show ?case
    by (auto simp: Let_def split: option.splits AliasRef.splits if_splits
        intro!: same_base_trans [OF _ same_base_append])
next
  case (13 E val ws els s)
  show ?case
  proof (cases val)
    case (Some e)
    then obtain ev s1 where l: "eval E e s = Some (ev, s1)"
      "eval_whens E (Some ev) ws els s1 = Some (v, s')"
      using 13(4) by (auto split: option.splits)
    then show ?thesis
      using 13(2) [OF Some l(1)] 13(3) [OF Some l(1) refl] same_base_trans by blast
  qed (use 13 in simp)
next
  case (15 E result op e s)
  then show ?case
    by (auto simp: eval_json.simps split: option.splits if_splits)
next
  case (17 E agg a as s)
  show ?case
  proof (cases agg)
    case True
    with 17(5) obtain vs ds where r: "eval_rows (inner_env E) a (es_data s) = Some (vs, ds)"
      by (auto split: option.splits)
    have "same_base (est_write_back ds s) s'"
      using 17(5) 17(2) [OF True r refl] True r by (auto split: option.splits sum.splits)
    then show ?thesis
      using 17(1) [OF True r] same_base_trans same_base_write_back by blast
  next
    case False
    with 17(5) obtain b s1 where r: "eval E a s = Some (b, s1)"
      by (auto split: option.splits)
    have "same_base s1 s'"
      using 17(5) 17(4) [OF False r refl] False r by (auto split: option.splits sum.splits if_splits)
    then show ?thesis
      using 17(3) [OF False r] same_base_trans by blast
  qed
next
  case (21 E ev c res ws els s)
  obtain wv s1 where r: "eval E c s = Some (wv, s1)"
    using 21(4) by (auto split: option.splits)
  have "same_base s1 s'"
    using 21(4) 21(2,3) [OF r refl refl] r by (auto simp: Let_def split: option.splits if_splits)
  then show ?case
    using 21(1) [OF r] same_base_trans by blast
next
  case (19 E a r rs)
  then show ?case
    by (auto simp: same_base_def est_of_def split: option.splits)
qed (auto split: option.splits)


text \<open>Outside an aggregate context, an expression without aliases changes nothing at all.\<close>

fun alias_free :: "expr \<Rightarrow> bool" where
  "alias_free (FieldRef sn n al) = (\<not> IsAlias sn)"
| "alias_free (BinaryExpr op l r) = (alias_free l \<and> alias_free r)"
| "alias_free (ParenExpr e) = alias_free e"
| "alias_free (Call n args) = list_all alias_free args"
| "alias_free (CaseExpr val ws els) =
     ((case val of Some e \<Rightarrow> alias_free e | None \<Rightarrow> True) \<and>
      list_all (\<lambda>(c, r). alias_free c \<and> alias_free r) ws \<and>
      (case els of Some e \<Rightarrow> alias_free e | None \<Rightarrow> True))"
| "alias_free _ = True"

lemma eval_pure_aux:
  "alias_free e \<Longrightarrow> en_agg E = None \<Longrightarrow> eval E e s = Some (v, s') \<Longrightarrow> s' = s"
  "alias_free e \<Longrightarrow> en_agg E = None \<Longrightarrow> eval_json E res op e s = Some (v, s') \<Longrightarrow> s' = s"
  "list_all alias_free as \<Longrightarrow> en_agg E = None \<Longrightarrow> \<not> agg \<Longrightarrow>
     eval_args E agg as s = Some (w, s') \<Longrightarrow> s' = s"
  "alias_free e \<Longrightarrow> en_agg E = None \<Longrightarrow> eval_rows E e rs = Some (vs, ds) \<Longrightarrow> ds = rs"
  "list_all (\<lambda>(c, r). alias_free c \<and> alias_free r) ws \<Longrightarrow>
     (case els of Some e \<Rightarrow> alias_free e | None \<Rightarrow> True) \<Longrightarrow> en_agg E = None \<Longrightarrow> eval_whens E ev ws els s = Some (v, s') \<Longrightarrow> s' = s"
proof (induction E e s and E res op e s and E agg as s and E e rs and E ev ws els s
    arbitrary: v s' and v s' and w s' and vs ds and v s'
    rule: eval_eval_json_eval_args_eval_rows_eval_whens.induct)
  case (1 E op l r s)
  obtain lhs s1 where l: "eval E l s = Some (lhs, s1)"
    using 1(7) by (auto split: option.splits)
  have [simp]: "s1 = s"
    using 1(1) [OF _ _ l] 1(5,6) by simp
  show ?case
  proof (cases "as_map_or_message lhs")
    case None
    show ?thesis
    proof (cases "eval E r s1")
      case N: None
      then show ?thesis
        using 1(5-7) 1(2) [OF l refl None] by (auto simp: l None split: if_splits)
    next
      case (Some a)
      then show ?thesis
        using 1(5-7) 1(2) [OF l refl None] 1(3) [OF l refl None]
        by (cases a) (auto simp: l None split: if_splits)
    qed
  next
    case (Some m)
    then show ?thesis
      using 1(5-7) 1(4) [OF l refl Some] by (auto simp: l)
  qed
next
  case (9 E name args s)
  then show ?case
    by (auto split: option.splits sum.splits if_splits)
next
  case (10 E sn n al s)
  then show ?case
    by (auto simp: Let_def split: option.splits if_splits)
next
  case (13 E val ws els s)
  show ?case
  proof (cases val)
    case (Some e)
    then obtain ev s1 where l: "eval E e s = Some (ev, s1)"
      "eval_whens E (Some ev) ws els s1 = Some (v, s')"
      using 13(6) by (auto split: option.splits)
    then show ?thesis
      using 13(2) [OF Some _ _ l(1)] 13(3) [OF Some l(1) refl _ _ _ l(2)] 13(4,5) by (auto simp: Some)
  qed (use 13 in auto)
next
  case (15 E result op e s)
  then show ?case
    by (auto simp: eval_json.simps split: option.splits if_splits)
next
  case (17 E agg a as s)
  then obtain b s1 where r: "eval E a s = Some (b, s1)"
    by (auto split: option.splits)
  then show ?case
    using 17(3) [OF 17(7) _ _ r] 17(4) [OF 17(7) r refl] 17(5-8)
    by (auto split: option.splits sum.splits if_splits)
next
  case (19 E a r rs)
  then obtain v1 s1 vs1 ds1 where e: "eval E a (est_of r) = Some (v1, s1)"
    "eval_rows E a rs = Some (vs1, ds1)" "ds = es_row s1 # ds1"
    by (auto split: option.splits)
  then show ?case
    using 19(1) [OF 19(3,4) e(1)] 19(2) [OF e(1) refl 19(3,4) e(2)] by (simp add: est_of_def)
next
  case (21 E ev c res ws els s)
  obtain wv s1 where r: "eval E c s = Some (wv, s1)"
    using 21(7) by (auto split: option.splits)
  show ?case
    using 21(1) [OF _ _ r] 21(2,3) [OF r refl refl] 21(4-7)
    by (auto simp: Let_def r split: option.splits if_splits)
qed (auto split: option.splits)


lemma Message_Value_update_self:
  assumes "COLUMN_SEPARATOR \<notin> set k" "to_lower k = k"
  shows "Message_Value (AList.update k v m) k = Some v"
  using assms by (simp add: Message_Value_def split_on_no_sep)

lemma row_Value_append:
  assumes "COLUMN_SEPARATOR \<notin> set n" "to_lower n = n" "\<not> is_message r"
  shows "row_Value (row_AppendAlias r n v) (PRIVATE_PREFIX @ n) = Some (Some v)"
proof -
  have "COLUMN_SEPARATOR \<noteq> CHR ''$''"
    by code_simp
  then have "COLUMN_SEPARATOR \<notin> set (PRIVATE_PREFIX @ n)"
    "to_lower (PRIVATE_PREFIX @ n) = PRIVATE_PREFIX @ n"
    using assms by (simp_all add: PRIVATE_PREFIX_def to_lower_def char_lower_def)
  then show ?thesis
    using assms(3)
    by (cases r) (simp_all add: row_AppendAlias_def is_message_def Tuple_Value_def
        jt_Value_def AliasValue_def AppendAlias_def Message_Value_update_self)
qed

lemma is_message_base: "row_base r' = row_base r \<Longrightarrow> is_message r' = is_message r"
  by (cases r; cases r') (simp_all add: row_base_def is_message_def)

section \<open>Properties\<close>

text \<open>A row with one column and an environment without functions, for the instances below.\<close>

definition demo_env :: env where
  "demo_env = \<lparr>en_call = (\<lambda>_ _. (VNil, False)), en_acall = (\<lambda>_ _. (VNil, False)),
     en_rt = (\<lambda>_. False), en_tp = (\<lambda>_ _. None), en_wild = True, en_agg = None\<rparr>"

definition demo_row :: row where
  "demo_row = RTuple \<lparr>t_Emitter = ''demo'', t_Message = [(''x'', VInt64 3)], t_Timestamp = 0,
     t_Metadata = None, t_Alias = None\<rparr>"

definition demo_alias :: expr where
  "demo_alias = FieldRef AliasStream ''a''
     (Some (AliasRef (BinaryExpr T_ADD (FieldRef DefaultStream ''x'' None) (IntegerLiteral 1)) []))"

lemma demo_alias_eval:
  "eval demo_env demo_alias (est_of demo_row) =
     Some (VInt64 4, est_of (row_AppendAlias demo_row ''a'' (VInt64 4)))"
  by code_simp

text \<open>
  (C16) Evaluating an expression, whatever it contains and however it ends, changes nothing of the
  row and of the aggregate rows but their alias caches: messages, metadata, timestamps, sources,
  and the number and order of the rows stay as they are.
\<close>

theorem eval_keeps_rows:
  assumes "eval E e s = Some (v, s')"
  shows "row_base (es_row s') = row_base (es_row s) \<and>
    map row_base (es_data s') = map row_base (es_data s)"
  using eval_same_base(1) [OF assms] by (simp add: same_base_def)

theorem eval_keeps_rows_witness:
  "row_base (row_AppendAlias demo_row ''a'' (VInt64 4)) = row_base demo_row"
  using eval_keeps_rows [OF demo_alias_eval] by (simp add: est_of_def)



text \<open>A subscript from the end.\<close>

definition norm_idx :: "nat \<Rightarrow> int \<Rightarrow> int" where
  "norm_idx n i = (if i < 0 then i + int n else i)"

text \<open>
  A subscript or a range of a list panics exactly when a negative end lies before the start:
  every other index out of range is reported as an error value.
\<close>

theorem subset_ber_panic:
  "subset_ber xs a b = None \<longleftrightarrow>
     b < 0 \<and> b \<noteq> min_int32 \<and> a \<noteq> b \<and> 0 \<le> norm_idx (length xs) b \<and>
     norm_idx (length xs) b < norm_idx (length xs) a \<and> norm_idx (length xs) a < int (length xs)"
  by (auto simp: subset_ber_def subset_end_def slice_val_def norm_idx_def Let_def)

end
