(* ===== verification/Operators.thy ===== *)
theory Operators
  imports Eval
begin

text \<open>
  The relational operators of \<^verbatim>\<open>internal/topo/operator\<close> that work on one collection:
  filter, aggregate (group by), having and project.

  The data passed between operators, a Go \<^verbatim>\<open>interface{}\<close>, is \<open>opdata\<close>. An operator
  that returns \<open>nil\<close> drops the data. The outer \<open>option\<close> of a result is \<open>None\<close>
  for a run-time panic. Where the source ranges over a slice it evaluates a copy of each element;
  the copy, with its alias cache, is what it keeps.
\<close>

datatype op_err =
    EvalError string err        \<comment> \<open>the operator's prefix and the error of the expression\<close>
  | NonBool string val
  | MultipleTuples string
  | InvalidInput string
  | WildcardNotMap string
  | JoinPrepareError
  | JoinExprNonBool
  | JoinNotSupported
  | OpMessage string

datatype opdata =
    DNil
  | DErr op_err
  | DTuple Tuple
  | DBatch WindowTuples         \<comment> \<open>a batch table\<close>
  | DWindow WindowTuplesSet
  | DJoin JoinTupleSets
  | DGroups "GroupedTuples list"
  | DResults "(string \<times> val) list list"

section \<open>Conditions\<close>

text \<open>The type switch on the result of a condition.\<close>

definition cond_result :: "string \<Rightarrow> val \<Rightarrow> op_err + bool" where
  "cond_result pre v = (case v of
     VErr e \<Rightarrow> Inl (EvalError pre e) | VBool b \<Rightarrow> Inr b | _ \<Rightarrow> Inl (NonBool pre v))"

definition where_env :: "env \<Rightarrow> env" where
  "where_env E = E\<lparr>en_wild := False, en_agg := None\<rparr>"

section \<open>Filter (filter\_operator.go)\<close>

fun filter_loop :: "env \<Rightarrow> expr \<Rightarrow> row list \<Rightarrow> (op_err + row list) option" where
  "filter_loop E c [] = Some (Inr [])"
| "filter_loop E c (r # rs) = (case eval E c (est_of r) of
     None \<Rightarrow> None
   | Some (v, s1) \<Rightarrow> (case cond_result ''run Where error'' v of
       Inl e \<Rightarrow> Some (Inl e)
     | Inr b \<Rightarrow> (case filter_loop E c rs of
         None \<Rightarrow> None
       | Some (Inl e) \<Rightarrow> Some (Inl e)
       | Some (Inr out) \<Rightarrow> Some (Inr (if b then es_row s1 # out else out)))))"

definition row_tuple :: "row \<Rightarrow> Tuple" where
  "row_tuple r = (case r of
     RTuple t \<Rightarrow> t
   | _ \<Rightarrow> \<lparr>t_Emitter = [], t_Message = [], t_Timestamp = 0, t_Metadata = None, t_Alias = None\<rparr>)"

definition row_join :: "row \<Rightarrow> JoinTuple" where
  "row_join r = (case r of RJoin j \<Rightarrow> j | _ \<Rightarrow> \<lparr>jt_Tuples = [], jt_Alias = None\<rparr>)"

definition filter_tuples :: "env \<Rightarrow> expr \<Rightarrow> Tuple list \<Rightarrow> (op_err + Tuple list) option" where
  "filter_tuples E c ts =
     map_option (map_sum id (map row_tuple)) (filter_loop (where_env E) c (map RTuple ts))"

definition FilterOp :: "env \<Rightarrow> expr \<Rightarrow> opdata \<Rightarrow> opdata option" where
  "FilterOp E c data = (case data of
     DErr e \<Rightarrow> Some (DErr e)
   | DTuple t \<Rightarrow> (case filter_tuples E c [t] of
       None \<Rightarrow> None
     | Some (Inl e) \<Rightarrow> Some (DErr e)
     | Some (Inr []) \<Rightarrow> Some DNil
     | Some (Inr (t1 # _)) \<Rightarrow> Some (DTuple t1))
   | DBatch w \<Rightarrow> (case filter_tuples E c (wt_Tuples w) of
       None \<Rightarrow> None
     | Some (Inl e) \<Rightarrow> Some (DErr e)
     | Some (Inr f) \<Rightarrow> Some (DBatch (w\<lparr>wt_Tuples := f\<rparr>)))
   | DWindow w \<Rightarrow> (case wts_Content w of
       [c0] \<Rightarrow> (case filter_tuples E c (wt_Tuples c0) of
           None \<Rightarrow> None
         | Some (Inl e) \<Rightarrow> Some (DErr e)
         | Some (Inr r) \<Rightarrow> Some (if r = [] then DNil
             else DWindow (w\<lparr>wts_Content := [c0\<lparr>wt_Tuples := r\<rparr>]\<rparr>)))
     | _ \<Rightarrow> Some (DErr (MultipleTuples ''run Where error'')))
   | DJoin j \<Rightarrow> (case filter_loop (where_env E) c (map RJoin (jts_Content j)) of
       None \<Rightarrow> None
     | Some (Inl e) \<Rightarrow> Some (DErr e)
     | Some (Inr r) \<Rightarrow> Some (if r = [] then DNil
         else DJoin (j\<lparr>jts_Content := map row_join r\<rparr>)))
   | _ \<Rightarrow> Some (DErr (InvalidInput ''run Where error'')))"

section \<open>Aggregate (aggregate\_operator.go)\<close>

text \<open>
  The verb \<^verbatim>\<open>%v\<close> on the values a dimension usually has; the rendering of the other
  kinds is the parameter \<open>other\<close>.
\<close>

definition Sprint_v :: "(val \<Rightarrow> string) \<Rightarrow> val \<Rightarrow> string" where
  "Sprint_v other v = (case v of
     VNil \<Rightarrow> ''<nil>''
   | VBool b \<Rightarrow> (if b then ''true'' else ''false'')
   | VString s \<Rightarrow> s
   | VUint64 w \<Rightarrow> itoa (uint w)
   | _ \<Rightarrow> if isInt v then itoa (sint (toInt64 v)) else other v)"

text \<open>The name of the group of a row, and the row with the aliases the dimensions evaluated.\<close>

fun group_name :: "(val \<Rightarrow> string) \<Rightarrow> env \<Rightarrow> expr list \<Rightarrow> string \<Rightarrow> est \<Rightarrow> (err + string \<times> est) option" where
  "group_name pr E [] name s = Some (Inr (name, s))"
| "group_name pr E (d # ds) name s = (case eval E d s of
     None \<Rightarrow> None
   | Some (r, s1) \<Rightarrow> (case as_err r of
       Some e \<Rightarrow> Some (Inl e)
     | None \<Rightarrow> group_name pr E ds (name @ Sprint_v pr r @ '','') s1))"

text \<open>
  The map from names to groups keeps the order in which its groups were created. The loop
  variable \<open>result\<close> has the rows of every group in their order of arrival.
\<close>

fun add_to_group :: "string \<Rightarrow> row \<Rightarrow> (string \<times> row list) list \<Rightarrow> (string \<times> row list) list" where
  "add_to_group n m [] = [(n, [m])]"
| "add_to_group n m ((k, ts) # g) =
     (if k = n then (k, ts @ [m]) # g else (k, ts) # add_to_group n m g)"

fun group_loop ::
  "(val \<Rightarrow> string) \<Rightarrow> env \<Rightarrow> expr list \<Rightarrow> row list \<Rightarrow> (string \<times> row list) list \<Rightarrow>
     (op_err + (string \<times> row list) list) option" where
  "group_loop pr E ds [] result = Some (Inr result)"
| "group_loop pr E ds (m # ms) result = (case group_name pr E ds [] (est_of m) of
     None \<Rightarrow> None
   | Some (Inl e) \<Rightarrow> Some (Inl (EvalError ''run Group By error'' e))
   | Some (Inr (name, s)) \<Rightarrow> group_loop pr E ds ms (add_to_group name (es_row s) result))"

definition AggregateOp :: "(val \<Rightarrow> string) \<Rightarrow> env \<Rightarrow> dimensions \<Rightarrow> opdata \<Rightarrow> opdata option" where
  "AggregateOp pr E ds data =
     (if ds = [] then Some data
      else let pre = ''run Group By error'';
        input = (case data of
            DErr e \<Rightarrow> Inl (DErr e)
          | DTuple t \<Rightarrow> Inr ([RTuple t], None)
          | DWindow w \<Rightarrow> (case wts_Content w of
              [c0] \<Rightarrow> Inr (map RTuple (wt_Tuples c0), wts_Range w)
            | _ \<Rightarrow> Inl (DErr (MultipleTuples pre)))
          | DJoin j \<Rightarrow> Inr (map RJoin (jts_Content j), jts_Range j)
          | _ \<Rightarrow> Inl (DErr (InvalidInput pre)))
      in (case input of
            Inl e \<Rightarrow> Some e
          | Inr (ms, wr) \<Rightarrow> (case group_loop pr (where_env E) ds ms [] of
              None \<Rightarrow> None
            | Some (Inl e) \<Rightarrow> Some (DErr e)
            | Some (Inr g) \<Rightarrow> Some (if g = [] then DNil
                else DGroups (map (\<lambda>(n, ts). \<lparr>gt_Content = ts, gt_Range = wr\<rparr>) g)))))"

section \<open>Having (having\_operator.go)\<close>

definition agg_env :: "env \<Rightarrow> WindowRange option \<Rightarrow> env" where
  "agg_env E wr = E\<lparr>en_wild := True, en_agg := Some wr\<rparr>"

text \<open>The evaluation state of a group: its first row is the current row.\<close>

definition group_est :: "row list \<Rightarrow> est option" where
  "group_est ms = (case ms of
     [] \<Rightarrow> None
   | m # _ \<Rightarrow> Some \<lparr>es_row = m, es_data = ms, es_shared = Some 0, es_ptr = True\<rparr>)"

text \<open>The state for a copy of the \<open>i\<close>-th row of a collection that holds its rows by value.\<close>

definition copy_est :: "row list \<Rightarrow> nat \<Rightarrow> est" where
  "copy_est ms i = \<lparr>es_row = ms ! i, es_data = ms,
     es_shared = (if row_Alias (ms ! i) = None then None else Some i), es_ptr = False\<rparr>"

fun having_groups :: "env \<Rightarrow> expr \<Rightarrow> GroupedTuples list \<Rightarrow> (op_err + GroupedTuples list) option" where
  "having_groups E c [] = Some (Inr [])"
| "having_groups E c (g # gs) = (case group_est (gt_Content g) of
     None \<Rightarrow> None
   | Some s \<Rightarrow> (case eval (agg_env E (gt_Range g)) c s of
       None \<Rightarrow> None
     | Some (v, s1) \<Rightarrow> (case cond_result ''run Having error'' v of
         Inl e \<Rightarrow> Some (Inl e)
       | Inr b \<Rightarrow> (case having_groups E c gs of
           None \<Rightarrow> None
         | Some (Inl e) \<Rightarrow> Some (Inl e)
         | Some (Inr out) \<Rightarrow> Some (Inr (if b then g\<lparr>gt_Content := es_data s1\<rparr> # out else out))))))"

text \<open>
  On joined rows the loop writes the rows it keeps over the front of the very slice the
  aggregate functions read: \<open>ms\<close> is that slice, \<open>k\<close> rows are kept, \<open>i\<close> were
  visited and \<open>n\<close> are left.
\<close>

fun having_join ::
  "env \<Rightarrow> expr \<Rightarrow> WindowRange option \<Rightarrow> row list \<Rightarrow> nat \<Rightarrow> nat \<Rightarrow> nat \<Rightarrow> (op_err + row list) option"
  where
  "having_join E c wr ms k i 0 = Some (Inr (take k ms))"
| "having_join E c wr ms k i (Suc n) = (case eval (agg_env E wr) c (copy_est ms i) of
     None \<Rightarrow> None
   | Some (v, s1) \<Rightarrow> (case cond_result ''run Having error'' v of
       Inl e \<Rightarrow> Some (Inl e)
     | Inr b \<Rightarrow>
         if b then having_join E c wr ((es_data s1)[k := es_row s1]) (k + 1) (i + 1) n
         else having_join E c wr (es_data s1) k (i + 1) n))"

definition HavingOp :: "env \<Rightarrow> expr \<Rightarrow> opdata \<Rightarrow> opdata option" where
  "HavingOp E c data = (let pre = ''run Having error'' in case data of
     DErr e \<Rightarrow> Some (DErr e)
   | DGroups gs \<Rightarrow> (case having_groups E c gs of
       None \<Rightarrow> None
     | Some (Inl e) \<Rightarrow> Some (DErr e)
     | Some (Inr r) \<Rightarrow> Some (if r = [] then DNil else DGroups r))
   | DWindow w \<Rightarrow> (case wts_Content w of
       [c0] \<Rightarrow>
         if wt_Tuples c0 = [] then None
         else (case eval (agg_env E (wts_Range w)) c (copy_est (map RTuple (wt_Tuples c0)) 0) of
             None \<Rightarrow> None
           | Some (v, s1) \<Rightarrow> (case cond_result pre v of
               Inl e \<Rightarrow> Some (DErr e)
             | Inr b \<Rightarrow> Some (if b
                 then DWindow (w\<lparr>wts_Content := [c0\<lparr>wt_Tuples := map row_tuple (es_data s1)\<rparr>]\<rparr>)
                 else DNil)))
     | _ \<Rightarrow> Some (DErr (MultipleTuples pre)))
   | DJoin j \<Rightarrow> (case having_join E c (jts_Range j) (map RJoin (jts_Content j)) 0 0 (length (jts_Content j)) of
       None \<Rightarrow> None
     | Some (Inl e) \<Rightarrow> Some (DErr e)
     | Some (Inr r) \<Rightarrow> Some (if r = [] then DNil
         else DJoin (j\<lparr>jts_Content := map row_join r\<rparr>)))
   | _ \<Rightarrow> Some (DErr (InvalidInput pre)))"

section \<open>Project (project\_operator.go)\<close>

definition assignName :: "string \<Rightarrow> string \<Rightarrow> string" where
  "assignName name alias =
     (if trim_space alias \<noteq> [] then trim_space alias
      else if trim_space name \<noteq> [] then trim_space name else [])"

definition is_Wildcard :: "expr \<Rightarrow> bool" where
  "is_Wildcard e = (case e of Wildcard _ \<Rightarrow> True | _ \<Rightarrow> False)"

text \<open>
  The result is a Go map; a name that is already there is not overwritten. The caller prefixes an
  error with \<open>pre\<close>.
\<close>

fun project :: "string \<Rightarrow> env \<Rightarrow> field list \<Rightarrow> Message \<Rightarrow> est \<Rightarrow> (op_err + Message) option" where
  "project pre E [] result s = Some (Inr result)"
| "project pre E (f # fs) result s = (case eval E (fld_Expr f) s of
     None \<Rightarrow> None
   | Some (v, s1) \<Rightarrow> (case as_err v of
       Some e \<Rightarrow> Some (Inl (EvalError pre e))
     | None \<Rightarrow>
         if is_Wildcard (fld_Expr f) \<or> fld_Name f = ''*'' then
           (case as_map_or_message v of
              Some m \<Rightarrow> project pre E fs (add_new result m) s1
            | None \<Rightarrow> Some (Inl (WildcardNotMap pre)))
         else if v \<noteq> VNil then
           project pre E fs (add_new result [(assignName (fld_Name f) (fld_AName f), v)]) s1
         else project pre E fs result s1))"

text \<open>The rows of a collection, one result each; of an aggregate statement the first only.\<close>

fun project_each :: "string \<Rightarrow> env \<Rightarrow> field list \<Rightarrow> row list \<Rightarrow> (op_err + Message list) option" where
  "project_each pre E fs [] = Some (Inr [])"
| "project_each pre E fs (m # ms) = (case project pre E fs [] (est_of m) of
     None \<Rightarrow> None
   | Some (Inl e) \<Rightarrow> Some (Inl e)
   | Some (Inr r) \<Rightarrow> (case project_each pre E fs ms of
       None \<Rightarrow> None
     | Some (Inl e) \<Rightarrow> Some (Inl e)
     | Some (Inr rs) \<Rightarrow> Some (Inr (r # rs))))"

definition project_rows ::
  "string \<Rightarrow> env \<Rightarrow> bool \<Rightarrow> field list \<Rightarrow> row list \<Rightarrow> (op_err + Message list) option" where
  "project_rows pre E isAgg fs ms =
     (if isAgg then
        (if ms = [] then Some (Inr [])
         else map_option (map_sum id (\<lambda>r. [r])) (project pre E fs [] (copy_est ms 0)))
      else project_each pre E fs ms)"

fun project_groups :: "env \<Rightarrow> bool \<Rightarrow> field list \<Rightarrow> GroupedTuples list \<Rightarrow> (op_err + Message list) option" where
  "project_groups E isAgg fs [] = Some (Inr [])"
| "project_groups E isAgg fs (g # gs) = (case group_est (gt_Content g) of
     None \<Rightarrow> None
   | Some s \<Rightarrow>
       (case project ''run Select error''
           (if isAgg then agg_env E (gt_Range g) else E\<lparr>en_wild := True, en_agg := None\<rparr>) fs [] s of
          None \<Rightarrow> None
        | Some (Inl e) \<Rightarrow> Some (Inl e)
        | Some (Inr r) \<Rightarrow> (case project_groups E isAgg fs gs of
            None \<Rightarrow> None
          | Some (Inl e) \<Rightarrow> Some (Inl e)
          | Some (Inr rs) \<Rightarrow> Some (Inr (r # rs)))))"

definition MetaKey :: string where
  "MetaKey = ''__meta''"

text \<open>
  The operator returns the JSON text of the list of maps; here it is the list. The aggregate data
  of a tuple is the tuple itself, whose window range is 0 to 0.
\<close>

definition ProjectOp :: "env \<Rightarrow> field list \<Rightarrow> bool \<Rightarrow> bool \<Rightarrow> opdata \<Rightarrow> opdata option" where
  "ProjectOp E fs isAgg sendMeta data =
     (let pE = (\<lambda>wr. if isAgg then agg_env E wr else E\<lparr>en_wild := True, en_agg := None\<rparr>);
          out = map_option (\<lambda>r. case r of Inl e \<Rightarrow> DErr e | Inr rs \<Rightarrow> DResults rs)
      in case data of
        DErr e \<Rightarrow> Some (DErr e)
      | DTuple t \<Rightarrow>
          (case project ''run Select error'' (pE (Some \<lparr>WindowStart = 0, WindowEnd = 0\<rparr>)) fs []
              \<lparr>es_row = RTuple t, es_data = [RTuple t], es_shared = Some 0, es_ptr = True\<rparr> of
             None \<Rightarrow> None
           | Some (Inl e) \<Rightarrow> Some (DErr e)
           | Some (Inr r) \<Rightarrow> Some (DResults [(case t_Metadata t of
               Some md \<Rightarrow> if sendMeta then AList.update MetaKey (VMap md) r else r
             | None \<Rightarrow> r)]))
      | DWindow w \<Rightarrow> (case wts_Content w of
          [c0] \<Rightarrow> out (project_rows ''run Select error'' (pE (wts_Range w)) isAgg fs
            (map RTuple (wt_Tuples c0)))
        | _ \<Rightarrow> Some (DErr (MultipleTuples ''run Select error'')))
      | DJoin j \<Rightarrow> out (project_rows [] (pE (jts_Range j)) isAgg fs (map RJoin (jts_Content j)))
      | DGroups gs \<Rightarrow> out (project_groups E isAgg fs gs)
      | _ \<Rightarrow> Some (DErr (InvalidInput ''run Select error'')))"

section \<open>Loops over a condition\<close>

text \<open>
  The contract of a loop that keeps what passes a test and stops at the first error: \<open>test\<close>
  gives an element's verdict and the element as it is kept.
\<close>

locale cond_loop =
  fixes loop :: "'a list \<Rightarrow> (op_err + 'b list) option"
    and test :: "'a \<Rightarrow> (op_err + bool \<times> 'b) option"
  assumes loop_Nil: "loop [] = Some (Inr [])"
    and loop_Cons: "loop (x # xs) = (case test x of
        None \<Rightarrow> None
      | Some (Inl e) \<Rightarrow> Some (Inl e)
      | Some (Inr (b, y)) \<Rightarrow> (case loop xs of
          None \<Rightarrow> None
        | Some (Inl e) \<Rightarrow> Some (Inl e)
        | Some (Inr out) \<Rightarrow> Some (Inr (if b then y # out else out))))"
begin

definition passes :: "'a \<Rightarrow> bool" where
  "passes x \<longleftrightarrow> (case test x of Some (Inr (b, y)) \<Rightarrow> b | _ \<Rightarrow> False)"

definition kept :: "'a \<Rightarrow> 'b option" where
  "kept x = (case test x of Some (Inr (True, y)) \<Rightarrow> Some y | _ \<Rightarrow> None)"

lemma loop_ok:
  "(\<forall>x \<in> set xs. \<exists>b y. test x = Some (Inr (b, y))) \<Longrightarrow> loop xs = Some (Inr (List.map_filter kept xs))"
  by (induction xs) (auto simp: loop_Nil loop_Cons kept_def map_filter_simps split: option.splits bool.splits)

lemma loop_Inr:
  "loop xs = Some (Inr out) \<longleftrightarrow>
     (\<forall>x \<in> set xs. \<exists>b y. test x = Some (Inr (b, y))) \<and> out = List.map_filter kept xs"
proof
  show "loop xs = Some (Inr out) \<Longrightarrow>
    (\<forall>x \<in> set xs. \<exists>b y. test x = Some (Inr (b, y))) \<and> out = List.map_filter kept xs"
  proof (induction xs arbitrary: out)
    case (Cons x xs)
    then obtain b y where t: "test x = Some (Inr (b, y))"
      by (auto simp: loop_Cons split: option.splits sum.splits)
    with Cons.prems obtain o1 where "loop xs = Some (Inr o1)" "out = (if b then y # o1 else o1)"
      by (auto simp: loop_Cons split: option.splits sum.splits)
    with Cons.IH t show ?case
      by (auto simp: kept_def map_filter_simps)
  qed (simp add: loop_Nil map_filter_simps)
qed (simp add: loop_ok)

lemma loop_error:
  assumes "\<forall>x \<in> set xs. \<exists>b y. test x = Some (Inr (b, y))" "test x = Some (Inl e)"
  shows "loop (xs @ x # ys) = Some (Inl e)"
  using assms by (induction xs) (auto simp: loop_Cons)

end

text \<open>The loops of filter and of having over groups keep the contract.\<close>

definition filter_test :: "env \<Rightarrow> expr \<Rightarrow> row \<Rightarrow> (op_err + bool \<times> row) option" where
  "filter_test E c r = (case eval E c (est_of r) of
     None \<Rightarrow> None
   | Some (v, s1) \<Rightarrow> Some (map_sum id (\<lambda>b. (b, es_row s1)) (cond_result ''run Where error'' v)))"

interpretation fl: cond_loop "filter_loop E c" "filter_test E c" for E c
  by unfold_locales (auto simp: filter_test_def split: option.splits sum.splits)

definition having_test :: "env \<Rightarrow> expr \<Rightarrow> GroupedTuples \<Rightarrow> (op_err + bool \<times> GroupedTuples) option" where
  "having_test E c g = (case group_est (gt_Content g) of
     None \<Rightarrow> None
   | Some s \<Rightarrow> (case eval (agg_env E (gt_Range g)) c s of
       None \<Rightarrow> None
     | Some (v, s1) \<Rightarrow> Some (map_sum id (\<lambda>b. (b, g\<lparr>gt_Content := es_data s1\<rparr>))
         (cond_result ''run Having error'' v))))"

interpretation hv: cond_loop "having_groups E c" "having_test E c" for E c
  by unfold_locales (auto simp: having_test_def split: option.splits sum.splits)

lemma HavingOp_groups:
  "HavingOp E c (DGroups gs) = Some (DGroups r) \<longleftrightarrow>
     r \<noteq> [] \<and> (\<forall>g \<in> set gs. \<exists>b y. having_test E c g = Some (Inr (b, y))) \<and>
     r = List.map_filter (hv.kept E c) gs"
proof -
  have "HavingOp E c (DGroups gs) = Some (DGroups r) \<longleftrightarrow> r \<noteq> [] \<and> having_groups E c gs = Some (Inr r)"
    by (auto simp: HavingOp_def split: option.splits sum.splits if_splits)
  then show ?thesis
    unfolding hv.loop_Inr .
qed

lemma filter_test_base:
  "filter_test E c r = Some (Inr (b, y)) \<Longrightarrow> row_base y = row_base r"
  by (cases "cond_result ''run Where error'' (fst (the (eval E c (est_of r))))")
    (auto simp: filter_test_def est_of_def same_base_def dest!: eval_same_base(1) split: option.splits)

lemma map_row_base_kept:
  "map row_base (List.map_filter (fl.kept E c) rs) = map row_base (filter (fl.passes E c) rs)"
proof (induction rs)
  case (Cons r rs)
  show ?case
  proof (cases "fl.passes E c r")
    case True
    then obtain y where "filter_test E c r = Some (Inr (True, y))"
      by (auto simp: fl.passes_def split: option.splits sum.splits prod.splits)
    with True Cons show ?thesis
      using filter_test_base by (auto simp: fl.kept_def map_filter_simps)
  next
    case False
    then have "fl.kept E c r = None"
      by (auto simp: fl.passes_def fl.kept_def split: option.splits sum.splits prod.splits bool.splits)
    with False Cons show ?thesis
      by (simp add: map_filter_simps)
  qed
qed (simp add: map_filter_simps)


section \<open>Groups\<close>

text \<open>The name of a row's group and the row as the group holds it.\<close>

definition group_key :: "(val \<Rightarrow> string) \<Rightarrow> env \<Rightarrow> expr list \<Rightarrow> row \<Rightarrow> (string \<times> row) option" where
  "group_key pr E ds m = (case group_name pr E ds [] (est_of m) of
     Some (Inr (k, s)) \<Rightarrow> Some (k, es_row s) | _ \<Rightarrow> None)"

text \<open>The rows of one name, and what a list of groups has to be.\<close>

definition members :: "(string \<times> row) list \<Rightarrow> string \<Rightarrow> row list" where
  "members kms n = map snd (filter (\<lambda>(k, m). k = n) kms)"

definition groups_ok :: "(string \<times> row) list \<Rightarrow> (string \<times> row list) list \<Rightarrow> bool" where
  "groups_ok kms g \<longleftrightarrow> distinct (map fst g) \<and>
     (\<forall>n. map_of g n = (if members kms n = [] then None else Some (members kms n)))"

lemma fst_add_to_group: "fst ` set (add_to_group n m g) = insert n (fst ` set g)"
  by (induction n m g rule: add_to_group.induct) auto

lemma distinct_add_to_group: "distinct (map fst g) \<Longrightarrow> distinct (map fst (add_to_group n m g))"
  by (induction n m g rule: add_to_group.induct) (auto simp: fst_add_to_group)

lemma map_of_add_to_group:
  "map_of (add_to_group n m g) = (map_of g)(n \<mapsto> (case map_of g n of None \<Rightarrow> [] | Some ts \<Rightarrow> ts) @ [m])"
  by (induction n m g rule: add_to_group.induct) auto

lemma members_append: "members (kms @ [(k, m)]) n = members kms n @ (if k = n then [m] else [])"
  by (simp add: members_def)

lemma groups_ok_add:
  "groups_ok kms g \<Longrightarrow> groups_ok (kms @ [(n, m)]) (add_to_group n m g)"
  by (simp add: groups_ok_def distinct_add_to_group map_of_add_to_group members_append)

lemma group_loop_ok:
  assumes "group_loop pr E ds ms g0 = Some (Inr g)" "groups_ok kms g0"
  shows "\<exists>kms'. those (map (group_key pr E ds) ms) = Some kms' \<and> groups_ok (kms @ kms') g"
  using assms
proof (induction ms arbitrary: g0 kms)
  case (Cons m ms)
  then obtain n s where n: "group_name pr E ds [] (est_of m) = Some (Inr (n, s))"
    "group_loop pr E ds ms (add_to_group n (es_row s) g0) = Some (Inr g)"
    by (auto split: option.splits sum.splits)
  from Cons.IH [OF n(2) groups_ok_add [OF Cons.prems(2)]] show ?case
    by (auto simp: group_key_def n(1))
qed simp


lemma mset_members:
  assumes "groups_ok kms g"
  shows "mset (concat (map snd g)) = mset (map snd kms)"
  using assms
proof (induction g arbitrary: kms)
  case Nil
  then have *: "members kms n = []" for n
    by (auto simp: groups_ok_def split: if_splits)
  have "kms = []"
    using * [of "fst (hd kms)"] by (cases kms) (auto simp: members_def)
  then show ?case by simp
next
  case (Cons p g)
  obtain n ts where p: "p = (n, ts)" by force
  let ?rest = "filter (\<lambda>(k, m). k \<noteq> n) kms"
  have ts: "ts = members kms n"
    using Cons.prems p unfolding groups_ok_def by (auto dest!: spec [of _ n] split: if_splits)
  have rest: "members ?rest k = (if k = n then [] else members kms k)" for k
    by (auto simp: members_def case_prod_beta intro!: arg_cong [where f = "map snd"] filter_cong)
  have "groups_ok ?rest g"
    unfolding groups_ok_def rest
  proof (intro conjI allI)
    show "distinct (map fst g)" using Cons.prems by (simp add: groups_ok_def)
    fix k
    have "n \<notin> fst ` set g" using Cons.prems p by (simp add: groups_ok_def)
    then show "map_of g k = (if (if k = n then [] else members kms k) = [] then None else Some (if k = n then [] else members kms k))"
      using Cons.prems p unfolding groups_ok_def by (auto simp: map_of_eq_None_iff dest!: spec [of _ k] split: if_splits)
  qed
  then have "mset (concat (map snd g)) = mset (map snd ?rest)" by (rule Cons.IH)
  moreover have "mset (map snd kms) = mset ts + mset (map snd ?rest)"
    unfolding ts members_def by (induction kms) auto
  ultimately show ?case by (simp add: p)
qed


section \<open>Properties\<close>

definition evals_to :: "env \<Rightarrow> expr \<Rightarrow> row \<Rightarrow> val \<Rightarrow> bool" where
  "evals_to E c r v \<longleftrightarrow> map_option fst (eval E c (est_of r)) = Some v"

lemma filter_test_bool:
  "evals_to E c r (VBool b) \<Longrightarrow> \<exists>y. filter_test E c r = Some (Inr (b, y))"
  by (auto simp: evals_to_def filter_test_def cond_result_def)

lemma passes_evals_to: "fl.passes E c r \<longleftrightarrow> evals_to E c r (VBool True)"
  by (auto simp: fl.passes_def evals_to_def filter_test_def cond_result_def split: option.splits val.splits)

lemma row_base_tuple: "row_base (RTuple t) = RTuple (Tuple_Clone t)"
  by (simp add: row_base_def Tuple_Clone_def)

lemma row_base_RTuple_D: "row_base y = RTuple t \<Longrightarrow> y = RTuple (row_tuple y) \<and> Tuple_Clone (row_tuple y) = t"
  by (cases y) (auto simp: row_base_def Tuple_Clone_def row_tuple_def)

lemma map_row_tuple_base:
  "map row_base ys = map (\<lambda>t. row_base (RTuple t)) ts \<Longrightarrow> map Tuple_Clone (map row_tuple ys) = map Tuple_Clone ts"
proof (induction ys arbitrary: ts)
  case (Cons y ys)
  then show ?case
    by (cases ts) (auto simp: row_base_tuple dest: row_base_RTuple_D)
qed simp

lemma filter_tuples_ok:
  assumes "\<forall>t \<in> set ts. \<exists>b. evals_to (where_env E) c (RTuple t) (VBool b)"
  shows "\<exists>r. filter_tuples E c ts = Some (Inr r) \<and>
    map Tuple_Clone r = map Tuple_Clone (filter (\<lambda>t. evals_to (where_env E) c (RTuple t) (VBool True)) ts)"
proof -
  let ?E = "where_env E"
  have "\<forall>x \<in> set (map RTuple ts). \<exists>b y. filter_test ?E c x = Some (Inr (b, y))"
    using assms filter_test_bool by fastforce
  then have "filter_loop ?E c (map RTuple ts) = Some (Inr (List.map_filter (fl.kept ?E c) (map RTuple ts)))"
    by (rule fl.loop_ok)
  moreover have "map row_base (List.map_filter (fl.kept ?E c) (map RTuple ts)) =
      map (\<lambda>t. row_base (RTuple t)) (filter (\<lambda>t. evals_to ?E c (RTuple t) (VBool True)) ts)"
    by (simp add: map_row_base_kept filter_map passes_evals_to comp_def)
  ultimately show ?thesis
    by (simp add: filter_tuples_def map_row_tuple_base del: map_map)
qed

text \<open>
  (C13) A WHERE condition that evaluates to a boolean on every row of a window keeps exactly the rows
  where it is true, in their order and unchanged but for their alias caches; a window with no such
  row is dropped.
\<close>

theorem FilterOp_window:
  assumes "wts_Content w = [c0]"
    "\<forall>t \<in> set (wt_Tuples c0). \<exists>b. evals_to (where_env E) c (RTuple t) (VBool b)"
  shows "\<exists>r. FilterOp E c (DWindow w) =
      Some (if r = [] then DNil else DWindow (w\<lparr>wts_Content := [c0\<lparr>wt_Tuples := r\<rparr>]\<rparr>)) \<and>
    map Tuple_Clone r =
      map Tuple_Clone (filter (\<lambda>t. evals_to (where_env E) c (RTuple t) (VBool True)) (wt_Tuples c0))"
proof -
  from filter_tuples_ok [OF assms(2)] obtain r where r: "filter_tuples E c (wt_Tuples c0) = Some (Inr r)"
    "map Tuple_Clone r =
      map Tuple_Clone (filter (\<lambda>t. evals_to (where_env E) c (RTuple t) (VBool True)) (wt_Tuples c0))"
    by blast
  then have "FilterOp E c (DWindow w) =
      Some (if r = [] then DNil else DWindow (w\<lparr>wts_Content := [c0\<lparr>wt_Tuples := r\<rparr>]\<rparr>))"
    by (simp add: FilterOp_def assms(1))
  with r(2) show ?thesis by blast
qed

text \<open>
  (C12) GROUP BY partitions a window: every row is in exactly one group, a group has the rows of one
  group name in their order, no group is empty, and every group carries the window's range.
\<close>

theorem AggregateOp_partition:
  assumes "ds \<noteq> []" "wts_Content w = [c0]"
    "AggregateOp pr E ds (DWindow w) = Some (DGroups gs)"
  shows "\<exists>kms. those (map (group_key pr (where_env E) ds) (map RTuple (wt_Tuples c0))) = Some kms \<and>
    mset (concat (map gt_Content gs)) = mset (map snd kms) \<and>
    (\<forall>g \<in> set gs. \<exists>n \<in> fst ` set kms.
      gt_Content g = members kms n \<and> gt_Content g \<noteq> [] \<and> gt_Range g = wts_Range w)"
proof -
  obtain g where g: "group_loop pr (where_env E) ds (map RTuple (wt_Tuples c0)) [] = Some (Inr g)"
    "gs = map (\<lambda>(n, ts). \<lparr>gt_Content = ts, gt_Range = wts_Range w\<rparr>) g"
    using assms by (auto simp: AggregateOp_def Let_def split: option.splits sum.splits if_splits)
  have "groups_ok [] []"
    by (simp add: groups_ok_def members_def)
  from group_loop_ok [OF g(1) this] obtain kms where kms:
    "those (map (group_key pr (where_env E) ds) (map RTuple (wt_Tuples c0))) = Some kms" "groups_ok kms g"
    by auto
  have "map gt_Content gs = map snd g"
    by (simp add: g(2) case_prod_beta)
  then have "mset (concat (map gt_Content gs)) = mset (map snd kms)"
    using mset_members [OF kms(2)] by simp
  moreover have "\<exists>n \<in> fst ` set kms. ts = members kms n \<and> ts \<noteq> []" if "(n, ts) \<in> set g" for n ts
  proof -
    have "map_of g n = Some ts"
      using kms(2) that unfolding groups_ok_def by (blast intro: map_of_is_SomeI)
    then have "ts = members kms n" "ts \<noteq> []"
      using kms(2) by (auto simp: groups_ok_def split: if_splits)
    then show ?thesis
      by (force simp: members_def filter_empty_conv)
  qed
  ultimately show ?thesis
    using kms(1) by (fastforce simp: g(2))
qed


definition demo_tuple :: "Message \<Rightarrow> Tuple" where
  "demo_tuple m = \<lparr>t_Emitter = ''demo'', t_Message = m, t_Timestamp = 0, t_Metadata = None, t_Alias = None\<rparr>"

definition demo_window :: "Message list \<Rightarrow> WindowTuplesSet" where
  "demo_window ms = \<lparr>wts_Content = [\<lparr>wt_Emitter = ''demo'', wt_Tuples = map demo_tuple ms\<rparr>], wts_Range = None\<rparr>"

definition demo_cond :: expr where
  "demo_cond = BinaryExpr T_GT (FieldRef DefaultStream ''x'' None) (IntegerLiteral 1)"

theorem FilterOp_window_witness:
  "\<exists>r. FilterOp demo_env demo_cond (DWindow (demo_window [[(''x'', VInt64 1)], [(''x'', VInt64 2)]])) =
      Some (DWindow \<lparr>wts_Content = [\<lparr>wt_Emitter = ''demo'', wt_Tuples = r\<rparr>], wts_Range = None\<rparr>) \<and>
    map Tuple_Clone r = [demo_tuple [(''x'', VInt64 2)]]"
proof -
  let ?w = "demo_window [[(''x'', VInt64 1)], [(''x'', VInt64 2)]]"
  let ?c = "\<lparr>wt_Emitter = ''demo'', wt_Tuples = map demo_tuple [[(''x'', VInt64 1)], [(''x'', VInt64 2)]]\<rparr>"
  have ev: "evals_to (where_env demo_env) demo_cond (RTuple (demo_tuple [(''x'', VInt64 1)])) (VBool b) \<longleftrightarrow> \<not> b"
    "evals_to (where_env demo_env) demo_cond (RTuple (demo_tuple [(''x'', VInt64 2)])) (VBool b) \<longleftrightarrow> b" for b
    by (cases b; code_simp)+
  have "wts_Content ?w = [?c]"
    by (simp add: demo_window_def)
  moreover have "\<forall>t \<in> set (wt_Tuples ?c). \<exists>b. evals_to (where_env demo_env) demo_cond (RTuple t) (VBool b)"
    by (auto simp: ev)
  ultimately obtain r where r: "FilterOp demo_env demo_cond (DWindow ?w) =
      Some (if r = [] then DNil else DWindow (?w\<lparr>wts_Content := [?c\<lparr>wt_Tuples := r\<rparr>]\<rparr>))"
    "map Tuple_Clone r = map Tuple_Clone
      (filter (\<lambda>t. evals_to (where_env demo_env) demo_cond (RTuple t) (VBool True)) (wt_Tuples ?c))"
    using FilterOp_window [of ?w ?c demo_env demo_cond] by blast
  have m: "map Tuple_Clone r = [demo_tuple [(''x'', VInt64 2)]]"
    using r(2) by (simp add: ev Tuple_Clone_def) (simp add: demo_tuple_def)
  then have "r \<noteq> []"
    by auto
  with r(1) m show ?thesis
    by (auto simp: demo_window_def)
qed

definition ab_row :: "string \<Rightarrow> string \<Rightarrow> Message" where
  "ab_row a b = [(''a'', VString a), (''b'', VString b)]"

definition ab_dims :: dimensions where
  "ab_dims = [FieldRef DefaultStream ''a'' None, FieldRef DefaultStream ''b'' None]"

theorem AggregateOp_partition_witness:
  "\<exists>kms. those (map (group_key (\<lambda>_. []) (where_env demo_env) ab_dims)
      (map RTuple (map demo_tuple [ab_row ''p'' ''q'', ab_row ''r'' ''q'', ab_row ''p'' ''q'']))) = Some kms \<and>
    mset (concat [[RTuple (demo_tuple (ab_row ''p'' ''q'')), RTuple (demo_tuple (ab_row ''p'' ''q''))],
      [RTuple (demo_tuple (ab_row ''r'' ''q''))]]) = mset (map snd kms)"
proof -
  let ?ms = "[ab_row ''p'' ''q'', ab_row ''r'' ''q'', ab_row ''p'' ''q'']"
  let ?c = "\<lparr>wt_Emitter = ''demo'', wt_Tuples = map demo_tuple ?ms\<rparr>"
  let ?gs = "[\<lparr>gt_Content = [RTuple (demo_tuple (ab_row ''p'' ''q'')), RTuple (demo_tuple (ab_row ''p'' ''q''))], gt_Range = None\<rparr>,
      \<lparr>gt_Content = [RTuple (demo_tuple (ab_row ''r'' ''q''))], gt_Range = None\<rparr>]"
  have "AggregateOp (\<lambda>_. []) demo_env ab_dims (DWindow (demo_window ?ms)) = Some (DGroups ?gs)"
    by code_simp
  moreover have "ab_dims \<noteq> []" "wts_Content (demo_window ?ms) = [?c]"
    by (simp_all add: ab_dims_def demo_window_def)
  ultimately have "\<exists>kms. those (map (group_key (\<lambda>_. []) (where_env demo_env) ab_dims) (map RTuple (wt_Tuples ?c))) = Some kms \<and>
      mset (concat (map gt_Content ?gs)) = mset (map snd kms)"
    using AggregateOp_partition [of ab_dims "demo_window ?ms" ?c "\<lambda>_. []" demo_env ?gs] by blast
  then show ?thesis
    by (simp only: list.map GroupedTuples.simps WindowTuples.simps)
qed

text \<open> The group name joins the printed dimensions with commas and escapes nothing, so rows with
  different dimensions can fall into one group: here \<open>a = 'p,q', b = 'r'\<close> and
  \<open>a = 'p', b = 'q,r'\<close>.
\<close>

theorem AggregateOp_name_clash:
  "AggregateOp pr demo_env ab_dims (DWindow (demo_window [ab_row ''p,q'' ''r'', ab_row ''p'' ''q,r''])) =
     Some (DGroups [\<lparr>gt_Content = map RTuple (map demo_tuple [ab_row ''p,q'' ''r'', ab_row ''p'' ''q,r'']),
       gt_Range = None\<rparr>])"
  by code_simp

text \<open>An aggregate that sums its argument.\<close>

definition sum_env :: env where
  "sum_env = demo_env\<lparr>en_acall := (\<lambda>name args. case args of
     [VSlice vs] \<Rightarrow> (VInt64 (sum_list (map toInt64 vs)), True) | _ \<Rightarrow> (VNil, False))\<rparr>"

definition sum_having :: expr where
  "sum_having = BinaryExpr T_AND
     (BinaryExpr T_EQ (Call ''sum'' [FieldRef DefaultStream ''x'' None]) (IntegerLiteral 6))
     (BinaryExpr T_GT (FieldRef DefaultStream ''x'' None) (IntegerLiteral 1))"

definition x_join :: "i64w list \<Rightarrow> JoinTupleSets" where
  "x_join xs = \<lparr>jts_Content = map (\<lambda>x. \<lparr>jt_Tuples = [demo_tuple [(''x'', VInt64 x)]], jt_Alias = None\<rparr>) xs,
     jts_Range = None\<rparr>"

text \<open> HAVING over joined rows writes the kept rows over the rows its aggregates read. With
  \<open>HAVING sum(x) = 6 AND x > 1\<close> over the rows 1, 2, 3, whose sum is 6, the row 2 is kept over
  the row 1, and the row 3, for which the condition holds as well, sees the sum 7 and is dropped.
\<close>

theorem HavingOp_join_overwrites:
  "HavingOp sum_env sum_having (DJoin (x_join [1, 2, 3])) = Some (DJoin (x_join [2]))"
  by code_simp

end
