(* ===== verification/GoSort.thy ===== *)
theory GoSort
  imports Main
begin

text \<open>
  \<^verbatim>\<open>sort.Sort\<close> of Go 1.16 on an interface whose \<^verbatim>\<open>Less\<close> may change its state, as the sorter of the rule engine does. Both methods are arguments: \<open>lt i j s\<close> is the
  answer with the new state, \<open>swap i j s\<close> the new state. The locale \<open>sort_interface\<close> says what an invariant of the two methods needs, and shows that sorting keeps it and never
  leaves the range of the indexes, whatever \<^verbatim>\<open>Less\<close> answers.
\<close>

section \<open>The algorithm\<close>

type_synonym 's less = "nat \<Rightarrow> nat \<Rightarrow> 's \<Rightarrow> bool \<times> 's"

type_synonym 's swap = "nat \<Rightarrow> nat \<Rightarrow> 's \<Rightarrow> 's"

text \<open>\<^verbatim>\<open>if data.Less(i, j) { data.Swap(i, j) }\<close>.\<close>

definition cmp_swap :: "'s less \<Rightarrow> 's swap \<Rightarrow> nat \<Rightarrow> nat \<Rightarrow> 's \<Rightarrow> bool \<times> 's" where
  "cmp_swap lt swap i j s = (let (b, s1) = lt i j s in (b, if b then swap i j s1 else s1))"

function ins_inner :: "'s less \<Rightarrow> 's swap \<Rightarrow> nat \<Rightarrow> nat \<Rightarrow> 's \<Rightarrow> 's" where
  "ins_inner lt swap a j s =
     (if a < j then (let (b, s1) = cmp_swap lt swap j (j - 1) s in if b then ins_inner lt swap a (j - 1) s1 else s1) else s)"
  by auto
termination
  by (relation "measure (\<lambda>(lt, swap, a, j, s). j)") auto

definition insertionSort :: "'s less \<Rightarrow> 's swap \<Rightarrow> nat \<Rightarrow> nat \<Rightarrow> 's \<Rightarrow> 's" where
  "insertionSort lt swap a b s = fold (ins_inner lt swap a) [a + 1..<b] s"

function siftDown :: "'s less \<Rightarrow> 's swap \<Rightarrow> nat \<Rightarrow> nat \<Rightarrow> nat \<Rightarrow> 's \<Rightarrow> 's" where
  "siftDown lt swap root hi first s =
     (let child = 2 * root + 1 in
      if hi \<le> child then s
      else let (b, s1) = (if child + 1 < hi then lt (first + child) (first + child + 1) s else (False, s));
               child1 = (if b then child + 1 else child);
               (c, s2) = cmp_swap lt swap (first + root) (first + child1) s1
           in if c then siftDown lt swap child1 hi first s2 else s2)"
  by auto
termination
  by (relation "measure (\<lambda>(lt, swap, root, hi, first, s). hi - root)") (auto split: if_splits)

definition heapSort :: "'s less \<Rightarrow> 's swap \<Rightarrow> nat \<Rightarrow> nat \<Rightarrow> 's \<Rightarrow> 's" where
  "heapSort lt swap a b s =
     (let hi = b - a;
          s1 = fold (\<lambda>i. siftDown lt swap i hi a) (rev [0..<Suc ((hi - 1) div 2)]) s
      in fold (\<lambda>i s. siftDown lt swap 0 i a (swap a (a + i) s)) (rev [0..<hi]) s1)"

definition medianOfThree :: "'s less \<Rightarrow> 's swap \<Rightarrow> nat \<Rightarrow> nat \<Rightarrow> nat \<Rightarrow> 's \<Rightarrow> 's" where
  "medianOfThree lt swap m1 m0 m2 s =
     (let s1 = snd (cmp_swap lt swap m1 m0 s); (b, s2) = cmp_swap lt swap m2 m1 s1
      in if b then snd (cmp_swap lt swap m1 m0 s2) else s2)"

text \<open>The loops \<^verbatim>\<open>for ; b < c && f(b); b++\<close> and \<^verbatim>\<open>for ; b < c && f(c-1); c--\<close>; \<open>pos\<close> is false when \<open>f\<close> is negated.\<close>

function scan_up :: "bool \<Rightarrow> (nat \<Rightarrow> 's \<Rightarrow> bool \<times> 's) \<Rightarrow> nat \<Rightarrow> nat \<Rightarrow> 's \<Rightarrow> nat \<times> 's" where
  "scan_up pos f b c s = (if b < c then (let (t, s1) = f b s in if t = pos then scan_up pos f (b + 1) c s1 else (b, s1)) else (b, s))"
  by auto
termination
  by (relation "measure (\<lambda>(pos, f, b, c, s). c - b)") auto

function scan_down :: "bool \<Rightarrow> (nat \<Rightarrow> 's \<Rightarrow> bool \<times> 's) \<Rightarrow> nat \<Rightarrow> nat \<Rightarrow> 's \<Rightarrow> nat \<times> 's" where
  "scan_down pos f b c s = (if b < c then (let (t, s1) = f (c - 1) s in if t = pos then scan_down pos f b (c - 1) s1 else (c, s1)) else (c, s))"
  by auto
termination
  by (relation "measure (\<lambda>(pos, f, b, c, s). c)") auto

declare ins_inner.simps [simp del] siftDown.simps [simp del] scan_up.simps [simp del] scan_down.simps [simp del]

lemma scan_up_bounds: "b \<le> fst (scan_up pos f b c s) \<and> fst (scan_up pos f b c s) \<le> max b c"
proof (induction pos f b c s rule: scan_up.induct)
  case (1 pos f b c s)
  obtain t s1 where f: "f b s = (t, s1)"
    by (cases "f b s")
  show ?case
    using 1 [OF _ refl f [symmetric]] f by (simp add: scan_up.simps [of pos f b c s] max_def) linarith
qed

lemma scan_down_bounds: "min b c \<le> fst (scan_down pos f b c s) \<and> fst (scan_down pos f b c s) \<le> c"
proof (induction pos f b c s rule: scan_down.induct)
  case (1 pos f b c s)
  obtain t s1 where f: "f (c - 1) s = (t, s1)"
    by (cases "f (c - 1) s")
  show ?case
    using 1 [OF _ refl f [symmetric]] f by (auto simp: scan_down.simps [of pos f b c s] min_def split: if_splits)
qed

text \<open>The partition loop, and the one that separates the elements equal to the pivot.\<close>

function part_gt :: "'s less \<Rightarrow> 's swap \<Rightarrow> nat \<Rightarrow> nat \<Rightarrow> nat \<Rightarrow> 's \<Rightarrow> nat \<times> nat \<times> 's" where
  "part_gt lt swap pivot b c s =
     (let (b1, s1) = scan_up False (lt pivot) b c s;
          (c1, s2) = scan_down True (lt pivot) b1 c s1
      in if c1 \<le> b1 then (b1, c1, s2) else part_gt lt swap pivot (b1 + 1) (c1 - 1) (swap b1 (c1 - 1) s2))"
  by auto
termination
proof (relation "measure (\<lambda>(lt, swap, pivot, b, c, s). c - b)", goal_cases)
  case (2 lt swap pivot b c s x b1 s1 y c1 s2)
  then have "b \<le> b1" "c1 \<le> c"
    using scan_up_bounds [of b _ _ c s] scan_down_bounds [of b1 c _ _ s1] by (metis fst_conv)+
  then show ?case
    using 2 by simp
qed simp

function part_eq :: "'s less \<Rightarrow> 's swap \<Rightarrow> nat \<Rightarrow> nat \<Rightarrow> nat \<Rightarrow> 's \<Rightarrow> nat \<times> nat \<times> 's" where
  "part_eq lt swap pivot a b s =
     (let (b1, s1) = scan_down False (\<lambda>k. lt k pivot) a b s;
          (a1, s2) = scan_up True (\<lambda>k. lt k pivot) a b1 s1
      in if b1 \<le> a1 then (a1, b1, s2) else part_eq lt swap pivot (a1 + 1) (b1 - 1) (swap a1 (b1 - 1) s2))"
  by auto
termination
proof (relation "measure (\<lambda>(lt, swap, pivot, a, b, s). b - a)", goal_cases)
  case (2 lt swap pivot a b s x b1 s1 y a1 s2)
  then have "a \<le> a1" "b1 \<le> b"
    using scan_down_bounds [of a b _ _ s] scan_up_bounds [of a _ _ b1 s1] by (metis fst_conv)+
  then show ?case
    using 2 by simp
qed simp

declare part_gt.simps [simp del] part_eq.simps [simp del]

text \<open>The three checks for elements equal to the pivot, when the right part is small.\<close>

definition dup_checks :: "'s less \<Rightarrow> 's swap \<Rightarrow> nat \<Rightarrow> nat \<Rightarrow> nat \<Rightarrow> nat \<Rightarrow> nat \<Rightarrow> 's \<Rightarrow> bool \<times> nat \<times> nat \<times> 's" where
  "dup_checks lt swap pivot m hi b c s =
     (let (t1, s1) = lt pivot (hi - 1) s;
          (c1, d1, s2) = (if t1 then (c, 0, s1) else (c + 1, 1, swap c (hi - 1) s1));
          (t2, s3) = lt (b - 1) pivot s2;
          (b1, d2) = (if t2 then (b, d1) else (b - 1, d1 + 1));
          (t3, s4) = lt m pivot s3;
          (b2, d3, s5) = (if t3 then (b1, d2, s4) else (b1 - 1, d2 + 1, swap m (b1 - 1) s4))
      in (1 < (d3 :: nat), b2, c1, s5))"

definition ninther :: "'s less \<Rightarrow> 's swap \<Rightarrow> nat \<Rightarrow> nat \<Rightarrow> nat \<Rightarrow> 's \<Rightarrow> 's" where
  "ninther lt swap lo m hi s =
     (if 40 < hi - lo then
        let d = (hi - lo) div 8 in
          medianOfThree lt swap (hi - 1) (hi - 1 - d) (hi - 1 - 2 * d)
            (medianOfThree lt swap m (m - d) (m + d) (medianOfThree lt swap lo (lo + d) (lo + 2 * d) s))
      else s)"

definition doPivot :: "'s less \<Rightarrow> 's swap \<Rightarrow> nat \<Rightarrow> nat \<Rightarrow> 's \<Rightarrow> nat \<times> nat \<times> 's" where
  "doPivot lt swap lo hi s =
     (let m = (lo + hi) div 2;
          s1 = medianOfThree lt swap lo m (hi - 1) (ninther lt swap lo m hi s);
          (a, s2) = scan_up True (\<lambda>k. lt k lo) (lo + 1) (hi - 1) s1;
          (b, c, s3) = part_gt lt swap lo a (hi - 1) s2;
          (protect, b1, c1, s4) =
            (if hi - c < 5 then (True, b, c, s3)
             else if hi - c < (hi - lo) div 4 then dup_checks lt swap lo m hi b c s3
             else (False, b, c, s3));
          (a2, b2, s5) = (if protect then part_eq lt swap lo a b1 s4 else (a, b1, s4))
      in (b2 - 1, c1, swap lo (b2 - 1) s5))"

definition shell_step :: "'s less \<Rightarrow> 's swap \<Rightarrow> nat \<Rightarrow> 's \<Rightarrow> 's" where
  "shell_step lt swap i s = snd (cmp_swap lt swap i (i - 6) s)"

definition small_sort :: "'s less \<Rightarrow> 's swap \<Rightarrow> nat \<Rightarrow> nat \<Rightarrow> 's \<Rightarrow> 's" where
  "small_sort lt swap a b s =
     (if 1 < b - a then insertionSort lt swap a b (fold (shell_step lt swap) [a + 6..<b] s) else s)"

text \<open>The smaller part is sorted by the recursive call, the larger one by the next round of the loop.\<close>

fun quickSort :: "'s less \<Rightarrow> 's swap \<Rightarrow> nat \<Rightarrow> nat \<Rightarrow> nat \<Rightarrow> 's \<Rightarrow> 's" where
  "quickSort lt swap 0 a b s = (if 12 < b - a then heapSort lt swap a b s else small_sort lt swap a b s)"
| "quickSort lt swap (Suc d) a b s =
     (if 12 < b - a then
        (let (mlo, mhi, s1) = doPivot lt swap a b s
         in fold (\<lambda>(x, y). quickSort lt swap d x y) (if mlo - a < b - mhi then [(a, mlo), (mhi, b)] else [(mhi, b), (a, mlo)]) s1)
      else small_sort lt swap a b s)"

fun bit_length :: "nat \<Rightarrow> nat" where
  "bit_length n = (if n = 0 then 0 else Suc (bit_length (n div 2)))"

definition sort_Sort :: "'s less \<Rightarrow> 's swap \<Rightarrow> nat \<Rightarrow> 's \<Rightarrow> 's" where
  "sort_Sort lt swap n s = quickSort lt swap (2 * bit_length n) 0 n s"

section \<open>Invariants of sorting\<close>

lemma fold_keeps: "(\<And>x s. x \<in> set xs \<Longrightarrow> P s \<Longrightarrow> P (f x s)) \<Longrightarrow> P s \<Longrightarrow> P (fold f xs s)"
  by (induction xs arbitrary: s) auto

locale sort_interface =
  fixes lt :: "'s less" and swap :: "'s swap" and inv :: "'s \<Rightarrow> bool" and n :: nat
  assumes lt_inv: "i < n \<Longrightarrow> j < n \<Longrightarrow> inv s \<Longrightarrow> inv (snd (lt i j s))"
    and swap_inv: "i < n \<Longrightarrow> j < n \<Longrightarrow> inv s \<Longrightarrow> inv (swap i j s)"
begin

lemma lt_invD: "lt i j s = (b, s1) \<Longrightarrow> i < n \<Longrightarrow> j < n \<Longrightarrow> inv s \<Longrightarrow> inv s1"
  by (metis lt_inv snd_conv)

lemma cmp_swap_inv: "cmp_swap lt swap i j s = (b, s1) \<Longrightarrow> i < n \<Longrightarrow> j < n \<Longrightarrow> inv s \<Longrightarrow> inv s1"
  by (auto simp: cmp_swap_def intro: swap_inv lt_invD split: prod.splits if_splits)

lemma cmp_swap_snd_inv: "i < n \<Longrightarrow> j < n \<Longrightarrow> inv s \<Longrightarrow> inv (snd (cmp_swap lt swap i j s))"
  using cmp_swap_inv by (metis prod.collapse)

lemma ins_inner_inv: "j < n \<Longrightarrow> inv s \<Longrightarrow> inv (ins_inner lt swap a j s)"
proof (induction j arbitrary: s)
  case (Suc j)
  obtain b s1 where c: "cmp_swap lt swap (Suc j) j s = (b, s1)"
    by (cases "cmp_swap lt swap (Suc j) j s")
  then show ?case
    using Suc cmp_swap_inv [OF c] by (simp add: ins_inner.simps [of lt swap a "Suc j"])
qed (simp add: ins_inner.simps)

lemma insertionSort_inv: "b \<le> n \<Longrightarrow> inv s \<Longrightarrow> inv (insertionSort lt swap a b s)"
  unfolding insertionSort_def by (rule fold_keeps) (auto intro: ins_inner_inv)

lemma small_sort_inv: "b \<le> n \<Longrightarrow> inv s \<Longrightarrow> inv (small_sort lt swap a b s)"
  unfolding small_sort_def by (auto simp: shell_step_def intro!: insertionSort_inv fold_keeps [where P = inv] cmp_swap_snd_inv)

lemma siftDown_inv: "first + hi \<le> n \<Longrightarrow> inv s \<Longrightarrow> inv (siftDown lt swap root hi first s)"
proof (induction "hi - root" arbitrary: root s rule: less_induct)
  case less
  define r where "r = (if 2 * root + 2 < hi then lt (first + (2 * root + 1)) (first + (2 * root + 1) + 1) s else (False, s))"
  define child where "child = (if fst r then 2 * root + 2 else 2 * root + 1)"
  obtain c s2 where c: "cmp_swap lt swap (first + root) (first + child) (snd r) = (c, s2)"
    by (cases "cmp_swap lt swap (first + root) (first + child) (snd r)")
  show ?case
  proof (cases "hi \<le> 2 * root + 1")
    case False
    then have child: "child < hi" "root < child"
      by (auto simp: child_def r_def split: if_splits)
    have "inv (snd r)"
      using False less.prems by (auto simp: r_def intro: lt_inv)
    then have "inv s2"
      using cmp_swap_inv [OF c] child less.prems by simp
    moreover have "siftDown lt swap root hi first s = (if c then siftDown lt swap child hi first s2 else s2)"
      using False c by (subst siftDown.simps) (auto simp: Let_def r_def child_def split_beta)
    ultimately show ?thesis
      using less.hyps [of child s2] less.prems child by simp
  qed (use less in \<open>simp add: siftDown.simps\<close>)
qed

lemma heapSort_inv: "a \<le> b \<Longrightarrow> b \<le> n \<Longrightarrow> inv s \<Longrightarrow> inv (heapSort lt swap a b s)"
  unfolding heapSort_def Let_def by (intro fold_keeps [where P = inv] siftDown_inv swap_inv) auto

lemma medianOfThree_inv: "m1 < n \<Longrightarrow> m0 < n \<Longrightarrow> m2 < n \<Longrightarrow> inv s \<Longrightarrow> inv (medianOfThree lt swap m1 m0 m2 s)"
  by (auto simp: medianOfThree_def Let_def split: prod.split intro: cmp_swap_snd_inv cmp_swap_inv)

lemma scan_up_inv:
  "(\<And>k s. k < n \<Longrightarrow> inv s \<Longrightarrow> inv (snd (f k s))) \<Longrightarrow> c \<le> n \<Longrightarrow> inv s \<Longrightarrow> inv (snd (scan_up pos f b c s))"
proof (induction "c - b" arbitrary: b s)
  case (Suc m)
  have "inv (snd (f b s))"
    using Suc by simp
  then show ?case
    using Suc.hyps(1) [of "b + 1" "snd (f b s)"] Suc.hyps(2) Suc.prems by (simp add: scan_up.simps [of pos f b c s] split_beta)
qed (simp add: scan_up.simps)

lemma scan_down_inv:
  "(\<And>k s. k < n \<Longrightarrow> inv s \<Longrightarrow> inv (snd (f k s))) \<Longrightarrow> c \<le> n \<Longrightarrow> inv s \<Longrightarrow> inv (snd (scan_down pos f b c s))"
proof (induction c arbitrary: s)
  case (Suc c)
  have "inv (snd (f c s))"
    using Suc by simp
  then show ?case
    using Suc by (simp add: scan_down.simps [of pos f b "Suc c" s] split_beta)
qed (simp add: scan_down.simps)

lemma part_gt_inv:
  assumes "pivot < n" "c \<le> n" "b \<le> n" "inv s" "part_gt lt swap pivot b c s = (b1, c1, s1)"
  shows "inv s1 \<and> b1 \<le> n \<and> c1 \<le> c \<and> b \<le> b1"
  using assms
proof (induction "c - b" arbitrary: b c s rule: less_induct)
  case less
  obtain x t where x: "scan_up False (lt pivot) b c s = (x, t)"
    by (cases "scan_up False (lt pivot) b c s")
  obtain y u where y: "scan_down True (lt pivot) x c t = (y, u)"
    by (cases "scan_down True (lt pivot) x c t")
  have bnd: "b \<le> x" "x \<le> max b c" "y \<le> c"
    using scan_up_bounds [of b False "lt pivot" c s] scan_down_bounds [of x c True "lt pivot" t] x y by simp_all
  have u: "inv u"
    using scan_up_inv [of "lt pivot" c s False b] scan_down_inv [of "lt pivot" c t True x] x y less.prems by (simp add: lt_inv)
  have eq: "part_gt lt swap pivot b c s = (if y \<le> x then (x, y, u) else part_gt lt swap pivot (x + 1) (y - 1) (swap x (y - 1) u))"
    using x y by (simp add: part_gt.simps [of lt swap pivot b c s])
  show ?case
  proof (cases "y \<le> x")
    case False
    have "inv (swap x (y - 1) u)"
      using u False bnd less.prems by (intro swap_inv) auto
    then have "inv s1 \<and> b1 \<le> n \<and> c1 \<le> y - 1 \<and> x + 1 \<le> b1"
      using False bnd less.prems eq by (intro less.hyps [of "y - 1" "x + 1" "swap x (y - 1) u"]) auto
    then show ?thesis
      using bnd by linarith
  qed (use u bnd eq less.prems in auto)
qed

lemma part_eq_inv:
  assumes "pivot < n" "b \<le> n" "inv s" "part_eq lt swap pivot a b s = (a1, b1, s1)"
  shows "inv s1 \<and> b1 \<le> b"
  using assms
proof (induction "b - a" arbitrary: a b s rule: less_induct)
  case less
  define f where "f = (\<lambda>k. lt k pivot)"
  obtain y t where y: "scan_down False f a b s = (y, t)"
    by (cases "scan_down False f a b s")
  obtain x u where x: "scan_up True f a y t = (x, u)"
    by (cases "scan_up True f a y t")
  have f: "\<And>k s. k < n \<Longrightarrow> inv s \<Longrightarrow> inv (snd (f k s))"
    using less.prems by (simp add: f_def lt_inv)
  have bnd: "a \<le> x" "y \<le> b"
    using scan_up_bounds [of a True f y t] scan_down_bounds [of a b False f s] x y by simp_all
  have u: "inv u"
    using scan_down_inv [of f b s False a] scan_up_inv [of f y t True a] x y f less.prems bnd by simp
  have eq: "part_eq lt swap pivot a b s = (if y \<le> x then (x, y, u) else part_eq lt swap pivot (x + 1) (y - 1) (swap x (y - 1) u))"
    using x y by (simp add: part_eq.simps [of lt swap pivot a b s] f_def)
  show ?case
  proof (cases "y \<le> x")
    case False
    have "inv (swap x (y - 1) u)"
      using u False bnd less.prems by (intro swap_inv) auto
    then have "inv s1 \<and> b1 \<le> y - 1"
      using False bnd less.prems eq by (intro less.hyps [of "y - 1" "x + 1" "swap x (y - 1) u"]) auto
    then show ?thesis
      using bnd by linarith
  qed (use u bnd eq less.prems in auto)
qed

lemma dup_checks_inv:
  assumes "dup_checks lt swap pivot m hi b c s = (p, b1, c1, s1)" "pivot < n" "m < n" "c < hi" "hi \<le> n" "b \<le> n" "inv s"
  shows "inv s1 \<and> b1 \<le> n \<and> c1 \<le> hi"
proof -
  obtain t1 u1 where 1: "lt pivot (hi - 1) s = (t1, u1)"
    by (cases "lt pivot (hi - 1) s")
  define s2 where "s2 = (if t1 then u1 else swap c (hi - 1) u1)"
  obtain t2 u2 where 2: "lt (b - 1) pivot s2 = (t2, u2)"
    by (cases "lt (b - 1) pivot s2")
  obtain t3 u3 where 3: "lt m pivot u2 = (t3, u3)"
    by (cases "lt m pivot u2")
  have "b - 1 < n" "b - 1 - 1 < n"
    using assms by linarith+
  have "inv s2"
    using lt_invD [OF 1] assms by (auto simp: s2_def intro: swap_inv)
  then have u3: "inv u3"
    using lt_invD [OF 2] lt_invD [OF 3] \<open>b - 1 < n\<close> assms by blast
  have s1: "s1 = (if t3 then u3 else swap m ((if t2 then b else b - 1) - 1) u3)"
    "b1 = (if t2 then b else b - 1) - (if t3 then 0 else 1)" "c1 = (if t1 then c else c + 1)"
    using assms(1) 1 2 3 by (auto simp: dup_checks_def Let_def s2_def split: if_splits)
  have "inv s1"
    using u3 \<open>b - 1 < n\<close> \<open>b - 1 - 1 < n\<close> assms(3) by (simp add: s1(1) swap_inv)
  then show ?thesis
    using s1(2,3) assms by auto
qed

lemma ninther_inv: "hi \<le> n \<Longrightarrow> lo < hi \<Longrightarrow> inv s \<Longrightarrow> inv (ninther lt swap lo ((lo + hi) div 2) hi s)"
  unfolding ninther_def Let_def by (auto intro!: medianOfThree_inv)

lemma doPivot_inv:
  assumes "doPivot lt swap lo hi s = (mlo, mhi, s1)" "12 < hi - lo" "hi \<le> n" "inv s"
  shows "inv s1 \<and> mlo < n"
proof -
  let ?m = "(lo + hi) div 2"
  let ?s1 = "medianOfThree lt swap lo ?m (hi - 1) (ninther lt swap lo ?m hi s)"
  have m: "?m < n" "lo < n" "hi - 1 < n"
    using assms by linarith+
  then have s1: "inv ?s1"
    using assms by (intro medianOfThree_inv ninther_inv) auto
  obtain a s2 where a: "scan_up True (\<lambda>k. lt k lo) (lo + 1) (hi - 1) ?s1 = (a, s2)"
    by (cases "scan_up True (\<lambda>k. lt k lo) (lo + 1) (hi - 1) ?s1")
  obtain b c s3 where b: "part_gt lt swap lo a (hi - 1) s2 = (b, c, s3)"
    by (cases "part_gt lt swap lo a (hi - 1) s2")
  have "inv s2" "a \<le> n"
    using scan_up_inv [of "\<lambda>k. lt k lo" "hi - 1" ?s1 True "lo + 1"] scan_up_bounds [of "lo + 1" True "\<lambda>k. lt k lo" "hi - 1" ?s1] a s1 m assms
    by (auto simp: lt_inv)
  then have s3: "inv s3" "b \<le> n" "c \<le> hi - 1"
    using part_gt_inv [OF _ _ _ _ b] m assms by auto
  define d where "d = (if hi - c < 5 then (True, b, c, s3) else if hi - c < (hi - lo) div 4 then dup_checks lt swap lo ?m hi b c s3 else (False, b, c, s3))"
  obtain p b1 c1 s4 where d4: "d = (p, b1, c1, s4)"
    by (cases d)
  have s4: "inv s4" "b1 \<le> n"
    using dup_checks_inv [of lo ?m hi b c s3 p b1 c1 s4] d4 s3 m assms by (auto simp: d_def split: if_splits)
  obtain a2 b2 s5 where e: "(if p then part_eq lt swap lo a b1 s4 else (a, b1, s4)) = (a2, b2, s5)"
    by (cases "if p then part_eq lt swap lo a b1 s4 else (a, b1, s4)")
  have s5: "inv s5" "b2 \<le> n"
    using part_eq_inv [of lo b1 s4 a a2 b2 s5] e s4 m by (auto split: if_splits)
  have "mlo = b2 - 1" "s1 = swap lo (b2 - 1) s5"
    using assms(1) a b d4 e by (auto simp: doPivot_def d_def [symmetric])
  then show ?thesis
    using s5 m by (auto intro!: swap_inv)
qed

lemma quickSort_inv: "b \<le> n \<Longrightarrow> inv s \<Longrightarrow> inv (quickSort lt swap d a b s)"
proof (induction d arbitrary: a b s)
  case 0
  then show ?case
    by (auto intro: heapSort_inv small_sort_inv)
next
  case (Suc d)
  show ?case
  proof (cases "12 < b - a")
    case True
    obtain mlo mhi s1 where p: "doPivot lt swap a b s = (mlo, mhi, s1)"
      by (cases "doPivot lt swap a b s")
    have "inv s1" "mlo \<le> n"
      using doPivot_inv [OF p True] Suc.prems by auto
    then show ?thesis
      using p True Suc by simp
  qed (use Suc.prems in \<open>auto intro: small_sort_inv\<close>)
qed

lemma sort_inv: "inv s \<Longrightarrow> inv (sort_Sort lt swap n s)"
  unfolding sort_Sort_def by (rule quickSort_inv) auto

end

end
