(* ===== verification/Ordering.thy ===== *)
theory Ordering
  imports Operators GoSort "HOL-Library.Multiset"
begin

text \<open>
  ORDER BY: \<^verbatim>\<open>MultiSorter\<close> of \<^verbatim>\<open>internal/xsql/valuer.go\<close> and \<^verbatim>\<open>order_operator.go\<close>. The sorter loads the sort fields of every row once, checks their types and
  sorts with \<^verbatim>\<open>sort.Sort\<close> (\<open>GoSort\<close>). Its \<^verbatim>\<open>Less\<close> exchanges the loaded values whenever it answers true, in the belief that the rows are exchanged next.
\<close>

section \<open>Comparing loaded values\<close>

definition loaded :: "Message \<Rightarrow> string \<Rightarrow> val" where
  "loaded p n = (case map_of p n of None \<Rightarrow> VNil | Some v \<Rightarrow> v)"

definition lt_val :: "time_parse \<Rightarrow> val \<Rightarrow> val \<Rightarrow> bool" where
  "lt_val tp v w \<longleftrightarrow> simpleDataEval tp False v w T_LT = VBool True"

text \<open>The answer of \<^verbatim>\<open>Less\<close> on two rows of loaded values.\<close>

fun fields_less :: "time_parse \<Rightarrow> sort_field list \<Rightarrow> Message \<Rightarrow> Message \<Rightarrow> bool" where
  "fields_less tp [] p q = False"
| "fields_less tp (f # fs) p q =
     (let vp = loaded p (sf_Name f); vq = loaded q (sf_Name f) in
      if vp = VNil \<and> vq \<noteq> VNil then False
      else if vp \<noteq> VNil \<and> vq = VNil then True
      else if vp = VNil \<and> vq = VNil then False
      else if lt_val tp vp vq then sf_Ascending f
      else if lt_val tp vq vp then \<not> sf_Ascending f
      else fields_less tp fs p q)"

section \<open>The sorter\<close>

record 'r MultiSorter =
  ms_values :: "Message list"
  ms_data :: "'r list"

definition swap_at :: "nat \<Rightarrow> nat \<Rightarrow> 'a list \<Rightarrow> 'a list" where
  "swap_at i j xs = xs[i := xs ! j, j := xs ! i]"

definition ms_Less :: "time_parse \<Rightarrow> sort_field list \<Rightarrow> nat \<Rightarrow> nat \<Rightarrow> 'r MultiSorter \<Rightarrow> bool \<times> 'r MultiSorter" where
  "ms_Less tp fs i j ms =
     (if fields_less tp fs (ms_values ms ! i) (ms_values ms ! j) then (True, ms\<lparr>ms_values := swap_at i j (ms_values ms)\<rparr>) else (False, ms))"

definition ms_Swap :: "nat \<Rightarrow> nat \<Rightarrow> 'r MultiSorter \<Rightarrow> 'r MultiSorter" where
  "ms_Swap i j ms = ms\<lparr>ms_data := swap_at i j (ms_data ms)\<rparr>"

text \<open>\<^verbatim>\<open>fmt.Sprintf("%T", v)\<close> as far as \<^verbatim>\<open>validate\<close> tells the types apart.\<close>

datatype type_name = TyNumber | TyBool | TyString | TyTime | TyOther

fun type_of :: "val \<Rightarrow> type_name" where
  "type_of (VInt _) = TyNumber"
| "type_of (VInt64 _) = TyNumber"
| "type_of (VFloat64 _) = TyNumber"
| "type_of (VUint64 _) = TyNumber"
| "type_of (VBool _) = TyBool"
| "type_of (VString _) = TyString"
| "type_of (VTime _) = TyTime"
| "type_of _ = TyOther"

definition validate_type :: "time_parse \<Rightarrow> type_name option \<Rightarrow> val \<Rightarrow> bool" where
  "validate_type tp t v = (v = VNil \<or> (case t of
     None \<Rightarrow> True
   | Some TyTime \<Rightarrow> InterfaceToTime tp v \<noteq> None
   | Some TyOther \<Rightarrow> False
   | Some t1 \<Rightarrow> type_of v = t1))"

text \<open>Loading the fields of one row: the types seen so far, one per field, and the values.\<close>

fun load_fields :: "time_parse \<Rightarrow> row \<Rightarrow> sort_field list \<Rightarrow> type_name option list \<Rightarrow> Message \<Rightarrow> (op_err + type_name option list \<times> Message) option" where
  "load_fields tp r (f # fs) (t # ts) m =
     (case row_Value r (sf_Name f) of
        None \<Rightarrow> None
      | Some x \<Rightarrow>
          (let vp = (case x of None \<Rightarrow> VNil | Some v \<Rightarrow> v) in
           case vp of
             VErr e \<Rightarrow> Some (Inl (EvalError ''run Order By error: '' e))
           | _ \<Rightarrow>
               (let t1 = (if t = None \<and> vp \<noteq> VNil then Some (type_of vp) else t) in
                if \<not> validate_type tp t1 vp then Some (Inl (OpMessage ''run Order By error: incompatible types for comparison''))
                else (case load_fields tp r fs ts (AList.update (sf_Name f) vp m) of
                        Some (Inr (ts1, m1)) \<Rightarrow> Some (Inr (t1 # ts1, m1))
                      | other \<Rightarrow> other))))"
| "load_fields tp r _ _ m = Some (Inr ([], m))"

fun load_rows :: "time_parse \<Rightarrow> sort_field list \<Rightarrow> row option list \<Rightarrow> type_name option list \<Rightarrow> (op_err + Message list) option" where
  "load_rows tp fs [] ts = Some (Inr [])"
| "load_rows tp fs (None # rs) ts = None"
| "load_rows tp fs (Some r # rs) ts =
     (case load_fields tp r fs ts [] of
        None \<Rightarrow> None
      | Some (Inl e) \<Rightarrow> Some (Inl e)
      | Some (Inr (ts1, m)) \<Rightarrow>
          (case load_rows tp fs rs ts1 of
             None \<Rightarrow> None
           | Some (Inl e) \<Rightarrow> Some (Inl e)
           | Some (Inr ms) \<Rightarrow> Some (Inr (m # ms))))"

text \<open>\<open>idx\<close> is \<^verbatim>\<open>Index\<close> of the collection, which panics for a group without rows.\<close>

definition MultiSorter_Sort :: "time_parse \<Rightarrow> sort_field list \<Rightarrow> ('r \<Rightarrow> row option) \<Rightarrow> 'r list \<Rightarrow> (op_err + 'r list) option" where
  "MultiSorter_Sort tp fs idx data =
     (case load_rows tp fs (map idx data) (replicate (length fs) None) of
        None \<Rightarrow> None
      | Some (Inl e) \<Rightarrow> Some (Inl e)
      | Some (Inr vs) \<Rightarrow> Some (Inr (ms_data (sort_Sort (ms_Less tp fs) ms_Swap (length data) \<lparr>ms_values = vs, ms_data = data\<rparr>))))"

section \<open>The operator\<close>

definition ordered :: "('c \<Rightarrow> opdata) \<Rightarrow> (op_err + 'c) option \<Rightarrow> opdata option" where
  "ordered d r = (case r of None \<Rightarrow> None | Some (Inl e) \<Rightarrow> Some (DErr e) | Some (Inr x) \<Rightarrow> Some (d x))"

definition group_Index :: "GroupedTuples \<Rightarrow> row option" where
  "group_Index g = (case gt_Content g of [] \<Rightarrow> None | r # _ \<Rightarrow> Some r)"

definition OrderOp_Apply :: "time_parse \<Rightarrow> sort_field list \<Rightarrow> opdata \<Rightarrow> opdata option" where
  "OrderOp_Apply tp fs data = (case data of
     DErr e \<Rightarrow> Some data
   | DTuple t \<Rightarrow> Some data
   | DWindow w \<Rightarrow>
       (case wts_Content w of
          [] \<Rightarrow> Some data
        | c # cs \<Rightarrow> ordered (\<lambda>ts. DWindow (w\<lparr>wts_Content := c\<lparr>wt_Tuples := ts\<rparr> # cs\<rparr>)) (MultiSorter_Sort tp fs (\<lambda>t. Some (RTuple t)) (wt_Tuples c)))
   | DJoin j \<Rightarrow> ordered (\<lambda>ts. DJoin (j\<lparr>jts_Content := ts\<rparr>)) (MultiSorter_Sort tp fs (\<lambda>t. Some (RJoin t)) (jts_Content j))
   | DGroups g \<Rightarrow> ordered DGroups (MultiSorter_Sort tp fs group_Index g)
   | _ \<Rightarrow> Some (DErr (OpMessage ''run Order By error: expect xsql.Valuer or its array type'')))"

section \<open>Less is asymmetric\<close>

lemma str_lt_asym: "str_lt x y \<Longrightarrow> \<not> str_lt y x"
  by (induction x y rule: str_lt.induct) auto

lemma lt_val_norm:
  assumes "v \<noteq> VNil" "w \<noteq> VNil"
  shows "lt_val tp v w = (case (convertNum v, convertNum w) of
     (VFloat64 l, VFloat64 r) \<Rightarrow> f_lt l r
   | (VFloat64 l, VInt64 r) \<Rightarrow> f_lt l (f_of_int (sint r))
   | (VFloat64 l, VUint64 r) \<Rightarrow> f_lt l (f_of_int (uint r))
   | (VInt64 l, VFloat64 r) \<Rightarrow> f_lt (f_of_int (sint l)) r
   | (VInt64 l, VInt64 r) \<Rightarrow> sint l < sint r
   | (VInt64 l, VUint64 r) \<Rightarrow> sint l < 0 \<or> l < r
   | (VUint64 l, VFloat64 r) \<Rightarrow> f_lt (f_of_int (uint l)) r
   | (VUint64 l, VInt64 r) \<Rightarrow> \<not> sint r < 0 \<and> l < r
   | (VUint64 l, VUint64 r) \<Rightarrow> l < r
   | (VString l, VString r) \<Rightarrow> str_lt l r
   | (VTime l, x) \<Rightarrow> (case InterfaceToTime tp x of None \<Rightarrow> False | Some t \<Rightarrow> l < t)
   | _ \<Rightarrow> False)"
  using assms
  by (cases "convertNum v"; cases "convertNum w")
    (auto simp: lt_val_def simpleDataEval_def bool_op_def eval_lhs_float_def eval_lhs_int_def eval_lhs_uint_def float_op_def int_op_def
      int_uint_op_def uint_int_op_def uint_op_def string_op_def time_op_def invalidOpError_def split: option.splits)

lemma lt_val_asym: "v \<noteq> VNil \<Longrightarrow> w \<noteq> VNil \<Longrightarrow> lt_val tp v w \<Longrightarrow> \<not> lt_val tp w v"
  by (cases "convertNum v"; cases "convertNum w")
    (auto simp: lt_val_norm InterfaceToTime_def dest: f_lt_asym str_lt_asym)

lemma fields_less_asym: "fields_less tp fs p q \<Longrightarrow> \<not> fields_less tp fs q p"
proof (induction fs)
  case (Cons f fs)
  define v w where "v = loaded p (sf_Name f)" and "w = loaded q (sf_Name f)"
  have "\<not> (lt_val tp v w \<and> lt_val tp w v)" if "v \<noteq> VNil" "w \<noteq> VNil"
    using that lt_val_asym by blast
  then show ?case
    using Cons unfolding fields_less.simps Let_def v_def [symmetric] w_def [symmetric]
    by (cases "v = VNil"; cases "w = VNil"; cases "lt_val tp v w"; cases "lt_val tp w v") simp_all
qed simp

section \<open>Loading\<close>

text \<open>The values that are loaded for a row depend on the row alone.\<close>

definition sort_key_of :: "sort_field list \<Rightarrow> row \<Rightarrow> Message" where
  "sort_key_of fs r = fold (\<lambda>f. AList.update (sf_Name f) (case row_Value r (sf_Name f) of Some (Some v) \<Rightarrow> v | _ \<Rightarrow> VNil)) fs []"

lemma load_fields_key:
  "load_fields tp r fs ts m = Some (Inr (ts1, m1)) \<Longrightarrow> length ts = length fs \<Longrightarrow>
     length ts1 = length fs
     \<and> m1 = fold (\<lambda>f. AList.update (sf_Name f) (case row_Value r (sf_Name f) of Some (Some v) \<Rightarrow> v | _ \<Rightarrow> VNil)) fs m"
proof (induction fs arbitrary: ts m ts1 m1)
  case (Cons f fs)
  then obtain t ts2 where ts: "ts = t # ts2" "length ts2 = length fs"
    by (cases ts) auto
  define vp where "vp = (case row_Value r (sf_Name f) of Some (Some v) \<Rightarrow> v | _ \<Rightarrow> VNil)"
  obtain t1 ts3 where l: "load_fields tp r fs ts2 (AList.update (sf_Name f) vp m) = Some (Inr (ts3, m1))" "ts1 = t1 # ts3"
    using Cons.prems(1) unfolding ts(1) load_fields.simps vp_def
    by (cases "row_Value r (sf_Name f)"; auto simp: Let_def split: val.split_asm if_split_asm option.split_asm sum.split_asm prod.split_asm)
  then show ?case
    using Cons.IH [OF l(1) ts(2)] by (simp add: vp_def)
qed simp

lemma load_rows_keys:
  "load_rows tp fs rs ts = Some (Inr vs) \<Longrightarrow> length ts = length fs \<Longrightarrow> vs = map (\<lambda>r. sort_key_of fs (the r)) rs"
proof (induction tp fs rs ts arbitrary: vs rule: load_rows.induct)
  case (3 tp fs r rs ts)
  then obtain ts1 m ms where l: "load_fields tp r fs ts [] = Some (Inr (ts1, m))" "load_rows tp fs rs ts1 = Some (Inr ms)" "vs = m # ms"
    by (auto split: option.splits sum.splits)
  then show ?case
    using load_fields_key [OF l(1)] 3 by (auto simp: sort_key_of_def)
qed auto

section \<open>Sorting keeps the rows\<close>

lemma mset_swap_at: "i < length xs \<Longrightarrow> j < length xs \<Longrightarrow> mset (swap_at i j xs) = mset xs"
  using mset_swap [of j xs i] by (simp add: swap_at_def)

lemma length_swap_at [simp]: "length (swap_at i j xs) = length xs"
  by (simp add: swap_at_def)

text \<open>Whatever \<^verbatim>\<open>Less\<close> answers, the rows are permuted.\<close>

interpretation ms_rows: sort_interface "ms_Less tp fs" ms_Swap
  "\<lambda>ms. mset (ms_data ms) = mset data" "length data" for tp fs data
  by unfold_locales (simp add: ms_Less_def, simp add: ms_Swap_def, metis mset_eq_length mset_swap_at)

section \<open>Up to twelve rows are sorted\<close>

text \<open>The loaded values belong to the rows as long as every true \<^verbatim>\<open>Less\<close> is followed by the exchange of the rows.\<close>

definition synced :: "('r \<Rightarrow> Message) \<Rightarrow> 'r list \<Rightarrow> 'r MultiSorter" where
  "synced key rs = \<lparr>ms_values = map key rs, ms_data = rs\<rparr>"

abbreviation out_of_order :: "time_parse \<Rightarrow> sort_field list \<Rightarrow> ('r \<Rightarrow> Message) \<Rightarrow> 'r \<Rightarrow> 'r \<Rightarrow> bool" where
  "out_of_order tp fs key x y \<equiv> fields_less tp fs (key y) (key x)"

lemma map_swap_at: "i < length xs \<Longrightarrow> j < length xs \<Longrightarrow> map f (swap_at i j xs) = swap_at i j (map f xs)"
  by (simp add: swap_at_def map_update)

lemma cmp_swap_synced:
  assumes "i < length rs" "j < length rs"
  shows "cmp_swap (ms_Less tp fs) ms_Swap i j (synced key rs) =
    (if fields_less tp fs (key (rs ! i)) (key (rs ! j)) then (True, synced key (swap_at i j rs)) else (False, synced key rs))"
  using assms by (simp add: cmp_swap_def ms_Less_def ms_Swap_def synced_def map_swap_at)

text \<open>All neighbours up to index \<open>i\<close> are in order but the ones that meet at \<open>j\<close>, where the element on its way down is.\<close>

definition inserting :: "time_parse \<Rightarrow> sort_field list \<Rightarrow> ('r \<Rightarrow> Message) \<Rightarrow> nat \<Rightarrow> nat \<Rightarrow> 'r list \<Rightarrow> bool" where
  "inserting tp fs key i j rs \<longleftrightarrow>
     (\<forall>k. Suc k \<le> i \<and> Suc k \<noteq> j \<longrightarrow> \<not> out_of_order tp fs key (rs ! k) (rs ! Suc k))
     \<and> (0 < j \<and> Suc j \<le> i \<longrightarrow> \<not> out_of_order tp fs key (rs ! (j - 1)) (rs ! Suc j))"

definition in_order :: "time_parse \<Rightarrow> sort_field list \<Rightarrow> ('r \<Rightarrow> Message) \<Rightarrow> nat \<Rightarrow> 'r list \<Rightarrow> bool" where
  "in_order tp fs key i rs \<longleftrightarrow> (\<forall>k. Suc k < i \<longrightarrow> \<not> out_of_order tp fs key (rs ! k) (rs ! Suc k))"

lemma inserting_step:
  assumes "inserting tp fs key i (Suc j) rs" "Suc j \<le> i" "i < length rs" "out_of_order tp fs key (rs ! j) (rs ! Suc j)"
  shows "inserting tp fs key i j (swap_at (Suc j) j rs)"
proof -
  let ?s = "swap_at (Suc j) j rs"
  have nth: "?s ! k = (if k = j then rs ! Suc j else if k = Suc j then rs ! j else rs ! k)" for k
    using assms(2,3) by (auto simp: swap_at_def nth_list_update)
  have "\<not> out_of_order tp fs key (?s ! k) (?s ! Suc k)" if "Suc k \<le> i" "Suc k \<noteq> j" for k
    using assms(1,4) that fields_less_asym [OF assms(4)] unfolding inserting_def by (simp add: nth)
  moreover have "\<not> out_of_order tp fs key (?s ! (j - 1)) (?s ! Suc j)" if "0 < j" "Suc j \<le> i"
    using assms(1) that unfolding inserting_def nth by (cases j) simp_all
  ultimately show ?thesis
    unfolding inserting_def by blast
qed

lemma ins_inner_synced:
  assumes "inserting tp fs key i j rs" "j \<le> i" "i < length rs"
  shows "\<exists>rs1. ins_inner (ms_Less tp fs) ms_Swap 0 j (synced key rs) = synced key rs1 \<and> mset rs1 = mset rs \<and> in_order tp fs key (Suc i) rs1"
  using assms
proof (induction j arbitrary: rs)
  case 0
  then show ?case
    by (auto simp: ins_inner.simps inserting_def in_order_def)
next
  case (Suc j)
  show ?case
  proof (cases "out_of_order tp fs key (rs ! j) (rs ! Suc j)")
    case True
    have "inserting tp fs key i j (swap_at (Suc j) j rs)"
      by (rule inserting_step) (use Suc.prems True in auto)
    then obtain rs1 where "ins_inner (ms_Less tp fs) ms_Swap 0 j (synced key (swap_at (Suc j) j rs)) = synced key rs1"
      "mset rs1 = mset (swap_at (Suc j) j rs)" "in_order tp fs key (Suc i) rs1"
      using Suc.IH Suc.prems by (metis Suc_leD length_swap_at)
    then show ?thesis
      using True Suc.prems by (auto simp: ins_inner.simps [of _ _ 0 "Suc j"] cmp_swap_synced mset_swap_at)
  next
    case False
    have "in_order tp fs key (Suc i) rs"
      using Suc.prems(1) False unfolding inserting_def in_order_def by (metis Suc_le_eq less_Suc_eq_le old.nat.inject)
    then show ?thesis
      using False Suc.prems by (auto simp: ins_inner.simps [of _ _ 0 "Suc j"] cmp_swap_synced)
  qed
qed

lemma insertionSort_synced:
  assumes "i \<le> length rs" "0 < i"
  shows "\<exists>rs1. insertionSort (ms_Less tp fs) ms_Swap 0 i (synced key rs) = synced key rs1 \<and> mset rs1 = mset rs \<and> in_order tp fs key i rs1"
  using assms
proof (induction i)
  case (Suc i)
  show ?case
  proof (cases "i = 0")
    case True
    then show ?thesis
      by (auto simp: insertionSort_def in_order_def)
  next
    case False
    then obtain rs1 where 1: "insertionSort (ms_Less tp fs) ms_Swap 0 i (synced key rs) = synced key rs1" "mset rs1 = mset rs" "in_order tp fs key i rs1"
      using Suc by auto
    have "inserting tp fs key i i rs1"
      using 1(3) by (auto simp: inserting_def in_order_def)
    moreover have "i < length rs1"
      using Suc.prems 1(2) by (metis Suc_le_eq mset_eq_length)
    ultimately obtain rs2 where "ins_inner (ms_Less tp fs) ms_Swap 0 i (synced key rs1) = synced key rs2" "mset rs2 = mset rs1" "in_order tp fs key (Suc i) rs2"
      using ins_inner_synced [of tp fs key i i rs1] by auto
    then show ?thesis
      using 1 False by (auto simp: insertionSort_def)
  qed
qed simp

lemma shell_synced:
  "\<forall>i \<in> set is. i < length rs \<Longrightarrow>
   \<exists>rs1. fold (shell_step (ms_Less tp fs) ms_Swap) is (synced key rs) = synced key rs1 \<and> mset rs1 = mset rs"
proof (induction "is" arbitrary: rs)
  case (Cons i "is")
  then have "i < length rs" "i - 6 < length rs"
    by auto
  then show ?case
    using Cons.IH [of rs] Cons.IH [of "swap_at i (i - 6) rs"] Cons.prems by (simp add: shell_step_def cmp_swap_synced mset_swap_at)
qed auto

lemma sort_synced:
  assumes "length rs \<le> 12"
  shows "\<exists>rs1. sort_Sort (ms_Less tp fs) ms_Swap (length rs) (synced key rs) = synced key rs1 \<and> mset rs1 = mset rs \<and> in_order tp fs key (length rs) rs1"
proof -
  have eq: "sort_Sort (ms_Less tp fs) ms_Swap (length rs) s = small_sort (ms_Less tp fs) ms_Swap 0 (length rs) s" for s :: "'a MultiSorter"
    using assms by (cases "2 * bit_length (length rs)") (auto simp: sort_Sort_def)
  show ?thesis
  proof (cases "1 < length rs")
    case True
    obtain rs1 where 1: "fold (shell_step (ms_Less tp fs) ms_Swap) [0 + 6..<length rs] (synced key rs) = synced key rs1"
      "mset rs1 = mset rs"
      using shell_synced [of "[0 + 6..<length rs]" rs tp fs key] by auto
    have "length rs1 = length rs"
      using 1(2) by (rule mset_eq_length)
    moreover have "0 < length rs"
      using True by linarith
    ultimately show ?thesis
      using insertionSort_synced [of "length rs" rs1 tp fs key] True 1 by (simp add: eq small_sort_def)
  next
    case False
    then show ?thesis
      by (auto simp: eq small_sort_def in_order_def)
  qed
qed

section \<open>ORDER BY\<close>

lemma MultiSorter_Sort_rows:
  assumes "MultiSorter_Sort tp fs idx data = Some (Inr out)"
  shows "mset out = mset data \<and> (length data \<le> 12 \<longrightarrow> in_order tp fs (\<lambda>x. sort_key_of fs (the (idx x))) (length data) out)"
proof -
  let ?key = "\<lambda>x. sort_key_of fs (the (idx x))"
  obtain vs where vs: "load_rows tp fs (map idx data) (replicate (length fs) None) = Some (Inr vs)"
    and out: "out = ms_data (sort_Sort (ms_Less tp fs) ms_Swap (length data) \<lparr>ms_values = vs, ms_data = data\<rparr>)"
    using assms by (auto simp: MultiSorter_Sort_def split: option.splits sum.splits)
  have "mset out = mset data"
    using ms_rows.sort_inv [of "\<lparr>ms_values = vs, ms_data = data\<rparr>" data tp fs] by (simp add: out)
  moreover have "\<lparr>ms_values = vs, ms_data = data\<rparr> = synced ?key data"
    using load_rows_keys [OF vs] by (simp add: synced_def comp_def)
  then have "in_order tp fs ?key (length data) out" if "length data \<le> 12"
    using sort_synced [OF that, of tp fs ?key] by (auto simp: out synced_def)
  ultimately show ?thesis
    by blast
qed

text \<open>The rows that an operator's data are ordered by: the tuples of the first stream, the joined rows, the first row of every group.\<close>

definition order_rows :: "opdata \<Rightarrow> row option list" where
  "order_rows d = (case d of
     DWindow w \<Rightarrow> (case wts_Content w of [] \<Rightarrow> [] | c # _ \<Rightarrow> map (\<lambda>t. Some (RTuple t)) (wt_Tuples c))
   | DJoin j \<Rightarrow> map (\<lambda>t. Some (RJoin t)) (jts_Content j)
   | DGroups g \<Rightarrow> map group_Index g
   | _ \<Rightarrow> [])"

lemma ordered_ok: "ordered d r = Some x \<Longrightarrow> (\<forall>e. x \<noteq> DErr e) \<Longrightarrow> \<exists>y. r = Some (Inr y) \<and> x = d y"
  by (auto simp: ordered_def split: option.splits sum.splits)

lemma not_in_order: "Suc k < n \<Longrightarrow> out_of_order tp fs key (rs ! k) (rs ! Suc k) \<Longrightarrow> \<not> in_order tp fs key n rs"
  by (auto simp: in_order_def)

lemma in_order_map: "in_order tp fs (\<lambda>x. key (f x)) n xs \<Longrightarrow> n \<le> length xs \<Longrightarrow> in_order tp fs key n (map f xs)"
  by (auto simp: in_order_def)

lemma sorted_rows:
  assumes "MultiSorter_Sort tp fs idx data = Some (Inr out)"
  shows "mset (map idx out) = mset (map idx data)
    \<and> (length data \<le> 12 \<longrightarrow> in_order tp fs (\<lambda>x. sort_key_of fs (the x)) (length data) (map idx out))"
proof -
  note rows = MultiSorter_Sort_rows [OF assms]
  then have "length data \<le> length out"
    using mset_eq_length [of out data] by simp
  then show ?thesis
    using rows by (auto intro: in_order_map)
qed


definition ex_window :: "string \<Rightarrow> opdata" where
  "ex_window ids = DWindow \<lparr>wts_Content = [\<lparr>wt_Emitter = ''s'', wt_Tuples = map (\<lambda>i. \<lparr>t_Emitter = ''s'',
     t_Message = [(''id'', VString [i])], t_Timestamp = 0, t_Metadata = None, t_Alias = None\<rparr>) ids\<rparr>], wts_Range = None\<rparr>"

definition ex_sort :: "sort_field list" where
  "ex_sort = [\<lparr>sf_Name = ''id'', sf_Ascending = True\<rparr>]"



end
