(* ===== verification/Joins.thy ===== *)
theory Joins
  imports Operators
begin

text \<open>
  The join operator, \<^verbatim>\<open>internal/topo/operator/join_operator.go\<close>: nested loops over the
  tuples of a window for the first join, and over the rows joined so far for every further one.
  A specification in the terms of relational algebra follows, and the proof that the first join
  meets it for every kind of join.

  A result is \<open>Some (Inl e)\<close> for a returned error and \<open>None\<close> for a panic. An alias map that
  several rows of a result share in the source is the same value in each of them here; maps that
  a tuple brought along from before the join are values.
\<close>

section \<open>Conditions and stream names\<close>

definition join_env :: "env \<Rightarrow> env" where
  "join_env E = E\<lparr>en_wild := False, en_agg := None\<rparr>"

text \<open>\<^verbatim>\<open>evalOn\<close>; without an expression the condition is true, since both pointers
  are set.\<close>

definition evalOn :: "env \<Rightarrow> join \<Rightarrow> row \<Rightarrow> (val \<times> row) option" where
  "evalOn E j r = (case jn_Expr j of
     None \<Rightarrow> Some (VBool True, r)
   | Some e \<Rightarrow> map_option (\<lambda>(v, s). (v, es_row s)) (eval (join_env E) e (est_of r)))"

definition join_result :: "val \<Rightarrow> op_err + bool" where
  "join_result v = cond_result ''run Join error'' v"

definition stream_visitor :: "string list visitor" where
  "stream_visitor n srcs = (case n of
     NExpr (FieldRef sn name al) \<Rightarrow>
       (True, fold (\<lambda>v ss. if v \<in> set ss then ss else ss @ [v]) (RefSources (FieldRef sn name al)) srcs)
   | _ \<Rightarrow> (True, srcs))"

definition table_key :: "table \<Rightarrow> string" where
  "table_key t = (if tbl_Alias t \<noteq> [] then tbl_Alias t else tbl_Name t)"

definition join_key :: "join \<Rightarrow> string" where
  "join_key j = (if jn_Alias j \<noteq> [] then jn_Alias j else jn_Name j)"

definition getStreamNames :: "table \<Rightarrow> join \<Rightarrow> string list" where
  "getStreamNames from j = (let srcs = walk_join stream_visitor j [] in
     if length srcs \<noteq> 2 then srcs @ [table_key from, join_key j] else srcs)"

section \<open>The first join\<close>

text \<open>
  The loop over the right tuples for one left tuple: \<open>joined\<close> is \<^verbatim>\<open>leftJoined\<close>, and
  the result has the rows appended and the flag. \<^verbatim>\<open>index == len(rights)-1\<close> is that no
  tuple is left.
\<close>

fun set_inner :: "env \<Rightarrow> join \<Rightarrow> Tuple \<Rightarrow> Tuple list \<Rightarrow> bool \<Rightarrow> (op_err + JoinTuple list \<times> bool) option" where
  "set_inner E j left [] joined = Some (Inr ([], joined))"
| "set_inner E j left (right # rights) joined =
     (let jt = jn_JoinType j;
          merged = (if jt \<in> {LEFT_JOIN, FULL_JOIN, CROSS_JOIN} then [left] else [])
      in if jt = CROSS_JOIN then
           (case set_inner E j left rights True of
              None \<Rightarrow> None
            | Some (Inl e) \<Rightarrow> Some (Inl e)
            | Some (Inr (out, b)) \<Rightarrow>
                Some (Inr (\<lparr>jt_Tuples = merged @ [right], jt_Alias = None\<rparr> # out, b)))
         else
           (case evalOn E j (RJoin \<lparr>jt_Tuples = [left, right], jt_Alias = None\<rparr>) of
              None \<Rightarrow> None
            | Some (v, temp) \<Rightarrow> (case join_result v of
                Inl e \<Rightarrow> Some (Inl e)
              | Inr val \<Rightarrow>
                  let tuples = (if val then (if jt = INNER_JOIN then [left, right] else merged @ [right])
                                else merged);
                      app = val \<or> (\<not> joined \<and> rights = [] \<and> tuples \<noteq> [])
                  in (case set_inner E j left rights (joined \<or> app) of
                        None \<Rightarrow> None
                      | Some (Inl e) \<Rightarrow> Some (Inl e)
                      | Some (Inr (out, b)) \<Rightarrow> Some (Inr (
                          (if app then [\<lparr>jt_Tuples = tuples, jt_Alias = row_Alias temp\<rparr>] else []) @ out,
                          b))))))"

fun set_outer :: "env \<Rightarrow> join \<Rightarrow> Tuple list \<Rightarrow> Tuple list \<Rightarrow> (op_err + JoinTuple list) option" where
  "set_outer E j [] rights = Some (Inr [])"
| "set_outer E j (left # lefts) rights = (case set_inner E j left rights False of
     None \<Rightarrow> None
   | Some (Inl e) \<Rightarrow> Some (Inl e)
   | Some (Inr (out, joined)) \<Rightarrow> (case set_outer E j lefts rights of
       None \<Rightarrow> None
     | Some (Inl e) \<Rightarrow> Some (Inl e)
     | Some (Inr rest) \<Rightarrow> Some (Inr (out @
         (if \<not> joined \<and> jn_JoinType j \<noteq> INNER_JOIN then [\<lparr>jt_Tuples = [left], jt_Alias = None\<rparr>] else [])
         @ rest))))"

text \<open>The right join: the loops exchanged, the right tuple first in every row.\<close>

fun right_inner ::
  "env \<Rightarrow> join \<Rightarrow> bool \<Rightarrow> Tuple \<Rightarrow> Tuple list \<Rightarrow> bool \<Rightarrow> (op_err + JoinTuple list \<times> bool) option" where
  "right_inner E j excl right [] joint = Some (Inr ([], joint))"
| "right_inner E j excl right (left # lefts) joint =
     (case evalOn E j (RJoin \<lparr>jt_Tuples = [right, left], jt_Alias = None\<rparr>) of
        None \<Rightarrow> None
      | Some (v, temp) \<Rightarrow> (case join_result v of
          Inl e \<Rightarrow> Some (Inl e)
        | Inr val \<Rightarrow>
            let tuples = (if val then [right, left] else [right]);
                app = (\<not> excl \<and> (val \<or> (\<not> joint \<and> lefts = [])))
            in (case right_inner E j excl right lefts (joint \<or> val \<or> app) of
                  None \<Rightarrow> None
                | Some (Inl e) \<Rightarrow> Some (Inl e)
                | Some (Inr (out, b)) \<Rightarrow> Some (Inr (
                    (if app then [\<lparr>jt_Tuples = tuples, jt_Alias = row_Alias temp\<rparr>] else []) @ out, b)))))"

fun right_outer :: "env \<Rightarrow> join \<Rightarrow> bool \<Rightarrow> Tuple list \<Rightarrow> Tuple list \<Rightarrow> (op_err + JoinTuple list) option" where
  "right_outer E j excl lefts [] = Some (Inr [])"
| "right_outer E j excl lefts (right # rights) = (case right_inner E j excl right lefts False of
     None \<Rightarrow> None
   | Some (Inl e) \<Rightarrow> Some (Inl e)
   | Some (Inr (out, joint)) \<Rightarrow> (case right_outer E j excl lefts rights of
       None \<Rightarrow> None
     | Some (Inl e) \<Rightarrow> Some (Inl e)
     | Some (Inr rest) \<Rightarrow> Some (Inr (out @
         (if \<not> joint then [\<lparr>jt_Tuples = [right], jt_Alias = None\<rparr>] else []) @ rest))))"

definition evalSetWithRightJoin ::
  "env \<Rightarrow> table \<Rightarrow> WindowTuplesSet \<Rightarrow> join \<Rightarrow> bool \<Rightarrow> (op_err + JoinTuple list) option" where
  "evalSetWithRightJoin E from input j excl = (let streams = getStreamNames from j in
     right_outer E j excl (GetBySrc input (streams ! 0)) (GetBySrc input (streams ! 1)))"

definition join_streams :: "table \<Rightarrow> join \<Rightarrow> string \<times> string" where
  "join_streams from j =
     (if jn_JoinType j \<noteq> CROSS_JOIN
      then (let streams = getStreamNames from j in (streams ! 0, streams ! 1))
      else (table_key from, join_key j))"

definition evalSet ::
  "env \<Rightarrow> table \<Rightarrow> WindowTuplesSet \<Rightarrow> join \<Rightarrow> (op_err + JoinTuple list) option" where
  "evalSet E from input j = (let (ls, rs) = join_streams from j in
     if jn_JoinType j = RIGHT_JOIN then evalSetWithRightJoin E from input j False
     else (case set_outer E j (GetBySrc input ls) (GetBySrc input rs) of
        None \<Rightarrow> None
      | Some (Inl e) \<Rightarrow> Some (Inl e)
      | Some (Inr sets) \<Rightarrow>
          if jn_JoinType j = FULL_JOIN then
            (case evalSetWithRightJoin E from input j True of
               None \<Rightarrow> None
             | Some (Inl e) \<Rightarrow> Some (Inl e)
             | Some (Inr rsets) \<Rightarrow> Some (Inr (sets @ rsets)))
          else Some (Inr sets)))"

section \<open>Further joins\<close>

text \<open>
  The left side is a row joined before. Its alias map collects the aliases of the conditions and
  is the map of every row made of it, so each of those rows ends with its last state
  (\<open>share_alias\<close>); a row made before the map existed has none.
\<close>

definition share_alias :: "Alias \<Rightarrow> JoinTuple \<Rightarrow> JoinTuple" where
  "share_alias a jt = (if jt_Alias jt = None then jt else jt\<lparr>jt_Alias := a\<rparr>)"

text \<open>The loop also returns the left row with its aliases. \<open>inner\<close> is \<^verbatim>\<open>innerAppend\<close>.\<close>

fun joinset_inner ::
  "env \<Rightarrow> join \<Rightarrow> JoinTuple \<Rightarrow> Tuple list \<Rightarrow> bool \<Rightarrow> bool \<Rightarrow> (op_err + JoinTuple list \<times> bool \<times> JoinTuple) option"
  where
  "joinset_inner E j left [] joined inner = Some (Inr ([], joined, left))"
| "joinset_inner E j left (right # rights) joined inner =
     (let jt = jn_JoinType j;
          merged = (if jt \<in> {LEFT_JOIN, FULL_JOIN, CROSS_JOIN} then jt_Tuples left else [])
      in if jt = CROSS_JOIN then
           (case joinset_inner E j left rights True inner of
              None \<Rightarrow> None
            | Some (Inl e) \<Rightarrow> Some (Inl e)
            | Some (Inr (out, b, l)) \<Rightarrow>
                Some (Inr (\<lparr>jt_Tuples = merged @ [right], jt_Alias = None\<rparr> # out, b, l)))
         else
           (case evalOn E j (RLeftRight left right) of
              None \<Rightarrow> None
            | Some (v, r) \<Rightarrow> (case join_result v of
                Inl e \<Rightarrow> Some (Inl e)
              | Inr val \<Rightarrow>
                  let left1 = left\<lparr>jt_Alias := row_Alias r\<rparr>;
                      withLeft = (val \<and> jt = INNER_JOIN \<and> \<not> inner);
                      tuples = (if val then merged @ (if withLeft then jt_Tuples left else []) @ [right]
                                else merged);
                      app = val \<or> (\<not> joined \<and> rights = [] \<and> tuples \<noteq> [])
                  in (case joinset_inner E j left1 rights (joined \<or> app) (inner \<or> withLeft) of
                        None \<Rightarrow> None
                      | Some (Inl e) \<Rightarrow> Some (Inl e)
                      | Some (Inr (out, b, l)) \<Rightarrow> Some (Inr (
                          (if app then [share_alias (jt_Alias l)
                              \<lparr>jt_Tuples = tuples, jt_Alias = jt_Alias left1\<rparr>] else []) @ out, b, l))))))"

text \<open>The rows joined before, with the aliases their maps got, are returned for the full join.\<close>

fun joinset_outer ::
  "env \<Rightarrow> join \<Rightarrow> JoinTuple list \<Rightarrow> Tuple list \<Rightarrow> (op_err + JoinTuple list \<times> JoinTuple list) option" where
  "joinset_outer E j [] rights = Some (Inr ([], []))"
| "joinset_outer E j (left # lefts) rights = (case joinset_inner E j left rights False False of
     None \<Rightarrow> None
   | Some (Inl e) \<Rightarrow> Some (Inl e)
   | Some (Inr (out, joined, l)) \<Rightarrow> (case joinset_outer E j lefts rights of
       None \<Rightarrow> None
     | Some (Inl e) \<Rightarrow> Some (Inl e)
     | Some (Inr (rest, ls)) \<Rightarrow> Some (Inr (out @
         (if \<not> joined \<and> jn_JoinType j \<noteq> INNER_JOIN
          then [\<lparr>jt_Tuples = jt_Tuples left, jt_Alias = None\<rparr>] else []) @ rest,
         share_alias (jt_Alias l) left # ls))))"

text \<open>
  The right join against the rows joined before. Here the right tuple, the first valuer, takes the
  aliases; the alias map of a new row is the one of the left row.
\<close>

definition share_tuple_alias :: "Alias \<Rightarrow> Tuple \<Rightarrow> Tuple" where
  "share_tuple_alias a t = (if t_Alias t = None then t else t\<lparr>t_Alias := a\<rparr>)"

fun rightset_inner ::
  "env \<Rightarrow> join \<Rightarrow> bool \<Rightarrow> Tuple \<Rightarrow> JoinTuple list \<Rightarrow> bool \<Rightarrow> (op_err + JoinTuple list \<times> bool \<times> Tuple) option"
  where
  "rightset_inner E j excl right [] joint = Some (Inr ([], joint, right))"
| "rightset_inner E j excl right (left # lefts) joint =
     (case evalOn E j (RRightLeft right left) of
        None \<Rightarrow> None
      | Some (v, r) \<Rightarrow> (case join_result v of
          Inl e \<Rightarrow> Some (Inl e)
        | Inr val \<Rightarrow>
            let right1 = right\<lparr>t_Alias := row_Alias r\<rparr>;
                app = (\<not> excl \<and> (val \<or> (\<not> joint \<and> lefts = [])))
            in (case rightset_inner E j excl right1 lefts (joint \<or> val \<or> app) of
                  None \<Rightarrow> None
                | Some (Inl e) \<Rightarrow> Some (Inl e)
                | Some (Inr (out, b, rt)) \<Rightarrow> Some (Inr (
                    (if app then [\<lparr>jt_Tuples = share_tuple_alias (t_Alias rt) right #
                        (if val then jt_Tuples left else []), jt_Alias = jt_Alias left\<rparr>] else []) @ out,
                    b, rt)))))"

fun rightset_outer ::
  "env \<Rightarrow> join \<Rightarrow> bool \<Rightarrow> JoinTuple list \<Rightarrow> Tuple list \<Rightarrow> (op_err + JoinTuple list) option" where
  "rightset_outer E j excl sets [] = Some (Inr [])"
| "rightset_outer E j excl sets (right # rights) = (case rightset_inner E j excl right sets False of
     None \<Rightarrow> None
   | Some (Inl e) \<Rightarrow> Some (Inl e)
   | Some (Inr (out, joint, rt)) \<Rightarrow> (case rightset_outer E j excl sets rights of
       None \<Rightarrow> None
     | Some (Inl e) \<Rightarrow> Some (Inl e)
     | Some (Inr rest) \<Rightarrow> Some (Inr (out @
         (if \<not> joint then [\<lparr>jt_Tuples = [rt], jt_Alias = None\<rparr>] else []) @ rest))))"

definition evalRightJoinSets ::
  "env \<Rightarrow> JoinTuple list \<Rightarrow> WindowTuplesSet \<Rightarrow> join \<Rightarrow> bool \<Rightarrow> (op_err + JoinTuple list) option" where
  "evalRightJoinSets E sets input j excl = rightset_outer E j excl sets (GetBySrc input (join_key j))"

text \<open>An error in the right part of a full join is dropped, as the source drops it.\<close>

definition evalJoinSets ::
  "env \<Rightarrow> JoinTuple list \<Rightarrow> WindowTuplesSet \<Rightarrow> join \<Rightarrow> (op_err + JoinTuple list) option" where
  "evalJoinSets E sets input j =
     (if jn_JoinType j = RIGHT_JOIN then evalRightJoinSets E sets input j False
      else (case joinset_outer E j sets (GetBySrc input (join_key j)) of
         None \<Rightarrow> None
       | Some (Inl e) \<Rightarrow> Some (Inl e)
       | Some (Inr (newSets, set1)) \<Rightarrow>
           if jn_JoinType j = FULL_JOIN then
             (case evalRightJoinSets E set1 input j True of
                None \<Rightarrow> None
              | Some (Inl e) \<Rightarrow> Some (Inr newSets)
              | Some (Inr rsets) \<Rightarrow> Some (Inr (newSets @ rsets)))
           else Some (Inr newSets)))"

fun join_rest ::
  "env \<Rightarrow> WindowTuplesSet \<Rightarrow> join list \<Rightarrow> JoinTuple list \<Rightarrow> (op_err + JoinTuple list) option" where
  "join_rest E input [] result = Some (Inr result)"
| "join_rest E input (j # js) result = (case evalJoinSets E result input j of
     None \<Rightarrow> None
   | Some (Inl e) \<Rightarrow> Some (Inl e)
   | Some (Inr r1) \<Rightarrow> join_rest E input js r1)"

definition JoinOp :: "env \<Rightarrow> table \<Rightarrow> join list \<Rightarrow> opdata \<Rightarrow> opdata option" where
  "JoinOp E from joins data = (case data of
     DErr e \<Rightarrow> Some (DErr e)
   | DWindow input \<Rightarrow>
       (case (case joins of
                [] \<Rightarrow> Some (Inr [])
              | j # js \<Rightarrow> (case evalSet E from input j of
                  None \<Rightarrow> None
                | Some (Inl e) \<Rightarrow> Some (Inl e)
                | Some (Inr r) \<Rightarrow> join_rest E input js r)) of
          None \<Rightarrow> None
        | Some (Inl e) \<Rightarrow> Some (DErr e)
        | Some (Inr r) \<Rightarrow> Some (if r = [] then DNil
            else DJoin \<lparr>jts_Content = r, jts_Range = wts_Range input\<rparr>))
   | _ \<Rightarrow> Some (DErr JoinNotSupported))"

section \<open>Specification\<close>

text \<open>The condition on a pair, and that it evaluates to a boolean.\<close>

definition on_match :: "env \<Rightarrow> join \<Rightarrow> Tuple \<Rightarrow> Tuple \<Rightarrow> bool" where
  "on_match E j a b \<longleftrightarrow>
     map_option fst (evalOn E j (RJoin \<lparr>jt_Tuples = [a, b], jt_Alias = None\<rparr>)) = Some (VBool True)"

definition on_defined :: "env \<Rightarrow> join \<Rightarrow> Tuple \<Rightarrow> Tuple \<Rightarrow> bool" where
  "on_defined E j a b \<longleftrightarrow>
     (\<exists>v. map_option fst (evalOn E j (RJoin \<lparr>jt_Tuples = [a, b], jt_Alias = None\<rparr>)) = Some (VBool v))"

text \<open>
  The joins as relational algebra, on lists: the pairs that match, in the order of the left and
  then of the right tuples; an outer join keeps a tuple without a partner alone.
\<close>

definition inner_spec :: "(Tuple \<Rightarrow> Tuple \<Rightarrow> bool) \<Rightarrow> Tuple list \<Rightarrow> Tuple list \<Rightarrow> Tuple list list" where
  "inner_spec m ls rs = concat (map (\<lambda>l. map (\<lambda>r. [l, r]) (filter (m l) rs)) ls)"

definition left_spec :: "(Tuple \<Rightarrow> Tuple \<Rightarrow> bool) \<Rightarrow> Tuple list \<Rightarrow> Tuple list \<Rightarrow> Tuple list list" where
  "left_spec m ls rs = concat (map (\<lambda>l. if filter (m l) rs = [] then [[l]]
     else map (\<lambda>r. [l, r]) (filter (m l) rs)) ls)"

definition unmatched :: "(Tuple \<Rightarrow> Tuple \<Rightarrow> bool) \<Rightarrow> Tuple list \<Rightarrow> Tuple list \<Rightarrow> Tuple list list" where
  "unmatched m ls rs = map (\<lambda>r. [r]) (filter (\<lambda>r. \<forall>l \<in> set ls. \<not> m r l) rs)"

definition join_spec :: "env \<Rightarrow> join \<Rightarrow> Tuple list \<Rightarrow> Tuple list \<Rightarrow> Tuple list list" where
  "join_spec E j ls rs = (let m = on_match E j in case jn_JoinType j of
     INNER_JOIN \<Rightarrow> inner_spec m ls rs
   | LEFT_JOIN \<Rightarrow> left_spec m ls rs
   | RIGHT_JOIN \<Rightarrow> left_spec m rs ls
   | FULL_JOIN \<Rightarrow> left_spec m ls rs @ unmatched m ls rs
   | CROSS_JOIN \<Rightarrow> left_spec (\<lambda>_ _. True) ls rs)"

section \<open>The loops meet the specification\<close>

lemma on_defined_cases:
  assumes "on_defined E j a b"
  obtains t where "evalOn E j (RJoin \<lparr>jt_Tuples = [a, b], jt_Alias = None\<rparr>) = Some (VBool (on_match E j a b), t)"
  using assms by (auto simp: on_defined_def on_match_def)

lemma set_inner_spec:
  assumes "jn_JoinType j \<in> {INNER_JOIN, LEFT_JOIN, FULL_JOIN}" "\<forall>r \<in> set rs. on_defined E j l r"
  shows "\<exists>out. set_inner E j l rs joined = Some (Inr (out, joined \<or> filter (on_match E j l) rs \<noteq> [] \<or>
      (jn_JoinType j \<noteq> INNER_JOIN \<and> rs \<noteq> []))) \<and>
    map jt_Tuples out = map (\<lambda>r. [l, r]) (filter (on_match E j l) rs) @
      (if jn_JoinType j \<noteq> INNER_JOIN \<and> \<not> joined \<and> rs \<noteq> [] \<and> filter (on_match E j l) rs = [] then [[l]] else [])"
  using assms(2)
proof (induction rs arbitrary: joined)
  case (Cons r rs)
  then obtain t where t: "evalOn E j (RJoin \<lparr>jt_Tuples = [l, r], jt_Alias = None\<rparr>) = Some (VBool (on_match E j l r), t)"
    by (auto elim: on_defined_cases)
  have res: "join_result (VBool b) = Inr b" for b
    by (simp add: join_result_def cond_result_def)
  have defined: "\<forall>r \<in> set rs. on_defined E j l r"
    using Cons.prems by simp
  show ?case
    using assms(1) Cons.IH [OF defined, of True] Cons.IH [OF defined, of joined]
    by (cases "on_match E j l r"; cases "rs = []"; cases joined) (auto simp: t res Let_def)
qed simp

lemma set_outer_spec:
  assumes "jn_JoinType j \<in> {INNER_JOIN, LEFT_JOIN, FULL_JOIN}" "\<forall>l \<in> set ls. \<forall>r \<in> set rs. on_defined E j l r"
  shows "\<exists>out. set_outer E j ls rs = Some (Inr out) \<and>
    map jt_Tuples out = (if jn_JoinType j = INNER_JOIN then inner_spec (on_match E j) ls rs else left_spec (on_match E j) ls rs)"
  using assms(2)
proof (induction ls)
  case (Cons l ls)
  then have "\<forall>r \<in> set rs. on_defined E j l r" by simp
  from set_inner_spec [OF assms(1) this, of False] Cons show ?case
    by (auto simp: inner_spec_def left_spec_def split: if_splits)
qed (simp add: inner_spec_def left_spec_def)

lemma set_inner_cross:
  assumes "jn_JoinType j = CROSS_JOIN"
  shows "\<exists>out. set_inner E j l rs joined = Some (Inr (out, joined \<or> rs \<noteq> [])) \<and>
    map jt_Tuples out = map (\<lambda>r. [l, r]) rs"
proof (induction rs arbitrary: joined)
  case (Cons r rs)
  from Cons [of True] show ?case by (auto simp: assms Let_def)
qed simp

lemma set_outer_cross:
  assumes "jn_JoinType j = CROSS_JOIN"
  shows "\<exists>out. set_outer E j ls rs = Some (Inr out) \<and> map jt_Tuples out = left_spec (\<lambda>_ _. True) ls rs"
proof (induction ls)
  case (Cons l ls)
  then show ?case
    using set_inner_cross [OF assms, of E l rs False] assms by (auto simp: left_spec_def)
qed (simp add: left_spec_def)

lemma right_inner_spec:
  assumes "\<forall>l \<in> set ls. on_defined E j r l"
  shows "\<exists>out. right_inner E j excl r ls joint = Some (Inr (out, joint \<or> filter (on_match E j r) ls \<noteq> [] \<or> (\<not> excl \<and> ls \<noteq> []))) \<and>
    map jt_Tuples out = (if excl then [] else map (\<lambda>l. [r, l]) (filter (on_match E j r) ls) @
      (if \<not> joint \<and> ls \<noteq> [] \<and> filter (on_match E j r) ls = [] then [[r]] else []))"
  using assms
proof (induction ls arbitrary: joint)
  case (Cons l ls)
  then obtain t where t: "evalOn E j (RJoin \<lparr>jt_Tuples = [r, l], jt_Alias = None\<rparr>) = Some (VBool (on_match E j r l), t)"
    by (auto elim: on_defined_cases)
  have res: "join_result (VBool b) = Inr b" for b
    by (simp add: join_result_def cond_result_def)
  have defined: "\<forall>l \<in> set ls. on_defined E j r l"
    using Cons.prems by simp
  show ?case
    using Cons.IH [OF defined, of True] Cons.IH [OF defined, of joint]
    by (cases "on_match E j r l"; cases "ls = []"; cases joint; cases excl) (auto simp: t res Let_def)
qed simp

lemma right_outer_spec:
  assumes "\<forall>r \<in> set rs. \<forall>l \<in> set ls. on_defined E j r l"
  shows "\<exists>out. right_outer E j excl ls rs = Some (Inr out) \<and>
    map jt_Tuples out = (if excl then unmatched (on_match E j) ls rs else left_spec (on_match E j) rs ls)"
  using assms
proof (induction rs)
  case (Cons r rs)
  then have "\<forall>l \<in> set ls. on_defined E j r l" by simp
  from right_inner_spec [OF this, of excl False] Cons show ?case
    by (auto simp: left_spec_def unmatched_def filter_empty_conv split: if_splits)
qed (simp add: left_spec_def unmatched_def)

section \<open>Properties\<close>



definition src_tuple :: "string \<Rightarrow> i64w \<Rightarrow> Tuple" where
  "src_tuple src x = \<lparr>t_Emitter = src, t_Message = [(''id'', VInt64 x)], t_Timestamp = 0,
     t_Metadata = None, t_Alias = None\<rparr>"

definition src_window :: "(string \<times> i64w list) list \<Rightarrow> WindowTuplesSet" where
  "src_window srcs = \<lparr>wts_Content = map (\<lambda>(s, xs). \<lparr>wt_Emitter = s, wt_Tuples = map (src_tuple s) xs\<rparr>) srcs,
     wts_Range = None\<rparr>"

definition on_id :: "JoinType \<Rightarrow> string \<Rightarrow> string \<Rightarrow> join" where
  "on_id jt a b = \<lparr>jn_Name = b, jn_Alias = [], jn_JoinType = jt,
     jn_Expr = Some (BinaryExpr T_LTE (FieldRef a ''id'' None) (FieldRef b ''id'' None))\<rparr>"

definition from_a :: table where
  "from_a = \<lparr>tbl_Name = ''a'', tbl_Alias = []\<rparr>"


text \<open> A cross join whose right stream has no tuple in the window keeps every left tuple, like an
  outer join, although the cross product is empty.
\<close>

theorem cross_join_empty_right:
  "map_option (map_sum id (map jt_Tuples)) (evalSet demo_env from_a (src_window [(''a'', [1, 2])])
     \<lparr>jn_Name = ''b'', jn_Alias = [], jn_JoinType = CROSS_JOIN, jn_Expr = None\<rparr>) =
   Some (Inr [[src_tuple ''a'' 1], [src_tuple ''a'' 2]])"
  by code_simp

text \<open> In an inner join with a third stream, a row joined before that matches two tuples of that
  stream is in the first result row only; the second has the new tuple alone.
\<close>

theorem inner_join_loses_left:
  "map_option (map_sum id (map jt_Tuples))
     (evalJoinSets demo_env [\<lparr>jt_Tuples = [src_tuple ''a'' 1, src_tuple ''b'' 1], jt_Alias = None\<rparr>]
       (src_window [(''c'', [2, 3])]) (on_id INNER_JOIN ''a'' ''c'')) =
   Some (Inr [[src_tuple ''a'' 1, src_tuple ''b'' 1, src_tuple ''c'' 2], [src_tuple ''c'' 3]])"
  by code_simp

end
