(* ===== verification/Windows.thy ===== *)
theory Windows
  imports Operators
begin

text \<open>
  The window operator in processing time, \<^verbatim>\<open>internal/topo/node/window_op.go\<close>.

  The goroutine of \<^verbatim>\<open>execProcessingWindow\<close> is a step function on the events its
  \<^verbatim>\<open>select\<close> waits for: an item of the input channel, a tick of the ticker, the end of
  the session timer. \<^verbatim>\<open>Broadcast\<close> appends to \<open>wn_out\<close>, an error sent to
  \<^verbatim>\<open>errCh\<close> to \<open>wn_err\<close>, and \<^verbatim>\<open>ctx.PutState\<close> sets a \<open>saved\<close>
  field. Logging and the statistics have no counterpart; barriers are in another theory. A result
  \<open>None\<close> is a run-time panic.
\<close>

record WindowConfig =
  w_Type :: WindowType
  w_Length :: int
  w_Interval :: int

record win_state =
  wn_inputs :: "Tuple list"
  wn_triggerTime :: int
  wn_msgCount :: int
  wn_timer :: bool                            \<comment> \<open>\<^verbatim>\<open>timeoutTicker != nil\<close>\<close>
  wn_saved_inputs :: "Tuple list option"      \<comment> \<open>\<^verbatim>\<open>WINDOW_INPUTS_KEY\<close>\<close>
  wn_saved_trigger :: "int option"            \<comment> \<open>\<^verbatim>\<open>TRIGGER_TIME_KEY\<close>\<close>
  wn_saved_count :: "int option"              \<comment> \<open>\<^verbatim>\<open>MSG_COUNT_KEY\<close>\<close>
  wn_out :: "opdata list"
  wn_err :: "string list"

section \<open>Construction\<close>

text \<open>\<^verbatim>\<open>NewWindowOp\<close> sets the interval of a count window that has none.\<close>

definition NewWindowOp :: "WindowConfig \<Rightarrow> WindowConfig" where
  "NewWindowOp w =
     (if w_Interval w = 0 \<and> w_Type w = COUNT_WINDOW then w\<lparr>w_Interval := w_Length w\<rparr> else w)"

text \<open>\<^verbatim>\<open>Exec\<close> restores the state a checkpoint has; \<open>now\<close> is the clock.\<close>

definition restore_state ::
  "int \<Rightarrow> Tuple list option \<Rightarrow> int option \<Rightarrow> int option \<Rightarrow> win_state" where
  "restore_state now inputs trigger cnt = \<lparr>
     wn_inputs = (case inputs of Some i \<Rightarrow> i | None \<Rightarrow> []),
     wn_triggerTime = (case trigger of Some t \<Rightarrow> t | None \<Rightarrow> now),
     wn_msgCount = (case cnt of Some c \<Rightarrow> c | None \<Rightarrow> 0),
     wn_timer = False,
     wn_saved_inputs = inputs, wn_saved_trigger = trigger, wn_saved_count = cnt,
     wn_out = [], wn_err = []\<rparr>"

definition win_interval :: "WindowConfig \<Rightarrow> int" where
  "win_interval w = (case w_Type w of
     NOT_WINDOW \<Rightarrow> 0
   | TUMBLING_WINDOW \<Rightarrow> w_Length w
   | HOPPING_WINDOW \<Rightarrow> w_Interval w
   | SLIDING_WINDOW \<Rightarrow> w_Length w
   | SESSION_WINDOW \<Rightarrow> w_Interval w
   | COUNT_WINDOW \<Rightarrow> w_Interval w)"

definition has_ticker :: "WindowConfig \<Rightarrow> bool" where
  "has_ticker w \<longleftrightarrow> w_Type w \<in> {TUMBLING_WINDOW, HOPPING_WINDOW, SESSION_WINDOW}"

section \<open>Scan\<close>

definition max_i16 :: int where
  "max_i16 = 32767"

definition calDelta :: "WindowConfig \<Rightarrow> bool \<Rightarrow> int \<Rightarrow> int \<Rightarrow> int" where
  "calDelta w eventTime lt triggerTime =
     (if lt \<le> 0 then max_i16
      else if \<not> eventTime \<and> w_Interval w > 0
      then i64 (i64 (triggerTime - lt) - w_Interval w)
      else 0)"

text \<open>The loop over the inputs: the tuples put back, and the set the others are added to.\<close>

definition is_overlapping :: "WindowConfig \<Rightarrow> bool" where
  "is_overlapping w \<longleftrightarrow> w_Type w = HOPPING_WINDOW \<or> w_Type w = SLIDING_WINDOW"

fun scan_loop ::
  "WindowConfig \<Rightarrow> int \<Rightarrow> int \<Rightarrow> Tuple list \<Rightarrow> WindowTuplesSet \<Rightarrow> Tuple list \<times> WindowTuplesSet" where
  "scan_loop w delta trig [] results = ([], results)"
| "scan_loop w delta trig (t # ts) results =
     (if is_overlapping w \<and> i64 (trig - t_Timestamp t) > i64 (w_Length w + delta)
      then scan_loop w delta trig ts results
      else
        let kept = (is_overlapping w \<or> t_Timestamp t > trig);
            results1 = (if t_Timestamp t \<le> trig then wts_AddTuple results t else results);
            (rest, results2) = scan_loop w delta trig ts results1
        in (if kept then t # rest else rest, results2))"

definition window_start :: "WindowConfig \<Rightarrow> int \<Rightarrow> int \<Rightarrow> int" where
  "window_start w lt trig = (case w_Type w of
     TUMBLING_WINDOW \<Rightarrow> lt
   | SESSION_WINDOW \<Rightarrow> lt
   | HOPPING_WINDOW \<Rightarrow> i64 (lt - w_Interval w)
   | SLIDING_WINDOW \<Rightarrow> i64 (trig - w_Length w)
   | _ \<Rightarrow> 0)"

text \<open>\<open>scan w eventTime lt inputs trig\<close>: the inputs that stay, and the window to send, if any.\<close>

definition scan ::
  "WindowConfig \<Rightarrow> bool \<Rightarrow> int \<Rightarrow> Tuple list \<Rightarrow> int \<Rightarrow> Tuple list \<times> WindowTuplesSet option" where
  "scan w eventTime lt inputs trig =
     (let delta = (if is_overlapping w then calDelta w eventTime lt trig else 0);
          (kept, results) = scan_loop w delta trig inputs \<lparr>wts_Content = [],
            wts_Range = Some \<lparr>WindowStart = 0, WindowEnd = trig\<rparr>\<rparr>
      in if wts_Content results = [] then (kept, None)
         else let r = results\<lparr>wts_Range := Some \<lparr>WindowStart = window_start w lt trig, WindowEnd = trig\<rparr>\<rparr>
              in (kept, Some (if eventTime then wts_Sort r else r)))"

definition do_scan :: "WindowConfig \<Rightarrow> bool \<Rightarrow> int \<Rightarrow> win_state \<Rightarrow> win_state" where
  "do_scan w eventTime trig s =
     (case scan w eventTime (wn_triggerTime s) (wn_inputs s) trig of
        (kept, None) \<Rightarrow> s\<lparr>wn_inputs := kept\<rparr>
      | (kept, Some r) \<Rightarrow>
          s\<lparr>wn_inputs := kept, wn_triggerTime := trig, wn_out := wn_out s @ [DWindow r]\<rparr>)"

definition save_inputs :: "win_state \<Rightarrow> win_state" where
  "save_inputs s = s\<lparr>wn_saved_inputs := Some (wn_inputs s)\<rparr>"

definition save_trigger :: "win_state \<Rightarrow> win_state" where
  "save_trigger s = s\<lparr>wn_saved_trigger := Some (wn_triggerTime s)\<rparr>"

section \<open>Count windows\<close>

text \<open>\<^verbatim>\<open>NewTupleList\<close> and its methods, on the list and the window size.\<close>

definition NewTupleList :: "Tuple list \<Rightarrow> int \<Rightarrow> string + Tuple list" where
  "NewTupleList tuples sz =
     (if sz \<le> 0 then Inl ''Window size should not be less than zero.''
      else if tuples = [] then Inl ''The tuples should not be nil or empty.''
      else Inr tuples)"

definition hasMoreCountWindow :: "Tuple list \<Rightarrow> int \<Rightarrow> nat \<Rightarrow> bool" where
  "hasMoreCountWindow tuples sz index = (if int (length tuples) < sz then False else index = 0)"

definition nextCountWindow :: "Tuple list \<Rightarrow> int \<Rightarrow> WindowTuplesSet" where
  "nextCountWindow tuples sz =
     fold (\<lambda>t w. wts_AddTuple w t) (lastn (nat sz) tuples) \<lparr>wts_Content = [], wts_Range = None\<rparr>"

definition getRestTuples :: "Tuple list \<Rightarrow> int \<Rightarrow> Tuple list" where
  "getRestTuples tuples sz =
     (if int (length tuples) < sz then tuples else lastn (nat sz - 1) tuples)"

text \<open>
  A tuple for a count window that has been appended to the inputs. While the count is no multiple
  of the interval the source continues with the next item and saves nothing.
\<close>

definition count_step :: "WindowConfig \<Rightarrow> win_state \<Rightarrow> win_state option" where
  "count_step w s =
     (let c = i64 (wn_msgCount s + 1) in
      if w_Interval w = 0 then None
      else if go_mod c (w_Interval w) \<noteq> 0 then Some (s\<lparr>wn_msgCount := c\<rparr>)
      else
        let s1 = s\<lparr>wn_msgCount := 0\<rparr>;
            s2 = (case NewTupleList (wn_inputs s1) (w_Length w) of
                Inl e \<Rightarrow> s1\<lparr>wn_err := wn_err s1 @ [e]\<rparr>
              | Inr tuples \<Rightarrow> s1\<lparr>
                  wn_out := wn_out s1 @
                    (if hasMoreCountWindow tuples (w_Length w) 0
                     then [DWindow (nextCountWindow tuples (w_Length w))] else []),
                  wn_inputs := getRestTuples tuples (w_Length w)\<rparr>)
        in Some ((save_inputs s2)\<lparr>wn_saved_count := Some (wn_msgCount s2)\<rparr>))"

section \<open>The processing-time loop\<close>

datatype pevent =
    PError op_err
  | PTuple Tuple
  | POther
  | PTick int      \<comment> \<open>the ticker, with its time in milliseconds\<close>
  | PTimeout int   \<comment> \<open>the session timer\<close>

definition tuple_step :: "WindowConfig \<Rightarrow> Tuple \<Rightarrow> win_state \<Rightarrow> win_state option" where
  "tuple_step w d s0 =
     (let s = s0\<lparr>wn_inputs := wn_inputs s0 @ [d]\<rparr>;
          save = (\<lambda>s. (save_inputs s)\<lparr>wn_saved_count := Some (wn_msgCount s)\<rparr>)
      in case w_Type w of
           NOT_WINDOW \<Rightarrow> Some (save (do_scan w False (t_Timestamp d) s))
         | SLIDING_WINDOW \<Rightarrow> Some (save (do_scan w False (t_Timestamp d) s))
         | SESSION_WINDOW \<Rightarrow>
             Some (save (if wn_timer s then s
                         else save_trigger (s\<lparr>wn_timer := True, wn_triggerTime := t_Timestamp d\<rparr>)))
         | COUNT_WINDOW \<Rightarrow> count_step w s
         | _ \<Rightarrow> Some (save s))"

definition tick_step :: "WindowConfig \<Rightarrow> int \<Rightarrow> win_state \<Rightarrow> win_state" where
  "tick_step w n s =
     (if \<not> has_ticker w then s
      else case wn_inputs s of
        [] \<Rightarrow> s
      | t # _ \<Rightarrow>
          if w_Type w = SESSION_WINDOW \<and> i64 (n - w_Length w) < t_Timestamp t then s
          else save_trigger (save_inputs (do_scan w False n s)))"

definition timeout_step :: "WindowConfig \<Rightarrow> int \<Rightarrow> win_state \<Rightarrow> win_state" where
  "timeout_step w n s =
     (if \<not> wn_timer s \<or> wn_inputs s = [] then s
      else (save_trigger (save_inputs ((do_scan w False n s)\<lparr>wn_inputs := []\<rparr>)))\<lparr>wn_timer := False\<rparr>)"

definition proc_step :: "WindowConfig \<Rightarrow> pevent \<Rightarrow> win_state \<Rightarrow> win_state option" where
  "proc_step w ev s = (case ev of
     PError e \<Rightarrow> Some (s\<lparr>wn_out := wn_out s @ [DErr e]\<rparr>)
   | PTuple d \<Rightarrow> tuple_step w d s
   | POther \<Rightarrow> Some (s\<lparr>wn_out := wn_out s @ [DErr (InvalidInput ''run Window error'')]\<rparr>)
   | PTick n \<Rightarrow> Some (tick_step w n s)
   | PTimeout n \<Rightarrow> Some (timeout_step w n s))"

fun proc_run :: "WindowConfig \<Rightarrow> pevent list \<Rightarrow> win_state \<Rightarrow> win_state option" where
  "proc_run w [] s = Some s"
| "proc_run w (e # es) s = (case proc_step w e s of None \<Rightarrow> None | Some s1 \<Rightarrow> proc_run w es s1)"

section \<open>Resuming after a restart\<close>

text \<open>
  Restored inputs are scanned for the windows that ended meanwhile. The loops run on fuel; an
  inner \<open>None\<close> is that the fuel ran out, an outer one a panic.
\<close>

fun resume_hop :: "nat \<Rightarrow> WindowConfig \<Rightarrow> int \<Rightarrow> int \<Rightarrow> win_state \<Rightarrow> win_state option" where
  "resume_hop 0 w nextTick nxt s = None"
| "resume_hop (Suc n) w nextTick nxt s =
     (let nxt1 = i64 (nxt + win_interval w) in
      if nxt1 > nextTick then Some s
      else resume_hop n w nextTick nxt1 (save_trigger (save_inputs (do_scan w False nxt1 s))))"

text \<open>The end of the first session of the inputs, \<^const>\<open>max_i64\<close> when it is still open.\<close>

definition session_tick :: "int \<Rightarrow> int \<Rightarrow> int" where
  "session_tick duration et =
     (if go_mod et duration = 0 then et else i64 (et + i64 (duration - go_mod et duration)))"

fun session_end :: "int \<Rightarrow> int \<Rightarrow> int \<Rightarrow> int \<Rightarrow> int \<Rightarrow> Tuple list \<Rightarrow> int \<times> bool" where
  "session_end timeout duration et tick p [] = (max_i64, False)"
| "session_end timeout duration et tick p (t # ts) =
     (let r = (if p > 0 \<and> i64 (t_Timestamp t - p) > timeout then i64 (p + timeout) else max_i64);
          over = (t_Timestamp t > tick);
          cut = (over \<and> i64 (tick - duration) > et \<and> tick < r);
          r1 = (if cut then tick else r);
          tick1 = (if over then i64 (tick + duration) else tick)
      in if r1 < max_i64 then (r1, cut)
         else session_end timeout duration et tick1 (t_Timestamp t) ts)"

text \<open>In the restart loop the next trigger keeps its last value when no session has ended.\<close>

fun resume_session :: "nat \<Rightarrow> WindowConfig \<Rightarrow> int \<Rightarrow> int \<Rightarrow> win_state \<Rightarrow> win_state option option" where
  "resume_session 0 w nextTick nxt s = Some None"
| "resume_session (Suc n) w nextTick nxt s =
     (case wn_inputs s of
        [] \<Rightarrow> None
      | t # _ \<Rightarrow>
          if w_Length w = 0 then None
          else
            let et = t_Timestamp t;
                (r, _) = session_end (w_Interval w) (w_Length w) et (session_tick (w_Length w) et) 0 (wn_inputs s);
                nxt1 = (if r < max_i64 then r else nxt)
            in if nxt1 > nextTick then Some (Some s)
               else resume_session n w nextTick nxt1 (save_trigger (save_inputs (do_scan w False nxt1 s))))"

definition resume :: "nat \<Rightarrow> WindowConfig \<Rightarrow> int \<Rightarrow> win_state \<Rightarrow> win_state option option" where
  "resume fuel w now s =
     (if has_ticker w \<and> wn_inputs s \<noteq> [] \<and> wn_triggerTime s > 0 then
        (let nextTick = i64 (now + win_interval w) in
         if w_Type w = SESSION_WINDOW then resume_session fuel w nextTick (wn_triggerTime s) s
         else Some (resume_hop fuel w nextTick (wn_triggerTime s) s))
      else Some (Some s))"

section \<open>What a scan sends and keeps\<close>

definition wts_mset :: "WindowTuplesSet \<Rightarrow> Tuple multiset" where
  "wts_mset w = mset (concat (map wt_Tuples (wts_Content w)))"

lemma mset_add_tuple:
  "mset (concat (map wt_Tuples (add_tuple t c))) = add_mset t (mset (concat (map wt_Tuples c)))"
  by (induction t c rule: add_tuple.induct) auto

lemma wts_mset_AddTuple [simp]: "wts_mset (wts_AddTuple w t) = add_mset t (wts_mset w)"
  by (simp add: wts_mset_def wts_AddTuple_def mset_add_tuple)

abbreviation add_all :: "Tuple list \<Rightarrow> WindowTuplesSet \<Rightarrow> WindowTuplesSet" where
  "add_all ts w \<equiv> fold (\<lambda>t w. wts_AddTuple w t) ts w"

lemma wts_mset_add_all: "wts_mset (add_all ts w) = mset ts + wts_mset w"
  by (induction ts arbitrary: w) auto

lemma wts_mset_Sort: "wts_mset (wts_Sort w) = wts_mset w"
proof -
  have "mset (concat (map (wt_Tuples \<circ> (\<lambda>t. t\<lparr>wt_Tuples := sort_key t_Timestamp (wt_Tuples t)\<rparr>)) c)) =
      mset (concat (map wt_Tuples c))" for c
    by (induction c) auto
  then show ?thesis
    by (simp add: wts_mset_def wts_Sort_def)
qed

lemma wts_mset_range: "wts_mset (w\<lparr>wts_Range := r\<rparr>) = wts_mset w"
  by (simp add: wts_mset_def)

lemma add_all_nonempty: "ts \<noteq> [] \<or> wts_Content w \<noteq> [] \<Longrightarrow> wts_Content (add_all ts w) \<noteq> []"
proof (induction ts arbitrary: w)
  case (Cons t ts)
  have "wts_Content (wts_AddTuple w t) \<noteq> []"
    by (cases "wts_Content w") (simp_all add: wts_AddTuple_def)
  with Cons show ?case by simp
qed simp

definition expired :: "WindowConfig \<Rightarrow> int \<Rightarrow> int \<Rightarrow> Tuple \<Rightarrow> bool" where
  "expired w delta trig t \<longleftrightarrow> is_overlapping w \<and> i64 (trig - t_Timestamp t) > i64 (w_Length w + delta)"

definition stays :: "WindowConfig \<Rightarrow> int \<Rightarrow> int \<Rightarrow> Tuple \<Rightarrow> bool" where
  "stays w delta trig t \<longleftrightarrow> \<not> expired w delta trig t \<and> (is_overlapping w \<or> t_Timestamp t > trig)"

definition due :: "WindowConfig \<Rightarrow> int \<Rightarrow> int \<Rightarrow> Tuple \<Rightarrow> bool" where
  "due w delta trig t \<longleftrightarrow> \<not> expired w delta trig t \<and> t_Timestamp t \<le> trig"

lemma scan_loop_eq:
  "scan_loop w delta trig ts res = (filter (stays w delta trig) ts, add_all (filter (due w delta trig) ts) res)"
  by (induction ts arbitrary: res) (auto simp: stays_def due_def expired_def Let_def)

definition scan_delta :: "WindowConfig \<Rightarrow> bool \<Rightarrow> int \<Rightarrow> int \<Rightarrow> int" where
  "scan_delta w ev lt trig = (if is_overlapping w then calDelta w ev lt trig else 0)"

lemma scan_eq:
  fixes w ev lt trig
  defines "d \<equiv> scan_delta w ev lt trig"
  shows "fst (scan w ev lt inputs trig) = filter (stays w d trig) inputs"
    and "snd (scan w ev lt inputs trig) = None \<longleftrightarrow> filter (due w d trig) inputs = []"
    and "snd (scan w ev lt inputs trig) = Some r \<Longrightarrow>
      wts_Range r = Some \<lparr>WindowStart = window_start w lt trig, WindowEnd = trig\<rparr> \<and>
      wts_mset r = mset (filter (due w d trig) inputs) \<and>
      (\<forall>src. GetBySrc r src = (if ev then sort_key t_Timestamp else id)
          (filter (\<lambda>t. t_Emitter t = src) (filter (due w d trig) inputs)))"
proof -
  let ?e = "\<lparr>wts_Content = [], wts_Range = Some \<lparr>WindowStart = 0, WindowEnd = trig\<rparr>\<rparr>"
  let ?due = "filter (due w d trig) inputs"
  have c: "wts_Content (add_all ?due ?e) = [] \<longleftrightarrow> ?due = []"
    using add_all_nonempty [of ?due ?e] by auto
  note s = scan_def Let_def scan_loop_eq scan_delta_def [symmetric] d_def [symmetric] c
  show "fst (scan w ev lt inputs trig) = filter (stays w d trig) inputs"
    by (simp add: s)
  show "snd (scan w ev lt inputs trig) = None \<longleftrightarrow> ?due = []"
    by (simp add: s)
  assume "snd (scan w ev lt inputs trig) = Some r"
  then have r: "r = (if ev then wts_Sort else id) ((add_all ?due ?e)\<lparr>wts_Range :=
      Some \<lparr>WindowStart = window_start w lt trig, WindowEnd = trig\<rparr>\<rparr>)"
    by (auto simp: s split: if_splits)
  have "GetBySrc (x\<lparr>wts_Range := y\<rparr>) src = GetBySrc x src" for x y src
    by (simp add: GetBySrc_def)
  then show "wts_Range r = Some \<lparr>WindowStart = window_start w lt trig, WindowEnd = trig\<rparr> \<and>
      wts_mset r = mset ?due \<and>
      (\<forall>src. GetBySrc r src = (if ev then sort_key t_Timestamp else id) (filter (\<lambda>t. t_Emitter t = src) ?due))"
    by (simp add: r wts_mset_Sort wts_mset_range wts_mset_add_all GetBySrc_Sort GetBySrc_fold_AddTuple GetBySrc_empty)
      (simp add: wts_mset_def wts_Sort_def)
qed


section \<open>Count windows against the history\<close>

lemma proc_run_append:
  "proc_run w (es @ es') s = (case proc_run w es s of None \<Rightarrow> None | Some s1 \<Rightarrow> proc_run w es' s1)"
  by (induction es arbitrary: s) (auto split: option.splits)

text \<open>
  The reference: with the history \<open>h\<close> of all tuples so far, a window of the last
  \<open>Length\<close> of them is due when their number is a multiple of \<open>Interval\<close>.
\<close>

definition count_window :: "WindowConfig \<Rightarrow> Tuple list \<Rightarrow> opdata list" where
  "count_window w h =
     (if int (length h) mod w_Interval w = 0 \<and> w_Length w \<le> int (length h)
      then [DWindow (add_all (lastn (nat (w_Length w)) h) \<lparr>wts_Content = [], wts_Range = None\<rparr>)] else [])"

fun count_windows :: "WindowConfig \<Rightarrow> Tuple list \<Rightarrow> Tuple list \<Rightarrow> opdata list" where
  "count_windows w h [] = []"
| "count_windows w h (t # ts) = count_window w (h @ [t]) @ count_windows w (h @ [t]) ts"

definition count_inv :: "WindowConfig \<Rightarrow> Tuple list \<Rightarrow> win_state \<Rightarrow> bool" where
  "count_inv w h s \<longleftrightarrow> wn_msgCount s = int (length h) mod w_Interval w \<and>
     (\<exists>m. wn_inputs s = lastn m h \<and> nat (w_Length w) + nat (wn_msgCount s) \<le> Suc m)"

lemma lastn_snoc: "lastn m h @ [t] = lastn (Suc m) (h @ [t])"
  by (cases "m \<le> length h") (simp_all add: lastn_def Suc_diff_le not_le)

lemma count_step_inv:
  assumes "count_inv w h s" "w_Type w = COUNT_WINDOW" "0 < w_Length w" "0 < w_Interval w" "w_Interval w \<le> max_i64"
  shows "\<exists>s'. tuple_step w t s = Some s' \<and> count_inv w (h @ [t]) s' \<and>
    wn_out s' = wn_out s @ count_window w (h @ [t]) \<and> wn_err s' = wn_err s"
proof -
  let ?I = "w_Interval w" and ?h = "h @ [t]" and ?N = "nat (w_Length w)"
  obtain m where m: "wn_inputs s = lastn m h" "?N + nat (wn_msgCount s) \<le> Suc m"
    using assms(1) by (auto simp: count_inv_def)
  have c: "wn_msgCount s = int (length h) mod ?I" using assms(1) by (simp add: count_inv_def)
  have c0: "0 \<le> wn_msgCount s" "wn_msgCount s < ?I"
    unfolding c using assms(4) by (auto intro: pos_mod_bound)
  have i: "i64 (wn_msgCount s + 1) = wn_msgCount s + 1"
    using c0 assms(5) by (intro i64_small) (auto simp: max_i64_def)
  have g: "go_mod (wn_msgCount s + 1) ?I = int (length ?h) mod ?I"
    using c0 assms(4) by (simp add: go_mod_nonneg c mod_simps add.commute)
  have inp: "wn_inputs s @ [t] = lastn (Suc m) ?h"
    by (simp add: m lastn_snoc)
  have ne: "lastn (Suc m) ?h \<noteq> []"
    using inp by (metis snoc_eq_iff_butlast)
  have len: "int (length (lastn (Suc m) ?h)) < w_Length w \<longleftrightarrow> int (length ?h) < w_Length w"
    using m(2) assms(3) by auto
  have N: "lastn ?N (lastn (Suc m) ?h) = lastn ?N ?h" "lastn (?N - Suc 0) (lastn (Suc m) ?h) = lastn (?N - Suc 0) ?h"
    using m(2) by (simp_all add: lastn_lastn)
  show ?thesis
  proof (cases "int (length ?h) mod ?I = 0")
    case False
    have "wn_msgCount s + 1 < ?I"
      using False g c0 assms(4) by (metis add_increasing go_mod_nonneg int_one_le_iff_zero_less le_less mod_self not_less zero_less_one zless_add1_eq)
    then have "wn_msgCount s + 1 = int (length ?h) mod ?I"
      using g c0 by (simp add: go_mod_nonneg)
    moreover have "tuple_step w t s = Some (s\<lparr>wn_inputs := lastn (Suc m) ?h, wn_msgCount := wn_msgCount s + 1\<rparr>)"
      using False g assms(2,4) by (simp add: tuple_step_def count_step_def Let_def i inp)
    moreover have "?N + nat (wn_msgCount s + 1) \<le> Suc (Suc m)"
      using m(2) c0 by simp
    ultimately show ?thesis
      using False unfolding count_inv_def count_window_def by auto
  next
    case True
    then show ?thesis
      using assms(2-4) ne m(2) c0
      by (auto simp: tuple_step_def count_step_def Let_def i g inp count_window_def count_inv_def NewTupleList_def
          hasMoreCountWindow_def nextCountWindow_def getRestTuples_def save_inputs_def len N)
  qed
qed

lemma count_run:
  assumes "count_inv w h s" "w_Type w = COUNT_WINDOW" "0 < w_Length w" "0 < w_Interval w" "w_Interval w \<le> max_i64"
  shows "\<exists>s'. proc_run w (map PTuple ts) s = Some s' \<and> wn_out s' = wn_out s @ count_windows w h ts \<and> wn_err s' = wn_err s"
  using assms(1)
proof (induction ts arbitrary: h s)
  case (Cons t ts)
  obtain s1 where s1: "tuple_step w t s = Some s1" "count_inv w (h @ [t]) s1" "wn_out s1 = wn_out s @ count_window w (h @ [t])" "wn_err s1 = wn_err s"
    using count_step_inv [OF Cons.prems assms(2-5)] by blast
  from Cons.IH [OF s1(2)] s1 show ?case
    by (auto simp: proc_step_def)
qed simp


section \<open>Tuples in and out\<close>

definition out_mset :: "opdata list \<Rightarrow> Tuple multiset" where
  "out_mset out = (\<Sum>d\<leftarrow>out. case d of DWindow r \<Rightarrow> wts_mset r | _ \<Rightarrow> {#})"

lemma out_mset_append [simp]: "out_mset (xs @ ys) = out_mset xs + out_mset ys"
  by (simp add: out_mset_def)

lemma out_mset_simps [simp]: "out_mset [] = {#}" "out_mset [DWindow r] = wts_mset r" "out_mset [DErr e] = {#}"
  by (simp_all add: out_mset_def)

definition received :: "pevent list \<Rightarrow> Tuple list" where
  "received es = List.map_filter (\<lambda>e. case e of PTuple t \<Rightarrow> Some t | _ \<Rightarrow> None) es"

lemma do_scan_conserves:
  assumes "\<not> is_overlapping w"
  shows "out_mset (wn_out (do_scan w ev trig s)) + mset (wn_inputs (do_scan w ev trig s)) =
    out_mset (wn_out s) + mset (wn_inputs s)"
proof -
  let ?d = "scan_delta w ev (wn_triggerTime s) trig"
  have compl: "stays w ?d trig = (\<lambda>t. \<not> due w ?d trig t)"
    using assms by (auto simp: stays_def due_def expired_def)
  have split: "mset (filter (due w ?d trig) (wn_inputs s)) + mset (filter (stays w ?d trig) (wn_inputs s)) = mset (wn_inputs s)"
    unfolding compl by simp
  note e = scan_eq [of w ev "wn_triggerTime s" "wn_inputs s" trig]
  show ?thesis
  proof (cases "snd (scan w ev (wn_triggerTime s) (wn_inputs s) trig)")
    case None
    then have "mset (filter (stays w ?d trig) (wn_inputs s)) = mset (wn_inputs s)"
      using e(2) split by (metis add.left_neutral mset.simps(1))
    then show ?thesis
      using None e(1) by (simp add: do_scan_def case_prod_beta)
  next
    case (Some r)
    then show ?thesis
      using e(1) e(3) [OF Some] split by (simp add: do_scan_def case_prod_beta ac_simps)
  qed
qed

lemma do_scan_timer: "wn_timer (do_scan w ev trig s) = wn_timer s"
  by (simp add: do_scan_def split: prod.splits option.splits)

lemma tumbling_step:
  assumes "w_Type w = TUMBLING_WINDOW" "\<not> wn_timer s"
  shows "\<exists>s'. proc_step w e s = Some s' \<and> \<not> wn_timer s' \<and>
    out_mset (wn_out s') + mset (wn_inputs s') = out_mset (wn_out s) + mset (wn_inputs s) + mset (received [e])"
proof -
  have "\<not> is_overlapping w"
    using assms(1) by (simp add: is_overlapping_def)
  note c = do_scan_conserves [OF this, of False _ s]
  show ?thesis
    using assms c
    by (cases e) (auto simp: proc_step_def tuple_step_def tick_step_def timeout_step_def save_inputs_def save_trigger_def
        received_def map_filter_simps do_scan_timer split: list.splits)
qed

lemma received_Cons: "received (e # es) = received [e] @ received es"
  by (simp add: received_def map_filter_simps split: option.splits)

section \<open>Resuming a session window\<close>

lemma session_tick_ge:
  assumes "0 < d" "0 \<le> et" "et + d \<le> max_i64"
  shows "et \<le> session_tick d et"
proof -
  define m where "m = et mod d"
  have m: "0 \<le> m" "m < d"
    using assms(1) by (simp_all add: m_def)
  then have "i64 (d - m) = d - m" "i64 (et + (d - m)) = et + (d - m)"
    using assms unfolding max_i64_def by (auto intro!: i64_small)
  moreover have "go_mod et d = m"
    using assms by (simp add: go_mod_nonneg m_def)
  ultimately show ?thesis
    using m by (simp add: session_tick_def)
qed

lemma session_end_single:
  assumes "0 < d" "0 \<le> t_Timestamp t" "t_Timestamp t + d \<le> max_i64"
  shows "session_end timeout d (t_Timestamp t) (session_tick d (t_Timestamp t)) 0 [t] = (max_i64, False)"
  using session_tick_ge [OF assms] by (simp add: Let_def)

lemma resume_session_later:
  assumes "wn_inputs s = [t]" "w_Type w = SESSION_WINDOW" "0 < w_Length w" "0 \<le> t_Timestamp t" "t_Timestamp t + w_Length w \<le> max_i64"
    "nxt < t_Timestamp t" "nxt \<le> nextTick"
  shows "resume_session n w nextTick nxt s = Some None"
  using assms(1)
proof (induction n arbitrary: s)
  case (Suc n)
  have "\<not> is_overlapping w" using assms(2) by (simp add: is_overlapping_def)
  then have "do_scan w False nxt s = s"
    using Suc.prems assms(6) by (simp add: do_scan_def scan_def scan_loop_eq stays_def due_def expired_def Let_def)
  then show ?case
    using Suc assms session_end_single [OF assms(3-5)] by (simp add: Let_def save_trigger_def save_inputs_def)
qed simp

section \<open>Properties\<close>

text \<open>
  (C11) A count window is the reference on the history: after any sequence of tuples the windows sent
  are, for every prefix whose length is a multiple of the interval and at least the window length,
  the last \<open>Length\<close> tuples of that prefix, although the operator keeps only the tuples that can
  still be part of a window. No step fails.
\<close>

theorem count_window_spec:
  assumes "w_Type w = COUNT_WINDOW" "0 < w_Length w" "0 < w_Interval w" "w_Interval w \<le> max_i64"
  shows "\<exists>s. proc_run w (map PTuple ts) (restore_state now None None None) = Some s \<and>
    wn_out s = count_windows w [] ts \<and> wn_err s = []"
proof -
  let ?s = "restore_state now None None None"
  have "count_inv w [] ?s"
    unfolding count_inv_def restore_state_def by (auto simp: lastn_def intro: exI [of _ "nat (w_Length w)"])
  then show ?thesis
    using count_run [OF _ assms, of "[]" ?s ts] by (simp add: restore_state_def)
qed

definition count_2_1 :: WindowConfig where
  "count_2_1 = \<lparr>w_Type = COUNT_WINDOW, w_Length = 2, w_Interval = 1\<rparr>"

theorem count_window_spec_witness:
  "\<exists>s. proc_run count_2_1 (map PTuple [demo_tuple [(''x'', VInt64 1)], demo_tuple [(''x'', VInt64 2)]])
      (restore_state 0 None None None) = Some s \<and>
    wn_out s = [DWindow \<lparr>wts_Content = [\<lparr>wt_Emitter = ''demo'',
      wt_Tuples = [demo_tuple [(''x'', VInt64 1)], demo_tuple [(''x'', VInt64 2)]]\<rparr>], wts_Range = None\<rparr>]"
proof -
  let ?ts = "[demo_tuple [(''x'', VInt64 1)], demo_tuple [(''x'', VInt64 2)]]"
  have "count_windows count_2_1 [] ?ts =
      [DWindow \<lparr>wts_Content = [\<lparr>wt_Emitter = ''demo'', wt_Tuples = ?ts\<rparr>], wts_Range = None\<rparr>]"
    by code_simp
  moreover have "w_Type count_2_1 = COUNT_WINDOW" "0 < w_Length count_2_1" "0 < w_Interval count_2_1"
    "w_Interval count_2_1 \<le> max_i64"
    by (simp_all add: count_2_1_def max_i64_def)
  ultimately show ?thesis
    using count_window_spec [of count_2_1 ?ts 0] by metis
qed

text \<open>
  (C20) A tumbling window in processing time loses and repeats nothing: after any events, the tuples
  of the windows sent and the tuples still waiting are together exactly the tuples received.
\<close>

theorem tumbling_conserves:
  assumes "w_Type w = TUMBLING_WINDOW" "\<not> wn_timer s"
  shows "\<exists>s'. proc_run w es s = Some s' \<and>
    out_mset (wn_out s') + mset (wn_inputs s') = out_mset (wn_out s) + mset (wn_inputs s) + mset (received es)"
  using assms(2)
proof (induction es arbitrary: s)
  case (Cons e es)
  obtain s1 where s1: "proc_step w e s = Some s1" "\<not> wn_timer s1"
    "out_mset (wn_out s1) + mset (wn_inputs s1) = out_mset (wn_out s) + mset (wn_inputs s) + mset (received [e])"
    using tumbling_step [OF assms(1) Cons.prems] by blast
  then show ?case
    using Cons.IH [OF s1(2)] by (auto simp: received_Cons [of e es])
qed (simp add: received_def map_filter_simps)

theorem tumbling_conserves_witness:
  "\<exists>s'. proc_run \<lparr>w_Type = TUMBLING_WINDOW, w_Length = 10, w_Interval = 0\<rparr>
      [PTuple (demo_tuple []), PTick 10] (restore_state 0 None None None) = Some s' \<and>
    out_mset (wn_out s') + mset (wn_inputs s') = {#demo_tuple []#}"
  using tumbling_conserves [of "\<lparr>w_Type = TUMBLING_WINDOW, w_Length = 10, w_Interval = 0\<rparr>"
      "restore_state 0 None None None" "[PTuple (demo_tuple []), PTick 10]"]
  by (simp add: restore_state_def received_def map_filter_simps)

text \<open>
  (C21) A sliding window triggered at a time sends exactly the tuples it has of the interval of the
  window length that ends there, both ends included, and forgets exactly the older ones.
\<close>

theorem sliding_scan_window:
  assumes "w_Type w = SLIDING_WINDOW" "w_Interval w = 0" "0 < lt" "0 \<le> w_Length w" "w_Length w \<le> max_i64"
    "0 \<le> trig" "trig \<le> max_i64" "\<forall>t \<in> set inputs. 0 \<le> t_Timestamp t \<and> t_Timestamp t \<le> max_i64"
  shows "fst (scan w ev lt inputs trig) = filter (\<lambda>t. trig - w_Length w \<le> t_Timestamp t) inputs \<and>
    (case snd (scan w ev lt inputs trig) of
       None \<Rightarrow> \<forall>t \<in> set inputs. \<not> (trig - w_Length w \<le> t_Timestamp t \<and> t_Timestamp t \<le> trig)
     | Some r \<Rightarrow> wts_mset r =
         mset (filter (\<lambda>t. trig - w_Length w \<le> t_Timestamp t \<and> t_Timestamp t \<le> trig) inputs))"
proof -
  have ov: "is_overlapping w" and d: "scan_delta w ev lt trig = 0"
    using assms(1-3) by (simp_all add: is_overlapping_def scan_delta_def calDelta_def)
  have L: "i64 (w_Length w) = w_Length w"
    using assms(4,5) by (intro i64_small) (simp_all add: max_i64_def)
  have ex: "expired w 0 trig t \<longleftrightarrow> t_Timestamp t < trig - w_Length w" if "t \<in> set inputs" for t
  proof -
    have "i64 (trig - t_Timestamp t) = trig - t_Timestamp t"
      using assms(6-8) that unfolding max_i64_def by (intro i64_small) force+
    then show ?thesis
      using ov L by (auto simp: expired_def)
  qed
  have st: "filter (stays w 0 trig) inputs = filter (\<lambda>t. trig - w_Length w \<le> t_Timestamp t) inputs"
    using ov ex by (intro filter_cong) (auto simp: stays_def)
  have du: "filter (due w 0 trig) inputs =
      filter (\<lambda>t. trig - w_Length w \<le> t_Timestamp t \<and> t_Timestamp t \<le> trig) inputs"
    using ex by (intro filter_cong) (auto simp: due_def)
  note e = scan_eq [of w ev lt inputs trig, unfolded d st du]
  show ?thesis
  proof (cases "snd (scan w ev lt inputs trig)")
    case None
    then show ?thesis
      using e(1,2) by (auto simp: filter_empty_conv)
  next
    case (Some r)
    then show ?thesis
      using e(1) e(3) [OF Some] by simp
  qed
qed

definition at_time :: "int \<Rightarrow> Tuple" where
  "at_time ts = (demo_tuple [])\<lparr>t_Timestamp := ts\<rparr>"

theorem sliding_scan_window_witness:
  "fst (scan \<lparr>w_Type = SLIDING_WINDOW, w_Length = 10, w_Interval = 0\<rparr> True 5 [at_time 1, at_time 15] 20) =
     [at_time 15]"
  using sliding_scan_window [of "\<lparr>w_Type = SLIDING_WINDOW, w_Length = 10, w_Interval = 0\<rparr>" 5 20
      "[at_time 1, at_time 15]" True]
  by (simp add: max_i64_def at_time_def)

text \<open>
  (C24) A restart does not survive an open session: when a checkpoint restores a session window with
  one waiting tuple and an earlier trigger time, the loop that catches up with the windows missed
  never returns, whatever fuel it has. It panics on the emptied inputs if the tuple is not later
  than the trigger time, and repeats itself for ever otherwise.
\<close>

theorem session_resume_never_returns:
  assumes "w_Type w = SESSION_WINDOW" "0 < w_Length w" "wn_inputs s = [t]" "0 < wn_triggerTime s"
    "0 \<le> t_Timestamp t" "t_Timestamp t + w_Length w \<le> max_i64" "wn_triggerTime s \<le> i64 (now + w_Interval w)"
  shows "\<nexists>fuel s'. resume fuel w now s = Some (Some s')"
proof (rule notI, elim exE)
  fix fuel s'
  assume r: "resume fuel w now s = Some (Some s')"
  have ov: "\<not> is_overlapping w" using assms(1) by (simp add: is_overlapping_def)
  have e: "resume fuel w now s = resume_session fuel w (i64 (now + w_Interval w)) (wn_triggerTime s) s"
    using assms by (simp add: resume_def has_ticker_def win_interval_def Let_def)
  show False
  proof (cases "wn_triggerTime s < t_Timestamp t")
    case True
    then show ?thesis
      using r e resume_session_later [OF assms(3,1,2,5,6) _ assms(7)] by simp
  next
    case False
    then have i: "wn_inputs (do_scan w False (wn_triggerTime s) s) = []"
      using assms(3) ov scan_eq(1) [of w False "wn_triggerTime s" "[t]" "wn_triggerTime s"]
      by (auto simp: do_scan_def stays_def case_prod_beta split: option.splits)
    show ?thesis
    proof (cases fuel)
      case (Suc n)
      then show ?thesis
        using r e assms(2,3,7) session_end_single [OF assms(2,5,6)] i
        by (cases n) (simp_all add: Let_def save_trigger_def save_inputs_def)
    qed (use r e in simp)
  qed
qed

theorem session_resume_never_returns_witness:
  "\<nexists>fuel s'. resume fuel \<lparr>w_Type = SESSION_WINDOW, w_Length = 100, w_Interval = 10\<rparr> 2000
      (restore_state 2000 (Some [at_time 1500]) (Some 1000) None) = Some (Some s')"
  by (rule session_resume_never_returns [where t = "at_time 1500"])
    (simp_all add: restore_state_def at_time_def max_i64_def i64_def)

text \<open> A tuple that does not complete the interval of a count window is not part of the state saved
  for checkpoints: a restart loses it.
\<close>

theorem count_progress_not_saved:
  "proc_run \<lparr>w_Type = COUNT_WINDOW, w_Length = 2, w_Interval = 2\<rparr> [PTuple t] (restore_state 0 None None None) =
     Some ((restore_state 0 None None None)\<lparr>wn_inputs := [t], wn_msgCount := 1,
       wn_saved_inputs := None, wn_saved_count := None\<rparr>)"
  by (simp add: proc_step_def tuple_step_def count_step_def restore_state_def i64_def go_mod_def go_div_def)

end
