(* ===== verification/Watermarks.thy ===== *)
theory Watermarks
  imports Windows
begin

text \<open>
  Windows in event time, \<^verbatim>\<open>internal/topo/node/watermark.go\<close>: the watermark generator,
  the computation of the next window end, and the loop of \<^verbatim>\<open>execEventWindow\<close> as a step
  function. Watermarks travel through the operator's own input channel; sending one to a full
  channel drops it, so the step that may send one is told whether there is room.
\<close>

section \<open>The generator\<close>

record wm_gen =
  wg_inputTopics :: "string list"
  wg_topicToTs :: "(string \<times> int) list"
  wg_lateTolerance :: int
  wg_interval :: int
  wg_lastWatermarkTs :: int

definition NewWatermarkGenerator :: "WindowConfig \<Rightarrow> int \<Rightarrow> string list \<Rightarrow> string + wm_gen" where
  "NewWatermarkGenerator w l s =
     (let g = (\<lambda>i. Inr \<lparr>wg_inputTopics = s, wg_topicToTs = [], wg_lateTolerance = l, wg_interval = i,
                wg_lastWatermarkTs = 0\<rparr>)
      in case w_Type w of
           NOT_WINDOW \<Rightarrow> g 0
         | TUMBLING_WINDOW \<Rightarrow> g (w_Length w)
         | HOPPING_WINDOW \<Rightarrow> g (w_Interval w)
         | SLIDING_WINDOW \<Rightarrow> g (w_Length w)
         | SESSION_WINDOW \<Rightarrow> g (w_Interval w)
         | COUNT_WINDOW \<Rightarrow> Inl ''unsupported window type'')"

text \<open>A topic that is not in the map reads as 0.\<close>

definition topic_ts :: "wm_gen \<Rightarrow> string \<Rightarrow> int" where
  "topic_ts g key = (case map_of (wg_topicToTs g) key of Some t \<Rightarrow> t | None \<Rightarrow> 0)"

definition computeWatermarkTs :: "wm_gen \<Rightarrow> int" where
  "computeWatermarkTs g =
     (let ts = (if length (wg_topicToTs g) \<ge> length (wg_inputTopics g)
                then fold (\<lambda>key ts. if ts > topic_ts g key then topic_ts g key else ts)
                       (wg_inputTopics g) max_i64
                else 0)
      in i64 (ts - wg_lateTolerance g))"

text \<open>The second component is the watermark sent.\<close>

definition wg_trigger :: "wm_gen \<Rightarrow> wm_gen \<times> int option" where
  "wg_trigger g = (let wm = computeWatermarkTs g in
     if wm > wg_lastWatermarkTs g then (g\<lparr>wg_lastWatermarkTs := wm\<rparr>, Some wm) else (g, None))"

definition wg_track :: "string \<Rightarrow> int \<Rightarrow> wm_gen \<Rightarrow> bool \<times> wm_gen \<times> int option" where
  "wg_track s ts g =
     (let g1 = (case map_of (wg_topicToTs g) s of
                  Some cur \<Rightarrow> if ts > cur then g\<lparr>wg_topicToTs := AList.update s ts (wg_topicToTs g)\<rparr> else g
                | None \<Rightarrow> g\<lparr>wg_topicToTs := AList.update s ts (wg_topicToTs g)\<rparr>)
      in if ts \<ge> wg_lastWatermarkTs g1
         then (case wg_trigger g1 of (g2, wm) \<Rightarrow> (True, g2, wm))
         else (False, g1, None))"

section \<open>The next window\<close>

definition getEarliestEventTs :: "Tuple list \<Rightarrow> int \<Rightarrow> int \<Rightarrow> int" where
  "getEarliestEventTs inputs startTs endTs =
     fold (\<lambda>t m. if t_Timestamp t > startTs \<and> t_Timestamp t \<le> endTs \<and> t_Timestamp t < m
             then t_Timestamp t else m) inputs max_i64"

text \<open>\<open>None\<close> is the division by a zero interval.\<close>

definition getNextWindow ::
  "WindowConfig \<Rightarrow> int \<Rightarrow> Tuple list \<Rightarrow> int \<Rightarrow> int \<Rightarrow> bool \<Rightarrow> int option" where
  "getNextWindow w interval inputs current wm triggered =
     (if w_Type w = TUMBLING_WINDOW \<or> w_Type w = HOPPING_WINDOW then
        (if triggered then Some (i64 (current + interval))
         else let nextTs = getEarliestEventTs inputs current wm in
           if nextTs = max_i64 then Some nextTs
           else if interval = 0 then None
           else if go_mod nextTs interval = 0 then Some nextTs
           else Some (i64 (nextTs + i64 (interval - go_mod nextTs interval))))
      else if w_Type w = SLIDING_WINDOW then Some (getEarliestEventTs inputs current wm)
      else Some max_i64)"

text \<open>\<^verbatim>\<open>getNextSessionWindow\<close> sorts the inputs in place.\<close>

definition getNextSessionWindow :: "WindowConfig \<Rightarrow> Tuple list \<Rightarrow> (int \<times> bool \<times> Tuple list) option" where
  "getNextSessionWindow w inputs =
     (case sort_key t_Timestamp inputs of
        [] \<Rightarrow> Some (max_i64, False, [])
      | t # ts \<Rightarrow>
          if w_Length w = 0 then None
          else let et = t_Timestamp t;
                   (r, ticked) = session_end (w_Interval w) (w_Length w) et
                     (session_tick (w_Length w) et) 0 (t # ts)
               in Some (r, ticked, t # ts))"

section \<open>The event-time loop\<close>

record ev_state =
  ev_win :: win_state
  ev_triggered :: bool
  ev_next :: int          \<comment> \<open>\<^verbatim>\<open>nextWindowEndTs\<close>\<close>
  ev_prev :: int          \<comment> \<open>\<^verbatim>\<open>prevWindowEndTs\<close>\<close>
  ev_lastTicked :: bool
  ev_gen :: wm_gen
  ev_saved_wm :: "int option"   \<comment> \<open>\<^verbatim>\<open>WATERMARK_KEY\<close>\<close>

definition next_window :: "WindowConfig \<Rightarrow> int \<Rightarrow> ev_state \<Rightarrow> (int \<times> bool \<times> ev_state) option" where
  "next_window w wm s =
     (if w_Type w = SESSION_WINDOW then
        (case getNextSessionWindow w (wn_inputs (ev_win s)) of
           None \<Rightarrow> None
         | Some (e, ticked, inputs) \<Rightarrow> Some (e, ticked, s\<lparr>ev_win := (ev_win s)\<lparr>wn_inputs := inputs\<rparr>\<rparr>))
      else
        (case getNextWindow w (wg_interval (ev_gen s)) (wn_inputs (ev_win s)) (ev_prev s) wm (ev_triggered s) of
           None \<Rightarrow> None
         | Some e \<Rightarrow> Some (e, False, s)))"

text \<open>One window: \<open>None\<close> is the access to the first of no inputs.\<close>

definition scan_window :: "WindowConfig \<Rightarrow> int \<Rightarrow> bool \<Rightarrow> ev_state \<Rightarrow> ev_state option" where
  "scan_window w wend ticked s =
     (let reset = (w_Type w = SESSION_WINDOW \<and> \<not> ev_lastTicked s); win = ev_win s in
      if reset \<and> wn_inputs win = [] then None
      else
        let win1 = (if reset then win\<lparr>wn_triggerTime := t_Timestamp (hd (wn_inputs win))\<rparr> else win)
        in Some (s\<lparr>
             ev_win := do_scan w True wend win1,
             ev_triggered := (snd (scan w True (wn_triggerTime win1) (wn_inputs win1) wend) \<noteq> None),
             ev_prev := wend, ev_lastTicked := ticked\<rparr>))"

text \<open>
  The loop over the windows a watermark closes, on fuel. Every iteration of a window with a positive
  interval moves the window end forward, so the distance to the watermark is enough fuel.
\<close>

fun wm_loop :: "nat \<Rightarrow> WindowConfig \<Rightarrow> int \<Rightarrow> int \<Rightarrow> bool \<Rightarrow> ev_state \<Rightarrow> (int \<times> ev_state) option" where
  "wm_loop 0 w wm wend ticked s = None"
| "wm_loop (Suc n) w wm wend ticked s =
     (if wend \<le> wm \<and> wend \<ge> 0 then
        (case scan_window w wend ticked s of
           None \<Rightarrow> None
         | Some s1 \<Rightarrow> (case next_window w wm s1 of
             None \<Rightarrow> None
           | Some (wend1, ticked1, s2) \<Rightarrow> wm_loop n w wm wend1 ticked1 s2))
      else Some (wend, s))"

definition save_ev_inputs :: "ev_state \<Rightarrow> ev_state" where
  "save_ev_inputs s = s\<lparr>ev_win := save_inputs (ev_win s)\<rparr>"

definition watermark_step :: "WindowConfig \<Rightarrow> int \<Rightarrow> ev_state \<Rightarrow> ev_state option" where
  "watermark_step w wm s =
     (case (if ev_next s = max_i64 \<or> w_Type w = SESSION_WINDOW \<or> w_Type w = SLIDING_WINDOW
            then next_window w wm s else Some (ev_next s, False, s)) of
        None \<Rightarrow> None
      | Some (wend, ticked, s1) \<Rightarrow>
          (case wm_loop (nat (wm - wend) + 2) w wm wend ticked s1 of
             None \<Rightarrow> None
           | Some (wend1, s2) \<Rightarrow> Some (save_ev_inputs (s2\<lparr>ev_next := wend1\<rparr>))))"

text \<open>
  A tuple: appended unless it is late. The watermark it causes is the second component; the
  generator records it even when the channel has no room for it.
\<close>

definition ev_tuple_step :: "Tuple \<Rightarrow> ev_state \<Rightarrow> ev_state \<times> int option" where
  "ev_tuple_step t s =
     (case wg_track (t_Emitter t) (t_Timestamp t) (ev_gen s) of
        (ok, g, wm) \<Rightarrow>
          (save_ev_inputs (s\<lparr>
             ev_gen := g,
             ev_saved_wm := (case wm of Some x \<Rightarrow> Some x | None \<Rightarrow> ev_saved_wm s),
             ev_win := (if ok then (ev_win s)\<lparr>wn_inputs := wn_inputs (ev_win s) @ [t]\<rparr> else ev_win s)\<rparr>),
           wm))"

datatype item = ITuple Tuple | IWatermark int | IError op_err | IOther

text \<open>
  The operator with its input channel of the given capacity: \<open>Arrive\<close> is a send of the
  upstream node, of an item the predicate \<open>P\<close> allows, \<open>Take\<close> one turn of the loop.
\<close>

record ev_op =
  op_chan :: "item list"
  op_state :: ev_state

definition ev_broadcast :: "opdata \<Rightarrow> ev_state \<Rightarrow> ev_state" where
  "ev_broadcast d s = s\<lparr>ev_win := (ev_win s)\<lparr>wn_out := wn_out (ev_win s) @ [d]\<rparr>\<rparr>"

definition take_item :: "nat \<Rightarrow> WindowConfig \<Rightarrow> ev_op \<Rightarrow> ev_op option" where
  "take_item cap w o1 = (case op_chan o1 of
     [] \<Rightarrow> Some o1
   | i # rest \<Rightarrow> (case i of
       ITuple t \<Rightarrow> (case ev_tuple_step t (op_state o1) of
         (s, None) \<Rightarrow> Some \<lparr>op_chan = rest, op_state = s\<rparr>
       | (s, Some wm) \<Rightarrow> Some \<lparr>op_chan = (if length rest < cap then rest @ [IWatermark wm] else rest),
           op_state = s\<rparr>)
     | IWatermark wm \<Rightarrow>
         map_option (\<lambda>s. \<lparr>op_chan = rest, op_state = s\<rparr>) (watermark_step w wm (op_state o1))
     | IError e \<Rightarrow> Some \<lparr>op_chan = rest, op_state = ev_broadcast (DErr e) (op_state o1)\<rparr>
     | IOther \<Rightarrow> Some \<lparr>op_chan = rest,
         op_state = ev_broadcast (DErr (InvalidInput ''run Window error'')) (op_state o1)\<rparr>))"

inductive ev_step :: "nat \<Rightarrow> WindowConfig \<Rightarrow> (item \<Rightarrow> bool) \<Rightarrow> ev_op \<Rightarrow> ev_op \<Rightarrow> bool" for cap w P where
  Arrive: "length (op_chan o1) < cap \<Longrightarrow> P i \<Longrightarrow>
    ev_step cap w P o1 (o1\<lparr>op_chan := op_chan o1 @ [i]\<rparr>)"
| Take: "op_chan o1 \<noteq> [] \<Longrightarrow> take_item cap w o1 = Some o2 \<Longrightarrow> ev_step cap w P o1 o2"

definition ev_init :: "wm_gen \<Rightarrow> int \<Rightarrow> ev_op" where
  "ev_init g now = \<lparr>op_chan = [], op_state = \<lparr>ev_win = restore_state now None None None,
     ev_triggered = False, ev_next = 0, ev_prev = 0, ev_lastTicked = False, ev_gen = g,
     ev_saved_wm = None\<rparr>\<rparr>"

inductive ev_reach ::
  "nat \<Rightarrow> WindowConfig \<Rightarrow> (item \<Rightarrow> bool) \<Rightarrow> wm_gen \<Rightarrow> int \<Rightarrow> ev_op \<Rightarrow> bool" for cap w P g now where
  Init: "ev_reach cap w P g now (ev_init g now)"
| Step: "ev_reach cap w P g now o1 \<Longrightarrow> ev_step cap w P o1 o2 \<Longrightarrow> ev_reach cap w P g now o2"

section \<open>Window ends\<close>

text \<open>The least multiple of the interval that is not before a time.\<close>

definition alignup :: "int \<Rightarrow> int \<Rightarrow> int" where
  "alignup I x = (if x mod I = 0 then x else x + (I - x mod I))"

lemma alignup_props:
  assumes "0 < I"
  shows "x \<le> alignup I x" "alignup I x < x + I" "I dvd alignup I x"
proof -
  define m where "m = x mod I"
  have m: "0 \<le> m" "m < I" using assms by (simp_all add: m_def)
  show "x \<le> alignup I x" "alignup I x < x + I"
    using m assms by (auto simp: alignup_def m_def [symmetric])
  have "x = I * (x div I) + m" by (simp add: m_def)
  then have "x + (I - m) = I * (x div I + 1)" by (simp add: distrib_left)
  then show "I dvd alignup I x"
    using assms by (auto simp: alignup_def m_def [symmetric]) (metis m_def mod_eq_0_iff_dvd)
qed

lemma alignup_least:
  assumes "0 < I" "I dvd e" "x \<le> e"
  shows "alignup I x \<le> e"
proof (rule ccontr)
  assume "\<not> ?thesis"
  then have "0 < alignup I x - e" "alignup I x - e < I"
    using alignup_props(2) [OF assms(1), of x] assms(3) by auto
  moreover have "I dvd alignup I x - e"
    using alignup_props(3) [OF assms(1)] assms(2) by simp
  ultimately show False
    by (meson zdvd_not_zless)
qed

lemma alignup_mono: "0 < I \<Longrightarrow> x \<le> y \<Longrightarrow> alignup I x \<le> alignup I y"
  using alignup_least alignup_props order_trans by metis

lemma alignup_gt:
  assumes "0 < I" "I dvd e" "e < x"
  shows "e + I \<le> alignup I x"
proof (rule ccontr)
  assume "\<not> ?thesis"
  then have "0 < alignup I x - e" "alignup I x - e < I"
    using alignup_props(1) [OF assms(1), of x] assms(3) by auto
  moreover have "I dvd alignup I x - e"
    using alignup_props(3) [OF assms(1)] assms(2) by simp
  ultimately show False
    by (meson zdvd_not_zless)
qed

lemma earliest_fold:
  fixes a b :: int and ts :: "Tuple list"
  defines "f \<equiv> (\<lambda>t m. if t_Timestamp t > a \<and> t_Timestamp t \<le> b \<and> t_Timestamp t < m then t_Timestamp t else m)"
  shows "fold f ts m \<le> m \<and> (fold f ts m = m \<or> (\<exists>t \<in> set ts. t_Timestamp t = fold f ts m \<and> a < t_Timestamp t \<and> t_Timestamp t \<le> b)) \<and>
    (\<forall>t \<in> set ts. a < t_Timestamp t \<and> t_Timestamp t \<le> b \<longrightarrow> fold f ts m \<le> t_Timestamp t)"
proof (induction ts arbitrary: m)
  case (Cons t ts)
  have "f t m \<le> m" "f t m = m \<or> (f t m = t_Timestamp t \<and> a < t_Timestamp t \<and> t_Timestamp t \<le> b)"
    "a < t_Timestamp t \<and> t_Timestamp t \<le> b \<longrightarrow> f t m \<le> t_Timestamp t"
    by (auto simp: f_def)
  with Cons [of "f t m"] show ?case
    by (auto intro: order_trans)
qed simp

lemma earliest_props:
  assumes "e = getEarliestEventTs inputs a b"
  shows "e = max_i64 \<or> (\<exists>t \<in> set inputs. t_Timestamp t = e \<and> a < e \<and> e \<le> b)"
    and "t \<in> set inputs \<Longrightarrow> a < t_Timestamp t \<Longrightarrow> t_Timestamp t \<le> b \<Longrightarrow> e \<le> t_Timestamp t"
  using earliest_fold [of a b inputs max_i64] assms by (auto simp: getEarliestEventTs_def)

lemma getNextWindow_tumbling:
  assumes "w_Type w = TUMBLING_WINDOW" "0 < I" "\<forall>t \<in> set inputs. 0 \<le> t_Timestamp t \<and> t_Timestamp t \<le> B"
    "B + I \<le> max_i64" "0 \<le> cur" "cur \<le> B"
  shows "getNextWindow w I inputs cur wm trg = Some (if trg then cur + I else
    (let e = getEarliestEventTs inputs cur wm in if e = max_i64 then e else alignup I e))"
proof (cases trg)
  case True
  have "i64 (cur + I) = cur + I"
    using assms by (intro i64_small) (auto simp: max_i64_def)
  then show ?thesis
    using True assms(1) by (simp add: getNextWindow_def)
next
  case False
  define e where "e = getEarliestEventTs inputs cur wm"
  show ?thesis
  proof (cases "e = max_i64")
    case True
    then show ?thesis using False assms(1) by (simp add: getNextWindow_def e_def Let_def)
  next
    case ne: False
    then have e: "0 \<le> e" "e \<le> B"
      using earliest_props(1) [OF e_def] assms(3) by auto
    define m where "m = e mod I"
    have m: "0 \<le> m" "m < I" using assms(2) by (simp_all add: m_def)
    have "i64 (I - m) = I - m" "i64 (e + (I - m)) = e + (I - m)"
      using m e assms(4) unfolding max_i64_def by (auto intro!: i64_small)
    moreover have "go_mod e I = m"
      using e assms(2) by (simp add: go_mod_nonneg m_def)
    ultimately show ?thesis
      using False ne assms(1,2) unfolding getNextWindow_def e_def [symmetric]
      by (simp add: Let_def alignup_def m_def [symmetric])
  qed
qed


section \<open>A watermark closes tumbling windows\<close>

lemma do_scan_tumbling:
  assumes "w_Type w = TUMBLING_WINDOW"
  shows "wn_inputs (do_scan w ev trig s) = filter (\<lambda>t. trig < t_Timestamp t) (wn_inputs s)"
    and "\<exists>ws. wn_out (do_scan w ev trig s) = wn_out s @ map DWindow ws \<and>
      (\<forall>r \<in> set ws. wts_Range r = Some \<lparr>WindowStart = wn_triggerTime s, WindowEnd = trig\<rparr> \<and>
        set_mset (wts_mset r) = {t \<in> set (wn_inputs s). t_Timestamp t \<le> trig})"
proof -
  let ?d = "scan_delta w ev (wn_triggerTime s) trig"
  have st: "stays w ?d trig = (\<lambda>t. trig < t_Timestamp t)" "due w ?d trig = (\<lambda>t. t_Timestamp t \<le> trig)"
    using assms by (auto simp: stays_def due_def expired_def is_overlapping_def)
  note e = scan_eq [of w ev "wn_triggerTime s" "wn_inputs s" trig, unfolded st]
  show "wn_inputs (do_scan w ev trig s) = filter (\<lambda>t. trig < t_Timestamp t) (wn_inputs s)"
    using e(1) by (simp add: do_scan_def case_prod_beta split: option.splits)
  have ws: "window_start w lt trig = lt" for lt
    using assms by (simp add: window_start_def)
  show "\<exists>ws. wn_out (do_scan w ev trig s) = wn_out s @ map DWindow ws \<and>
      (\<forall>r \<in> set ws. wts_Range r = Some \<lparr>WindowStart = wn_triggerTime s, WindowEnd = trig\<rparr> \<and>
        set_mset (wts_mset r) = {t \<in> set (wn_inputs s). t_Timestamp t \<le> trig})"
  proof (cases "snd (scan w ev (wn_triggerTime s) (wn_inputs s) trig)")
    case None
    then show ?thesis
      by (intro exI [of _ "[]"]) (simp add: do_scan_def case_prod_beta)
  next
    case (Some r)
    then show ?thesis
      using e(3) [OF Some] by (intro exI [of _ "[r]"]) (simp add: do_scan_def case_prod_beta ws)
  qed
qed

text \<open>
  What the windows sent up to a watermark are: they end at multiples of the interval, and a tuple is
  in the window its timestamp belongs to, unless it has the timestamp of a window end.
\<close>

definition closed_windows :: "int \<Rightarrow> int \<Rightarrow> WindowTuplesSet list \<Rightarrow> bool" where
  "closed_windows I wm ws \<longleftrightarrow> (\<forall>r \<in> set ws. \<exists>st e. wts_Range r = Some \<lparr>WindowStart = st, WindowEnd = e\<rparr> \<and>
     I dvd e \<and> e \<le> wm \<and>
     (\<forall>t \<in># wts_mset r. t_Timestamp t \<le> e \<and> (e = alignup I (t_Timestamp t) \<or> I dvd t_Timestamp t)))"

text \<open>No time from the watermark on belongs to a window before the next one.\<close>

definition frontier :: "int \<Rightarrow> int \<Rightarrow> int \<Rightarrow> int \<Rightarrow> bool" where
  "frontier I wm prev wend \<longleftrightarrow> wend = max_i64 \<or>
     0 \<le> wend \<and> I dvd wend \<and> (\<forall>x \<ge> wm. prev < x \<longrightarrow> wend \<le> alignup I x)"

definition win_inv :: "int \<Rightarrow> int \<Rightarrow> int \<Rightarrow> int \<Rightarrow> ev_state \<Rightarrow> bool" where
  "win_inv I B wm wend s \<longleftrightarrow> wg_interval (ev_gen s) = I \<and> 0 \<le> ev_prev s \<and> ev_prev s \<le> wm \<and> I dvd ev_prev s \<and>
     frontier I wm (ev_prev s) wend \<and>
     (\<forall>t \<in> set (wn_inputs (ev_win s)). ev_prev s \<le> t_Timestamp t \<and> t_Timestamp t \<le> B \<and>
       (wend = max_i64 \<or> t_Timestamp t = ev_prev s \<or> wend \<le> alignup I (t_Timestamp t)))"

lemma next_window_tumbling:
  assumes "w_Type w = TUMBLING_WINDOW" "0 < I" "B + I \<le> max_i64" "wm \<le> B" "win_inv I B wm max_i64 s"
  shows "\<exists>wend. next_window w wm s = Some (wend, False, s) \<and> ev_prev s < wend \<and> win_inv I B wm wend s"
proof -
  let ?in = "wn_inputs (ev_win s)"
  define e where "e = getEarliestEventTs ?in (ev_prev s) wm"
  define n where "n = (if ev_triggered s then ev_prev s + I else if e = max_i64 then e else alignup I e)"
  have inv: "wg_interval (ev_gen s) = I" "0 \<le> ev_prev s" "ev_prev s \<le> wm" "I dvd ev_prev s"
    "\<And>t. t \<in> set ?in \<Longrightarrow> ev_prev s \<le> t_Timestamp t \<and> t_Timestamp t \<le> B"
    using assms(5) by (auto simp: win_inv_def)
  have "\<forall>t \<in> set ?in. 0 \<le> t_Timestamp t \<and> t_Timestamp t \<le> B"
    using inv(2,5) by force
  then have nw: "next_window w wm s = Some (n, False, s)"
    using getNextWindow_tumbling [of w I ?in B "ev_prev s" wm "ev_triggered s"] assms(1-4) inv
    by (simp add: next_window_def e_def n_def Let_def)
  have e: "e = max_i64 \<or> (ev_prev s < e \<and> e \<le> wm)"
    using earliest_props(1) [OF e_def] by auto
  have m: "ev_prev s < max_i64" "B < max_i64"
    using inv(3) assms(2-4) by linarith+
  note al = alignup_props [OF assms(2)]
  have n: "ev_prev s < n" "n = max_i64 \<or> I dvd n"
    using e m assms(2) inv(4) al [of e] by (auto simp: n_def)
  have own: "n = max_i64 \<or> n \<le> alignup I x" if "ev_prev s < x" "wm \<le> x \<or> (\<exists>t \<in> set ?in. t_Timestamp t = x)" for x
  proof -
    have "ev_prev s + I \<le> alignup I x"
      using alignup_gt [OF assms(2) inv(4) that(1)] .
    moreover have "alignup I e \<le> alignup I x" if "e \<noteq> max_i64"
    proof (rule alignup_mono [OF assms(2)])
      show "e \<le> x"
        using e \<open>e \<noteq> max_i64\<close> \<open>wm \<le> x \<or> _\<close> earliest_props(2) [OF e_def, of _] \<open>ev_prev s < x\<close> by (cases "x \<le> wm") auto
    qed
    ultimately show ?thesis
      by (auto simp: n_def)
  qed
  have "frontier I wm (ev_prev s) n"
    using n inv(2) own unfolding frontier_def by force
  moreover have "n = max_i64 \<or> t_Timestamp t = ev_prev s \<or> n \<le> alignup I (t_Timestamp t)" if "t \<in> set ?in" for t
    using own [of "t_Timestamp t"] inv(5) [OF that] that by force
  ultimately have "win_inv I B wm n s"
    using inv by (auto simp: win_inv_def)
  then show ?thesis
    using nw n(1) by blast
qed

lemma scan_window_tumbling:
  assumes "w_Type w = TUMBLING_WINDOW" "0 < I" "B + I \<le> max_i64" "wm \<le> B" "win_inv I B wm wend s" "wend \<le> wm"
  shows "\<exists>s1 ws. scan_window w wend False s = Some s1 \<and> win_inv I B wm max_i64 s1 \<and> ev_prev s1 = wend \<and>
    ev_gen s1 = ev_gen s \<and>
    out_mset (wn_out (ev_win s1)) + mset (wn_inputs (ev_win s1)) = out_mset (wn_out (ev_win s)) + mset (wn_inputs (ev_win s)) \<and>
    wn_out (ev_win s1) = wn_out (ev_win s) @ map DWindow ws \<and> closed_windows I wm ws \<and>
    (\<forall>t \<in> set (wn_inputs (ev_win s1)). wend < t_Timestamp t)"
proof -
  let ?in = "wn_inputs (ev_win s)"
  have "wend < max_i64" using assms by linarith
  then have inv: "wg_interval (ev_gen s) = I" "0 \<le> wend" "I dvd wend" "I dvd ev_prev s"
    "\<And>t. t \<in> set ?in \<Longrightarrow> ev_prev s \<le> t_Timestamp t \<and> t_Timestamp t \<le> B \<and>
      (t_Timestamp t = ev_prev s \<or> wend \<le> alignup I (t_Timestamp t))"
    using assms(5) by (auto simp: win_inv_def frontier_def)
  define s1 where "s1 = s\<lparr>ev_win := do_scan w True wend (ev_win s),
    ev_triggered := (snd (scan w True (wn_triggerTime (ev_win s)) ?in wend) \<noteq> None),
    ev_prev := wend, ev_lastTicked := False\<rparr>"
  have sw: "scan_window w wend False s = Some s1"
    using assms(1) by (simp add: scan_window_def s1_def Let_def)
  have in1: "wn_inputs (ev_win s1) = filter (\<lambda>t. wend < t_Timestamp t) ?in"
    by (simp add: s1_def do_scan_tumbling(1) [OF assms(1)])
  obtain ws where ws: "wn_out (ev_win s1) = wn_out (ev_win s) @ map DWindow ws"
    "\<forall>r \<in> set ws. wts_Range r = Some \<lparr>WindowStart = wn_triggerTime (ev_win s), WindowEnd = wend\<rparr> \<and>
      set_mset (wts_mset r) = {t \<in> set ?in. t_Timestamp t \<le> wend}"
    using do_scan_tumbling(2) [OF assms(1), of True wend "ev_win s"] by (auto simp: s1_def)
  have cons: "out_mset (wn_out (ev_win s1)) + mset (wn_inputs (ev_win s1)) = out_mset (wn_out (ev_win s)) + mset ?in"
    using do_scan_conserves [of w True wend "ev_win s"] assms(1) by (simp add: s1_def is_overlapping_def)
  have "wend = alignup I (t_Timestamp t) \<or> I dvd t_Timestamp t" if "t \<in> set ?in" "t_Timestamp t \<le> wend" for t
    using inv(4) inv(5) [OF that(1)] alignup_least [OF assms(2) inv(3) that(2)] by auto
  then have "closed_windows I wm ws"
    unfolding closed_windows_def using ws(2) inv(3) assms(6) by fastforce
  moreover have "win_inv I B wm max_i64 s1"
    using inv assms(6) in1 by (auto simp: win_inv_def s1_def frontier_def)
  ultimately show ?thesis
    using sw ws(1) cons in1 by (intro exI [of _ s1] exI [of _ ws]) (simp add: s1_def)
qed

lemma wm_loop_tumbling:
  assumes "w_Type w = TUMBLING_WINDOW" "0 < I" "B + I \<le> max_i64" "wm \<le> B"
    "win_inv I B wm wend s" "nat (wm - wend + 1) + 1 \<le> n"
  shows "\<exists>wend' s' ws. wm_loop n w wm wend False s = Some (wend', s') \<and> wm < wend' \<and> win_inv I B wm wend' s' \<and>
    ev_gen s' = ev_gen s \<and>
    out_mset (wn_out (ev_win s')) + mset (wn_inputs (ev_win s')) = out_mset (wn_out (ev_win s)) + mset (wn_inputs (ev_win s)) \<and>
    wn_out (ev_win s') = wn_out (ev_win s) @ map DWindow ws \<and> closed_windows I wm ws"
  using assms(5,6)
proof (induction n arbitrary: wend s)
  case (Suc n)
  show ?case
  proof (cases "wend \<le> wm")
    case False
    then show ?thesis
      using Suc.prems(1) by (intro exI [of _ wend] exI [of _ s] exI [of _ "[]"]) (simp add: closed_windows_def)
  next
    case True
    obtain s1 ws where s1: "scan_window w wend False s = Some s1" "win_inv I B wm max_i64 s1" "ev_prev s1 = wend"
      "ev_gen s1 = ev_gen s"
      "out_mset (wn_out (ev_win s1)) + mset (wn_inputs (ev_win s1)) = out_mset (wn_out (ev_win s)) + mset (wn_inputs (ev_win s))"
      "wn_out (ev_win s1) = wn_out (ev_win s) @ map DWindow ws" "closed_windows I wm ws"
      using scan_window_tumbling [OF assms(1-4) Suc.prems(1) True] by blast
    obtain wend1 where n1: "next_window w wm s1 = Some (wend1, False, s1)" "wend < wend1" "win_inv I B wm wend1 s1"
      using next_window_tumbling [OF assms(1-4) s1(2)] s1(3) by auto
    have fuel: "nat (wm - wend1 + 1) + 1 \<le> n"
      using Suc.prems(2) True n1(2) by linarith
    obtain wend' s' ws' where IH: "wm_loop n w wm wend1 False s1 = Some (wend', s')" "wm < wend'" "win_inv I B wm wend' s'"
      "ev_gen s' = ev_gen s1"
      "out_mset (wn_out (ev_win s')) + mset (wn_inputs (ev_win s')) = out_mset (wn_out (ev_win s1)) + mset (wn_inputs (ev_win s1))"
      "wn_out (ev_win s') = wn_out (ev_win s1) @ map DWindow ws'" "closed_windows I wm ws'"
      using Suc.IH [OF n1(3) fuel] by blast
    have "0 \<le> wend"
      using s1(2,3) by (simp add: win_inv_def)
    then have "wm_loop (Suc n) w wm wend False s = Some (wend', s')"
      using True s1(1) n1(1) IH(1) by simp
    moreover have "closed_windows I wm (ws @ ws')"
      using s1(7) IH(7) by (auto simp: closed_windows_def)
    ultimately show ?thesis
      using IH s1(4-6) by (intro exI [of _ wend'] exI [of _ s'] exI [of _ "ws @ ws'"]) simp
  qed
qed simp

lemma watermark_step_tumbling:
  assumes "w_Type w = TUMBLING_WINDOW" "0 < I" "B + I \<le> max_i64" "wm \<le> B" "win_inv I B wm (ev_next s) s"
  shows "\<exists>s' ws. watermark_step w wm s = Some s' \<and> wm < ev_next s' \<and> win_inv I B wm (ev_next s') s' \<and>
    ev_gen s' = ev_gen s \<and>
    out_mset (wn_out (ev_win s')) + mset (wn_inputs (ev_win s')) = out_mset (wn_out (ev_win s)) + mset (wn_inputs (ev_win s)) \<and>
    wn_out (ev_win s') = wn_out (ev_win s) @ map DWindow ws \<and> closed_windows I wm ws"
proof -
  obtain wend where n: "(if ev_next s = max_i64 \<or> w_Type w = SESSION_WINDOW \<or> w_Type w = SLIDING_WINDOW
      then next_window w wm s else Some (ev_next s, False, s)) = Some (wend, False, s)" "win_inv I B wm wend s"
    using next_window_tumbling [OF assms(1-4), of s] assms(1,5) by (cases "ev_next s = max_i64") auto
  have "nat (wm - wend + 1) + 1 \<le> nat (wm - wend) + 2"
    by linarith
  from wm_loop_tumbling [OF assms(1-4) n(2) this] obtain wend' s' ws where
    l: "wm_loop (nat (wm - wend) + 2) w wm wend False s = Some (wend', s')" "wm < wend'" "win_inv I B wm wend' s'"
    "ev_gen s' = ev_gen s"
    "out_mset (wn_out (ev_win s')) + mset (wn_inputs (ev_win s')) = out_mset (wn_out (ev_win s)) + mset (wn_inputs (ev_win s))"
    "wn_out (ev_win s') = wn_out (ev_win s) @ map DWindow ws" "closed_windows I wm ws"
    by blast
  let ?s = "save_ev_inputs (s'\<lparr>ev_next := wend'\<rparr>)"
  have "watermark_step w wm s = Some ?s"
    unfolding watermark_step_def n(1) using l(1) by simp
  moreover have "win_inv I B wm (ev_next ?s) ?s"
    using l(3) by (simp add: win_inv_def save_ev_inputs_def save_inputs_def)
  ultimately show ?thesis
    using l by (intro exI [of _ ?s] exI [of _ ws]) (simp add: save_ev_inputs_def save_inputs_def)
qed


section \<open>Invariant of the operator\<close>

definition watermarks :: "item list \<Rightarrow> int list" where
  "watermarks is = List.map_filter (\<lambda>i. case i of IWatermark wm \<Rightarrow> Some wm | _ \<Rightarrow> None) is"

lemma watermarks_simps [simp]:
  "watermarks [] = []"
  "watermarks (i # is) = (case i of IWatermark wm \<Rightarrow> wm # watermarks is | _ \<Rightarrow> watermarks is)"
  "watermarks (is @ js) = watermarks is @ watermarks js"
  by (auto simp: watermarks_def List.map_filter_def split: item.splits)

definition gen_inv :: "int \<Rightarrow> wm_gen \<Rightarrow> bool" where
  "gen_inv B g \<longleftrightarrow> wg_inputTopics g \<noteq> [] \<and> 0 \<le> wg_lateTolerance g \<and> wg_lateTolerance g \<le> max_i64 \<and>
     wg_lastWatermarkTs g \<le> B \<and> (\<forall>v \<in> snd ` set (wg_topicToTs g). 0 \<le> v \<and> v \<le> B)"

lemma topic_ts_bound: "gen_inv B g \<Longrightarrow> 0 \<le> B \<Longrightarrow> 0 \<le> topic_ts g k \<and> topic_ts g k \<le> B"
  by (auto simp: gen_inv_def topic_ts_def dest!: map_of_SomeD split: option.splits)

lemma fold_min_bound:
  fixes f :: "'a \<Rightarrow> int"
  assumes "\<And>k. 0 \<le> f k \<and> f k \<le> B" "0 \<le> m"
  shows "0 \<le> fold (\<lambda>k m. if m > f k then f k else m) ks m \<and>
    (ks \<noteq> [] \<or> m \<le> B \<longrightarrow> fold (\<lambda>k m. if m > f k then f k else m) ks m \<le> B)"
  using assms(2)
proof (induction ks arbitrary: m)
  case (Cons k ks)
  have "0 \<le> (if m > f k then f k else m)" "(if m > f k then f k else m) \<le> B"
    using assms(1) [of k] Cons.prems by auto
  then show ?case
    using Cons.IH by simp
qed simp

lemma computeWatermarkTs_le:
  assumes "gen_inv B g" "0 \<le> B" "B \<le> max_i64"
  shows "computeWatermarkTs g \<le> B"
proof -
  let ?ts = "if length (wg_topicToTs g) \<ge> length (wg_inputTopics g)
      then fold (\<lambda>key ts. if ts > topic_ts g key then topic_ts g key else ts) (wg_inputTopics g) max_i64 else 0"
  have "0 \<le> ?ts" "?ts \<le> B"
    using fold_min_bound [of "topic_ts g" B max_i64 "wg_inputTopics g"] topic_ts_bound [OF assms(1,2)] assms
    by (auto simp: gen_inv_def max_i64_def)
  moreover from this have "i64 (?ts - wg_lateTolerance g) = ?ts - wg_lateTolerance g"
    using assms unfolding gen_inv_def max_i64_def by (intro i64_small) auto
  ultimately show ?thesis
    using assms(1) unfolding computeWatermarkTs_def Let_def gen_inv_def by linarith
qed

lemma gen_inv_update:
  assumes "gen_inv B g" "0 \<le> ts" "ts \<le> B"
  shows "gen_inv B (g\<lparr>wg_topicToTs := AList.update s ts (wg_topicToTs g)\<rparr>)"
proof -
  have "snd ` set (AList.update s ts al) \<subseteq> insert ts (snd ` set al)" for al
    by (induction al) auto
  then show ?thesis
    using assms unfolding gen_inv_def by force
qed

lemma wg_track_inv:
  assumes "gen_inv B g" "0 \<le> ts" "ts \<le> B" "B \<le> max_i64" "wg_track s ts g = (ok, g', wm)"
  shows "gen_inv B g' \<and> wg_interval g' = wg_interval g \<and> (ok \<longleftrightarrow> wg_lastWatermarkTs g \<le> ts) \<and>
    (case wm of None \<Rightarrow> wg_lastWatermarkTs g' = wg_lastWatermarkTs g
     | Some x \<Rightarrow> wg_lastWatermarkTs g' = x \<and> wg_lastWatermarkTs g < x)"
proof -
  define g1 where "g1 = (case map_of (wg_topicToTs g) s of
      Some cur \<Rightarrow> if ts > cur then g\<lparr>wg_topicToTs := AList.update s ts (wg_topicToTs g)\<rparr> else g
    | None \<Rightarrow> g\<lparr>wg_topicToTs := AList.update s ts (wg_topicToTs g)\<rparr>)"
  have g1: "gen_inv B g1" "wg_lastWatermarkTs g1 = wg_lastWatermarkTs g" "wg_interval g1 = wg_interval g"
    using gen_inv_update [OF assms(1-3)] assms(1) by (auto simp: g1_def split: option.splits)
  have "computeWatermarkTs g1 \<le> B"
    using computeWatermarkTs_le [OF g1(1)] assms by simp
  moreover have "gen_inv B (g1\<lparr>wg_lastWatermarkTs := x\<rparr>)" if "x \<le> B" for x
    using g1(1) that by (simp add: gen_inv_def)
  ultimately show ?thesis
    using assms(5) g1 unfolding wg_track_def g1_def [symmetric]
    by (auto simp: Let_def wg_trigger_def split: if_splits)
qed

definition op_inv :: "int \<Rightarrow> int \<Rightarrow> ev_op \<Rightarrow> bool" where
  "op_inv I B op \<longleftrightarrow> (\<exists>wml. 0 \<le> wml \<and> win_inv I B wml (ev_next (op_state op)) (op_state op) \<and>
     sorted_wrt (<) (wml # watermarks (op_chan op)) \<and>
     (\<forall>wm \<in> set (wml # watermarks (op_chan op)). wm \<le> wg_lastWatermarkTs (ev_gen (op_state op)))) \<and>
     (\<forall>t. ITuple t \<in> set (op_chan op) \<longrightarrow> 0 \<le> t_Timestamp t \<and> t_Timestamp t \<le> B) \<and>
     gen_inv B (ev_gen (op_state op)) \<and>
     (\<forall>r. DWindow r \<in> set (wn_out (ev_win (op_state op))) \<longrightarrow> closed_windows I B [r])"

lemma win_inv_mono: "win_inv I B wml wend s \<Longrightarrow> wml \<le> wm \<Longrightarrow> win_inv I B wm wend s"
  by (auto simp: win_inv_def frontier_def)

lemma win_inv_accept:
  assumes "win_inv I B wml wend s" "wml \<le> t_Timestamp t" "t_Timestamp t \<le> B" "wg_interval g = I"
  shows "win_inv I B wml wend (s\<lparr>ev_gen := g, ev_saved_wm := x,
     ev_win := (ev_win s)\<lparr>wn_inputs := wn_inputs (ev_win s) @ [t], wn_saved_inputs := y\<rparr>\<rparr>)"
  using assms by (auto simp: win_inv_def frontier_def)

lemma take_item_inv:
  assumes "w_Type w = TUMBLING_WINDOW" "0 < I" "0 \<le> B" "B + I \<le> max_i64" "op_inv I B o1" "op_chan o1 \<noteq> []"
  shows "\<exists>o2. take_item cap w o1 = Some o2 \<and> op_inv I B o2"
proof -
  obtain i rest where c: "op_chan o1 = i # rest" using assms(6) by (cases "op_chan o1") auto
  let ?s = "op_state o1"
  obtain wml where inv: "0 \<le> wml" "win_inv I B wml (ev_next ?s) ?s" "sorted_wrt (<) (wml # watermarks (i # rest))"
    "\<forall>wm \<in> set (wml # watermarks (i # rest)). wm \<le> wg_lastWatermarkTs (ev_gen ?s)"
    "\<forall>t. ITuple t \<in> set (i # rest) \<longrightarrow> 0 \<le> t_Timestamp t \<and> t_Timestamp t \<le> B"
    "gen_inv B (ev_gen ?s)" "\<forall>r. DWindow r \<in> set (wn_out (ev_win ?s)) \<longrightarrow> closed_windows I B [r]"
    using assms(5) c unfolding op_inv_def by auto
  show ?thesis
  proof (cases i)
    case (ITuple t)
    obtain ok g' wm where tr: "wg_track (t_Emitter t) (t_Timestamp t) (ev_gen ?s) = (ok, g', wm)"
      by (metis prod_cases3)
    have b: "0 \<le> t_Timestamp t" "t_Timestamp t \<le> B" "B \<le> max_i64"
      using inv(5) ITuple assms(2,4) by auto
    note ti = wg_track_inv [OF inv(6) b tr]
    let ?s2 = "fst (ev_tuple_step t ?s)"
    have s2: "ev_gen ?s2 = g'" "ev_next ?s2 = ev_next ?s" "wn_out (ev_win ?s2) = wn_out (ev_win ?s)"
      "snd (ev_tuple_step t ?s) = wm"
      by (simp_all add: ev_tuple_step_def tr save_ev_inputs_def save_inputs_def)
    have wi: "win_inv I B wml (ev_next ?s2) ?s2"
    proof (cases ok)
      case True
      then have "wml \<le> t_Timestamp t" using ti inv(4) by force
      moreover have "wg_interval g' = I" using ti inv(2) by (auto simp: win_inv_def)
      ultimately show ?thesis
        using win_inv_accept [OF inv(2) _ b(2)] True by (simp add: ev_tuple_step_def tr save_ev_inputs_def save_inputs_def)
    next
      case False
      then show ?thesis
        using inv(2) ti by (simp add: ev_tuple_step_def tr save_ev_inputs_def save_inputs_def win_inv_def)
    qed
    define o2 where "o2 = \<lparr>op_chan = (case wm of None \<Rightarrow> rest | Some x \<Rightarrow> if length rest < cap then rest @ [IWatermark x] else rest),
      op_state = ?s2\<rparr>"
    have "take_item cap w o1 = Some o2"
      using s2(4) by (cases "ev_tuple_step t ?s") (simp add: take_item_def c ITuple o2_def split: option.splits)
    moreover have "op_inv I B o2"
      unfolding op_inv_def
    proof (intro conjI exI [of _ wml])
      show "sorted_wrt (<) (wml # watermarks (op_chan o2))"
        using inv(3,4) ti ITuple by (auto simp: o2_def sorted_wrt_append split: option.splits)
      show "\<forall>x \<in> set (wml # watermarks (op_chan o2)). x \<le> wg_lastWatermarkTs (ev_gen (op_state o2))"
        using inv(4) ti ITuple by (auto simp: o2_def s2 split: option.splits)
      show "\<forall>t. ITuple t \<in> set (op_chan o2) \<longrightarrow> 0 \<le> t_Timestamp t \<and> t_Timestamp t \<le> B"
        using inv(5) by (auto simp: o2_def split: option.splits if_splits)
    qed (use inv wi ti in \<open>simp_all add: o2_def s2\<close>)
    ultimately show ?thesis by blast
  next
    case (IWatermark wm)
    have wmB: "wml < wm" "wm \<le> B"
      using inv(3,4,6) IWatermark by (auto simp: gen_inv_def)
    obtain s' ws where st: "watermark_step w wm ?s = Some s'" "win_inv I B wm (ev_next s') s'" "ev_gen s' = ev_gen ?s"
      "wn_out (ev_win s') = wn_out (ev_win ?s) @ map DWindow ws" "closed_windows I wm ws"
      using watermark_step_tumbling [OF assms(1,2,4) wmB(2) win_inv_mono [OF inv(2)]] wmB(1) by auto
    have "closed_windows I B [r]" if "r \<in> set ws" for r
      using st(5) that wmB(2) unfolding closed_windows_def by force
    then have out: "\<forall>r. DWindow r \<in> set (wn_out (ev_win s')) \<longrightarrow> closed_windows I B [r]"
      using inv(7) st(4) by auto
    have "op_inv I B \<lparr>op_chan = rest, op_state = s'\<rparr>"
      unfolding op_inv_def
      using inv st out IWatermark wmB by (intro conjI exI [of _ wm]) auto
    then show ?thesis
      using st(1) by (simp add: take_item_def c IWatermark)
  next
    case (IError e)
    have "op_inv I B \<lparr>op_chan = rest, op_state = ev_broadcast (DErr e) ?s\<rparr>"
      unfolding op_inv_def
      using inv IError by (intro conjI exI [of _ wml]) (auto simp: ev_broadcast_def win_inv_def)
    then show ?thesis
      by (simp add: take_item_def c IError)
  next
    case IOther
    have "op_inv I B \<lparr>op_chan = rest, op_state = ev_broadcast (DErr (InvalidInput ''run Window error'')) ?s\<rparr>"
      unfolding op_inv_def
      using inv IOther by (intro conjI exI [of _ wml]) (auto simp: ev_broadcast_def win_inv_def)
    then show ?thesis
      by (simp add: take_item_def c IOther)
  qed
qed

text \<open>What the upstream node sends: no watermarks, timestamps up to a bound.\<close>

definition admissible :: "int \<Rightarrow> item \<Rightarrow> bool" where
  "admissible B i = (case i of ITuple t \<Rightarrow> 0 \<le> t_Timestamp t \<and> t_Timestamp t \<le> B | IWatermark _ \<Rightarrow> False | _ \<Rightarrow> True)"

lemma op_inv_init:
  assumes "NewWatermarkGenerator w l topics = Inr g" "w_Type w = TUMBLING_WINDOW" "w_Length w = I" "0 < I" "0 \<le> B"
    "topics \<noteq> []" "0 \<le> l" "l \<le> max_i64"
  shows "op_inv I B (ev_init g now)"
  using assms unfolding op_inv_def
  by (intro conjI exI [of _ 0]) (auto simp: ev_init_def restore_state_def NewWatermarkGenerator_def win_inv_def frontier_def gen_inv_def
      intro: order_trans [OF _ alignup_props(1)])

lemma ev_reach_inv:
  assumes "ev_reach cap w (admissible B) g now o1" "NewWatermarkGenerator w l topics = Inr g" "w_Type w = TUMBLING_WINDOW"
    "w_Length w = I" "0 < I" "0 \<le> B" "B + I \<le> max_i64" "topics \<noteq> []" "0 \<le> l" "l \<le> max_i64"
  shows "op_inv I B o1"
  using assms(1)
proof (induction rule: ev_reach.induct)
  case Init
  then show ?case
    using op_inv_init assms by blast
next
  case (Step o1 o2)
  from Step.hyps(2) show ?case
  proof cases
    case (Arrive i)
    then have "watermarks [i] = []" "\<And>t. i = ITuple t \<Longrightarrow> 0 \<le> t_Timestamp t \<and> t_Timestamp t \<le> B"
      by (auto simp: admissible_def split: item.splits)
    then show ?thesis
      using Step.IH Arrive(1) unfolding op_inv_def by auto
  next
    case Take
    then show ?thesis
      using take_item_inv [OF assms(3,5,6,7) Step.IH Take(1), of cap] by auto
  qed
qed


section \<open>Properties\<close>



definition tumbling_10 :: WindowConfig where
  "tumbling_10 = \<lparr>w_Type = TUMBLING_WINDOW, w_Length = 10, w_Interval = 0\<rparr>"

definition gen_demo :: wm_gen where
  "gen_demo = \<lparr>wg_inputTopics = [''demo''], wg_topicToTs = [], wg_lateTolerance = 0, wg_interval = 10,
     wg_lastWatermarkTs = 0\<rparr>"

text \<open>A run: every tuple is sent and processed, then the watermark it may have caused.\<close>

definition ev_feed :: "Tuple list \<Rightarrow> ev_op option" where
  "ev_feed ts = fold (\<lambda>t op. case op of None \<Rightarrow> None | Some o1 \<Rightarrow>
     (case take_item 8 tumbling_10 (o1\<lparr>op_chan := op_chan o1 @ [ITuple t]\<rparr>) of
        None \<Rightarrow> None | Some o2 \<Rightarrow> take_item 8 tumbling_10 o2)) ts (Some (ev_init gen_demo 0))"


text \<open> The exception above is real: an event with the timestamp of the last watermark is not late
  for the generator, so a second event at time 10, arriving after the window that ends at 10 was
  sent, is part of the window from 10 to 20, while the first one was part of the window from 0 to 10.
\<close>

theorem boundary_event_in_next_window:
  "map_option (\<lambda>op. wn_out (ev_win (op_state op))) (ev_feed [at_time 10, at_time 10, at_time 20]) =
   Some [DWindow \<lparr>wts_Content = [\<lparr>wt_Emitter = ''demo'', wt_Tuples = [at_time 10]\<rparr>],
           wts_Range = Some \<lparr>WindowStart = 0, WindowEnd = 10\<rparr>\<rparr>,
         DWindow \<lparr>wts_Content = [\<lparr>wt_Emitter = ''demo'', wt_Tuples = [at_time 10, at_time 20]\<rparr>],
           wts_Range = Some \<lparr>WindowStart = 10, WindowEnd = 20\<rparr>\<rparr>]"
  by code_simp


end
