(* ===== verification/StateStore.thy ===== *)
theory StateStore
  imports Prelude
begin

text \<open>
  The checkpoint storage: the time-series key-value table of
  \<^verbatim>\<open>internal/pkg/tskv/sqlite.go\<close>, the store of \<^verbatim>\<open>internal/topo/state\<close>
  built on it, and the operator state of \<^verbatim>\<open>internal/topo/context/default.go\<close>.

  The state of an operator is a map from strings to values of a type \<open>'v\<close>; a checkpoint maps
  operator names to states. A nil map reads as the empty one. Whether \<^verbatim>\<open>gob\<close> can encode
  a checkpoint is the parameter \<open>enc\<close>. An \<open>Inl\<close> is a returned error.
\<close>

type_synonym 'v opstate = "(string \<times> 'v) list"
type_synonym 'v snapshot = "(string \<times> 'v opstate) list"

section \<open>The table (tskv)\<close>

record 'a Tskv =
  tk_rows :: "(int \<times> 'a) list"
  tk_last :: int

text \<open>\<^verbatim>\<open>NewSqlite\<close> on the rows of an existing table: the last key, 0 if there is none.\<close>

definition tskv_last :: "(int \<times> 'a) list \<Rightarrow> int" where
  "tskv_last rows = (if rows = [] then 0 else Max (set (map fst rows)))"

definition NewSqlite :: "(int \<times> 'a) list \<Rightarrow> 'a Tskv" where
  "NewSqlite rows = \<lparr>tk_rows = rows, tk_last = tskv_last rows\<rparr>"

definition tskv_Set :: "('a \<Rightarrow> bool) \<Rightarrow> int \<Rightarrow> 'a \<Rightarrow> 'a Tskv \<Rightarrow> string + bool \<times> 'a Tskv" where
  "tskv_Set enc k v m =
     (if k > tk_last m then
        (if \<not> enc v then Inl ''gob encode error''
         else Inr (True, m\<lparr>tk_rows := tk_rows m @ [(k, v)], tk_last := k\<rparr>))
      else Inr (False, m))"

definition tskv_Get :: "int \<Rightarrow> 'a Tskv \<Rightarrow> 'a option" where
  "tskv_Get k m = map_of (tk_rows m) k"

definition tskv_Last :: "'a Tskv \<Rightarrow> int \<times> 'a option" where
  "tskv_Last m = (tk_last m, tskv_Get (tk_last m) m)"

definition tskv_Delete :: "int \<Rightarrow> 'a Tskv \<Rightarrow> 'a Tskv" where
  "tskv_Delete k m = m\<lparr>tk_rows := filter (\<lambda>(x, v). x \<noteq> k) (tk_rows m)\<rparr>"

definition tskv_DeleteBefore :: "int \<Rightarrow> 'a Tskv \<Rightarrow> 'a Tskv" where
  "tskv_DeleteBefore k m = m\<lparr>tk_rows := filter (\<lambda>(x, v). \<not> x < k) (tk_rows m)\<rparr>"

text \<open>
  What a client relies on, as an interface: a value set under a new largest key is the last one, for
  the open table and for one opened later on the same rows, and deleting older keys keeps it.
\<close>

locale ts_table =
  fixes wf :: "'t \<Rightarrow> bool"
    and lastKey :: "'t \<Rightarrow> int"
    and getKey :: "int \<Rightarrow> 't \<Rightarrow> 'a option"
    and setKey :: "int \<Rightarrow> 'a \<Rightarrow> 't \<Rightarrow> 't option"
    and deleteBefore :: "int \<Rightarrow> 't \<Rightarrow> 't"
    and reopen :: "'t \<Rightarrow> 't"
    and storable :: "'a \<Rightarrow> bool"
  assumes set_new: "wf t \<Longrightarrow> lastKey t < k \<Longrightarrow> storable v \<Longrightarrow>
      \<exists>t'. setKey k v t = Some t' \<and> wf t' \<and> lastKey t' = k \<and> getKey k t' = Some v"
    and set_old: "wf t \<Longrightarrow> k \<le> lastKey t \<Longrightarrow> setKey k v t = Some t"
    and delete_keeps: "wf t \<Longrightarrow> k \<le> lastKey t \<Longrightarrow>
      wf (deleteBefore k t) \<and> lastKey (deleteBefore k t) = lastKey t \<and>
      getKey (lastKey t) (deleteBefore k t) = getKey (lastKey t) t"
    and reopen_keeps: "wf t \<Longrightarrow> wf (reopen t) \<and> lastKey (reopen t) = lastKey t \<and>
      getKey (lastKey t) (reopen t) = getKey (lastKey t) t"
begin

lemma durable:
  assumes "wf t" "lastKey t < k" "storable v"
  shows "\<exists>t'. setKey k v t = Some t' \<and> getKey (lastKey (reopen (deleteBefore k t'))) (reopen (deleteBefore k t')) = Some v"
proof -
  from set_new [OF assms] obtain t' where t': "setKey k v t = Some t'" "wf t'" "lastKey t' = k" "getKey k t' = Some v"
    by blast
  have "wf (deleteBefore k t')" "lastKey (deleteBefore k t') = k" "getKey k (deleteBefore k t') = Some v"
    using delete_keeps [OF t'(2), of k] t' by auto
  with reopen_keeps [of "deleteBefore k t'"] t'(1) show ?thesis
    by auto
qed

end

definition tskv_wf :: "'a Tskv \<Rightarrow> bool" where
  "tskv_wf m \<longleftrightarrow> distinct (map fst (tk_rows m)) \<and> (\<forall>k \<in> fst ` set (tk_rows m). 0 < k \<and> k \<le> tk_last m) \<and>
     (if tk_rows m = [] then tk_last m = 0 else tk_last m \<in> fst ` set (tk_rows m))"

definition tskv_put :: "('a \<Rightarrow> bool) \<Rightarrow> int \<Rightarrow> 'a \<Rightarrow> 'a Tskv \<Rightarrow> 'a Tskv option" where
  "tskv_put enc k v m = (case tskv_Set enc k v m of Inl _ \<Rightarrow> None | Inr (_, m') \<Rightarrow> Some m')"

lemma tskv_last_wf: "tskv_wf m \<Longrightarrow> tskv_last (tk_rows m) = tk_last m"
  by (auto simp: tskv_wf_def tskv_last_def image_iff intro!: Max_eqI)

lemma map_of_filter_ge: "\<not> x < k \<Longrightarrow> map_of (filter (\<lambda>(x, v). \<not> x < k) rows) x = map_of rows x" for x k :: int
  by (induction rows) auto

lemma tskv_wf_delete: "tskv_wf m \<Longrightarrow> k \<le> tk_last m \<Longrightarrow> tskv_wf (tskv_DeleteBefore k m)"
  by (force simp: tskv_wf_def tskv_DeleteBefore_def distinct_map_filter filter_empty_conv split: if_splits)

interpretation sq: ts_table tskv_wf tk_last tskv_Get "tskv_put enc" tskv_DeleteBefore
  "\<lambda>m. NewSqlite (tk_rows m)" enc for enc :: "'a \<Rightarrow> bool"
proof
  fix t :: "'a Tskv" and k :: int and v :: 'a
  show "\<exists>t'. tskv_put enc k v t = Some t' \<and> tskv_wf t' \<and> tk_last t' = k \<and> tskv_Get k t' = Some v"
    if wf: "tskv_wf t" "tk_last t < k" "enc v"
  proof -
    have "0 \<le> tk_last t"
      using wf(1) by (fastforce simp: tskv_wf_def split: if_splits)
    moreover have "k \<notin> fst ` set (tk_rows t)"
      using wf(1,2) by (auto simp: tskv_wf_def)
    moreover have "tskv_put enc k v t = Some (t\<lparr>tk_rows := tk_rows t @ [(k, v)], tk_last := k\<rparr>)"
      using wf(2,3) by (simp add: tskv_put_def tskv_Set_def)
    ultimately show ?thesis
      using wf(1,2) by (fastforce simp: tskv_Get_def tskv_wf_def map_add_def map_of_eq_None_iff split: option.splits)
  qed
  show "tskv_put enc k v t = Some t" if "tskv_wf t" "k \<le> tk_last t"
    using that by (simp add: tskv_put_def tskv_Set_def)
  show "tskv_wf (tskv_DeleteBefore k t) \<and> tk_last (tskv_DeleteBefore k t) = tk_last t \<and>
      tskv_Get (tk_last t) (tskv_DeleteBefore k t) = tskv_Get (tk_last t) t" if "tskv_wf t" "k \<le> tk_last t"
    using tskv_wf_delete [OF that] that(2) by (simp add: tskv_DeleteBefore_def tskv_Get_def map_of_filter_ge)
  show "tskv_wf (NewSqlite (tk_rows t)) \<and> tk_last (NewSqlite (tk_rows t)) = tk_last t \<and>
      tskv_Get (tk_last t) (NewSqlite (tk_rows t)) = tskv_Get (tk_last t) t" if "tskv_wf t"
    using that tskv_last_wf [OF that] by (simp add: NewSqlite_def tskv_Get_def tskv_wf_def)
qed

section \<open>The store (kv\_store.go, memory\_store.go)\<close>

record 'v KVStore =
  kv_db :: "'v snapshot Tskv"
  kv_mapStore :: "(int \<times> 'v snapshot) list"
  kv_checkpoints :: "int list"
  kv_max :: nat

definition kv_restore :: "'v KVStore \<Rightarrow> 'v KVStore" where
  "kv_restore s = (case tskv_Last (kv_db s) of (k, m) \<Rightarrow>
     s\<lparr>kv_checkpoints := [k],
       kv_mapStore := AList.update k (case m of Some x \<Rightarrow> x | None \<Rightarrow> []) (kv_mapStore s)\<rparr>)"

definition getKVStore :: "(int \<times> 'v snapshot) list \<Rightarrow> 'v KVStore" where
  "getKVStore rows = kv_restore \<lparr>kv_db = NewSqlite rows, kv_mapStore = [], kv_checkpoints = [], kv_max = 3\<rparr>"

definition kv_SaveState :: "int \<Rightarrow> string \<Rightarrow> 'v opstate \<Rightarrow> 'v KVStore \<Rightarrow> 'v KVStore" where
  "kv_SaveState checkpointId opId st s =
     (let cstore = (case map_of (kv_mapStore s) checkpointId of None \<Rightarrow> [] | Some c \<Rightarrow> c)
      in s\<lparr>kv_mapStore := AList.update checkpointId (AList.update opId st cstore) (kv_mapStore s)\<rparr>)"

text \<open>The loop that drops the oldest checkpoints.\<close>

fun kv_trim :: "nat \<Rightarrow> int list \<Rightarrow> (int \<times> 'v snapshot) list \<Rightarrow> int list \<times> (int \<times> 'v snapshot) list" where
  "kv_trim mx [] m = ([], m)"
| "kv_trim mx (cp # cps) m =
     (if Suc (length cps) > mx then kv_trim mx cps (AList.delete cp m) else (cp # cps, m))"

text \<open>A storage error is returned after the checkpoint has been recorded in memory.\<close>

definition kv_SaveCheckpoint ::
  "('v snapshot \<Rightarrow> bool) \<Rightarrow> int \<Rightarrow> 'v KVStore \<Rightarrow> string option \<times> 'v KVStore" where
  "kv_SaveCheckpoint enc checkpointId s = (case map_of (kv_mapStore s) checkpointId of
     None \<Rightarrow> (Some ''store for checkpoint not found'', s)
   | Some m \<Rightarrow>
       (let (cps, ms) = kv_trim (kv_max s) (kv_checkpoints s @ [checkpointId]) (kv_mapStore s);
            s1 = s\<lparr>kv_checkpoints := cps, kv_mapStore := ms\<rparr>
        in case tskv_Set enc checkpointId m (kv_db s1) of
             Inl e \<Rightarrow> (Some e, s1)
           | Inr (_, db) \<Rightarrow> (None, s1\<lparr>kv_db := db\<rparr>)))"

definition kv_GetOpState :: "string \<Rightarrow> 'v KVStore \<Rightarrow> string + 'v opstate" where
  "kv_GetOpState opId s =
     (if kv_checkpoints s \<noteq> [] then
        (case map_of (kv_mapStore s) (last (kv_checkpoints s)) of
           None \<Rightarrow> Inl ''store for checkpoint not found''
         | Some cstore \<Rightarrow> Inr (case map_of cstore opId of Some st \<Rightarrow> st | None \<Rightarrow> []))
      else Inr [])"

text \<open>\<open>None\<close> is the access to the first of no checkpoints.\<close>

definition kv_Clean :: "'v KVStore \<Rightarrow> 'v KVStore option" where
  "kv_Clean s = (case kv_checkpoints s of [] \<Rightarrow> None
   | cp # _ \<Rightarrow> Some (s\<lparr>kv_db := tskv_DeleteBefore cp (kv_db s)\<rparr>))"

text \<open>The memory store keeps nothing.\<close>

definition mem_GetOpState :: "string \<Rightarrow> string + 'v opstate" where
  "mem_GetOpState opId = Inr []"

section \<open>Invariant of the store\<close>

definition kv_latest :: "'v KVStore \<Rightarrow> 'v snapshot" where
  "kv_latest s = (case map_of (kv_mapStore s) (last (kv_checkpoints s)) of Some m \<Rightarrow> m | None \<Rightarrow> [])"

definition kv_inv :: "'v KVStore \<Rightarrow> bool" where
  "kv_inv s \<longleftrightarrow> tskv_wf (kv_db s) \<and> kv_checkpoints s \<noteq> [] \<and> sorted_wrt (<) (kv_checkpoints s) \<and>
     length (kv_checkpoints s) \<le> kv_max s \<and> 0 < kv_max s \<and>
     (\<forall>c \<in> set (kv_checkpoints s). map_of (kv_mapStore s) c \<noteq> None) \<and>
     tk_last (kv_db s) = last (kv_checkpoints s) \<and>
     (case tskv_Get (tk_last (kv_db s)) (kv_db s) of Some m \<Rightarrow> m | None \<Rightarrow> []) = kv_latest s"

lemma kv_inv_restore:
  assumes "tskv_wf (NewSqlite rows)"
  shows "kv_inv (getKVStore rows)"
  using assms by (simp add: kv_inv_def getKVStore_def kv_restore_def tskv_Last_def kv_latest_def NewSqlite_def)

lemma kv_trim_spec:
  assumes "sorted_wrt (<) cps" "\<forall>c \<in> set cps. map_of m c \<noteq> None" "cps \<noteq> []" "0 < mx"
  shows "case kv_trim mx cps m of (cps', m') \<Rightarrow>
    cps' = lastn mx cps \<and> (\<forall>c \<in> set cps'. map_of m' c = map_of m c)"
  using assms
proof (induction mx cps m rule: kv_trim.induct)
  case (2 mx cp cps m)
  show ?case
  proof (cases "Suc (length cps) > mx")
    case True
    then have ne: "cps \<noteq> []"
      using 2 by auto
    have "\<forall>c \<in> set cps. map_of (AList.delete cp m) c = map_of m c"
      using 2(2) by auto
    moreover have "lastn mx (cp # cps) = lastn mx cps"
      using True by (simp add: lastn_def Suc_diff_le)
    ultimately show ?thesis
      using 2 True ne by (auto simp: lastn_def dest: in_set_dropD split: prod.splits)
  qed (simp add: lastn_all)
qed simp

lemma sorted_le_last: "sorted_wrt (<) xs \<Longrightarrow> x \<in> set xs \<Longrightarrow> x \<le> last xs" for xs :: "int list"
  by (induction xs rule: rev_induct) (auto simp: sorted_wrt_append)

lemma last_lastn: "0 < n \<Longrightarrow> xs \<noteq> [] \<Longrightarrow> last (lastn n xs) = last xs"
  by (simp add: lastn_def last_drop)

lemma kv_SaveCheckpoint_inv:
  assumes "kv_inv s" "last (kv_checkpoints s) < c" "map_of (kv_mapStore s) c = Some m" "enc m"
  shows "\<exists>s'. kv_SaveCheckpoint enc c s = (None, s') \<and> kv_inv s' \<and> kv_latest s' = m \<and>
    kv_checkpoints s' = lastn (kv_max s) (kv_checkpoints s @ [c])"
proof -
  have inv: "tskv_wf (kv_db s)" "kv_checkpoints s \<noteq> []" "sorted_wrt (<) (kv_checkpoints s)" "0 < kv_max s"
    "\<forall>c \<in> set (kv_checkpoints s). map_of (kv_mapStore s) c \<noteq> None" "tk_last (kv_db s) = last (kv_checkpoints s)"
    using assms(1) by (simp_all add: kv_inv_def)
  have srt: "sorted_wrt (<) (kv_checkpoints s @ [c])"
    using inv(3) assms(2) sorted_le_last [OF inv(3)] by (fastforce simp: sorted_wrt_append)
  obtain cps ms where t: "kv_trim (kv_max s) (kv_checkpoints s @ [c]) (kv_mapStore s) = (cps, ms)"
    by force
  have tr: "cps = lastn (kv_max s) (kv_checkpoints s @ [c])" "\<forall>c \<in> set cps. map_of ms c = map_of (kv_mapStore s) c"
    using kv_trim_spec [OF srt, of "kv_mapStore s" "kv_max s"] inv assms(3) t by auto
  have l: "last cps = c" "cps \<noteq> []"
    using inv(4) by (simp_all add: tr(1) last_lastn) (simp add: lastn_def)
  from sq.set_new [OF inv(1), of c enc m] assms(2,4) inv(6) obtain db where
    db: "tskv_put enc c m (kv_db s) = Some db" "tskv_wf db" "tk_last db = c" "tskv_Get c db = Some m"
    by auto
  let ?s = "s\<lparr>kv_checkpoints := cps, kv_mapStore := ms, kv_db := db\<rparr>"
  have "kv_SaveCheckpoint enc c s = (None, ?s)"
    using db(1) by (auto simp: kv_SaveCheckpoint_def assms(3) t tskv_put_def split: sum.splits prod.splits)
  moreover have latest: "kv_latest ?s = m"
    using tr(2) l assms(3) last_in_set by (fastforce simp: kv_latest_def)
  moreover have "kv_inv ?s"
    unfolding kv_inv_def
  proof (intro conjI)
    show "sorted_wrt (<) (kv_checkpoints ?s)"
      using sorted_wrt_drop [OF srt, of "length (kv_checkpoints s @ [c]) - kv_max s"] by (simp add: tr(1) lastn_def)
    show "\<forall>c \<in> set (kv_checkpoints ?s). map_of (kv_mapStore ?s) c \<noteq> None"
      using tr inv(5) assms(3) by (fastforce simp: lastn_def dest: in_set_dropD)
  qed (use db l latest inv(4) in \<open>simp_all add: tr(1)\<close>)
  ultimately show ?thesis
    using tr(1) by (intro exI [of _ ?s]) simp
qed

lemma kv_SaveState_inv:
  "kv_inv s \<Longrightarrow> last (kv_checkpoints s) < c \<Longrightarrow> kv_inv (kv_SaveState c op st s)"
  by (auto simp: kv_inv_def kv_SaveState_def kv_latest_def Let_def)

lemma kv_Clean_inv:
  assumes "kv_inv s"
  shows "\<exists>s'. kv_Clean s = Some s' \<and> kv_inv s'"
proof -
  obtain cp cps where c: "kv_checkpoints s = cp # cps"
    using assms by (cases "kv_checkpoints s") (auto simp: kv_inv_def)
  have "cp \<le> last (kv_checkpoints s)"
    using assms c by (intro sorted_le_last) (auto simp: kv_inv_def)
  then have "cp \<le> tk_last (kv_db s)"
    using assms by (simp add: kv_inv_def)
  from sq.delete_keeps [OF _ this] assms show ?thesis
    by (auto simp: kv_Clean_def c kv_inv_def kv_latest_def)
qed

lemma kv_GetOpState_latest:
  "kv_inv s \<Longrightarrow> kv_GetOpState op s = Inr (case map_of (kv_latest s) op of Some st \<Rightarrow> st | None \<Rightarrow> [])"
  by (auto simp: kv_inv_def kv_GetOpState_def kv_latest_def dest: last_in_set split: option.splits)

lemma kv_latest_reopen:
  assumes "kv_inv s"
  shows "kv_inv (getKVStore (tk_rows (kv_db s)))" "kv_latest (getKVStore (tk_rows (kv_db s))) = kv_latest s"
proof -
  note r = sq.reopen_keeps [of "kv_db s"]
  show "kv_inv (getKVStore (tk_rows (kv_db s)))"
    using assms r by (intro kv_inv_restore) (simp add: kv_inv_def)
  show "kv_latest (getKVStore (tk_rows (kv_db s))) = kv_latest s"
    using assms r by (auto simp: kv_inv_def kv_latest_def getKVStore_def kv_restore_def tskv_Last_def)
qed

section \<open>Durability\<close>

text \<open>
  (C9) Saving a checkpoint is durable. Let a store satisfy its invariant (the one every open store has:
  \<open>kv_inv_restore\<close>, kept by every operation), let \<open>c\<close> be newer than its last checkpoint and let
  operators have saved the states \<open>m\<close> for it. If \<open>m\<close> can be encoded, \<^verbatim>\<open>SaveCheckpoint\<close> succeeds, the
  store keeps the newest \<open>kv_max\<close> checkpoints and its invariant, and \<^verbatim>\<open>GetOpState\<close> returns for every operator the
  state saved in \<open>m\<close> --- from this store, from the store after \<^verbatim>\<open>Clean\<close> has deleted the older rows, and
  from a store that a restarted process opens on the rows that are left.
\<close>

theorem SaveCheckpoint_durable:
  assumes "kv_inv s" "last (kv_checkpoints s) < c" "map_of (kv_mapStore s) c = Some m" "enc m"
  shows "\<exists>s1 s2. kv_SaveCheckpoint enc c s = (None, s1) \<and> kv_inv s1 \<and>
    kv_checkpoints s1 = lastn (kv_max s) (kv_checkpoints s @ [c]) \<and>
    kv_Clean s1 = Some s2 \<and> kv_inv s2 \<and>
    (\<forall>x. x = s1 \<or> x = s2 \<or> x = getKVStore (tk_rows (kv_db s2)) \<longrightarrow>
      (\<forall>op. kv_GetOpState op x = Inr (case map_of m op of Some st \<Rightarrow> st | None \<Rightarrow> [])))"
proof -
  obtain s1 where s1: "kv_SaveCheckpoint enc c s = (None, s1)" "kv_inv s1" "kv_latest s1 = m"
    "kv_checkpoints s1 = lastn (kv_max s) (kv_checkpoints s @ [c])"
    using kv_SaveCheckpoint_inv [of s c m enc] assms by blast
  obtain s2 where s2: "kv_Clean s1 = Some s2" "kv_inv s2" "kv_latest s2 = kv_latest s1"
    using kv_Clean_inv [OF s1(2)] by (auto simp: kv_Clean_def kv_latest_def split: list.splits)
  note re = kv_latest_reopen [OF s2(2)]
  show ?thesis
    using s1 s2 re by (auto simp: kv_GetOpState_latest)
qed

text \<open>A fresh store, two operators, one checkpoint.\<close>

theorem SaveCheckpoint_durable_witness:
  "\<exists>s1 s2. kv_SaveCheckpoint (\<lambda>_. True) 7 (kv_SaveState 7 ''b'' [(''n'', 2 :: int)] (kv_SaveState 7 ''a'' [(''n'', 1)] (getKVStore []))) = (None, s1) \<and>
    kv_Clean s1 = Some s2 \<and> kv_GetOpState ''a'' (getKVStore (tk_rows (kv_db s2))) = Inr [(''n'', 1)]"
proof -
  let ?m = "[(''a'', [(''n'', 1 :: int)]), (''b'', [(''n'', 2)])]"
  let ?s = "kv_SaveState 7 ''b'' [(''n'', 2 :: int)] (kv_SaveState 7 ''a'' [(''n'', 1)] (getKVStore []))"
  have m: "map_of (kv_mapStore ?s) 7 = Some ?m"
    by (simp add: kv_SaveState_def getKVStore_def kv_restore_def tskv_Last_def NewSqlite_def tskv_last_def tskv_Get_def)
  have i: "kv_inv ?s" "last (kv_checkpoints ?s) < 7"
    by (simp_all add: kv_inv_def kv_latest_def tskv_wf_def kv_SaveState_def getKVStore_def kv_restore_def
        tskv_Last_def NewSqlite_def tskv_last_def tskv_Get_def)
  obtain s1 s2 where "kv_SaveCheckpoint (\<lambda>_. True) 7 ?s = (None, s1)" "kv_Clean s1 = Some s2"
    "kv_GetOpState ''a'' (getKVStore (tk_rows (kv_db s2))) = Inr (case map_of ?m ''a'' of Some st \<Rightarrow> st | None \<Rightarrow> [])"
    using SaveCheckpoint_durable [of ?s 7 ?m "\<lambda>_. True", OF i m] by blast
  then show ?thesis
    by auto
qed

end
