(* ===== verification/Checkpoints.thy ===== *)
theory Checkpoints
  imports StateStore
begin

text \<open>
  The checkpoint protocol of \<^verbatim>\<open>internal/topo/checkpoint\<close>: the barrier handlers in front of
  every operator and sink (\<^verbatim>\<open>barrier_handler.go\<close>), the responder that snapshots a task
  (\<^verbatim>\<open>responder.go\<close>, with the operator state of \<^verbatim>\<open>internal/topo/context/default.go\<close>),
  and the coordinator that counts the acknowledgements (\<^verbatim>\<open>coordinator.go\<close>).

  Go's interface \<^verbatim>\<open>Responder\<close> is a state of type \<open>'r\<close> with the function
  \<open>trig\<close> that \<^verbatim>\<open>TriggerCheckpoint\<close> is; its first component tells whether nil was
  returned. The interface \<^verbatim>\<open>BarrierHandler\<close> is the locale \<open>barrier_handler\<close>, interpreted on both handlers.
\<close>

section \<open>Messages (defs.go)\<close>

record Barrier =
  CheckpointId :: int
  OpId :: string

datatype 'd data = DBarrier Barrier | DItem 'd

record 'd BufferOrEvent =
  Data :: "'d data"
  Channel :: string

datatype msg_kind = STOP | ACK | DEC

record Signal = Barrier +
  sMessage :: msg_kind

datatype Qos = AtMostOnce | AtLeastOnce | ExactlyOnce

section \<open>Barrier tracker\<close>

record 'r BarrierTracker =
  bt_responder :: 'r
  bt_inputCount :: int
  bt_pendingCheckpoints :: "(int \<times> int) list"

definition NewBarrierTracker :: "'r \<Rightarrow> int \<Rightarrow> 'r BarrierTracker" where
  "NewBarrierTracker re inputCount = \<lparr>bt_responder = re, bt_inputCount = inputCount, bt_pendingCheckpoints = []\<rparr>"

definition bt_processBarrier ::
  "(int \<Rightarrow> 'r \<Rightarrow> bool \<times> 'r) \<Rightarrow> Barrier \<Rightarrow> 'r BarrierTracker \<Rightarrow> 'r BarrierTracker" where
  "bt_processBarrier trig b h =
     (let cid = CheckpointId b in
      if bt_inputCount h = 1 then
        (case trig cid (bt_responder h) of (_, r) \<Rightarrow> h\<lparr>bt_responder := r\<rparr>)
      else (case map_of (bt_pendingCheckpoints h) cid of
        Some c0 \<Rightarrow>
          (let c = i64 (c0 + 1) in
           if c = bt_inputCount h then
             (case trig cid (bt_responder h) of (ok, r) \<Rightarrow>
                if \<not> ok then h\<lparr>bt_responder := r\<rparr>
                else h\<lparr>bt_responder := r,
                       bt_pendingCheckpoints :=
                         filter (\<lambda>(i, n). \<not> i < cid) (AList.delete cid (bt_pendingCheckpoints h))\<rparr>)
           else h\<lparr>bt_pendingCheckpoints := AList.update cid c (bt_pendingCheckpoints h)\<rparr>)
      | None \<Rightarrow> h\<lparr>bt_pendingCheckpoints := AList.update cid 1 (bt_pendingCheckpoints h)\<rparr>))"

definition bt_Process ::
  "(int \<Rightarrow> 'r \<Rightarrow> bool \<times> 'r) \<Rightarrow> 'd BufferOrEvent \<Rightarrow> 'r BarrierTracker \<Rightarrow> bool \<times> 'r BarrierTracker" where
  "bt_Process trig d h = (case Data d of
     DBarrier b \<Rightarrow> (True, bt_processBarrier trig b h)
   | DItem _ \<Rightarrow> (False, h))"

section \<open>Barrier aligner\<close>

text \<open>
  \<open>ba_output\<close> tells whether the channel \<^verbatim>\<open>output\<close> is set (a send on the nil channel blocks for ever);
  \<open>ba_released\<close> holds the batches given to the goroutines that send to it, oldest first.
\<close>

record ('r, 'd) BarrierAligner =
  ba_responder :: 'r
  ba_inputCount :: int
  ba_currentCheckpointId :: int
  ba_output :: bool
  ba_blockedChannels :: "(string \<times> bool) list"
  ba_buffer :: "'d BufferOrEvent list"
  ba_released :: "'d BufferOrEvent list list"

definition NewBarrierAligner :: "'r \<Rightarrow> int \<Rightarrow> ('r, 'd) BarrierAligner" where
  "NewBarrierAligner re inputCount =
     \<lparr>ba_responder = re, ba_inputCount = inputCount, ba_currentCheckpointId = 0, ba_output = False,
      ba_blockedChannels = [], ba_buffer = [], ba_released = []\<rparr>"

definition ba_SetOutput :: "('r, 'd) BarrierAligner \<Rightarrow> ('r, 'd) BarrierAligner" where
  "ba_SetOutput h = h\<lparr>ba_output := True\<rparr>"

definition ba_onBarrier :: "string \<Rightarrow> ('r, 'd) BarrierAligner \<Rightarrow> ('r, 'd) BarrierAligner" where
  "ba_onBarrier name h = (case map_of (ba_blockedChannels h) name of
     None \<Rightarrow> h\<lparr>ba_blockedChannels := AList.update name True (ba_blockedChannels h)\<rparr>
   | Some _ \<Rightarrow> h)"

definition releaseBlocksAndResetBarriers :: "('r, 'd) BarrierAligner \<Rightarrow> ('r, 'd) BarrierAligner" where
  "releaseBlocksAndResetBarriers h = h\<lparr>ba_blockedChannels := []\<rparr>"

definition beginNewAlignment :: "Barrier \<Rightarrow> ('r, 'd) BarrierAligner \<Rightarrow> ('r, 'd) BarrierAligner" where
  "beginNewAlignment b h = ba_onBarrier (OpId b) (h\<lparr>ba_currentCheckpointId := CheckpointId b\<rparr>)"

text \<open>The part of \<^verbatim>\<open>processBarrier\<close> after the barrier has been recorded.\<close>

definition ba_tryTrigger ::
  "(int \<Rightarrow> 'r \<Rightarrow> bool \<times> 'r) \<Rightarrow> int \<Rightarrow> ('r, 'd) BarrierAligner \<Rightarrow> ('r, 'd) BarrierAligner" where
  "ba_tryTrigger trig cid h =
     (if int (length (ba_blockedChannels h)) = ba_inputCount h then
        (case trig cid (ba_responder h) of (ok, r) \<Rightarrow>
           let h1 = h\<lparr>ba_responder := r\<rparr> in
           if \<not> ok then h1
           else (releaseBlocksAndResetBarriers h1)\<lparr>ba_released := ba_released h @ [ba_buffer h], ba_buffer := []\<rparr>)
      else h)"

definition ba_processBarrier ::
  "(int \<Rightarrow> 'r \<Rightarrow> bool \<times> 'r) \<Rightarrow> Barrier \<Rightarrow> ('r, 'd) BarrierAligner \<Rightarrow> ('r, 'd) BarrierAligner" where
  "ba_processBarrier trig b h =
     (let cid = CheckpointId b in
      if ba_inputCount h = 1 then
        (if cid > ba_currentCheckpointId h then
           (case trig cid (ba_responder h) of (_, r) \<Rightarrow> h\<lparr>ba_currentCheckpointId := cid, ba_responder := r\<rparr>)
         else h)
      else if ba_blockedChannels h \<noteq> [] then
        (if cid = ba_currentCheckpointId h then ba_tryTrigger trig cid (ba_onBarrier (OpId b) h)
         else if cid > ba_currentCheckpointId h then
           ba_tryTrigger trig cid (beginNewAlignment b (releaseBlocksAndResetBarriers h))
         else h)
      else if cid > ba_currentCheckpointId h then ba_tryTrigger trig cid (beginNewAlignment b h)
      else h)"

definition ba_Process ::
  "(int \<Rightarrow> 'r \<Rightarrow> bool \<times> 'r) \<Rightarrow> 'd BufferOrEvent \<Rightarrow> ('r, 'd) BarrierAligner \<Rightarrow> bool \<times> ('r, 'd) BarrierAligner" where
  "ba_Process trig d h = (case Data d of
     DBarrier b \<Rightarrow> (True, ba_processBarrier trig b h)
   | DItem _ \<Rightarrow>
       if ba_inputCount h > 1 \<and> ba_blockedChannels h \<noteq> [] \<and> map_of (ba_blockedChannels h) (Channel d) \<noteq> None
       then (True, h\<lparr>ba_buffer := ba_buffer h @ [d]\<rparr>)
       else (False, h))"

section \<open>The handler in front of a node\<close>

text \<open>
  \<^verbatim>\<open>defaultSinkNode.preprocess\<close> in the loop of a node: what the handler does not consume reaches the operator.
\<close>

fun handler_run ::
  "('d BufferOrEvent \<Rightarrow> 'h \<Rightarrow> bool \<times> 'h) \<Rightarrow> 'd BufferOrEvent list \<Rightarrow> 'h \<Rightarrow> 'd BufferOrEvent list \<times> 'h" where
  "handler_run process [] h = ([], h)"
| "handler_run process (d # ds) h =
     (let (consumed, h1) = process d h; (out, h2) = handler_run process ds h1
      in (if consumed then out else d # out, h2))"

text \<open>A responder that also records the checkpoints it is asked for.\<close>

definition rec_trig :: "(int \<Rightarrow> 'r \<Rightarrow> bool \<times> 'r) \<Rightarrow> int \<Rightarrow> 'r \<times> int list \<Rightarrow> bool \<times> 'r \<times> int list" where
  "rec_trig trig cid r = (let (ok, r1) = trig cid (fst r) in (ok, r1, snd r @ [cid]))"

definition is_barrier_of :: "int \<Rightarrow> 'd BufferOrEvent \<Rightarrow> bool" where
  "is_barrier_of c d = (case Data d of DBarrier b \<Rightarrow> CheckpointId b = c | DItem _ \<Rightarrow> False)"

definition is_item :: "'d BufferOrEvent \<Rightarrow> bool" where
  "is_item d = (case Data d of DBarrier _ \<Rightarrow> False | DItem _ \<Rightarrow> True)"

lemma is_barrier_of_simps [simp]:
  "Data d = DBarrier b \<Longrightarrow> is_barrier_of c d \<longleftrightarrow> CheckpointId b = c"
  "Data d = DItem x \<Longrightarrow> \<not> is_barrier_of c d"
  by (simp_all add: is_barrier_of_def)

lemma is_item_simps [simp]: "Data d = DBarrier b \<Longrightarrow> \<not> is_item d" "Data d = DItem x \<Longrightarrow> is_item d"
  by (simp_all add: is_item_def)

text \<open>
  The contract of \<^verbatim>\<open>BarrierHandler\<close>. \<open>progress h c\<close> is the number of barriers of checkpoint
  \<open>c\<close> the handler counts at the moment, \<open>triggered h\<close> the checkpoints it has triggered.
\<close>

locale barrier_handler =
  fixes process :: "'d BufferOrEvent \<Rightarrow> 'h \<Rightarrow> bool \<times> 'h"
    and inv :: "'h \<Rightarrow> bool"
    and inputs :: "'h \<Rightarrow> nat"
    and triggered :: "'h \<Rightarrow> int list"
    and progress :: "'h \<Rightarrow> int \<Rightarrow> nat"
  assumes inv_step: "inv h \<Longrightarrow> inv (snd (process d h)) \<and> inputs (snd (process d h)) = inputs h"
    and barrier_consumed: "\<not> is_item d \<Longrightarrow> fst (process d h)"
    and item_quiet: "is_item d \<Longrightarrow>
      triggered (snd (process d h)) = triggered h \<and> progress (snd (process d h)) = progress h"
    and barrier_progress: "inv h \<Longrightarrow> Data d = DBarrier b \<Longrightarrow>
      progress (snd (process d h)) c \<le> progress h c + (if c = CheckpointId b then 1 else 0)"
    and barrier_trigger: "inv h \<Longrightarrow> Data d = DBarrier b \<Longrightarrow>
      triggered (snd (process d h)) = triggered h \<or>
      triggered (snd (process d h)) = triggered h @ [CheckpointId b] \<and>
        inputs h \<le> progress h (CheckpointId b) + 1"
begin

lemma run_items: "set (fst (handler_run process ds h)) \<subseteq> {d \<in> set ds. is_item d}"
proof (induction ds arbitrary: h)
  case (Cons d ds)
  obtain p h1 where p: "process d h = (p, h1)"
    by force
  then show ?case
    using Cons [of h1] barrier_consumed [of d h] by (auto split: prod.splits)
qed simp

lemma run_triggered:
  assumes "inv h" "c \<in> set (triggered (snd (handler_run process ds h)))"
  shows "c \<in> set (triggered h) \<or> inputs h \<le> progress h c + length (filter (is_barrier_of c) ds)"
  using assms
proof (induction ds arbitrary: h)
  case (Cons d ds)
  obtain p h1 where p: "process d h = (p, h1)"
    by force
  have h1: "inv h1" "inputs h1 = inputs h"
    using inv_step [OF Cons(2), of d] p by auto
  have "c \<in> set (triggered (snd (handler_run process ds h1)))"
    using Cons(3) p by (auto split: prod.splits)
  from Cons(1) [OF h1(1) this] have IH:
    "c \<in> set (triggered h1) \<or> inputs h \<le> progress h1 c + length (filter (is_barrier_of c) ds)"
    by (simp add: h1(2))
  show ?case
  proof (cases "Data d")
    case (DBarrier b)
    then show ?thesis
      using IH barrier_progress [OF Cons(2) DBarrier, of c] barrier_trigger [OF Cons(2) DBarrier] p
      by (auto split: if_splits)
  next
    case (DItem x)
    then show ?thesis
      using IH item_quiet [of d h] p by auto
  qed
qed simp

end

definition bt_inv :: "'r BarrierTracker \<Rightarrow> bool" where
  "bt_inv h \<longleftrightarrow> 1 \<le> bt_inputCount h \<and> in_i64 (bt_inputCount h) \<and>
     (\<forall>n \<in> snd ` set (bt_pendingCheckpoints h). 0 < n \<and> n < bt_inputCount h)"

definition bt_progress :: "'r BarrierTracker \<Rightarrow> int \<Rightarrow> nat" where
  "bt_progress h c = (case map_of (bt_pendingCheckpoints h) c of Some n \<Rightarrow> nat n | None \<Rightarrow> 0)"

definition ba_inv :: "('r, 'd) BarrierAligner \<Rightarrow> bool" where
  "ba_inv h \<longleftrightarrow> distinct (map fst (ba_blockedChannels h)) \<and>
     (ba_inputCount h = 1 \<longrightarrow> ba_blockedChannels h = []) \<and>
     (\<forall>d \<in> set (ba_buffer h) \<union> \<Union> (set ` set (ba_released h)). is_item d)"

definition ba_progress :: "('r, 'd) BarrierAligner \<Rightarrow> int \<Rightarrow> nat" where
  "ba_progress h c = (if c = ba_currentCheckpointId h then length (ba_blockedChannels h) else 0)"

lemma snd_set_update: "snd ` set (AList.update k v m) \<subseteq> insert v (snd ` set m)"
  by (induction m) auto

lemma map_of_filter_key: "map_of (filter (\<lambda>(i, n). P i) m) c = (if P c then map_of m c else None)"
  by (induction m) auto

lemma bt_inv_new: "1 \<le> n \<Longrightarrow> in_i64 n \<Longrightarrow> bt_inv (NewBarrierTracker re n)"
  by (simp add: bt_inv_def NewBarrierTracker_def)

lemma bt_count:
  assumes "bt_inv h" "map_of (bt_pendingCheckpoints h) c = Some n"
  shows "0 < n" "n < bt_inputCount h" "i64 (n + 1) = n + 1"
proof -
  have "n \<in> snd ` set (bt_pendingCheckpoints h)"
    using map_of_SomeD [OF assms(2)] by force
  with assms(1) show "0 < n" "n < bt_inputCount h"
    by (auto simp: bt_inv_def)
  then show "i64 (n + 1) = n + 1"
    using assms(1) by (intro i64_id) (simp add: bt_inv_def in_i64_def)
qed

lemma bt_inv_pending:
  assumes "bt_inv h" "snd ` set m \<subseteq> insert n (snd ` set (bt_pendingCheckpoints h))" "0 < n" "n < bt_inputCount h"
  shows "bt_inv (h\<lparr>bt_pendingCheckpoints := m\<rparr>)"
  using assms by (fastforce simp: bt_inv_def)

lemma bt_inv_processBarrier:
  assumes inv: "bt_inv h"
  shows "bt_inv (bt_processBarrier trig b h) \<and> bt_inputCount (bt_processBarrier trig b h) = bt_inputCount h"
proof (cases "bt_inputCount h = 1")
  case True
  then show ?thesis
    using inv by (simp add: bt_processBarrier_def bt_inv_def split: prod.splits)
next
  case False
  then have ic: "1 < bt_inputCount h"
    using inv by (simp add: bt_inv_def)
  show ?thesis
  proof (cases "map_of (bt_pendingCheckpoints h) (CheckpointId b)")
    case None
    then show ?thesis
      using False ic bt_inv_pending [OF inv snd_set_update] by (simp add: bt_processBarrier_def)
  next
    case (Some n)
    note n = bt_count [OF inv Some]
    have "n + 1 < bt_inputCount h \<Longrightarrow> bt_inv (h\<lparr>bt_pendingCheckpoints := AList.update (CheckpointId b) (n + 1) (bt_pendingCheckpoints h)\<rparr>)"
      using n by (intro bt_inv_pending [OF inv snd_set_update]) auto
    moreover have "bt_inv (h\<lparr>bt_responder := r, bt_pendingCheckpoints := filter P (AList.delete (CheckpointId b) (bt_pendingCheckpoints h))\<rparr>)" for r P
      using inv by (auto simp: bt_inv_def AList.delete_eq)
    moreover have "bt_inv (h\<lparr>bt_responder := r\<rparr>)" for r
      using inv by (simp add: bt_inv_def)
    ultimately show ?thesis
      using False Some n by (auto simp: bt_processBarrier_def Let_def split: prod.splits)
  qed
qed

lemma bt_progress_processBarrier:
  assumes inv: "bt_inv h"
  shows "bt_progress (bt_processBarrier trig b h) c \<le> bt_progress h c + (if c = CheckpointId b then 1 else 0)"
proof (cases "map_of (bt_pendingCheckpoints h) (CheckpointId b)")
  case None
  then show ?thesis
    by (auto simp: bt_processBarrier_def bt_progress_def Let_def split: prod.splits option.splits)
next
  case (Some n)
  note n = bt_count [OF inv Some]
  show ?thesis
    using Some n by (auto simp: bt_processBarrier_def bt_progress_def Let_def map_of_filter_key split: prod.splits option.splits)
qed

lemma bt_trigger_processBarrier:
  assumes inv: "bt_inv h"
  shows "snd (bt_responder (bt_processBarrier (rec_trig trig) b h)) = snd (bt_responder h) \<or>
    snd (bt_responder (bt_processBarrier (rec_trig trig) b h)) = snd (bt_responder h) @ [CheckpointId b] \<and>
    nat (bt_inputCount h) \<le> bt_progress h (CheckpointId b) + 1"
proof (cases "map_of (bt_pendingCheckpoints h) (CheckpointId b)")
  case None
  then show ?thesis
    by (auto simp: bt_processBarrier_def rec_trig_def Let_def split: prod.splits)
next
  case (Some n)
  note n = bt_count [OF inv Some]
  show ?thesis
    using Some n by (auto simp: bt_processBarrier_def bt_progress_def rec_trig_def Let_def split: prod.splits)
qed

interpretation bt: barrier_handler "bt_Process (rec_trig trig)" bt_inv "\<lambda>h. nat (bt_inputCount h)"
  "\<lambda>h. snd (bt_responder h)" bt_progress for trig :: "int \<Rightarrow> 'r \<Rightarrow> bool \<times> 'r"
proof
  fix h :: "('r \<times> int list) BarrierTracker" and d :: "'d BufferOrEvent"
  show "bt_inv h \<Longrightarrow> bt_inv (snd (bt_Process (rec_trig trig) d h)) \<and>
      nat (bt_inputCount (snd (bt_Process (rec_trig trig) d h))) = nat (bt_inputCount h)"
    by (auto simp: bt_Process_def bt_inv_processBarrier split: data.splits)
qed (auto simp: bt_Process_def is_item_def bt_progress_processBarrier dest: bt_trigger_processBarrier split: data.splits)

section \<open>Aligner: contract\<close>

lemma ba_onBarrier_blocked:
  "ba_onBarrier name h = (if name \<in> fst ` set (ba_blockedChannels h) then h
     else h\<lparr>ba_blockedChannels := ba_blockedChannels h @ [(name, True)]\<rparr>)"
proof (cases "name \<in> fst ` set (ba_blockedChannels h)")
  case True
  then obtain v where "map_of (ba_blockedChannels h) name = Some v"
    by (metis map_of_eq_None_iff not_None_eq)
  with True show ?thesis
    by (simp add: ba_onBarrier_def)
next
  case False
  then have "map_of (ba_blockedChannels h) name = None"
    by (simp add: map_of_eq_None_iff)
  with False show ?thesis
    by (simp add: ba_onBarrier_def update_fresh)
qed

lemmas ba_defs = ba_processBarrier_def ba_tryTrigger_def beginNewAlignment_def releaseBlocksAndResetBarriers_def
  ba_onBarrier_blocked Let_def

lemma ba_inv_processBarrier:
  "ba_inv h \<Longrightarrow> ba_inv (ba_processBarrier trig b h) \<and> ba_inputCount (ba_processBarrier trig b h) = ba_inputCount h"
  by (auto simp: ba_defs ba_inv_def split: prod.splits)

lemma ba_progress_processBarrier:
  "ba_inv h \<Longrightarrow>
    ba_progress (ba_processBarrier trig b h) c \<le> ba_progress h c + (if c = CheckpointId b then 1 else 0)"
  by (auto simp: ba_defs ba_progress_def ba_inv_def split: prod.splits)

lemma ba_trigger_processBarrier:
  "snd (ba_responder (ba_processBarrier (rec_trig trig) b h)) = snd (ba_responder h) \<or>
   snd (ba_responder (ba_processBarrier (rec_trig trig) b h)) = snd (ba_responder h) @ [CheckpointId b] \<and>
   nat (ba_inputCount h) \<le> ba_progress h (CheckpointId b) + 1"
  by (auto simp: ba_defs rec_trig_def ba_progress_def split: prod.splits)

interpretation ba: barrier_handler "ba_Process (rec_trig trig)" ba_inv "\<lambda>h. nat (ba_inputCount h)"
  "\<lambda>h. snd (ba_responder h)" ba_progress for trig :: "int \<Rightarrow> 'r \<Rightarrow> bool \<times> 'r"
proof
  fix h :: "('r \<times> int list, 'd) BarrierAligner" and d :: "'d BufferOrEvent" and b c
  show "ba_inv h \<Longrightarrow> ba_inv (snd (ba_Process (rec_trig trig) d h)) \<and>
      nat (ba_inputCount (snd (ba_Process (rec_trig trig) d h))) = nat (ba_inputCount h)"
    by (auto simp: ba_Process_def ba_inv_processBarrier split: data.splits) (auto simp: ba_inv_def)
  show "ba_progress (snd (ba_Process (rec_trig trig) d h)) c \<le> ba_progress h c + (if c = CheckpointId b then 1 else 0)"
    if "ba_inv h" "Data d = DBarrier b"
    using that ba_progress_processBarrier [of h "rec_trig trig" b c] by (simp add: ba_Process_def)
  show "snd (ba_responder (snd (ba_Process (rec_trig trig) d h))) = snd (ba_responder h) \<or>
      snd (ba_responder (snd (ba_Process (rec_trig trig) d h))) = snd (ba_responder h) @ [CheckpointId b] \<and>
      nat (ba_inputCount h) \<le> ba_progress h (CheckpointId b) + 1" if "ba_inv h" "Data d = DBarrier b"
    using that ba_trigger_processBarrier [of trig b h] by (simp add: ba_Process_def)
  show "\<not> is_item d \<Longrightarrow> fst (ba_Process (rec_trig trig) d h)"
    by (auto simp: ba_Process_def is_item_def split: data.splits)
  show "is_item d \<Longrightarrow> snd (ba_responder (snd (ba_Process (rec_trig trig) d h))) = snd (ba_responder h) \<and>
      ba_progress (snd (ba_Process (rec_trig trig) d h)) = ba_progress h"
    by (auto simp: ba_Process_def is_item_def ba_progress_def fun_eq_iff split: data.splits)
qed

section \<open>Alignment\<close>

text \<open>
  The cut that the barriers of a checkpoint make in an interleaved input: the data that precedes
  the barrier of its own channel, and the data that follows it.
\<close>

fun barrier_cut :: "string list \<Rightarrow> 'd BufferOrEvent list \<Rightarrow> 'd BufferOrEvent list \<times> 'd BufferOrEvent list" where
  "barrier_cut seen [] = ([], [])"
| "barrier_cut seen (d # ds) = (case Data d of
     DBarrier b \<Rightarrow> barrier_cut (OpId b # seen) ds
   | DItem _ \<Rightarrow> (case barrier_cut seen ds of (pre, post) \<Rightarrow>
       if Channel d \<in> set seen then (pre, d # post) else (d # pre, post)))"

fun barriers :: "'d BufferOrEvent list \<Rightarrow> Barrier list" where
  "barriers [] = []"
| "barriers (d # ds) = (case Data d of DBarrier b \<Rightarrow> b # barriers ds | DItem _ \<Rightarrow> barriers ds)"

lemma barrier_cut_cong: "set s = set t \<Longrightarrow> barrier_cut s ds = barrier_cut t ds"
proof (induction ds arbitrary: s t)
  case (Cons d ds)
  show ?case
  proof (cases "Data d")
    case (DBarrier b)
    then show ?thesis
      using Cons(1) [of "OpId b # s" "OpId b # t"] Cons(2) by simp
  next
    case (DItem x)
    then show ?thesis
      using Cons(1) [OF Cons(2)] Cons(2) by simp
  qed
qed simp

text \<open>While barriers of \<open>c\<close> are missing, the aligner passes the data before the cut and buffers the rest.\<close>

lemma ba_partial_run:
  assumes "\<forall>b \<in> set (barriers ds). CheckpointId b = c" "1 < ba_inputCount h"
    and "ba_blockedChannels h = [] \<and> ba_currentCheckpointId h < c \<or> ba_blockedChannels h \<noteq> [] \<and> ba_currentCheckpointId h = c"
    and "distinct (map fst (ba_blockedChannels h) @ map OpId (barriers ds))"
    and "int (length (ba_blockedChannels h) + length (barriers ds)) < ba_inputCount h"
  shows "handler_run (ba_Process trig) ds h = (fst (barrier_cut (map fst (ba_blockedChannels h)) ds),
    h\<lparr>ba_currentCheckpointId := (if barriers ds = [] then ba_currentCheckpointId h else c),
      ba_blockedChannels := ba_blockedChannels h @ map (\<lambda>b. (OpId b, True)) (barriers ds),
      ba_buffer := ba_buffer h @ snd (barrier_cut (map fst (ba_blockedChannels h)) ds)\<rparr>)"
  using assms
proof (induction ds arbitrary: h)
  case (Cons d ds)
  show ?case
  proof (cases "Data d")
    case (DBarrier b)
    let ?h = "h\<lparr>ba_currentCheckpointId := c, ba_blockedChannels := ba_blockedChannels h @ [(OpId b, True)]\<rparr>"
    have b: "CheckpointId b = c" "OpId b \<notin> fst ` set (ba_blockedChannels h)"
      using Cons(2,5) DBarrier by auto
    have step: "ba_Process trig d h = (True, ?h)"
      using b Cons(3,4,6) DBarrier by (cases "ba_blockedChannels h = []") (auto simp: ba_Process_def ba_defs)
    have cut: "barrier_cut (map fst (ba_blockedChannels ?h)) ds = barrier_cut (OpId b # map fst (ba_blockedChannels h)) ds"
      by (rule barrier_cut_cong) auto
    have "handler_run (ba_Process trig) ds ?h = (fst (barrier_cut (map fst (ba_blockedChannels ?h)) ds),
      ?h\<lparr>ba_currentCheckpointId := (if barriers ds = [] then ba_currentCheckpointId ?h else c),
      ba_blockedChannels := ba_blockedChannels ?h @ map (\<lambda>b. (OpId b, True)) (barriers ds),
      ba_buffer := ba_buffer ?h @ snd (barrier_cut (map fst (ba_blockedChannels ?h)) ds)\<rparr>)"
      using Cons(2-6) DBarrier by (intro Cons(1)) auto
    then show ?thesis
      unfolding cut using DBarrier step by simp
  next
    case (DItem x)
    let ?in = "Channel d \<in> fst ` set (ba_blockedChannels h)"
    let ?h = "if ?in then h\<lparr>ba_buffer := ba_buffer h @ [d]\<rparr> else h"
    have step: "ba_Process trig d h = (?in, ?h)"
      using Cons(3) DItem by (auto simp: ba_Process_def map_of_eq_None_iff)
    have h: "ba_blockedChannels ?h = ba_blockedChannels h" "ba_currentCheckpointId ?h = ba_currentCheckpointId h"
      "ba_inputCount ?h = ba_inputCount h"
      by simp_all
    have "handler_run (ba_Process trig) ds ?h = (fst (barrier_cut (map fst (ba_blockedChannels ?h)) ds),
      ?h\<lparr>ba_currentCheckpointId := (if barriers ds = [] then ba_currentCheckpointId ?h else c),
      ba_blockedChannels := ba_blockedChannels ?h @ map (\<lambda>b. (OpId b, True)) (barriers ds),
      ba_buffer := ba_buffer ?h @ snd (barrier_cut (map fst (ba_blockedChannels ?h)) ds)\<rparr>)"
      using Cons(2-6) DItem by (intro Cons(1)) (auto simp only: h data.case barriers.simps split: if_splits)
    then show ?thesis
      using DItem step by (auto simp: h split: prod.splits)
  qed
qed simp

lemma handler_run_append:
  "handler_run process (ds @ es) h =
     (case handler_run process ds h of (out, h1) \<Rightarrow> case handler_run process es h1 of (out2, h2) \<Rightarrow> (out @ out2, h2))"
  by (induction ds arbitrary: h) (auto split: prod.splits)

lemma barriers_append [simp]: "barriers (ds @ es) = barriers ds @ barriers es"
  by (induction ds) (auto split: data.splits)

lemma barrier_cut_append_barrier:
  "Data d = DBarrier b \<Longrightarrow> barrier_cut seen (ds @ [d]) = barrier_cut seen ds"
  by (induction ds arbitrary: seen) (auto split: data.splits prod.splits)



definition ba_held :: "('r, 'd) BarrierAligner \<Rightarrow> 'd BufferOrEvent multiset" where
  "ba_held h = mset (ba_buffer h) + mset (concat (ba_released h))"

lemma ba_Process_held:
  "ba_Process trig d h = (p, h1) \<Longrightarrow>
    ba_held h1 + (if p then {#} else {#d#}) = (if is_item d then {#d#} else {#}) + ba_held h"
  by (auto simp: ba_Process_def ba_defs ba_held_def is_item_def split: data.splits if_splits prod.splits)

text \<open>
  No data is lost or duplicated by the aligner, whatever it receives and whether triggers succeed or fail: as multisets, the data received and the
  data it held back before is the data passed on, the data in the buffer and the data handed to the releasing goroutines.
\<close>

theorem aligner_conserves:
  "(case handler_run (ba_Process trig) ds h of (out, h1) \<Rightarrow>
     mset (filter is_item ds) + ba_held h = mset out + ba_held h1)"
proof (induction ds arbitrary: h)
  case (Cons d ds)
  obtain p h1 where p: "ba_Process trig d h = (p, h1)"
    by force
  obtain out h2 where r: "handler_run (ba_Process trig) ds h1 = (out, h2)"
    by force
  have IH: "mset out + ba_held h2 = mset (filter is_item ds) + ba_held h1"
    using Cons [of h1] r by simp
  show ?case
    using ba_Process_held [OF p] by (cases p; cases "is_item d") (simp_all add: p r IH)
qed simp

text \<open>
  Neither handler triggers a checkpoint early: in whatever order barriers and data arrive, a checkpoint that a handler (tracker or aligner)
  for \<open>n \<ge> 1\<close> inputs has triggered has had at least \<open>n\<close> barriers, and everything passed on to the operator is data.
\<close>

theorem handlers_wait_for_all:
  assumes "1 \<le> n" "in_i64 n"
    and "handler_run (bt_Process (rec_trig trig)) ds (NewBarrierTracker (r, []) n) = (out1, h1)"
    and "handler_run (ba_Process (rec_trig trig)) ds (NewBarrierAligner (r, []) n) = (out2, h2)"
  shows "(\<forall>c \<in> set (snd (bt_responder h1)) \<union> set (snd (ba_responder h2)). nat n \<le> length (filter (is_barrier_of c) ds)) \<and>
    set out1 \<union> set out2 \<subseteq> {d \<in> set ds. is_item d}"
proof -
  let ?a = "NewBarrierAligner (r, []) n" and ?t = "NewBarrierTracker (r, []) n"
  have a: "ba_inv ?a" "snd (ba_responder ?a) = []" "nat (ba_inputCount ?a) = nat n" "\<And>c. ba_progress ?a c = 0"
    by (simp_all add: ba_inv_def ba_progress_def NewBarrierAligner_def)
  have t: "bt_inv ?t" "snd (bt_responder ?t) = []" "nat (bt_inputCount ?t) = nat n" "\<And>c. bt_progress ?t c = 0"
    using assms(1,2) by (simp_all add: bt_inv_def bt_progress_def NewBarrierTracker_def)
  show ?thesis
    using ba.run_triggered [OF a(1), of _ trig ds] bt.run_triggered [OF t(1), of _ trig ds]
      bt.run_items [of trig ds ?t] ba.run_items [of trig ds ?a] by (auto simp: assms(3,4) a t)
qed

theorem handlers_wait_for_all_witness:
  "let bar = (\<lambda>ch. \<lparr>Data = DBarrier \<lparr>CheckpointId = 5, OpId = ch\<rparr>, Channel = ch\<rparr>); ds = [bar ''a'', bar ''b''] :: nat BufferOrEvent list;
     h = snd (handler_run (bt_Process (rec_trig (\<lambda>c r. (True, r)))) ds (NewBarrierTracker ((), []) 2))
   in snd (bt_responder h) = [5] \<and> nat 2 \<le> length (filter (is_barrier_of 5) ds)"
proof -
  let ?bar = "\<lambda>ch. \<lparr>Data = DBarrier \<lparr>CheckpointId = 5, OpId = ch\<rparr>, Channel = ch\<rparr>"
  let ?ds = "[?bar ''a'', ?bar ''b''] :: nat BufferOrEvent list"
  let ?t = "handler_run (bt_Process (rec_trig (\<lambda>c r. (True, r)))) ?ds (NewBarrierTracker ((), []) 2)"
  let ?a = "handler_run (ba_Process (rec_trig (\<lambda>c r. (True, r)))) ?ds (NewBarrierAligner ((), []) 2)"
  have "snd (bt_responder (snd ?t)) = [5]"
    by (simp add: bt_Process_def bt_processBarrier_def rec_trig_def NewBarrierTracker_def go_int)
  moreover have "1 \<le> (2 :: int)" "in_i64 2"
    by (simp_all add: in_i64_def)
  ultimately show ?thesis
    using handlers_wait_for_all [of 2 "\<lambda>c r. (True, r)" ?ds "()" "fst ?t" "snd ?t" "fst ?a" "snd ?a"]
    by (simp only: Let_def prod.collapse) auto
qed

definition ba_delivered :: "('r, 'd) BarrierAligner \<Rightarrow> 'd BufferOrEvent list" where
  "ba_delivered h = (if ba_output h then concat (ba_released h) else [])"

lemma ba_Process_output: "ba_output (snd (ba_Process trig d h)) = ba_output h"
  by (auto simp: ba_Process_def ba_defs split: data.splits prod.splits)

lemma handler_run_output: "ba_output (snd (handler_run (ba_Process trig) ds h)) = ba_output h"
proof (induction ds arbitrary: h)
  case (Cons d ds)
  obtain p h1 where p: "ba_Process trig d h = (p, h1)"
    by force
  then show ?case
    using Cons [of h1] ba_Process_output [of trig d h] by (auto split: prod.splits)
qed simp

text \<open>
  The output channel of an aligner that \<^verbatim>\<open>createBarrierHandler\<close> makes stays nil whatever it processes
  (only \<^verbatim>\<open>SetOutput\<close> sets it, and the program never calls that), so the goroutines block for ever and nothing of what they hold is delivered:
  after the alignment of two channels the operator has never received item 3.
\<close>

theorem aligner_output_nil:
  "ba_delivered (snd (handler_run (ba_Process trig) ds (NewBarrierAligner re n))) = [] \<and>
   (let item = (\<lambda>ch x. \<lparr>Data = DItem x, Channel = ch\<rparr>);
        bar = (\<lambda>ch. \<lparr>Data = DBarrier \<lparr>CheckpointId = 5, OpId = ch\<rparr>, Channel = ch\<rparr>);
        (out, h) = handler_run (ba_Process (\<lambda>c r. (True, r))) [bar ''a'', item ''a'' (3 :: nat), bar ''b'']
          (NewBarrierAligner () 2)
    in out = [] \<and> ba_buffer h = [] \<and> ba_delivered h = [])"
proof
  show "ba_delivered (snd (handler_run (ba_Process trig) ds (NewBarrierAligner re n))) = []"
    by (simp add: ba_delivered_def handler_run_output) (simp add: NewBarrierAligner_def)
qed (simp add: ba_Process_def ba_defs ba_delivered_def NewBarrierAligner_def)

text \<open> A barrier of a newer checkpoint that arrives during an alignment unblocks the channels but leaves the buffer: item 2 of channel
  \<open>a\<close> overtakes item 1 of the same channel, which stays in the buffer.
\<close>

theorem aligner_skip_reorders:
  "let item = (\<lambda>x. \<lparr>Data = DItem x, Channel = ''a''\<rparr>);
       bar = (\<lambda>c ch. \<lparr>Data = DBarrier \<lparr>CheckpointId = c, OpId = ch\<rparr>, Channel = ch\<rparr>);
       (out, h) = handler_run (ba_Process (\<lambda>c r. (True, r))) [bar 5 ''a'', item (1 :: nat), bar 6 ''b'', item 2]
         (NewBarrierAligner () 2)
   in out = [item 2] \<and> ba_buffer h = [item 1]"
  by (simp add: ba_Process_def ba_defs NewBarrierAligner_def)

section \<open>Operator state (context/default.go)\<close>

text \<open>
  The part of \<^verbatim>\<open>DefaultContext\<close> that a checkpoint uses. \<open>dc_snapshot\<close> is \<open>None\<close> when the field is nil;
  \<open>WithMeta\<close> is \<open>None\<close> when the store fails and the context is made with a nil state.
\<close>

record 'v DefaultContext =
  dc_opId :: string
  dc_state :: "'v opstate"
  dc_snapshot :: "'v opstate option"

definition WithMeta :: "string \<Rightarrow> 'v KVStore \<Rightarrow> 'v DefaultContext option" where
  "WithMeta opId s = (case kv_GetOpState opId s of
     Inl _ \<Rightarrow> None
   | Inr st \<Rightarrow> Some \<lparr>dc_opId = opId, dc_state = st, dc_snapshot = None\<rparr>)"

definition PutState :: "string \<Rightarrow> 'v \<Rightarrow> 'v DefaultContext \<Rightarrow> 'v DefaultContext" where
  "PutState key v c = c\<lparr>dc_state := AList.update key v (dc_state c)\<rparr>"

definition GetState :: "string \<Rightarrow> 'v DefaultContext \<Rightarrow> 'v option" where
  "GetState key c = map_of (dc_state c) key"

definition DeleteState :: "string \<Rightarrow> 'v DefaultContext \<Rightarrow> 'v DefaultContext" where
  "DeleteState key c = c\<lparr>dc_state := AList.delete key (dc_state c)\<rparr>"

definition Snapshot :: "'v DefaultContext \<Rightarrow> 'v DefaultContext" where
  "Snapshot c = c\<lparr>dc_snapshot := Some (dc_state c)\<rparr>"

text \<open>\<^verbatim>\<open>KVStore.SaveState\<close> returns no error; a nil map is stored as an empty state.\<close>

definition SaveState :: "int \<Rightarrow> 'v DefaultContext \<times> 'v KVStore \<Rightarrow> 'v DefaultContext \<times> 'v KVStore" where
  "SaveState checkpointId cs = (case cs of (c, s) \<Rightarrow>
     (c\<lparr>dc_snapshot := None\<rparr>,
      kv_SaveState checkpointId (dc_opId c) (case dc_snapshot c of Some m \<Rightarrow> m | None \<Rightarrow> []) s))"

section \<open>Responder\<close>

text \<open>
  A \<^verbatim>\<open>ResponderExecutor\<close> with its task: the context, the store the context refers to, what the task has broadcast, the
  checkpoints whose saving goroutine has not run yet, and the signals sent to the coordinator.
\<close>

record 'v ResponderExecutor =
  re_name :: string
  re_ctx :: "'v DefaultContext"
  re_store :: "'v KVStore"
  re_broadcast :: "Barrier list"
  re_spawned :: "int list"
  re_signals :: "Signal list"

definition TriggerCheckpoint :: "int \<Rightarrow> 'v ResponderExecutor \<Rightarrow> bool \<times> 'v ResponderExecutor" where
  "TriggerCheckpoint checkpointId re =
     (True, re\<lparr>re_broadcast := re_broadcast re @ [\<lparr>CheckpointId = checkpointId, OpId = re_name re\<rparr>],
               re_ctx := Snapshot (re_ctx re),
               re_spawned := re_spawned re @ [checkpointId]\<rparr>)"

text \<open>The body of the goroutine started for \<open>checkpointId\<close>.\<close>

definition re_goroutine :: "int \<Rightarrow> 'v ResponderExecutor \<Rightarrow> 'v ResponderExecutor" where
  "re_goroutine checkpointId re = (case SaveState checkpointId (re_ctx re, re_store re) of (c, s) \<Rightarrow>
     re\<lparr>re_ctx := c, re_store := s, re_spawned := remove1 checkpointId (re_spawned re),
        re_signals := re_signals re @ [\<lparr>CheckpointId = checkpointId, OpId = re_name re, sMessage = ACK\<rparr>]\<rparr>)"

text \<open>The events of a task: its operator changes the state, a checkpoint is triggered, a saving goroutine runs.\<close>

datatype 'v task_event = TPut string 'v | TDelete string | TTrigger int | TSave int

fun task_step :: "'v task_event \<Rightarrow> 'v ResponderExecutor \<Rightarrow> 'v ResponderExecutor option" where
  "task_step (TPut k v) re = Some (re\<lparr>re_ctx := PutState k v (re_ctx re)\<rparr>)"
| "task_step (TDelete k) re = Some (re\<lparr>re_ctx := DeleteState k (re_ctx re)\<rparr>)"
| "task_step (TTrigger c) re = Some (snd (TriggerCheckpoint c re))"
| "task_step (TSave c) re = (if c \<in> set (re_spawned re) then Some (re_goroutine c re) else None)"

fun task_run :: "'v task_event list \<Rightarrow> 'v ResponderExecutor \<Rightarrow> 'v ResponderExecutor option" where
  "task_run [] re = Some re"
| "task_run (e # es) re = (case task_step e re of None \<Rightarrow> None | Some re1 \<Rightarrow> task_run es re1)"

definition is_update :: "'v task_event \<Rightarrow> bool" where
  "is_update e = (case e of TPut _ _ \<Rightarrow> True | TDelete _ \<Rightarrow> True | _ \<Rightarrow> False)"

lemma task_run_append: "task_run (es @ fs) re = Option.bind (task_run es re) (task_run fs)"
  by (induction es arbitrary: re) (auto split: option.splits)

lemma task_run_updates:
  assumes "\<forall>e \<in> set us. is_update e"
  shows "\<exists>st. task_run us re = Some (re\<lparr>re_ctx := (re_ctx re)\<lparr>dc_state := st\<rparr>\<rparr>)"
  using assms
proof (induction us arbitrary: re)
  case (Cons e us)
  then obtain st where st: "task_step e re = Some (re\<lparr>re_ctx := (re_ctx re)\<lparr>dc_state := st\<rparr>\<rparr>)"
    by (cases e) (auto simp: is_update_def PutState_def DeleteState_def)
  show ?case
    using Cons(1) [of "re\<lparr>re_ctx := (re_ctx re)\<lparr>dc_state := st\<rparr>\<rparr>"] Cons(2) by (auto simp: st)
next
  case Nil
  show ?case
    by (rule exI [of _ "dc_state (re_ctx re)"]) simp
qed

lemma task_run_checkpoint:
  assumes "\<forall>e \<in> set us. is_update e"
  shows "\<exists>re'. task_run (TTrigger c # us @ [TSave c]) re = Some re' \<and>
    re_store re' = kv_SaveState c (dc_opId (re_ctx re)) (dc_state (re_ctx re)) (re_store re) \<and>
    re_signals re' = re_signals re @ [\<lparr>CheckpointId = c, OpId = re_name re, sMessage = ACK\<rparr>]"
proof -
  let ?re = "snd (TriggerCheckpoint c re)"
  obtain st where "task_run us ?re = Some (?re\<lparr>re_ctx := (re_ctx ?re)\<lparr>dc_state := st\<rparr>\<rparr>)"
    using task_run_updates [OF assms] by blast
  then show ?thesis
    by (simp add: task_run_append TriggerCheckpoint_def re_goroutine_def SaveState_def Snapshot_def)
qed



text \<open>
  The snapshot is one field for all checkpoints, and the goroutine that saves it runs later and resets it. When checkpoint 2
  is triggered before the goroutine of checkpoint 1 has run, checkpoint 1 gets the state of checkpoint 2 and checkpoint 2 gets no state at all, and
  both are acknowledged; an operator restored from checkpoint 2 starts empty.
\<close>

theorem snapshot_race:
  "\<exists>re'. task_run [TPut ''n'' (10 :: nat), TTrigger 1, TPut ''n'' 20, TTrigger 2, TSave 1, TSave 2]
     \<lparr>re_name = ''w'', re_ctx = \<lparr>dc_opId = ''w'', dc_state = [], dc_snapshot = None\<rparr>,
      re_store = getKVStore [], re_broadcast = [], re_spawned = [], re_signals = []\<rparr> = Some re' \<and>
   map sMessage (re_signals re') = [ACK, ACK] \<and>
   map_of (kv_mapStore (re_store re')) 1 = Some [(''w'', [(''n'', 20)])] \<and>
   map_of (kv_mapStore (re_store re')) 2 = Some [(''w'', [])]"
  by (simp add: TriggerCheckpoint_def re_goroutine_def SaveState_def Snapshot_def PutState_def kv_SaveState_def
      getKVStore_def kv_restore_def tskv_Last_def NewSqlite_def tskv_last_def tskv_Get_def)

section \<open>Coordinator\<close>

record pendingCheckpoint =
  pc_checkpointId :: int
  pc_isDiscarded :: bool
  pc_notYetAckTasks :: "(string \<times> bool) list"

definition newPendingCheckpoint :: "int \<Rightarrow> string list \<Rightarrow> pendingCheckpoint" where
  "newPendingCheckpoint checkpointId tasksToWaitFor =
     \<lparr>pc_checkpointId = checkpointId, pc_isDiscarded = False,
      pc_notYetAckTasks = fold (\<lambda>r nyat. AList.update r True nyat) tasksToWaitFor []\<rparr>"

definition pc_ack :: "string \<Rightarrow> pendingCheckpoint \<Rightarrow> pendingCheckpoint" where
  "pc_ack opId c =
     (if pc_isDiscarded c then c else c\<lparr>pc_notYetAckTasks := AList.delete opId (pc_notYetAckTasks c)\<rparr>)"

definition isFullyAck :: "pendingCheckpoint \<Rightarrow> bool" where
  "isFullyAck c \<longleftrightarrow> pc_notYetAckTasks c = []"

definition pc_finalize :: "pendingCheckpoint \<Rightarrow> int" where
  "pc_finalize c = pc_checkpointId c"

text \<open>A \<^verbatim>\<open>completedCheckpoint\<close> is its id.\<close>

record checkpointStore =
  cs_maxNum :: nat
  cs_checkpoints :: "int list"

definition cs_add :: "int \<Rightarrow> checkpointStore \<Rightarrow> checkpointStore" where
  "cs_add c s = (let cps = cs_checkpoints s @ [c] in
     s\<lparr>cs_checkpoints := (if length cps > cs_maxNum s then drop 1 cps else cps)\<rparr>)"

definition cs_getLatest :: "checkpointStore \<Rightarrow> int option" where
  "cs_getLatest s = (if cs_checkpoints s \<noteq> [] then Some (last (cs_checkpoints s)) else None)"

text \<open>
  Tasks are known by their names. \<open>co_started\<close> logs the \<^verbatim>\<open>TriggerCheckpoint\<close> goroutines (source, checkpoint),
  \<open>co_saveCache\<close> the \<^verbatim>\<open>SaveCache\<close> calls; \<open>co_running\<close> is false once the loop has returned. The store
  is a state \<open>'s\<close> with the functions \<open>save\<close> and \<open>clean\<close> of the interface \<^verbatim>\<open>api.Store\<close>.
\<close>

record 's Coordinator =
  co_tasksToTrigger :: "string list"
  co_tasksToWaitFor :: "string list"
  co_sinkTasks :: "string list"
  co_pendingCheckpoints :: "(int \<times> pendingCheckpoint) list"
  co_completedCheckpoints :: checkpointStore
  co_baseInterval :: int
  co_cleanThreshold :: nat
  co_store :: 's
  co_toBeClean :: nat
  co_running :: bool
  co_started :: "(string \<times> int) list"
  co_saveCache :: "string list"

datatype ('r, 'd) handler = HTracker "'r BarrierTracker" | HAligner "('r, 'd) BarrierAligner"

definition createBarrierHandler :: "'r \<Rightarrow> int \<Rightarrow> Qos \<Rightarrow> ('r, 'd) handler option" where
  "createBarrierHandler re inputCount qos =
     (if qos = AtLeastOnce then Some (HTracker (NewBarrierTracker re inputCount))
      else if qos = ExactlyOnce then Some (HAligner (NewBarrierAligner re inputCount))
      else None)"

text \<open>
  The constructor: the handlers it gives to operators and sinks, each a pair of name and input count, and the coordinator.
  \<open>re\<close> makes the responder of a task.
\<close>

definition NewCoordinator ::
  "(string \<Rightarrow> 'r) \<Rightarrow> string list \<Rightarrow> (string \<times> int) list \<Rightarrow> (string \<times> int) list \<Rightarrow> Qos \<Rightarrow> 's \<Rightarrow> int \<Rightarrow>
   (string \<times> ('r, 'd) handler option) list \<times> 's Coordinator" where
  "NewCoordinator re sources operators sinks qos store interval =
     (map (\<lambda>(n, k). (n, createBarrierHandler (re n) k qos)) operators @
      map (\<lambda>(n, k). (n, Some (HTracker (NewBarrierTracker (re n) k)))) sinks,
      \<lparr>co_tasksToTrigger = sources,
       co_tasksToWaitFor = sources @ map fst operators @ map fst sinks,
       co_sinkTasks = map fst sinks,
       co_pendingCheckpoints = [],
       co_completedCheckpoints = \<lparr>cs_maxNum = 3, cs_checkpoints = []\<rparr>,
       co_baseInterval = (if interval \<le> 0 then 300000 else interval),
       co_cleanThreshold = 100,
       co_store = store,
       co_toBeClean = 0,
       co_running = True,
       co_started = [],
       co_saveCache = []\<rparr>)"

definition co_cancel :: "int \<Rightarrow> 's Coordinator \<Rightarrow> 's Coordinator" where
  "co_cancel checkpointId c = c\<lparr>co_pendingCheckpoints := AList.delete checkpointId (co_pendingCheckpoints c)\<rparr>"

definition co_complete ::
  "(int \<Rightarrow> 's \<Rightarrow> string option \<times> 's) \<Rightarrow> int \<Rightarrow> 's Coordinator \<Rightarrow> 's Coordinator" where
  "co_complete save checkpointId c = (case map_of (co_pendingCheckpoints c) checkpointId of
     None \<Rightarrow> c
   | Some ccp \<Rightarrow>
       (case save checkpointId (co_store c) of (err, st) \<Rightarrow>
          let c1 = c\<lparr>co_store := st\<rparr> in
          if err \<noteq> None then c1
          else c1\<lparr>co_saveCache := co_saveCache c @ co_sinkTasks c,
                  co_completedCheckpoints := cs_add (pc_finalize ccp) (co_completedCheckpoints c),
                  co_pendingCheckpoints :=
                    filter (\<lambda>(cid, cp). \<not> cid < checkpointId) (AList.delete checkpointId (co_pendingCheckpoints c))\<rparr>))"

text \<open>The events of the loop of \<^verbatim>\<open>Activate\<close>, and a failing \<^verbatim>\<open>TriggerCheckpoint\<close> goroutine.\<close>

datatype co_event = CTick int | CSignal Signal | CTriggerFailed int | CDone

fun co_step ::
  "(int \<Rightarrow> 's \<Rightarrow> string option \<times> 's) \<Rightarrow> ('s \<Rightarrow> 's) \<Rightarrow> co_event \<Rightarrow> 's Coordinator \<Rightarrow> 's Coordinator" where
  "co_step save clean (CTick n) c =
     (if \<not> co_running c then c
      else let checkpoint = newPendingCheckpoint n (co_tasksToWaitFor c);
               c1 = c\<lparr>co_pendingCheckpoints := AList.update n checkpoint (co_pendingCheckpoints c),
                      co_started := co_started c @ map (\<lambda>t. (t, n)) (co_tasksToTrigger c),
                      co_toBeClean := Suc (co_toBeClean c)\<rparr>
           in if co_toBeClean c1 \<ge> co_cleanThreshold c1
              then c1\<lparr>co_store := clean (co_store c1), co_toBeClean := 0\<rparr> else c1)"
| "co_step save clean (CSignal s) c =
     (if \<not> co_running c then c
      else case sMessage s of
        STOP \<Rightarrow> c\<lparr>co_running := False\<rparr>
      | ACK \<Rightarrow>
          (case map_of (co_pendingCheckpoints c) (CheckpointId s) of
             None \<Rightarrow> c
           | Some cp \<Rightarrow>
               (let cp1 = pc_ack (OpId s) cp;
                    c1 = c\<lparr>co_pendingCheckpoints := AList.update (CheckpointId s) cp1 (co_pendingCheckpoints c)\<rparr>
                in if isFullyAck cp1 then co_complete save (CheckpointId s) c1 else c1))
      | DEC \<Rightarrow> co_cancel (CheckpointId s) c)"
| "co_step save clean (CTriggerFailed n) c = co_cancel n c"
| "co_step save clean CDone c = c\<lparr>co_running := False\<rparr>"

fun co_run ::
  "(int \<Rightarrow> 's \<Rightarrow> string option \<times> 's) \<Rightarrow> ('s \<Rightarrow> 's) \<Rightarrow> co_event list \<Rightarrow> 's Coordinator \<Rightarrow> 's Coordinator" where
  "co_run save clean [] c = c"
| "co_run save clean (e # es) c = co_run save clean es (co_step save clean e c)"

section \<open>Coordinator: invariant\<close>

text \<open>A store that also records the checkpoints it is asked to save.\<close>

definition rec_save ::
  "(int \<Rightarrow> 's \<Rightarrow> string option \<times> 's) \<Rightarrow> int \<Rightarrow> 's \<times> int list \<Rightarrow> string option \<times> 's \<times> int list" where
  "rec_save save cid s = (case save cid (fst s) of (err, st) \<Rightarrow> (err, st, snd s @ [cid]))"

definition acked :: "co_event list \<Rightarrow> string \<Rightarrow> int \<Rightarrow> bool" where
  "acked es t cid = list_ex (\<lambda>e. case e of
     CSignal s \<Rightarrow> sMessage s = ACK \<and> OpId s = t \<and> CheckpointId s = cid | _ \<Rightarrow> False) es"

fun ticks :: "co_event list \<Rightarrow> int list" where
  "ticks [] = []"
| "ticks (CTick n # es) = n # ticks es"
| "ticks (_ # es) = ticks es"

lemma acked_append [simp]: "acked (es @ fs) t cid \<longleftrightarrow> acked es t cid \<or> acked fs t cid"
  by (simp add: acked_def)

definition pc_ok :: "co_event list \<Rightarrow> string set \<Rightarrow> int \<Rightarrow> pendingCheckpoint \<Rightarrow> bool" where
  "pc_ok hist tasks cid pc \<longleftrightarrow> pc_checkpointId pc = cid \<and> \<not> pc_isDiscarded pc \<and>
     (\<forall>t \<in> tasks. t \<in> fst ` set (pc_notYetAckTasks pc) \<or> acked hist t cid)"

text \<open>
  The invariant after the events \<open>hist\<close>, with the events \<open>es\<close> to come. \<open>co_rel\<close> is its part on plain sets: \<open>T\<close> the ticks to come,
  \<open>W\<close> the tasks, \<open>P\<close> the pending checkpoints, \<open>L\<close> the checkpoints given to the store, \<open>C\<close> the completed ones.
\<close>

definition co_rel :: "co_event list \<Rightarrow> int set \<Rightarrow> string set \<Rightarrow> (int \<times> pendingCheckpoint) set \<Rightarrow> int set \<Rightarrow> int set \<Rightarrow> bool" where
  "co_rel hist T W P L C \<longleftrightarrow>
     (\<forall>p \<in> P. pc_ok hist W (fst p) (snd p) \<and> (\<forall>n \<in> T. fst p < n)) \<and>
     (\<forall>k \<in> L. \<forall>t \<in> W. acked hist t k) \<and> C \<subseteq> L \<and>
     (\<forall>k \<in> C. (\<forall>p \<in> P. k < fst p) \<and> (\<forall>n \<in> T. k < n))"

definition co_inv :: "co_event list \<Rightarrow> co_event list \<Rightarrow> ('s \<times> int list) Coordinator \<Rightarrow> bool" where
  "co_inv hist es c \<longleftrightarrow>
     co_rel hist (set (ticks es)) (set (co_tasksToWaitFor c)) (set (co_pendingCheckpoints c)) (set (snd (co_store c)))
       (set (cs_checkpoints (co_completedCheckpoints c))) \<and>
     length (cs_checkpoints (co_completedCheckpoints c)) \<le> cs_maxNum (co_completedCheckpoints c) \<and>
     sorted_wrt (<) (cs_checkpoints (co_completedCheckpoints c))"

lemma fold_update_keys: "fst ` set (fold (\<lambda>r m. AList.update r True m) ts m) = set ts \<union> fst ` set m"
  by (induction ts arbitrary: m) (auto simp: fst_set_update)

lemma pc_ok_new: "pc_ok hist (set tasks) n (newPendingCheckpoint n tasks)"
  by (simp add: pc_ok_def newPendingCheckpoint_def fold_update_keys)

lemma pc_ok_mono: "pc_ok hist tasks cid pc \<Longrightarrow> pc_ok (hist @ es) tasks cid pc"
  by (auto simp: pc_ok_def)

lemma pc_ok_ack:
  assumes "pc_ok hist tasks (CheckpointId s) pc" "sMessage s = ACK"
  shows "pc_ok (hist @ [CSignal s]) tasks (CheckpointId s) (pc_ack (OpId s) pc)"
  using assms by (auto simp: pc_ok_def pc_ack_def fst_set_delete acked_def)

lemma pc_ok_full: "pc_ok hist tasks cid pc \<Longrightarrow> isFullyAck pc \<Longrightarrow> t \<in> tasks \<Longrightarrow> acked hist t cid"
  by (auto simp: pc_ok_def isFullyAck_def)

lemma set_update_subset: "set (AList.update k v m) \<subseteq> insert (k, v) (set m)"
  by (induction m) auto

lemma set_delete_subset: "set (AList.delete k m) \<subseteq> set m"
  by (auto simp: AList.delete_eq)

lemma co_rel_mono:
  assumes "co_rel hist T W P L C" "T' \<subseteq> T" "P' \<subseteq> P"
  shows "co_rel (hist @ hs) T' W P' L C"
  using assms unfolding co_rel_def by (meson acked_append pc_ok_mono subset_iff)

lemma co_rel_put:
  "co_rel hist T W P L C \<Longrightarrow> pc_ok hist W n pc \<Longrightarrow> \<forall>k \<in> C. k < n \<Longrightarrow> \<forall>k \<in> T. n < k \<Longrightarrow> co_rel hist T W (insert (n, pc) P) L C"
  unfolding co_rel_def by simp

lemma co_rel_saved:
  assumes "co_rel hist T W P L C" "(n, pc) \<in> P" "isFullyAck pc"
  shows "co_rel hist T W P (insert n L) C" "\<forall>k \<in> C. k < n" "\<forall>k \<in> T. n < k"
  using assms pc_ok_full unfolding co_rel_def by fastforce+

lemma co_rel_completed:
  assumes "co_rel hist T W P L C" "n \<in> L" "\<forall>k \<in> T. n < k" "\<forall>p \<in> P. n < fst p" "C' \<subseteq> insert n C"
  shows "co_rel hist T W P L C'"
  using assms unfolding co_rel_def by blast

lemma cs_add_sorted:
  assumes "sorted_wrt (<) (cs_checkpoints s)" "\<forall>k \<in> set (cs_checkpoints s). k < c"
    and "length (cs_checkpoints s) \<le> cs_maxNum s"
  shows "sorted_wrt (<) (cs_checkpoints (cs_add c s))" "cs_maxNum (cs_add c s) = cs_maxNum s"
    "length (cs_checkpoints (cs_add c s)) \<le> cs_maxNum s"
    "set (cs_checkpoints (cs_add c s)) \<subseteq> insert c (set (cs_checkpoints s))"
proof -
  have "sorted_wrt (<) (cs_checkpoints s @ [c])"
    using assms by (simp add: sorted_wrt_append)
  from sorted_wrt_drop [OF this, of 1] this show "sorted_wrt (<) (cs_checkpoints (cs_add c s))"
    by (simp add: cs_add_def Let_def)
qed (use assms(3) in \<open>auto simp: cs_add_def Let_def dest: in_set_dropD\<close>)

lemma co_inv_complete:
  assumes inv: "co_inv hist es c" and cp: "map_of (co_pendingCheckpoints c) cid = Some cp" "isFullyAck cp"
  shows "co_inv hist es (co_complete (rec_save save) cid c)"
proof -
  obtain err st where sv: "save cid (fst (co_store c)) = (err, st)"
    by force
  let ?p = "filter (\<lambda>(k, cp). \<not> k < cid) (AList.delete cid (co_pendingCheckpoints c))"
  let ?P = "set (co_pendingCheckpoints c)" and ?C = "cs_checkpoints (co_completedCheckpoints c)"
  let ?L = "insert cid (set (snd (co_store c)))" and ?T = "set (ticks es)" and ?W = "set (co_tasksToWaitFor c)"
  have in_p: "(cid, cp) \<in> ?P"
    using cp(1) by (rule map_of_SomeD)
  have rel: "co_rel hist ?T ?W ?P (set (snd (co_store c))) (set ?C)"
    and l: "sorted_wrt (<) ?C" "length ?C \<le> cs_maxNum (co_completedCheckpoints c)"
    using inv by (auto simp: co_inv_def)
  note sv' = co_rel_saved [OF rel in_p cp(2)]
  note d = cs_add_sorted [OF l(1) sv'(2) l(2)]
  have p: "set ?p \<subseteq> ?P" "\<forall>p \<in> set ?p. cid < fst p"
    by (auto simp: AList.delete_eq)
  have "co_rel hist ?T ?W (set ?p) ?L (set ?C)"
    using co_rel_mono [OF sv'(1) subset_refl p(1), of "[]"] by simp
  from co_rel_completed [OF this _ sv'(3) p(2) d(4)]
  have "co_rel hist ?T ?W (set ?p) ?L (set (cs_checkpoints (cs_add cid (co_completedCheckpoints c))))"
    by simp
  moreover have "pc_finalize cp = cid"
    using rel in_p by (force simp: co_rel_def pc_ok_def pc_finalize_def)
  ultimately show ?thesis
    using sv'(1) d l cp(1) sv by (simp add: co_complete_def rec_save_def co_inv_def Let_def)
qed

lemma co_inv_later: "co_inv hist es c \<Longrightarrow> set (ticks fs) \<subseteq> set (ticks es) \<Longrightarrow> co_inv (hist @ hs) fs c"
  unfolding co_inv_def using co_rel_mono by blast

lemma co_inv_smaller:
  "co_inv hist es c \<Longrightarrow> set m \<subseteq> set (co_pendingCheckpoints c) \<Longrightarrow> co_inv hist es (c\<lparr>co_pendingCheckpoints := m\<rparr>)"
  using co_rel_mono [of hist "set (ticks es)" _ _ _ _ "set (ticks es)" "set m" "[]"] by (auto simp: co_inv_def)

lemma co_inv_put:
  assumes "co_inv hist es c" "pc_ok hist (set (co_tasksToWaitFor c)) n pc"
    and "\<forall>k \<in> set (cs_checkpoints (co_completedCheckpoints c)). k < n" "\<forall>k \<in> set (ticks es). n < k"
  shows "co_inv hist es (c\<lparr>co_pendingCheckpoints := AList.update n pc (co_pendingCheckpoints c)\<rparr>)"
proof -
  have "co_inv hist es (c\<lparr>co_pendingCheckpoints := (n, pc) # co_pendingCheckpoints c\<rparr>)"
    using assms co_rel_put by (simp add: co_inv_def)
  from co_inv_smaller [OF this, of "AList.update n pc (co_pendingCheckpoints c)"] show ?thesis
    using set_update_subset [of n pc "co_pendingCheckpoints c"] by simp
qed

lemma co_inv_ack:
  assumes inv: "co_inv hist es c" and s: "sMessage s = ACK" and cp: "map_of (co_pendingCheckpoints c) (CheckpointId s) = Some cp"
  shows "co_inv (hist @ [CSignal s]) es
    (c\<lparr>co_pendingCheckpoints := AList.update (CheckpointId s) (pc_ack (OpId s) cp) (co_pendingCheckpoints c)\<rparr>)"
proof (rule co_inv_put)
  show "co_inv (hist @ [CSignal s]) es c"
    using co_inv_later [OF inv] by simp
  have "(CheckpointId s, cp) \<in> set (co_pendingCheckpoints c)"
    using cp by (rule map_of_SomeD)
  then show "pc_ok (hist @ [CSignal s]) (set (co_tasksToWaitFor c)) (CheckpointId s) (pc_ack (OpId s) cp)"
    and "\<forall>k \<in> set (cs_checkpoints (co_completedCheckpoints c)). k < CheckpointId s"
    and "\<forall>k \<in> set (ticks es). CheckpointId s < k"
    using inv s by (force simp: co_inv_def co_rel_def intro!: pc_ok_ack)+
qed

lemma co_inv_step:
  assumes inv: "co_inv hist (e # es) c" and srt: "sorted_wrt (<) (ticks (e # es))"
  shows "co_inv (hist @ [e]) es (co_step (rec_save save) (apfst clean) e c)"
proof (cases e)
  case (CTick n)
  have "co_inv (hist @ [e]) es c"
    using co_inv_later [OF inv, of es] CTick by auto
  moreover have "\<forall>k \<in> set (cs_checkpoints (co_completedCheckpoints c)). k < n"
    using inv by (simp add: co_inv_def co_rel_def CTick)
  moreover have "\<forall>k \<in> set (ticks es). n < k"
    using srt CTick by simp
  ultimately have "co_inv (hist @ [e]) es
     (c\<lparr>co_pendingCheckpoints := AList.update n (newPendingCheckpoint n (co_tasksToWaitFor c)) (co_pendingCheckpoints c)\<rparr>)"
    using co_inv_put pc_ok_new by blast
  then show ?thesis
    using \<open>co_inv (hist @ [e]) es c\<close> by (auto simp: CTick co_inv_def Let_def)
next
  case (CSignal s)
  have later: "co_inv (hist @ [e]) es c"
    using co_inv_later [OF inv, of es] CSignal by auto
  have here: "co_inv hist es c"
    using co_inv_later [OF inv, of es "[]"] CSignal by simp
  show ?thesis
  proof (cases "sMessage s")
    case ACK
    then show ?thesis
      using later co_inv_ack [OF here ACK]
      by (auto simp: CSignal Let_def intro!: co_inv_complete split: option.splits)
  next
    case DEC
    then show ?thesis
      using later co_inv_smaller [OF later set_delete_subset] by (simp add: CSignal co_cancel_def)
  qed (use later in \<open>simp add: CSignal co_inv_def\<close>)
next
  case (CTriggerFailed n)
  have "co_inv (hist @ [e]) es c"
    using co_inv_later [OF inv, of es] CTriggerFailed by auto
  from co_inv_smaller [OF this set_delete_subset] show ?thesis
    by (simp add: CTriggerFailed co_cancel_def)
next
  case CDone
  then show ?thesis
    using co_inv_later [OF inv, of es "[e]"] by (simp add: co_inv_def)
qed

lemma co_inv_run:
  assumes "co_inv hist es c" "sorted_wrt (<) (ticks es)"
  shows "co_inv (hist @ es) [] (co_run (rec_save save) (apfst clean) es c)"
  using assms
proof (induction es arbitrary: hist c)
  case (Cons e es)
  have "sorted_wrt (<) (ticks es)"
    using Cons(3) by (cases e) auto
  from Cons(1) [OF co_inv_step [OF Cons(2,3)] this] show ?case
    by simp
qed simp

lemma co_step_tasks: "co_tasksToWaitFor (co_step save clean e c) = co_tasksToWaitFor c"
  "cs_maxNum (co_completedCheckpoints (co_step save clean e c)) = cs_maxNum (co_completedCheckpoints c)"
  by (cases e; auto simp: Let_def co_cancel_def co_complete_def cs_add_def split: option.splits prod.splits msg_kind.splits)+

lemma co_run_tasks: "co_tasksToWaitFor (co_run save clean es c) = co_tasksToWaitFor c"
  "cs_maxNum (co_completedCheckpoints (co_run save clean es c)) = cs_maxNum (co_completedCheckpoints c)"
  by (induction es arbitrary: c) (simp_all add: co_step_tasks)

text \<open>
  (C7) The coordinator completes only acknowledged checkpoints. For any interleaving of ticks (with increasing times), acknowledgements, declines, failed
  triggers, stops, and successful or failing saves: a checkpoint that the coordinator asks the store to save has been acknowledged by every source, operator and sink; the completed
  checkpoints are among them, in increasing order and at most three, and every checkpoint still pending is newer than all of them.
\<close>

theorem coordinator_completes_acked:
  assumes "sorted_wrt (<) (ticks es)"
    and "co = snd (NewCoordinator re sources operators sinks qos (st, []) interval)"
    and "c = co_run (rec_save save) (apfst clean) es co"
  shows "(\<forall>k \<in> set (snd (co_store c)). \<forall>t \<in> set (sources @ map fst operators @ map fst sinks). acked es t k) \<and>
    set (cs_checkpoints (co_completedCheckpoints c)) \<subseteq> set (snd (co_store c)) \<and>
    sorted_wrt (<) (cs_checkpoints (co_completedCheckpoints c)) \<and>
    length (cs_checkpoints (co_completedCheckpoints c)) \<le> 3 \<and>
    (\<forall>k \<in> set (cs_checkpoints (co_completedCheckpoints c)). \<forall>p \<in> set (co_pendingCheckpoints c). k < fst p)"
proof -
  have "co_inv [] es co"
    by (simp add: assms(2) NewCoordinator_def co_inv_def co_rel_def)
  moreover have "co_tasksToWaitFor c = sources @ map fst operators @ map fst sinks"
    "cs_maxNum (co_completedCheckpoints c) = 3"
    by (simp_all add: assms(3) co_run_tasks) (simp_all add: assms(2) NewCoordinator_def)
  ultimately show ?thesis
    using co_inv_run [OF _ assms(1), of "[]" co save clean] by (simp add: assms(3) [symmetric] co_inv_def co_rel_def)
qed

theorem coordinator_completes_acked_witness:
  "let ack = (\<lambda>t. CSignal \<lparr>CheckpointId = 7, OpId = t, sMessage = ACK\<rparr>);
       es = [CTick 7, ack ''s'', ack ''f'', ack ''k''];
       c = co_run (rec_save (\<lambda>n s. (None, s))) (apfst id) es
         (snd (NewCoordinator (\<lambda>_. ()) [''s''] [(''f'', 1)] [(''k'', 1)] AtLeastOnce ((), []) 1000 ::
           (string \<times> (unit, unit) handler option) list \<times> (unit \<times> int list) Coordinator))
   in cs_checkpoints (co_completedCheckpoints c) = [7] \<and> acked es ''f'' 7"
proof -
  let ?ack = "\<lambda>t. CSignal \<lparr>CheckpointId = 7, OpId = t, sMessage = ACK\<rparr>"
  let ?es = "[CTick 7, ?ack ''s'', ?ack ''f'', ?ack ''k'']"
  let ?co = "snd (NewCoordinator (\<lambda>_. ()) [''s''] [(''f'', 1)] [(''k'', 1)] AtLeastOnce ((), []) 1000 ::
    (string \<times> (unit, unit) handler option) list \<times> (unit \<times> int list) Coordinator)"
  let ?c = "co_run (rec_save (\<lambda>n s. (None, s))) (apfst id) ?es ?co"
  have c: "cs_checkpoints (co_completedCheckpoints ?c) = [7]"
    by (simp add: NewCoordinator_def newPendingCheckpoint_def pc_ack_def isFullyAck_def co_complete_def rec_save_def
        cs_add_def pc_finalize_def)
  with coordinator_completes_acked [of ?es ?co "\<lambda>_. ()" "[''s'']" "[(''f'', 1)]" "[(''k'', 1)]" AtLeastOnce "()" 1000 ?c
      "\<lambda>n s. (None, s)" id]
  show ?thesis
    by (simp only: Let_def) (simp add: NewCoordinator_def)
qed

lemma cs_add_last: "0 < cs_maxNum s \<Longrightarrow> cs_getLatest (cs_add c s) = Some c"
  by (auto simp: cs_getLatest_def cs_add_def Let_def last_drop)

abbreviation ack_of :: "int \<Rightarrow> string \<Rightarrow> co_event" where
  "ack_of n t \<equiv> CSignal \<lparr>CheckpointId = n, OpId = t, sMessage = ACK\<rparr>"

lemma co_run_acks:
  assumes "map_of (co_pendingCheckpoints c) n = Some cp" "\<not> pc_isDiscarded cp" "pc_checkpointId cp = n"
    and "fst ` set (pc_notYetAckTasks cp) = set xs" "distinct xs" "xs \<noteq> []" "co_running c"
    and "\<And>s. fst (save n s) = None" "0 < cs_maxNum (co_completedCheckpoints c)"
  shows "cs_getLatest (co_completedCheckpoints (co_run save clean (map (ack_of n) xs) c)) = Some n \<and>
    (\<forall>p \<in> set (co_pendingCheckpoints (co_run save clean (map (ack_of n) xs) c)). n < fst p)"
  using assms
proof (induction xs arbitrary: c cp)
  case (Cons x xs)
  let ?cp = "pc_ack x cp"
  let ?c = "c\<lparr>co_pendingCheckpoints := AList.update n ?cp (co_pendingCheckpoints c)\<rparr>"
  have keys: "fst ` set (pc_notYetAckTasks ?cp) = set xs" "\<not> pc_isDiscarded ?cp" "pc_checkpointId ?cp = n"
    using Cons(3-6) by (auto simp: pc_ack_def fst_set_delete)
  show ?case
  proof (cases "xs = []")
    case True
    then have full: "isFullyAck ?cp"
      using keys by (simp add: isFullyAck_def)
    obtain st where st: "save n (co_store c) = (None, st)"
      using Cons(9) [of "co_store c"] by (metis prod.collapse)
    have "co_run save clean (map (ack_of n) (x # xs)) c = co_complete save n ?c"
      using Cons(2,8) True full by (simp add: Let_def)
    then show ?thesis
      using st keys(3) cs_add_last Cons(10) by (auto simp: co_complete_def pc_finalize_def AList.delete_eq Let_def)
  next
    case False
    then have "\<not> isFullyAck ?cp"
      using keys by (auto simp: isFullyAck_def)
    then have "co_run save clean (map (ack_of n) (x # xs)) c = co_run save clean (map (ack_of n) xs) ?c"
      using Cons(2,8) by (simp add: Let_def)
    then show ?thesis
      using Cons(1) [of ?c ?cp] keys Cons(6,8,9,10) False by simp
  qed
qed simp



end
