(* ===== verification/SinkCache.thy ===== *)
theory SinkCache
  imports Prelude
begin

text \<open>
  The cache in front of a sink (\<^verbatim>\<open>internal/topo/node/sink_cache.go\<close>) and the sending of
  cached tuples (\<^verbatim>\<open>getOutData\<close>, \<^verbatim>\<open>doCollect\<close>, \<^verbatim>\<open>doCollectCacheTuple\<close> of \<^verbatim>\<open>sink_node.go\<close>).

  The two loops are step functions over their events. The channel \<^verbatim>\<open>Out\<close> is the list of the tuples sent so far;
  the store is the queue saved under the cache's key, if any. What the key-value store answers is part of the event
  of the saving goroutine. \<open>Tail\<close> counts tuples and is an \<open>int\<close> that a run does not bring to its limit.
\<close>

section \<open>Linked queue\<close>

record 'a LinkedQueue =
  lq_Data :: "(int \<times> 'a) list"
  lq_Tail :: int

definition lq_append :: "'a \<Rightarrow> 'a LinkedQueue \<Rightarrow> 'a LinkedQueue" where
  "lq_append item l = l\<lparr>lq_Data := AList.update (lq_Tail l) item (lq_Data l), lq_Tail := lq_Tail l + 1\<rparr>"

definition lq_delete :: "int \<Rightarrow> 'a LinkedQueue \<Rightarrow> 'a LinkedQueue" where
  "lq_delete index l = l\<lparr>lq_Data := AList.delete index (lq_Data l)\<rparr>"

definition lq_reset :: "'a LinkedQueue \<Rightarrow> 'a LinkedQueue" where
  "lq_reset l = l\<lparr>lq_Tail := 0\<rparr>"

definition lq_length :: "'a LinkedQueue \<Rightarrow> int" where
  "lq_length l = int (length (lq_Data l))"

definition lq_clone :: "'a LinkedQueue \<Rightarrow> 'a LinkedQueue" where
  "lq_clone l = \<lparr>lq_Data = fold (\<lambda>(k, v) m. AList.update k v m) (lq_Data l) [], lq_Tail = lq_Tail l\<rparr>"

section \<open>Cache\<close>

record 'a CacheTuple =
  ct_index :: int
  ct_data :: 'a

record sink_conf =
  CacheThreshold :: int
  CacheTriggerCount :: int

record 'a Cache =
  ca_pending :: "'a LinkedQueue"
  ca_changed :: bool
  ca_tcount :: int
  ca_Out :: "'a CacheTuple list"
  ca_saving :: "'a LinkedQueue list"
  ca_store :: "'a LinkedQueue option"
  ca_errors :: "string list"
  ca_running :: bool

definition empty_queue :: "'a LinkedQueue" where
  "empty_queue = \<lparr>lq_Data = [], lq_Tail = 0\<rparr>"

text \<open>\<^verbatim>\<open>loadCache\<close>, with the queue found in the store: its tuples are sent in the order of their indexes.\<close>

definition loadCache :: "'a Cache \<Rightarrow> 'a Cache" where
  "loadCache c = (case ca_store c of
     None \<Rightarrow> c
   | Some mt \<Rightarrow> c\<lparr>ca_pending := mt, ca_changed := True,
       ca_Out := ca_Out c @
         map (\<lambda>k. \<lparr>ct_index = k, ct_data = the (map_of (lq_Data mt) k)\<rparr>) (sort (map fst (lq_Data mt)))\<rparr>)"

definition initStore :: "'a LinkedQueue option \<Rightarrow> 'a Cache" where
  "initStore saved = loadCache \<lparr>ca_pending = empty_queue, ca_changed = False, ca_tcount = 0, ca_Out = [],
     ca_saving = [], ca_store = saved, ca_errors = [], ca_running = True\<rparr>"

text \<open>
  \<^verbatim>\<open>saveCache\<close>: the answers of the store are whether it opens, whether it opens after it has been cleaned, and the error of \<^verbatim>\<open>Set\<close>.
\<close>

record store_answers =
  sa_open :: bool
  sa_reopen :: bool
  sa_set :: bool

definition saveCache ::
  "store_answers \<Rightarrow> 'a LinkedQueue \<Rightarrow> 'a LinkedQueue option \<Rightarrow> string option \<times> 'a LinkedQueue option" where
  "saveCache a p store =
     (let store1 = (if sa_open a then store else None) in
      if \<not> sa_open a \<and> \<not> sa_reopen a then (Some ''open'', store1)
      else if sa_set a then (None, Some p) else (Some ''set'', store1))"

definition push_item :: "'a \<Rightarrow> 'a Cache \<Rightarrow> 'a Cache" where
  "push_item item c =
     (let index = lq_Tail (ca_pending c) in
      c\<lparr>ca_pending := lq_append item (ca_pending c),
        ca_Out := ca_Out c @ [\<lparr>ct_index = index, ct_data = item\<rparr>],
        ca_changed := True\<rparr>)"

definition complete_item :: "int \<Rightarrow> 'a Cache \<Rightarrow> 'a Cache" where
  "complete_item index c = c\<lparr>ca_pending := lq_delete index (ca_pending c), ca_changed := True\<rparr>"

text \<open>
  The end of a saving goroutine. Several may be under way, and the scheduler chooses which one runs: \<open>i\<close> is its position among the clones not yet saved.
\<close>

definition finish_save :: "nat \<Rightarrow> store_answers \<Rightarrow> 'a Cache \<Rightarrow> 'a Cache" where
  "finish_save i a c =
     (if i < length (ca_saving c) then
        (case saveCache a (ca_saving c ! i) (ca_store c) of (err, st) \<Rightarrow>
           c\<lparr>ca_saving := take i (ca_saving c) @ drop (Suc i) (ca_saving c), ca_store := st,
             ca_errors := ca_errors c @ (case err of Some e \<Rightarrow> [e] | None \<Rightarrow> [])\<rparr>)
      else c)"

text \<open>The ticker case of \<^verbatim>\<open>timebasedRun\<close>.\<close>

definition ticker_case :: "sink_conf \<Rightarrow> 'a Cache \<Rightarrow> 'a Cache" where
  "ticker_case cfg c =
     (let tcount = ca_tcount c + 1;
          l = lq_length (ca_pending c);
          p = (if l = 0 then lq_reset (ca_pending c) else ca_pending c);
          c1 = c\<lparr>ca_pending := p\<rparr>;
          c2 = (if ca_changed c \<and> l > CacheThreshold cfg \<or> tcount = CacheTriggerCount cfg \<and> ca_changed c
                then c1\<lparr>ca_changed := False, ca_saving := ca_saving c @ [lq_clone p]\<rparr>
                else c1)
      in c2\<lparr>ca_tcount := (if tcount \<ge> CacheThreshold cfg then 0 else tcount)\<rparr>)"

datatype 'a time_event = TIn 'a | TComplete int | TTicker | TDone store_answers | TSaved nat store_answers

fun time_step :: "sink_conf \<Rightarrow> 'a time_event \<Rightarrow> 'a Cache \<Rightarrow> 'a Cache" where
  "time_step cfg (TIn item) c = (if ca_running c then push_item item c else c)"
| "time_step cfg (TComplete index) c = (if ca_running c then complete_item index c else c)"
| "time_step cfg TTicker c = (if ca_running c then ticker_case cfg c else c)"
| "time_step cfg (TDone a) c =
     (if ca_running c then c\<lparr>ca_store := snd (saveCache a (ca_pending c) (ca_store c)), ca_running := False\<rparr> else c)"
| "time_step cfg (TSaved i a) c = finish_save i a c"

fun timebasedRun :: "sink_conf \<Rightarrow> 'a time_event list \<Rightarrow> 'a Cache \<Rightarrow> 'a Cache" where
  "timebasedRun cfg [] c = c"
| "timebasedRun cfg (e # es) c = timebasedRun cfg es (time_step cfg e c)"

text \<open>\<^verbatim>\<open>checkpointbasedRun\<close>: a barrier is sent out with index 0 and not recorded; \<open>is_bar\<close> recognises one.\<close>

datatype 'a cp_event = KIn 'a | KComplete int | KTrigger | KDone | KSaved nat store_answers

fun cp_step :: "('a \<Rightarrow> bool) \<Rightarrow> 'a cp_event \<Rightarrow> 'a Cache \<Rightarrow> 'a Cache" where
  "cp_step is_bar (KIn item) c =
     (if \<not> ca_running c then c
      else if is_bar item then c\<lparr>ca_Out := ca_Out c @ [\<lparr>ct_index = 0, ct_data = item\<rparr>]\<rparr>
      else push_item item c)"
| "cp_step is_bar (KComplete index) c = (if ca_running c then complete_item index c else c)"
| "cp_step is_bar KTrigger c =
     (if \<not> ca_running c then c
      else c\<lparr>ca_saving := (if ca_changed c then ca_saving c @ [lq_clone (ca_pending c)] else ca_saving c),
             ca_changed := False\<rparr>)"
| "cp_step is_bar KDone c = c\<lparr>ca_running := False\<rparr>"
| "cp_step is_bar (KSaved i a) c = finish_save i a c"

fun checkpointbasedRun :: "('a \<Rightarrow> bool) \<Rightarrow> 'a cp_event list \<Rightarrow> 'a Cache \<Rightarrow> 'a Cache" where
  "checkpointbasedRun is_bar [] c = c"
| "checkpointbasedRun is_bar (e # es) c = checkpointbasedRun is_bar es (cp_step is_bar e c)"

section \<open>Invariant and accounting\<close>

definition lq_inv :: "'a LinkedQueue \<Rightarrow> bool" where
  "lq_inv q \<longleftrightarrow> distinct (map fst (lq_Data q)) \<and> (\<forall>k \<in> fst ` set (lq_Data q). 0 \<le> k \<and> k < lq_Tail q) \<and> 0 \<le> lq_Tail q"

definition lq_items :: "'a LinkedQueue \<Rightarrow> 'a list" where
  "lq_items q = map snd (lq_Data q)"

definition lq_lookup :: "int \<Rightarrow> 'a LinkedQueue \<Rightarrow> 'a list" where
  "lq_lookup i q = (case map_of (lq_Data q) i of Some x \<Rightarrow> [x] | None \<Rightarrow> [])"

lemma lq_inv_append:
  assumes "lq_inv q"
  shows "lq_inv (lq_append x q)" "lq_items (lq_append x q) = lq_items q @ [x]"
proof -
  have "lq_Tail q \<notin> fst ` set (lq_Data q)"
    using assms by (force simp: lq_inv_def)
  then show "lq_inv (lq_append x q)" "lq_items (lq_append x q) = lq_items q @ [x]"
    using assms by (fastforce simp: lq_inv_def lq_append_def lq_items_def update_fresh)+
qed

lemma adelete_mset:
  "distinct (map fst m) \<Longrightarrow>
    mset (map snd m) = mset (map snd (AList.delete k m)) + mset (case map_of m k of Some x \<Rightarrow> [x] | None \<Rightarrow> [])"
proof (induction m)
  case (Cons p m)
  obtain k1 v where p: "p = (k1, v)"
    by force
  show ?case
  proof (cases "k1 = k")
    case True
    then have "k \<notin> fst ` set m"
      using Cons(2) p by auto
    then have "AList.delete k m = m"
      by (induction m) auto
    with True show ?thesis
      by (simp add: p)
  next
    case False
    then show ?thesis
      using Cons p by simp
  qed
qed simp

lemma lq_inv_delete:
  assumes "lq_inv q"
  shows "lq_inv (lq_delete i q)" "mset (lq_items q) = mset (lq_items (lq_delete i q)) + mset (lq_lookup i q)"
  using assms adelete_mset [of "lq_Data q" i]
  by (auto simp: lq_inv_def lq_delete_def lq_items_def lq_lookup_def distinct_adelete fst_set_delete)

lemma lq_reset_empty: "lq_length q = 0 \<Longrightarrow> lq_inv (lq_reset q) \<and> lq_items (lq_reset q) = lq_items q"
  by (simp add: lq_length_def lq_inv_def lq_reset_def lq_items_def)

lemma fold_update_id: "distinct (map fst (m @ ms)) \<Longrightarrow> fold (\<lambda>(k, v) m. AList.update k v m) ms m = m @ ms"
  by (induction ms arbitrary: m) (auto simp: update_fresh)

lemma lq_clone_id: "lq_inv q \<Longrightarrow> lq_clone q = q"
  using fold_update_id [of "[]" "lq_Data q"] by (simp add: lq_clone_def lq_inv_def)

text \<open>
  What both loops promise about the pending queue, as an interface: each event keeps the queue well formed, and the queue changes exactly by the
  items the event takes in and by those it drops.
\<close>

fun tally :: "('e \<Rightarrow> 'c \<Rightarrow> 'a list) \<Rightarrow> ('e \<Rightarrow> 'c \<Rightarrow> 'c) \<Rightarrow> 'e list \<Rightarrow> 'c \<Rightarrow> 'a list" where
  "tally f step [] c = []"
| "tally f step (e # es) c = f e c @ tally f step es (step e c)"

locale cache_loop =
  fixes step :: "'e \<Rightarrow> 'c \<Rightarrow> 'c"
    and pend :: "'c \<Rightarrow> 'a LinkedQueue"
    and taken :: "'e \<Rightarrow> 'c \<Rightarrow> 'a list"
    and dropped :: "'e \<Rightarrow> 'c \<Rightarrow> 'a list"
  assumes step_inv: "lq_inv (pend c) \<Longrightarrow> lq_inv (pend (step e c))"
    and step_account: "lq_inv (pend c) \<Longrightarrow>
      mset (lq_items (pend c)) + mset (taken e c) = mset (lq_items (pend (step e c))) + mset (dropped e c)"
begin

lemma run_account:
  "lq_inv (pend c) \<Longrightarrow> lq_inv (pend (fold step es c)) \<and>
    mset (lq_items (pend c)) + mset (tally taken step es c) =
      mset (lq_items (pend (fold step es c))) + mset (tally dropped step es c)"
proof (induction es arbitrary: c)
  case (Cons e es)
  have s: "mset (lq_items (pend c)) + mset (taken e c) = mset (lq_items (pend (step e c))) + mset (dropped e c)"
    using step_account [OF Cons(2)] .
  have IH: "lq_inv (pend (fold step es (step e c)))"
    "mset (lq_items (pend (step e c))) + mset (tally taken step es (step e c)) =
      mset (lq_items (pend (fold step es (step e c)))) + mset (tally dropped step es (step e c))"
    using Cons(1) [OF step_inv [OF Cons(2)]] by auto
  have "mset (lq_items (pend c)) + mset (tally taken step (e # es) c) =
    mset (lq_items (pend (step e c))) + mset (tally taken step es (step e c)) + mset (dropped e c)"
    using s by (simp add: ac_simps)
  then show ?case
    using IH by (simp add: ac_simps)
qed simp

end

text \<open>The items an event of a loop takes in, and those it drops.\<close>

definition time_taken :: "'a time_event \<Rightarrow> 'a Cache \<Rightarrow> 'a list" where
  "time_taken e c = (case e of TIn x \<Rightarrow> if ca_running c then [x] else [] | _ \<Rightarrow> [])"

definition time_dropped :: "'a time_event \<Rightarrow> 'a Cache \<Rightarrow> 'a list" where
  "time_dropped e c = (case e of TComplete i \<Rightarrow> if ca_running c then lq_lookup i (ca_pending c) else [] | _ \<Rightarrow> [])"

definition cp_taken :: "('a \<Rightarrow> bool) \<Rightarrow> 'a cp_event \<Rightarrow> 'a Cache \<Rightarrow> 'a list" where
  "cp_taken is_bar e c = (case e of KIn x \<Rightarrow> if ca_running c \<and> \<not> is_bar x then [x] else [] | _ \<Rightarrow> [])"

definition cp_dropped :: "'a cp_event \<Rightarrow> 'a Cache \<Rightarrow> 'a list" where
  "cp_dropped e c = (case e of KComplete i \<Rightarrow> if ca_running c then lq_lookup i (ca_pending c) else [] | _ \<Rightarrow> [])"

lemmas step_defs = push_item_def complete_item_def ticker_case_def finish_save_def Let_def

interpretation tb: cache_loop "time_step cfg" ca_pending time_taken time_dropped
proof
  fix c :: "'a Cache" and e
  assume inv: "lq_inv (ca_pending c)"
  show "lq_inv (ca_pending (time_step cfg e c))"
    using inv lq_reset_empty [of "ca_pending c"] by (cases e) (auto simp: step_defs lq_inv_append lq_inv_delete split: prod.splits)
  show "mset (lq_items (ca_pending c)) + mset (time_taken e c) =
      mset (lq_items (ca_pending (time_step cfg e c))) + mset (time_dropped e c)"
    using inv lq_reset_empty [of "ca_pending c"]
    by (cases e) (auto simp: step_defs time_taken_def time_dropped_def lq_inv_append lq_inv_delete split: prod.splits)
qed

interpretation cb: cache_loop "cp_step is_bar" ca_pending "cp_taken is_bar" cp_dropped
proof
  fix c :: "'a Cache" and e
  assume inv: "lq_inv (ca_pending c)"
  show "lq_inv (ca_pending (cp_step is_bar e c))"
    using inv by (cases e) (auto simp: step_defs lq_inv_append lq_inv_delete split: prod.splits)
  show "mset (lq_items (ca_pending c)) + mset (cp_taken is_bar e c) =
      mset (lq_items (ca_pending (cp_step is_bar e c))) + mset (cp_dropped e c)"
    using inv by (cases e) (auto simp: step_defs cp_taken_def cp_dropped_def lq_inv_append lq_inv_delete split: prod.splits)
qed

lemma timebasedRun_fold: "timebasedRun cfg es c = fold (time_step cfg) es c"
  by (induction es arbitrary: c) auto

lemma checkpointbasedRun_fold: "checkpointbasedRun is_bar es c = fold (cp_step is_bar) es c"
  by (induction es arbitrary: c) auto

definition saved_queue :: "'a LinkedQueue option \<Rightarrow> 'a LinkedQueue" where
  "saved_queue s = (case s of None \<Rightarrow> empty_queue | Some q \<Rightarrow> q)"

lemma initStore_pending: "ca_pending (initStore saved) = saved_queue saved"
  by (simp add: initStore_def loadCache_def saved_queue_def split: option.splits)

lemma initStore_Out:
  assumes "lq_inv (saved_queue saved)"
  shows "sorted_wrt (<) (map ct_index (ca_Out (initStore saved))) \<and>
    mset (map ct_data (ca_Out (initStore saved))) = mset (lq_items (saved_queue saved))"
proof (cases saved)
  case None
  then show ?thesis
    by (simp add: initStore_def loadCache_def saved_queue_def empty_queue_def lq_items_def)
next
  case (Some q)
  let ?f = "\<lambda>k. the (map_of (lq_Data q) k)"
  have d: "distinct (map fst (lq_Data q))"
    using assms by (simp add: Some saved_queue_def lq_inv_def)
  have "map ?f (map fst (lq_Data q)) = map snd (lq_Data q)"
    using d by (auto simp: map_of_is_SomeI)
  then have "image_mset ?f (mset (sort (map fst (lq_Data q)))) = mset (lq_items q)"
    by (metis lq_items_def mset_map mset_sort)
  moreover have "sorted_wrt (<) (sort (map fst (lq_Data q)))"
    using d by (simp add: strict_sorted_iff)
  ultimately show ?thesis
    by (simp add: Some initStore_def loadCache_def saved_queue_def comp_def)
qed



lemma tcount_bound:
  assumes "0 < CacheThreshold cfg"
  shows "0 \<le> ca_tcount (timebasedRun cfg es (initStore saved)) \<and>
    ca_tcount (timebasedRun cfg es (initStore saved)) < CacheThreshold cfg"
proof -
  have "0 \<le> ca_tcount c \<and> ca_tcount c < CacheThreshold cfg \<Longrightarrow>
    0 \<le> ca_tcount (timebasedRun cfg es c) \<and> ca_tcount (timebasedRun cfg es c) < CacheThreshold cfg" for c :: "'a Cache"
  proof (induction es arbitrary: c)
    case (Cons e es)
    have "0 \<le> ca_tcount (time_step cfg e c) \<and> ca_tcount (time_step cfg e c) < CacheThreshold cfg"
      using Cons(2) assms by (cases e) (auto simp: step_defs split: prod.splits)
    from Cons(1) [OF this] show ?case
      by simp
  qed simp
  then show ?thesis
    using assms by (simp add: initStore_def loadCache_def split: option.splits)
qed

text \<open>
  The tick counter is reset when it reaches \<^verbatim>\<open>CacheThreshold\<close>, not \<^verbatim>\<open>CacheTriggerCount\<close>. When the threshold is the smaller one, as in the default configuration
  (10 and 15), the counter never reaches the trigger count: whatever happened before, a tick saves a changed cache only if it holds more tuples than the threshold,
  which is the case the trigger count is there to avoid.
\<close>

theorem cache_trigger_count_dead:
  assumes "0 < CacheThreshold cfg" "CacheThreshold cfg < CacheTriggerCount cfg" "c = timebasedRun cfg es (initStore saved)"
    and "ca_saving (ticker_case cfg c) \<noteq> ca_saving c"
  shows "lq_length (ca_pending c) > CacheThreshold cfg"
  using assms(2,4) tcount_bound [OF assms(1), of es saved] by (auto simp: assms(3) step_defs split: if_splits)

text \<open>A changed cache with one tuple is not saved by any of the first 100 ticks; eleven tuples are, by the first.\<close>

theorem cache_trigger_count_dead_witness:
  "let cfg = \<lparr>CacheThreshold = 10, CacheTriggerCount = 15\<rparr>;
       c = timebasedRun cfg (map TIn [1..<12]) (initStore None)
   in ca_saving (ticker_case cfg c) \<noteq> ca_saving c \<and> lq_length (ca_pending c) > CacheThreshold cfg"
proof -
  let ?cfg = "\<lparr>CacheThreshold = 10, CacheTriggerCount = 15\<rparr>"
  let ?c = "timebasedRun ?cfg (map TIn [1..<12]) (initStore None)"
  have "ca_saving (ticker_case ?cfg ?c) \<noteq> ca_saving ?c"
    by (simp add: upt_rec step_defs initStore_def loadCache_def empty_queue_def lq_append_def lq_length_def)
  then show ?thesis
    using cache_trigger_count_dead [of ?cfg ?c "map TIn [1..<12]" None] by (simp only: Let_def) simp
qed

text \<open> Saves race. A tick starts to save a queue, a tuple \<open>b\<close> arrives, the rule is stopped and the whole queue is saved; when the goroutine of the tick runs only
  then, it overwrites the newer queue with the older one, and after the restart \<open>b\<close> is lost although it was never completed.
\<close>

theorem cache_save_race:
  "let cfg = \<lparr>CacheThreshold = 0, CacheTriggerCount = 1\<rparr>; ok = \<lparr>sa_open = True, sa_reopen = True, sa_set = True\<rparr>;
       c = timebasedRun cfg [TIn ''a'', TTicker, TIn ''b'', TDone ok] (initStore None)
   in map ct_data (ca_Out (initStore (ca_store c))) = [''a'', ''b''] \<and>
      map ct_data (ca_Out (initStore (ca_store (time_step cfg (TSaved 0 ok) c)))) = [''a'']"
  by (simp add: step_defs initStore_def loadCache_def empty_queue_def lq_append_def lq_length_def lq_clone_def saveCache_def)

section \<open>Sending (sink\_node.go)\<close>

text \<open>
  A tuple of a sink is the bytes of a JSON array, an error (its message) or something else (its text under \<^verbatim>\<open>%#v\<close>).
  The JSON decoder and encoder and the parsed template are arguments; \<open>None\<close> is an error of theirs.
\<close>

datatype sink_item = IBytes string | IError string | IOther string

record 'r codec =
  unmarshal :: "string \<Rightarrow> 'r list option"
  marshal :: "'r \<Rightarrow> string option"
  tp_list :: "('r list \<Rightarrow> string option) option"
  tp_one :: "('r \<Rightarrow> string option) option"

definition extractInput :: "'r codec \<Rightarrow> string \<Rightarrow> 'r list option" where
  "extractInput cd v = unmarshal cd v"

text \<open>The loop over single records: the first failure discards everything.\<close>

fun single_loop :: "('r \<Rightarrow> string option) \<Rightarrow> 'r list \<Rightarrow> string list option" where
  "single_loop f [] = Some []"
| "single_loop f (r # rs) = (case f r of None \<Rightarrow> None | Some o1 \<Rightarrow> map_option ((#) o1) (single_loop f rs))"

text \<open>The first component counts the exceptions recorded.\<close>

definition getOutData :: "'r codec \<Rightarrow> bool \<Rightarrow> bool \<Rightarrow> sink_item \<Rightarrow> nat \<times> string list" where
  "getOutData cd omitIfEmpty sendSingle item = (case item of
     IBytes val \<Rightarrow>
       if omitIfEmpty \<and> val = ''[{}]'' then (0, [])
       else (case (if sendSingle \<or> tp_list cd \<noteq> None then extractInput cd val else Some []) of
         None \<Rightarrow> (1, [])
       | Some j \<Rightarrow>
           if \<not> sendSingle then
             (case tp_list cd of
                Some tp \<Rightarrow> (case tp j of None \<Rightarrow> (1, []) | Some output \<Rightarrow> (0, [output]))
              | None \<Rightarrow> (0, [val]))
           else (case single_loop (case tp_one cd of Some tp \<Rightarrow> tp | None \<Rightarrow> marshal cd) j of
                   None \<Rightarrow> (1, []) | Some os \<Rightarrow> (0, os)))
   | IError msg \<Rightarrow> (0, [''[{\"error\":\"'' @ msg @ ''\"}]''])
   | IOther txt \<Rightarrow> (0, [''[{\"error\":\"result is not a string but found '' @ txt @ ''\"}]'']))"

text \<open>
  Sending without a cache: what the sink accepts of the output. \<open>ok k\<close> tells whether the \<open>k\<close>-th call of \<^verbatim>\<open>Collect\<close> succeeds.
\<close>

fun doCollect :: "(nat \<Rightarrow> bool) \<Rightarrow> nat \<Rightarrow> string list \<Rightarrow> string list" where
  "doCollect ok k [] = []"
| "doCollect ok k (x # xs) = (if ok k then x # doCollect ok (Suc k) xs else doCollect ok (Suc k) xs)"

text \<open>
  Sending a cached tuple. \<open>stop k\<close> tells whether the context is done before attempt \<open>k\<close>, \<open>ready k\<close> whether the cache
  receives the completion after attempt \<open>k\<close> (it is dropped otherwise). \<open>retryCount\<close> is shared by all outputs of the tuple.
\<close>

record world =
  w_ok :: "nat \<Rightarrow> bool"
  w_stop :: "nat \<Rightarrow> bool"
  w_ready :: "nat \<Rightarrow> bool"

datatype outcome = Sent | GaveUp | Stopped

fun collect_one :: "world \<Rightarrow> int \<Rightarrow> nat \<Rightarrow> nat \<Rightarrow> outcome \<times> nat \<times> nat" where
  "collect_one w retryInterval retryCount k =
     (if w_stop w k then (Stopped, retryCount, k)
      else if w_ok w k then (Sent, retryCount, Suc k)
      else if retryInterval > 0 then
        (case retryCount of
           0 \<Rightarrow> (GaveUp, 0, Suc k)
         | Suc n \<Rightarrow> collect_one w retryInterval n (Suc k))
      else (GaveUp, retryCount, Suc k))"

declare collect_one.simps [simp del]

text \<open>The outputs sent, the completions received by the cache, and the number of attempts at the end.\<close>

fun doCollectCacheTuple ::
  "world \<Rightarrow> int \<Rightarrow> nat \<Rightarrow> int \<Rightarrow> nat \<Rightarrow> string list \<Rightarrow> string list \<times> int list \<times> nat" where
  "doCollectCacheTuple w retryInterval retryCount index k [] = ([], [], k)"
| "doCollectCacheTuple w retryInterval retryCount index k (x # xs) =
     (case collect_one w retryInterval retryCount k of (res, rc, k1) \<Rightarrow>
        (case res of
           Stopped \<Rightarrow> ([], [], k1)
         | GaveUp \<Rightarrow> doCollectCacheTuple w retryInterval rc index k1 xs
         | Sent \<Rightarrow> (case doCollectCacheTuple w retryInterval rc index k1 xs of (sent, sig, k2) \<Rightarrow>
             (x # sent, (if w_ready w k1 then index # sig else sig), k2))))"

lemma collect_one_attempts:
  "case collect_one w ri rc k of (res, rc', k') \<Rightarrow> k' + rc' \<le> k + rc + 1 \<and> k \<le> k'"
proof (induction rc arbitrary: k)
  case 0
  show ?case
    by (subst collect_one.simps) auto
next
  case (Suc rc)
  show ?case
    using Suc [of "Suc k"] by (subst collect_one.simps) (auto split: prod.splits)
qed

lemma doCollectCacheTuple_bounds:
  "case doCollectCacheTuple w ri rc i k outs of (sent, sig, k') \<Rightarrow>
    subseq sent outs \<and> set sig \<subseteq> {i} \<and> length sig \<le> length sent \<and> k' \<le> k + rc + length outs"
proof (induction outs arbitrary: rc k)
  case (Cons x xs)
  obtain res rc1 k1 where o: "collect_one w ri rc k = (res, rc1, k1)"
    by (metis prod_cases3)
  have "k1 + rc1 \<le> k + rc + 1"
    using collect_one_attempts [where w = w and ri = ri and rc = rc and k = k] o by simp
  then show ?case
    using Cons [where rc = rc1 and k = k1] o by (cases res) (auto split: prod.splits intro: list_emb_Cons)
qed simp

lemma doCollectCacheTuple_all:
  assumes "\<forall>j. w_ok w j \<and> w_ready w j \<and> \<not> w_stop w j"
  shows "doCollectCacheTuple w ri rc i k outs = (outs, replicate (length outs) i, k + length outs)"
  using assms by (induction outs arbitrary: k) (simp_all add: collect_one.simps)

text \<open>
  Sending a cached tuple terminates and completes it only after a success. Whatever the sink answers, there are at most as many attempts as outputs and retries together;
  what is sent is a subsequence of the outputs; the cache receives only the index of this tuple, and not more often than outputs were sent. If the sink
  accepts everything and the cache is ready, all outputs are sent in order and the tuple is completed once per output.
\<close>

theorem collect_cache_tuple:
  assumes "doCollectCacheTuple w retryInterval retryCount index 0 outs = (sent, sig, n)"
  shows "n \<le> retryCount + length outs \<and> subseq sent outs \<and> set sig \<subseteq> {index} \<and> length sig \<le> length sent \<and>
    ((\<forall>j. w_ok w j \<and> w_ready w j \<and> \<not> w_stop w j) \<longrightarrow> sent = outs \<and> sig = replicate (length outs) index)"
  using doCollectCacheTuple_bounds [where w = w and ri = retryInterval and rc = retryCount and i = index and k = 0 and outs = outs]
    doCollectCacheTuple_all [where w = w and ri = retryInterval and rc = retryCount and i = index and k = 0 and outs = outs] assms
  by auto

text \<open>The first attempt fails; with one retry both outputs are sent by the third.\<close>

theorem collect_cache_tuple_witness:
  "doCollectCacheTuple \<lparr>w_ok = (\<lambda>j. 0 < j), w_stop = (\<lambda>_. False), w_ready = (\<lambda>_. True)\<rparr> 1000 1 7 0 [''x'', ''y''] = ([''x'', ''y''], [7, 7], 3) \<and>
   3 \<le> (1 :: nat) + length [''x'', ''y'']"
proof -
  have "doCollectCacheTuple \<lparr>w_ok = (\<lambda>j. 0 < j), w_stop = (\<lambda>_. False), w_ready = (\<lambda>_. True)\<rparr> 1000 1 7 0 [''x'', ''y''] = ([''x'', ''y''], [7, 7], 3)"
    by (simp add: collect_one.simps)
  with collect_cache_tuple [OF this] show ?thesis
    by blast
qed

text \<open> A tuple with two outputs completes twice, and the index may have been given away in between: the first completion empties the queue, a tick resets the indexes,
  the next tuple \<open>b\<close> gets index 0 again, and the second completion of the first tuple removes \<open>b\<close>, which nobody has sent.
\<close>

theorem double_completion_drops_tuple:
  "let cfg = \<lparr>CacheThreshold = 10, CacheTriggerCount = 15\<rparr>;
       c = timebasedRun cfg [TIn ''a'', TComplete 0, TTicker, TIn ''b'', TComplete 0] (initStore None)
   in fst (snd (doCollectCacheTuple \<lparr>w_ok = (\<lambda>_. True), w_stop = (\<lambda>_. False), w_ready = (\<lambda>_. True)\<rparr> 1000 3 0 0 [''a1'', ''a2''])) = [0, 0] \<and>
      ca_Out c = [\<lparr>ct_index = 0, ct_data = ''a''\<rparr>, \<lparr>ct_index = 0, ct_data = ''b''\<rparr>] \<and> lq_items (ca_pending c) = []"
  by (simp add: collect_one.simps step_defs initStore_def loadCache_def empty_queue_def lq_append_def lq_delete_def lq_reset_def
      lq_length_def lq_items_def)

end
