(* ===== verification/Functions.thy ===== *)
theory Functions
  imports Operators Cast TimeFormat
begin

text \<open>
  The scalar functions of SQL: \<^verbatim>\<open>funcsMath.go\<close>, \<^verbatim>\<open>funcsStr.go\<close>, \<^verbatim>\<open>funcsMisc.go\<close>.

  A call returns a value and whether it succeeded, as in the code; \<open>None\<close> is a panic, also that of a missing argument. What the functions take from outside is the record
  \<open>fenv\<close>: \<open>fe_math\<close> the transcendental functions of \<^verbatim>\<open>math\<close> by their names in Go, \<open>fe_print\<close> what \<^verbatim>\<open>%v\<close> prints for values other than booleans, integers and strings, the regular
  expressions, the JSON path evaluator, hashes, the time, random numbers and UUIDs.
\<close>

record fenv =
  fe_math :: "string \<Rightarrow> f64 list \<Rightarrow> f64"
  fe_rand :: f64
  fe_print :: "val \<Rightarrow> string"
  fe_printg :: "f64 \<Rightarrow> string"                               \<comment> \<open>the verb \<^verbatim>\<open>%g\<close>\<close>
  fe_tp :: time_parse
  fe_tf :: "int \<Rightarrow> string \<Rightarrow> string"                       \<comment> \<open>\<^verbatim>\<open>time.Time.Format\<close>\<close>
  fe_match :: "string \<Rightarrow> string \<Rightarrow> (string + bool)"
  fe_replace :: "string \<Rightarrow> string \<Rightarrow> string \<Rightarrow> (string + string)"
  fe_find :: "string \<Rightarrow> string \<Rightarrow> (string + string)"
  fe_b64 :: "string \<Rightarrow> string"
  fe_hash :: "string \<Rightarrow> string \<Rightarrow> string"
  fe_uuid :: "string + string"
  fe_now :: int
  fe_json :: "string \<Rightarrow> val option"                           \<comment> \<open>\<^verbatim>\<open>json.Unmarshal\<close>\<close>
  fe_path :: "string \<Rightarrow> (string + (val \<Rightarrow> string + val))"   \<comment> \<open>a JSON path, compiled and applied\<close>

type_synonym call_result = "(val \<times> bool) option"

definition ok_call :: "val \<Rightarrow> call_result" where
  "ok_call v = Some (v, True)"

definition bad_call :: "string \<Rightarrow> call_result" where
  "bad_call msg = Some (VErr (OtherError msg), False)"

definition with_arg :: "val list \<Rightarrow> nat \<Rightarrow> (val \<Rightarrow> call_result) \<Rightarrow> call_result" where
  "with_arg args i k = (if i < length args then k (args ! i) else None)"

definition int_v :: "int \<Rightarrow> val" where
  "int_v i = VInt (word_of_int i)"

section \<open>Numbers (funcsMath.go)\<close>

definition f_abs :: "f64 \<Rightarrow> f64" where
  "f_abs x = (if f_neg x then f_opp x else x)"

text \<open>\<^verbatim>\<open>math.Ceil\<close>, and \<^verbatim>\<open>math.Round\<close>, which rounds half away from zero; both keep the sign of zero.\<close>

definition f_ceil :: "f64 \<Rightarrow> f64" where
  "f_ceil x = (case x of FNum q \<Rightarrow> (if \<lceil>q\<rceil> = 0 then FZero (q < 0) else FNum (of_int \<lceil>q\<rceil>)) | _ \<Rightarrow> x)"

definition round_away :: "rat \<Rightarrow> int" where
  "round_away q = (if q < 0 then - \<lfloor>- q + 1 / 2\<rfloor> else \<lfloor>q + 1 / 2\<rfloor>)"

definition f_round_away :: "f64 \<Rightarrow> f64" where
  "f_round_away x = (case x of FNum q \<Rightarrow> (if round_away q = 0 then FZero (q < 0) else FNum (of_int (round_away q))) | _ \<Rightarrow> x)"

definition toF64 :: "val \<Rightarrow> f64 option" where
  "toF64 v = (case v of VFloat64 x \<Rightarrow> Some x | VInt i \<Rightarrow> Some (f_of_int (sint i)) | _ \<Rightarrow> None)"

definition only_numbers :: call_result where
  "only_numbers = bad_call ''only float64 & int type are supported''"

definition math1 :: "(f64 \<Rightarrow> val) \<Rightarrow> val list \<Rightarrow> call_result" where
  "math1 g args = with_arg args 0 (\<lambda>a. case toF64 a of None \<Rightarrow> only_numbers | Some x \<Rightarrow> ok_call (g x))"

definition math2 :: "(f64 \<Rightarrow> f64 \<Rightarrow> val) \<Rightarrow> val list \<Rightarrow> call_result" where
  "math2 g args = with_arg args 0 (\<lambda>a. case toF64 a of
     None \<Rightarrow> only_numbers
   | Some x \<Rightarrow> with_arg args 1 (\<lambda>b. case toF64 b of None \<Rightarrow> only_numbers | Some y \<Rightarrow> ok_call (g x y)))"

text \<open>\<^verbatim>\<open>mod\<close> tests the wrong error: a second argument that is no number counts as 0.\<close>

definition math_mod :: "val list \<Rightarrow> call_result" where
  "math_mod args = with_arg args 0 (\<lambda>a. case toF64 a of
     None \<Rightarrow> only_numbers
   | Some x \<Rightarrow> with_arg args 1 (\<lambda>b. ok_call (VFloat64 (f_mod x (case toF64 b of None \<Rightarrow> FZero False | Some y \<Rightarrow> y)))))"

definition bit2 :: "(i64w \<Rightarrow> i64w \<Rightarrow> i64w) \<Rightarrow> val list \<Rightarrow> call_result" where
  "bit2 g args = with_arg args 0 (\<lambda>a. with_arg args 1 (\<lambda>b. case (a, b) of
     (VInt x, VInt y) \<Rightarrow> ok_call (VInt (g x y))
   | _ \<Rightarrow> bad_call ''Expect int type for both operands.''))"

definition math_abs :: "val list \<Rightarrow> call_result" where
  "math_abs args = with_arg args 0 (\<lambda>a. case a of
     VInt i \<Rightarrow> ok_call (int_v (f_to_int64 (f_abs (f_of_int (sint i)))))
   | VFloat64 x \<Rightarrow> ok_call (VFloat64 (f_abs x))
   | _ \<Rightarrow> only_numbers)"

definition math_sign :: "f64 \<Rightarrow> val" where
  "math_sign x = (if f_lt (FZero False) x then int_v 1 else if f_lt x (FZero False) then int_v (-1) else int_v 0)"

text \<open>The functions that are one call of Go's \<^verbatim>\<open>math\<close>, with the name it has there; \<^verbatim>\<open>ln\<close> is the logarithm to base 2.\<close>

definition math_names :: "(string \<times> string) list" where
  "math_names = [(''acos'', ''Acos''), (''asin'', ''Asin''), (''atan'', ''Atan''), (''cos'', ''Cos''), (''cosh'', ''Cosh''), (''exp'', ''Exp''),
     (''ln'', ''Log2''), (''log'', ''Log10''), (''sin'', ''Sin''), (''sinh'', ''Sinh''), (''sqrt'', ''Sqrt''), (''tan'', ''Tan''), (''tanh'', ''Tanh'')]"

definition mathCall :: "fenv \<Rightarrow> string \<Rightarrow> val list \<Rightarrow> call_result" where
  "mathCall F name args =
     (case map_of math_names name of
        Some g \<Rightarrow> math1 (\<lambda>x. VFloat64 (fe_math F g [x])) args
      | None \<Rightarrow>
          if name = ''abs'' then math_abs args
          else if name = ''atan2'' then math2 (\<lambda>x y. VFloat64 (fe_math F ''Atan2'' [x, y])) args
          else if name = ''bitand'' then bit2 (AND) args
          else if name = ''bitor'' then bit2 (OR) args
          else if name = ''bitxor'' then bit2 (XOR) args
          else if name = ''bitnot'' then
            with_arg args 0 (\<lambda>a. case a of VInt x \<Rightarrow> ok_call (VInt (NOT x)) | _ \<Rightarrow> bad_call ''Expect int type for operand.'')
          else if name = ''ceil'' then math1 (\<lambda>x. VFloat64 (f_ceil x)) args
          else if name = ''mod'' then math_mod args
          else if name = ''power'' then math2 (\<lambda>x y. VFloat64 (fe_math F ''Pow'' [x, y])) args
          else if name = ''rand'' then ok_call (VFloat64 (fe_rand F))
          else if name = ''round'' then math1 (\<lambda>x. VFloat64 (f_round_away x)) args
          else if name = ''sign'' then math1 math_sign args
          else bad_call ''Unknown math function name.'')"

section \<open>Strings (funcsStr.go)\<close>

fun gval_of :: "val \<Rightarrow> gval" where
  "gval_of VNil = GNil"
| "gval_of (VBool b) = GBool b"
| "gval_of (VInt w) = GInt w"
| "gval_of (VInt8 w) = GInt8 w"
| "gval_of (VInt16 w) = GInt16 w"
| "gval_of (VInt32 w) = GInt32 w"
| "gval_of (VInt64 w) = GInt64 w"
| "gval_of (VUint64 w) = GUint64 w"
| "gval_of (VFloat32 x) = GFloat32 x"
| "gval_of (VFloat64 x) = GFloat64 x"
| "gval_of (VString s) = GString s"
| "gval_of _ = GOther"

text \<open>\<^verbatim>\<open>cast.ToInt(v, STRICT)\<close>, which refuses every value that is not listed above alike.\<close>

definition strict_int :: "val \<Rightarrow> int option" where
  "strict_int v = (case ToInt (gval_of v) STRICT of Inl _ \<Rightarrow> None | Inr w \<Rightarrow> Some (sint w))"

definition with_int :: "val \<Rightarrow> (int \<Rightarrow> call_result) \<Rightarrow> call_result" where
  "with_int v k = (case strict_int v of None \<Rightarrow> bad_call ''cannot convert to int'' | Some i \<Rightarrow> k i)"

text \<open>\<^verbatim>\<open>unicode.IsSpace\<close> below 128.\<close>

definition is_space :: "char \<Rightarrow> bool" where
  "is_space c \<longleftrightarrow> c = CHR '' '' \<or> (9 \<le> (of_char c :: nat) \<and> (of_char c :: nat) \<le> 13)"

definition trim_left :: "string \<Rightarrow> string" where
  "trim_left s = dropWhile is_space s"

definition trim_right :: "string \<Rightarrow> string" where
  "trim_right s = rev (dropWhile is_space (rev s))"

fun prefix_of :: "string \<Rightarrow> string \<Rightarrow> bool" where
  "prefix_of [] _ = True"
| "prefix_of (_ # _) [] = False"
| "prefix_of (p # ps) (c # cs) = (p = c \<and> prefix_of ps cs)"

text \<open>\<^verbatim>\<open>strings.Index\<close>.\<close>

fun index_of :: "string \<Rightarrow> string \<Rightarrow> nat option" where
  "index_of [] sub = (if sub = [] then Some 0 else None)"
| "index_of (c # cs) sub = (if prefix_of sub (c # cs) then Some 0 else map_option Suc (index_of cs sub))"

lemma index_of_le: "index_of s sub = Some i \<Longrightarrow> i \<le> length s"
  by (induction s arbitrary: i) (auto split: if_splits)

text \<open>\<^verbatim>\<open>strings.Split\<close>; an empty separator splits into characters.\<close>

function split_sep :: "string \<Rightarrow> string \<Rightarrow> string list" where
  "split_sep s sep =
     (if sep = [] then map (\<lambda>c. [c]) s
      else (case index_of s sep of
              None \<Rightarrow> [s]
            | Some i \<Rightarrow> if s = [] then [s] else take i s # split_sep (drop (i + length sep) s) sep))"
  by auto
termination
  by (relation "measure (\<lambda>(s, sep). length s)") auto

declare split_sep.simps [simp del]

text \<open>\<^verbatim>\<open>strings.Repeat(" ", n)\<close> panics for a negative count, and a slice of a string outside of it.\<close>

definition spaces :: "int \<Rightarrow> string option" where
  "spaces n = (if n < 0 then None else Some (replicate (nat n) (CHR '' '')))"

definition slice_str :: "string \<Rightarrow> int \<Rightarrow> int \<Rightarrow> string option" where
  "slice_str s a b = (if 0 \<le> a \<and> a \<le> b \<and> b \<le> int (length s) then Some (take (nat b - nat a) (drop (nat a) s)) else None)"

definition str1 :: "fenv \<Rightarrow> (string \<Rightarrow> val) \<Rightarrow> val list \<Rightarrow> call_result" where
  "str1 F g args = with_arg args 0 (\<lambda>a. ok_call (g (Sprint_v (fe_print F) a)))"

definition str2 :: "fenv \<Rightarrow> (string \<Rightarrow> string \<Rightarrow> call_result) \<Rightarrow> val list \<Rightarrow> call_result" where
  "str2 F g args = with_arg args 0 (\<lambda>a. with_arg args 1 (\<lambda>b. g (Sprint_v (fe_print F) a) (Sprint_v (fe_print F) b)))"

definition of_result :: "('a \<Rightarrow> val) \<Rightarrow> string + 'a \<Rightarrow> call_result" where
  "of_result g r = (case r of Inl e \<Rightarrow> bad_call e | Inr a \<Rightarrow> ok_call (g a))"

definition pad :: "fenv \<Rightarrow> (string \<Rightarrow> string \<Rightarrow> string) \<Rightarrow> val list \<Rightarrow> call_result" where
  "pad F g args = with_arg args 0 (\<lambda>a. with_arg args 1 (\<lambda>b. with_int b (\<lambda>n.
     case spaces n of None \<Rightarrow> None | Some sp \<Rightarrow> ok_call (VString (g sp (Sprint_v (fe_print F) a))))))"

definition str_substring :: "fenv \<Rightarrow> val list \<Rightarrow> call_result" where
  "str_substring F args = with_arg args 0 (\<lambda>a. with_arg args 1 (\<lambda>b. with_int b (\<lambda>i.
     let s = Sprint_v (fe_print F) a in
     if length args > 2 then with_int (args ! 2) (\<lambda>j. map_option (\<lambda>r. (VString r, True)) (slice_str s i j))
     else map_option (\<lambda>r. (VString r, True)) (slice_str s i (int (length s))))))"

text \<open>The error of the index is ignored and leaves 0; a negative index panics.\<close>

definition str_split_value :: "fenv \<Rightarrow> val list \<Rightarrow> call_result" where
  "str_split_value F args = with_arg args 0 (\<lambda>a. with_arg args 1 (\<lambda>b. with_arg args 2 (\<lambda>c.
     let ss = split_sep (Sprint_v (fe_print F) a) (Sprint_v (fe_print F) b);
         v = (case strict_int c of None \<Rightarrow> 0 | Some i \<Rightarrow> i) in
     if v > int (length ss) - 1 then bad_call ''out of index array'' else if v < 0 then None else ok_call (VString (ss ! nat v)))))"

definition str_format_time :: "fenv \<Rightarrow> val list \<Rightarrow> call_result" where
  "str_format_time F args = with_arg args 0 (\<lambda>a. case InterfaceToTime (fe_tp F) a of
     None \<Rightarrow> bad_call ''unsupported type to convert to timestamp''
   | Some t \<Rightarrow> with_arg args 1 (\<lambda>b. case FormatTime (fe_tf F) t (Sprint_v (fe_print F) b) of
       None \<Rightarrow> None | Some r \<Rightarrow> of_result VString r))"

definition str_replace3 :: "fenv \<Rightarrow> val list \<Rightarrow> call_result" where
  "str_replace3 F args = with_arg args 0 (\<lambda>a. with_arg args 1 (\<lambda>b. with_arg args 2 (\<lambda>c.
     of_result VString (fe_replace F (Sprint_v (fe_print F) b) (Sprint_v (fe_print F) a) (Sprint_v (fe_print F) c)))))"

definition strCall :: "fenv \<Rightarrow> string \<Rightarrow> val list \<Rightarrow> call_result" where
  "strCall F name args =
     (if name = ''concat'' then ok_call (VString (concat (map (Sprint_v (fe_print F)) args)))
      else if name = ''endswith'' then str2 F (\<lambda>a b. ok_call (VBool (prefix_of (rev b) (rev a)))) args
      else if name = ''indexof'' then str2 F (\<lambda>a b. ok_call (case index_of a b of None \<Rightarrow> int_v (-1) | Some i \<Rightarrow> int_v (int i))) args
      else if name = ''length'' then str1 F (\<lambda>s. int_v (int (length s))) args
      else if name = ''lower'' then str1 F (\<lambda>s. VString (to_lower s)) args
      else if name = ''lpad'' then pad F (@) args
      else if name = ''ltrim'' then str1 F (\<lambda>s. VString (trim_left s)) args
      else if name = ''numbytes'' then str1 F (\<lambda>s. int_v (int (length s))) args
      else if name = ''format_time'' then str_format_time F args
      else if name = ''regexp_matches'' then str2 F (\<lambda>a b. of_result VBool (fe_match F b a)) args
      else if name = ''regexp_replace'' then str_replace3 F args
      else if name = ''regexp_substr'' then str2 F (\<lambda>a b. of_result VString (fe_find F b a)) args
      else if name = ''rpad'' then pad F (\<lambda>sp s. s @ sp) args
      else if name = ''rtrim'' then str1 F (\<lambda>s. VString (trim_right s)) args
      else if name = ''substring'' then str_substring F args
      else if name = ''startswith'' then str2 F (\<lambda>a b. ok_call (VBool (prefix_of b a))) args
      else if name = ''split_value'' then str_split_value F args
      else if name = ''trim'' then str1 F (\<lambda>s. VString (trim_left (trim_right s))) args
      else if name = ''upper'' then str1 F (\<lambda>s. VString (to_upper s)) args
      else bad_call (''unknown string function name '' @ name))"

section \<open>Conversions (funcsMisc.go)\<close>

definition unsupported :: call_result where
  "unsupported = bad_call ''Not supported type conversion.''"

definition of_opt :: "('a \<Rightarrow> val) \<Rightarrow> 'a option \<Rightarrow> call_result" where
  "of_opt g x = (case x of None \<Rightarrow> bad_call ''invalid syntax'' | Some a \<Rightarrow> ok_call (g a))"

definition cast_bigint :: "val \<Rightarrow> call_result" where
  "cast_bigint v = (case v of
     VInt i \<Rightarrow> ok_call v
   | VFloat64 x \<Rightarrow> ok_call (int_v (f_to_int64 x))
   | VString s \<Rightarrow> of_opt int_v (Atoi s)
   | VBool b \<Rightarrow> ok_call (int_v (if b then 1 else 0))
   | _ \<Rightarrow> unsupported)"

definition cast_float :: "val \<Rightarrow> call_result" where
  "cast_float v = (case v of
     VInt i \<Rightarrow> ok_call (VFloat64 (f_of_int (sint i)))
   | VFloat64 x \<Rightarrow> ok_call v
   | VString s \<Rightarrow> of_opt VFloat64 (ParseFloat s)
   | VBool b \<Rightarrow> ok_call (VFloat64 (f_of_int (if b then 1 else 0)))
   | _ \<Rightarrow> unsupported)"

definition cast_string :: "fenv \<Rightarrow> val \<Rightarrow> call_result" where
  "cast_string F v = (case v of
     VInt i \<Rightarrow> ok_call (VString (itoa (sint i)))
   | VFloat64 x \<Rightarrow> ok_call (VString (fe_printg F x))
   | VString s \<Rightarrow> ok_call v
   | VBool b \<Rightarrow> ok_call (VString (if b then ''true'' else ''false''))
   | _ \<Rightarrow> unsupported)"

definition cast_boolean :: "val \<Rightarrow> call_result" where
  "cast_boolean v = (case v of
     VInt i \<Rightarrow> ok_call (VBool (i \<noteq> 0))
   | VFloat64 x \<Rightarrow> ok_call (VBool (\<not> f_eq x (FZero False)))
   | VString s \<Rightarrow> of_opt VBool (ParseBool s)
   | VBool b \<Rightarrow> ok_call v
   | _ \<Rightarrow> unsupported)"

definition conv_cast :: "fenv \<Rightarrow> val \<Rightarrow> val \<Rightarrow> call_result" where
  "conv_cast F v ty = (case ty of
     VString t \<Rightarrow>
       (let k = to_lower t in
        if k = ''bigint'' then cast_bigint v
        else if k = ''float'' then cast_float v
        else if k = ''string'' then cast_string F v
        else if k = ''boolean'' then cast_boolean v
        else if k = ''datetime'' then
          (case InterfaceToTime (fe_tp F) v of None \<Rightarrow> bad_call ''unsupported type to convert to timestamp'' | Some ns \<Rightarrow> ok_call (VTime ns))
        else bad_call ''Unknow type, only support bigint, float, string, boolean and datetime.'')
   | _ \<Rightarrow> bad_call ''Expect string type for the 2nd parameter.'')"

text \<open>A \<^verbatim>\<open>rune\<close> is an \<^verbatim>\<open>int32\<close>; the empty string has no first one.\<close>

definition conv_chr :: "val \<Rightarrow> call_result" where
  "conv_chr v = (case v of
     VInt i \<Rightarrow> ok_call (VInt32 (ucast i))
   | VFloat64 x \<Rightarrow> ok_call (VInt32 (word_of_int (f_to_int64 x)))
   | VString s \<Rightarrow>
       (if length s > 1 then bad_call ''Parameter length cannot larger than 1.''
        else (case s of [] \<Rightarrow> None | c # _ \<Rightarrow> ok_call (VInt32 (word_of_nat (of_char c)))))
   | _ \<Rightarrow> bad_call ''Only bigint, float and string type can be convert to char type.'')"

definition conv_encode :: "fenv \<Rightarrow> val \<Rightarrow> val \<Rightarrow> call_result" where
  "conv_encode F v enc = (case enc of
     VString e \<Rightarrow>
       (if to_lower e = ''base64'' then
          (case v of VString s \<Rightarrow> ok_call (VString (fe_b64 F s)) | _ \<Rightarrow> bad_call ''Only string type can be encoded.'')
        else bad_call ''Only base64 encoding is supported.'')
   | _ \<Rightarrow> Some (VNil, False))"

text \<open>\<^verbatim>\<open>round\<close> and \<^verbatim>\<open>toFixed\<close>.\<close>

definition round_half :: "f64 \<Rightarrow> int" where
  "round_half num = f_to_int64 (f_add num (if f_neg num then FNum (- (1 / 2)) else FNum (1 / 2)))"

definition toFixed :: "fenv \<Rightarrow> f64 \<Rightarrow> int \<Rightarrow> f64" where
  "toFixed F num precision =
     (let output = fe_math F ''Pow'' [f_of_int 10, f_of_int precision] in f_div (f_of_int (round_half (f_mul num output))) output)"

definition conv_trunc :: "fenv \<Rightarrow> val \<Rightarrow> val list \<Rightarrow> call_result" where
  "conv_trunc F v args = (case toF64 v of
     None \<Rightarrow> bad_call ''Only int and float type can be truncated.''
   | Some x \<Rightarrow> with_arg args 1 (\<lambda>p. case p of
       VInt k \<Rightarrow> ok_call (VFloat64 (toFixed F x (sint k))) | _ \<Rightarrow> bad_call ''The 2nd parameter must be int value.''))"

definition convCall :: "fenv \<Rightarrow> string \<Rightarrow> val list \<Rightarrow> call_result" where
  "convCall F name args =
     (if name = ''cast'' then with_arg args 1 (conv_cast F (args ! 0))
      else if name = ''chr'' then with_arg args 0 conv_chr
      else if name = ''encode'' then with_arg args 1 (conv_encode F (args ! 0))
      else if name = ''trunc'' then with_arg args 0 (\<lambda>v. conv_trunc F v args)
      else bad_call (''Not supported function name '' @ name))"

section \<open>Hashes and others (funcsMisc.go)\<close>

definition hashCall :: "fenv \<Rightarrow> string \<Rightarrow> val list \<Rightarrow> call_result" where
  "hashCall F name args = with_arg args 0 (\<lambda>a.
     if name \<in> {''md5'', ''sha1'', ''sha256'', ''sha384'', ''sha512''} then ok_call (VString (fe_hash F name (Sprint_v (fe_print F) a)))
     else bad_call (''unknown hash function name '' @ name))"

text \<open>The slices and maps of \<^typ>\<open>val\<close> are not nil.\<close>

definition otherCall :: "fenv \<Rightarrow> string \<Rightarrow> val list \<Rightarrow> call_result" where
  "otherCall F name args =
     (if name = ''isnull'' then with_arg args 0 (\<lambda>a. ok_call (VBool (a = VNil)))
      else if name = ''newuuid'' then of_result VString (fe_uuid F)
      else if name = ''tstamp'' then ok_call (VInt64 (word_of_int (fe_now F)))
      else if name = ''mqtt'' then with_arg args 0 (\<lambda>a. case a of VString s \<Rightarrow> ok_call a | _ \<Rightarrow> Some (VNil, False))
      else if name = ''meta'' then with_arg args 0 ok_call
      else if name = ''cardinality'' then
        with_arg args 0 (\<lambda>a. ok_call (case a of VSlice xs \<Rightarrow> int_v (int (length xs)) | _ \<Rightarrow> int_v 0))
      else bad_call (''unknown function name '' @ name))"

section \<open>JSON paths (funcsMisc.go)\<close>

text \<open>
  \<^verbatim>\<open>convertToInterfaceArr\<close> asks every value of a map for its kind, which panics for nil, and asserts a map to be a \<^verbatim>\<open>map[string]interface{}\<close>. An element of a
  \<^verbatim>\<open>[]interface{}\<close> has the kind of an interface, so \<^verbatim>\<open>convertSlice\<close> copies it as it is.
\<close>

fun convertToInterfaceArr :: "(string \<times> val) list \<Rightarrow> (string \<times> val) list option"
  and convert_entry :: "val \<Rightarrow> val option" where
  "convertToInterfaceArr [] = Some []"
| "convertToInterfaceArr ((k, v) # es) =
     (case convert_entry v of
        None \<Rightarrow> None
      | Some w \<Rightarrow> (case convertToInterfaceArr es of None \<Rightarrow> None | Some r \<Rightarrow> Some ((k, w) # r)))"
| "convert_entry VNil = None"
| "convert_entry (VMessage m) = None"
| "convert_entry (VMap es) = map_option VMap (convertToInterfaceArr es)"
| "convert_entry v = Some v"

definition json_input :: "fenv \<Rightarrow> string \<Rightarrow> val \<Rightarrow> (string + val) option" where
  "json_input F name v = (case v of
     VNil \<Rightarrow> None
   | VMap es \<Rightarrow> map_option (\<lambda>m. Inr (VMap m)) (convertToInterfaceArr es)
   | VMessage m \<Rightarrow> None
   | VSlice xs \<Rightarrow> Some (Inr v)
   | VString s \<Rightarrow> Some (case fe_json F s of
       None \<Rightarrow> Inl (name @ '' function error: the first argument is not a valid json string'') | Some w \<Rightarrow> Inr w)
   | _ \<Rightarrow> Some (Inl (name @ '' function error: the first argument must be a map'')))"

text \<open>The first of an empty array and the kind of a nil result panic.\<close>

definition json_result :: "string \<Rightarrow> val \<Rightarrow> call_result" where
  "json_result name result =
     (if name = ''json_path_query'' then ok_call result
      else if name = ''json_path_query_first'' then
        (case result of
           VSlice [] \<Rightarrow> None
         | VSlice (x # _) \<Rightarrow> ok_call x
         | _ \<Rightarrow> bad_call (name @ '' function error: query result is not an array''))
      else if name = ''json_path_exists'' then
        (case result of VNil \<Rightarrow> None | VSlice xs \<Rightarrow> ok_call (VBool (xs \<noteq> [])) | _ \<Rightarrow> ok_call (VBool True))
      else bad_call (''invalid function name: '' @ name))"

definition jsonCall :: "fenv \<Rightarrow> string \<Rightarrow> val list \<Rightarrow> call_result" where
  "jsonCall F name args = with_arg args 0 (\<lambda>a. case json_input F name a of
     None \<Rightarrow> None
   | Some (Inl e) \<Rightarrow> bad_call e
   | Some (Inr input) \<Rightarrow> with_arg args 1 (\<lambda>p. case p of
       VString path \<Rightarrow>
         (case fe_path F path of
            Inl e \<Rightarrow> bad_call (name @ '' function error: '' @ e)
          | Inr ev \<Rightarrow>
              (case ev input of
                 Inl e \<Rightarrow> if name = ''json_path_exists'' then ok_call (VBool False) else bad_call (name @ '' function error: '' @ e)
               | Inr result \<Rightarrow> json_result name result))
     | _ \<Rightarrow> None))"

section \<open>Splitting\<close>

fun join_sep :: "string \<Rightarrow> string list \<Rightarrow> string" where
  "join_sep sep [] = []"
| "join_sep sep [x] = x"
| "join_sep sep (x # y # xs) = x @ sep @ join_sep sep (y # xs)"

lemma prefix_of_take: "prefix_of p s \<Longrightarrow> s = p @ drop (length p) s"
  by (induction p s rule: prefix_of.induct) auto

lemma index_of_Some: "index_of s sub = Some i \<Longrightarrow> s = take i s @ sub @ drop (i + length sub) s"
proof (induction s arbitrary: i)
  case (Cons c s)
  then show ?case
    using prefix_of_take [of sub "c # s"] by (auto split: if_splits)
qed (simp split: if_splits)

lemma split_sep_nonempty: "sep \<noteq> [] \<Longrightarrow> split_sep s sep \<noteq> []"
  by (simp add: split_sep.simps [of s] split: option.split)

lemma join_split: "sep \<noteq> [] \<Longrightarrow> join_sep sep (split_sep s sep) = s"
proof (induction s sep rule: split_sep.induct)
  case (1 s sep)
  show ?case
  proof (cases "index_of s sep")
    case None
    then show ?thesis
      using 1(2) by (simp add: split_sep.simps [of s])
  next
    case (Some i)
    then have s: "s = take i s @ sep @ drop (i + length sep) s" "s \<noteq> []"
      using 1(2) index_of_Some by (auto split: if_splits)
    obtain y ys where y: "split_sep (drop (i + length sep) s) sep = y # ys"
      using split_sep_nonempty [OF 1(2)] by (cases "split_sep (drop (i + length sep) s) sep") auto
    have "join_sep sep (y # ys) = drop (i + length sep) s"
      using 1(1) [OF 1(2) Some s(2) 1(2)] y by simp
    then show ?thesis
      using Some s 1(2) y by (simp add: split_sep.simps [of s])
  qed
qed

lemma strict_int_v: "- (2 ^ 63) \<le> i \<Longrightarrow> i < 2 ^ 63 \<Longrightarrow> strict_int (int_v i) = Some i"
  by (simp add: strict_int_def int_v_def ToInt_def to_signed_def sint_word_of_int_i64 i64_small)

text \<open>
  \<^verbatim>\<open>split_value\<close> gives the parts of a string: joined by the separator, the parts at the indexes below their number are the string, and every index from their number on is an
  error.
\<close>

theorem split_value_parts:
  assumes "sep \<noteq> []"
  shows "\<exists>parts. parts \<noteq> [] \<and> join_sep sep parts = s
    \<and> (\<forall>i. 0 \<le> i \<longrightarrow> i < 2 ^ 63 \<longrightarrow> strCall F ''split_value'' [VString s, VString sep, int_v i] =
        (if i < int (length parts) then ok_call (VString (parts ! nat i)) else bad_call ''out of index array''))"
proof (intro exI conjI allI impI)
  show "split_sep s sep \<noteq> []" "join_sep sep (split_sep s sep) = s"
    using assms by (simp_all add: split_sep_nonempty join_split)
  fix i :: int
  assume "0 \<le> i" "i < 2 ^ 63"
  then show "strCall F ''split_value'' [VString s, VString sep, int_v i] =
        (if i < int (length (split_sep s sep)) then ok_call (VString (split_sep s sep ! nat i)) else bad_call ''out of index array'')"
    by (simp add: strCall_def str_split_value_def with_arg_def Sprint_v_def strict_int_v)
qed

text \<open>Nothing from outside is needed to evaluate a call here.\<close>

definition ex_fenv :: fenv where
  "ex_fenv = \<lparr>fe_math = (\<lambda>_ _. FNaN), fe_rand = FZero False, fe_print = (\<lambda>_. []), fe_printg = (\<lambda>_. []), fe_tp = (\<lambda>_ _. None),
     fe_tf = (\<lambda>_ _. []), fe_match = (\<lambda>_ _. Inl []), fe_replace = (\<lambda>_ _ _. Inl []), fe_find = (\<lambda>_ _. Inl []), fe_b64 = id, fe_hash = (\<lambda>_ s. s),
     fe_uuid = Inl [], fe_now = 0, fe_json = (\<lambda>_. None), fe_path = (\<lambda>_. Inl [])\<rparr>"

theorem split_value_parts_witness:
  "\<exists>parts. join_sep '','' parts = ''a,b'' \<and> strCall ex_fenv ''split_value'' [VString ''a,b'', VString '','', int_v 1] = ok_call (VString ''b'')"
proof -
  have "strCall ex_fenv ''split_value'' [VString ''a,b'', VString '','', int_v 1] = ok_call (VString ''b'')"
    by code_simp
  then show ?thesis
    using split_value_parts [of "'',''" "''a,b''" ex_fenv] by blast
qed

end
