(* ===== verification/Aggregates.thy ===== *)
theory Aggregates
  imports Functions Checkpoints
begin

text \<open>
  Calling functions: the aggregates of \<^verbatim>\<open>funcsAggregate.go\<close>, the runtime of plugin functions (\<^verbatim>\<open>functionRuntime.go\<close>) with the context that separates their states
  (\<^verbatim>\<open>context/func_context.go\<close>), and the two valuers that dispatch a call (\<^verbatim>\<open>funcValuer.go\<close>).

  A plugin function is a value of the record \<open>plugin\<close>: whether it is an aggregate and what it returns for arguments and the number of its context.
\<close>

section \<open>Aggregates\<close>

definition with_slice :: "val list \<Rightarrow> nat \<Rightarrow> (val list \<Rightarrow> call_result) \<Rightarrow> call_result" where
  "with_slice args i k = with_arg args i (\<lambda>a. case a of VSlice xs \<Rightarrow> k xs | _ \<Rightarrow> None)"

definition getCount :: "val list \<Rightarrow> nat" where
  "getCount s = length (filter (\<lambda>v. v \<noteq> VNil) s)"

definition getFirstValidArg :: "val list \<Rightarrow> val" where
  "getFirstValidArg s = (case find (\<lambda>v. v \<noteq> VNil) s of None \<Rightarrow> VNil | Some v \<Rightarrow> v)"

text \<open>
  The loops over the values: they skip nil, stop with an error at a value of another type and combine the rest with the accumulator. \<open>sel\<close> is the type assertion, \<open>step\<close> the
  body.
\<close>

fun agg_loop :: "(val \<Rightarrow> 'a option) \<Rightarrow> ('a \<Rightarrow> 'a \<Rightarrow> 'a) \<Rightarrow> val list \<Rightarrow> 'a \<Rightarrow> string + 'a" where
  "agg_loop sel step [] acc = Inr acc"
| "agg_loop sel step (v # s) acc =
     (case sel v of
        Some x \<Rightarrow> agg_loop sel step s (step acc x)
      | None \<Rightarrow> if v \<noteq> VNil then Inl ''requires another type'' else agg_loop sel step s acc)"

definition as_int :: "val \<Rightarrow> i64w option" where
  "as_int v = (case v of VInt i \<Rightarrow> Some i | _ \<Rightarrow> None)"

definition as_float :: "val \<Rightarrow> f64 option" where
  "as_float v = (case v of VFloat64 x \<Rightarrow> Some x | _ \<Rightarrow> None)"

definition as_string :: "val \<Rightarrow> string option" where
  "as_string v = (case v of VString s \<Rightarrow> Some s | _ \<Rightarrow> None)"

definition sliceIntTotal :: "val list \<Rightarrow> string + i64w" where
  "sliceIntTotal s = agg_loop as_int (+) s 0"

definition sliceFloatTotal :: "val list \<Rightarrow> string + f64" where
  "sliceFloatTotal s = agg_loop as_float f_add s (FZero False)"

definition sliceIntMax :: "val list \<Rightarrow> i64w \<Rightarrow> string + i64w" where
  "sliceIntMax s mx = agg_loop as_int (\<lambda>m v. if sint m < sint v then v else m) s mx"

definition sliceFloatMax :: "val list \<Rightarrow> f64 \<Rightarrow> string + f64" where
  "sliceFloatMax s mx = agg_loop as_float (\<lambda>m v. if f_lt m v then v else m) s mx"

definition sliceStringMax :: "val list \<Rightarrow> string \<Rightarrow> string + string" where
  "sliceStringMax s mx = agg_loop as_string (\<lambda>m v. if str_lt m v then v else m) s mx"

definition sliceIntMin :: "val list \<Rightarrow> i64w \<Rightarrow> string + i64w" where
  "sliceIntMin s mn = agg_loop as_int (\<lambda>m v. if sint v < sint m then v else m) s mn"

definition sliceFloatMin :: "val list \<Rightarrow> f64 \<Rightarrow> string + f64" where
  "sliceFloatMin s mn = agg_loop as_float (\<lambda>m v. if f_lt v m then v else m) s mn"

text \<open>The comparison is the one of the maximum, as in the code.\<close>

definition sliceStringMin :: "val list \<Rightarrow> string \<Rightarrow> string + string" where
  "sliceStringMin s mn = agg_loop as_string (\<lambda>m v. if str_lt m v then v else m) s mn"

definition invalid_arg :: "string \<Rightarrow> call_result" where
  "invalid_arg name = bad_call (''run '' @ name @ '' function error: found invalid arg'')"

text \<open>The first value that is not nil decides by its type which loop runs.\<close>

definition agg_avg :: "val list \<Rightarrow> call_result" where
  "agg_avg s =
     (if getCount s > 0 then
        (case getFirstValidArg s of
           VInt _ \<Rightarrow> of_result (\<lambda>r. int_v (go_div (sint r) (int (getCount s)))) (sliceIntTotal s)
         | VInt64 _ \<Rightarrow> of_result (\<lambda>r. int_v (go_div (sint r) (int (getCount s)))) (sliceIntTotal s)
         | VFloat64 _ \<Rightarrow> of_result (\<lambda>r. VFloat64 (f_div r (f_of_int (int (getCount s))))) (sliceFloatTotal s)
         | VNil \<Rightarrow> ok_call VNil
         | _ \<Rightarrow> invalid_arg ''avg'')
      else ok_call (int_v 0))"

definition agg_max :: "val list \<Rightarrow> call_result" where
  "agg_max s =
     (if s \<noteq> [] then
        (case getFirstValidArg s of
           VInt t \<Rightarrow> of_result VInt (sliceIntMax s t)
         | VInt64 t \<Rightarrow> of_result VInt (sliceIntMax s t)
         | VFloat64 t \<Rightarrow> of_result VFloat64 (sliceFloatMax s t)
         | VString t \<Rightarrow> of_result VString (sliceStringMax s t)
         | VNil \<Rightarrow> ok_call VNil
         | _ \<Rightarrow> invalid_arg ''max'')
      else bad_call ''run max function error: empty data'')"

definition agg_min :: "val list \<Rightarrow> call_result" where
  "agg_min s =
     (if s \<noteq> [] then
        (case getFirstValidArg s of
           VInt t \<Rightarrow> of_result VInt (sliceIntMin s t)
         | VInt64 t \<Rightarrow> of_result VInt (sliceIntMin s t)
         | VFloat64 t \<Rightarrow> of_result VFloat64 (sliceFloatMin s t)
         | VString t \<Rightarrow> of_result VString (sliceStringMin s t)
         | VNil \<Rightarrow> ok_call VNil
         | _ \<Rightarrow> invalid_arg ''min'')
      else bad_call ''run min function error: empty data'')"

definition agg_sum :: "val list \<Rightarrow> call_result" where
  "agg_sum s =
     (if s \<noteq> [] then
        (case getFirstValidArg s of
           VInt _ \<Rightarrow> of_result VInt (sliceIntTotal s)
         | VInt64 _ \<Rightarrow> of_result VInt (sliceIntTotal s)
         | VFloat64 _ \<Rightarrow> of_result VFloat64 (sliceFloatTotal s)
         | VNil \<Rightarrow> ok_call VNil
         | _ \<Rightarrow> invalid_arg ''sum'')
      else ok_call (int_v 0))"

text \<open>
  \<^verbatim>\<open>dedup\<close>: a row whose printed key is new is kept, of \<^verbatim>\<open>all\<close> false only the last row of the column. \<open>r[i]\<close> panics outside of \<open>r\<close>.
\<close>

fun dedup_loop :: "(val \<Rightarrow> string) \<Rightarrow> bool \<Rightarrow> val list \<Rightarrow> nat \<Rightarrow> nat \<Rightarrow> val list \<Rightarrow> string list \<Rightarrow> val list \<Rightarrow> val list option" where
  "dedup_loop pr all r n i [] keyset result = Some result"
| "dedup_loop pr all r n i (m # col) keyset result =
     (let key = Sprint_v pr m in
      if key \<in> set keyset then dedup_loop pr all r n (Suc i) col keyset result
      else if all \<or> i = n - 1 then
        (if i < length r then dedup_loop pr all r n (Suc i) col (key # keyset) (result @ [r ! i]) else None)
      else dedup_loop pr all r n (Suc i) col (key # keyset) result)"

definition dedup :: "(val \<Rightarrow> string) \<Rightarrow> val list \<Rightarrow> val list \<Rightarrow> bool \<Rightarrow> val option" where
  "dedup pr r col all =
     map_option (\<lambda>result. if all then VSlice result else (case result of [] \<Rightarrow> VNil | x # _ \<Rightarrow> x))
       (dedup_loop pr all r (length col) 0 col [] [])"

definition agg_deduplicate :: "fenv \<Rightarrow> val list \<Rightarrow> call_result" where
  "agg_deduplicate F args = with_arg args 2 (\<lambda>a. case (args ! 0, args ! 1, a) of
     (VSlice v1, VSlice v2, VSlice v3a) \<Rightarrow>
       (case getFirstValidArg v3a of
          VBool v3 \<Rightarrow> map_option (\<lambda>v. (v, True)) (dedup (fe_print F) v1 v2 v3)
        | _ \<Rightarrow> bad_call ''Invalid argument type found.'')
   | _ \<Rightarrow> bad_call ''Invalid argument type found.'')"

section \<open>Plugin functions (functionRuntime.go, func\_context.go)\<close>

record plugin =
  pl_IsAggregate :: bool
  pl_Exec :: "val list \<Rightarrow> nat \<Rightarrow> val \<times> bool"

text \<open>A register of functions says whether it has a name and gives the function, an error or nil.\<close>

type_synonym FunctionRegister = "(string \<Rightarrow> bool) \<times> (string \<Rightarrow> string + plugin option)"

text \<open>The functions an operator has loaded, with the numbers of their contexts.\<close>

type_synonym funcRuntime = "(string \<times> plugin \<times> nat) list"

datatype get_err = NotFoundErr | GetErr string

definition rt_Get :: "FunctionRegister list \<Rightarrow> funcRuntime \<Rightarrow> string \<Rightarrow> funcRuntime \<times> (get_err + plugin \<times> nat)" where
  "rt_Get registers fp name = (case map_of fp name of
     Some reg \<Rightarrow> (fp, Inr reg)
   | None \<Rightarrow>
       (case find (\<lambda>(has, fn). has name) registers of
          None \<Rightarrow> (fp, Inl NotFoundErr)
        | Some (has, fn) \<Rightarrow>
            (case fn name of
               Inl e \<Rightarrow> (fp, Inl (GetErr e))
             | Inr None \<Rightarrow> (fp, Inl NotFoundErr)
             | Inr (Some nf) \<Rightarrow> (AList.update name (nf, length fp) fp, Inr (nf, length fp)))))"

definition convertKey :: "nat \<Rightarrow> string \<Rightarrow> string" where
  "convertKey funcId key = ''$$func'' @ nat_digits funcId @ ''_'' @ key"

text \<open>The counters of a context (\<^verbatim>\<open>context/default.go\<close>) are entries of its state that hold a number.\<close>

definition IncrCounter :: "string \<Rightarrow> i64w \<Rightarrow> gval DefaultContext \<Rightarrow> gval DefaultContext \<times> string option" where
  "IncrCounter key amount c = (case GetState key c of
     Some v \<Rightarrow>
       (case ToInt v STRICT of
          Inl _ \<Rightarrow> (c, Some (''state['' @ key @ ''] must be an int''))
        | Inr vi \<Rightarrow> (PutState key (GInt (vi + amount)) c, None))
   | None \<Rightarrow> (PutState key (GInt amount) c, None))"

definition GetCounter :: "string \<Rightarrow> gval DefaultContext \<Rightarrow> gval DefaultContext \<times> (string + i64w)" where
  "GetCounter key c = (case GetState key c of
     Some v \<Rightarrow>
       (case ToInt v STRICT of Inl _ \<Rightarrow> (c, Inl (''state['' @ key @ ''] is not a number'')) | Inr vi \<Rightarrow> (c, Inr vi))
   | None \<Rightarrow> (PutState key (GInt 0) c, Inr 0))"

text \<open>The context of a function number \<open>i\<close> is that of its operator with converted keys.\<close>

definition fc_PutState :: "nat \<Rightarrow> string \<Rightarrow> gval \<Rightarrow> gval DefaultContext \<Rightarrow> gval DefaultContext" where
  "fc_PutState i key = PutState (convertKey i key)"

definition fc_GetState :: "nat \<Rightarrow> string \<Rightarrow> gval DefaultContext \<Rightarrow> gval option" where
  "fc_GetState i key = GetState (convertKey i key)"

definition fc_DeleteState :: "nat \<Rightarrow> string \<Rightarrow> gval DefaultContext \<Rightarrow> gval DefaultContext" where
  "fc_DeleteState i key = DeleteState (convertKey i key)"

definition fc_IncrCounter :: "nat \<Rightarrow> string \<Rightarrow> i64w \<Rightarrow> gval DefaultContext \<Rightarrow> gval DefaultContext \<times> string option" where
  "fc_IncrCounter i key = IncrCounter (convertKey i key)"

definition fc_GetCounter :: "nat \<Rightarrow> string \<Rightarrow> gval DefaultContext \<Rightarrow> gval DefaultContext \<times> (string + i64w)" where
  "fc_GetCounter i key = GetCounter (convertKey i key)"

section \<open>The valuers (funcValuer.go, funcsAggregate.go)\<close>

text \<open>A plugin function answers only the valuer of its kind.\<close>

definition call_plugin :: "FunctionRegister list \<Rightarrow> bool \<Rightarrow> funcRuntime \<Rightarrow> string \<Rightarrow> val list \<Rightarrow> funcRuntime \<times> call_result" where
  "call_plugin registers agg fp name args = (case rt_Get registers fp name of
     (fp1, Inl NotFoundErr) \<Rightarrow> (fp1, Some (VNil, False))
   | (fp1, Inl (GetErr e)) \<Rightarrow> (fp1, bad_call e)
   | (fp1, Inr (nf, i)) \<Rightarrow> (fp1, if pl_IsAggregate nf = agg then Some (pl_Exec nf args i) else Some (VNil, False)))"

definition fv_Call :: "fenv \<Rightarrow> FunctionRegister list \<Rightarrow> funcRuntime \<Rightarrow> string \<Rightarrow> val list \<Rightarrow> funcRuntime \<times> call_result" where
  "fv_Call F registers fp name args =
     (let lowerName = to_lower name in
      case FuncType_of lowerName of
        NotFoundFunc \<Rightarrow> call_plugin registers False fp name args
      | AggFunc \<Rightarrow> (fp, Some (VNil, False))
      | MathFunc \<Rightarrow> (fp, mathCall F lowerName args)
      | ConvFunc \<Rightarrow> (fp, convCall F lowerName args)
      | StrFunc \<Rightarrow> (fp, strCall F lowerName args)
      | HashFunc \<Rightarrow> (fp, hashCall F lowerName args)
      | JsonFunc \<Rightarrow> (fp, jsonCall F lowerName args)
      | OtherFunc \<Rightarrow> (fp, otherCall F lowerName args))"

definition afv_Call :: "fenv \<Rightarrow> FunctionRegister list \<Rightarrow> funcRuntime \<Rightarrow> string \<Rightarrow> val list \<Rightarrow> funcRuntime \<times> call_result" where
  "afv_Call F registers fp name args =
     (let lowerName = to_lower name in
      if lowerName = ''avg'' then (fp, with_slice args 0 agg_avg)
      else if lowerName = ''count'' then (fp, with_slice args 0 (\<lambda>s. ok_call (int_v (int (getCount s)))))
      else if lowerName = ''max'' then (fp, with_slice args 0 agg_max)
      else if lowerName = ''min'' then (fp, with_slice args 0 agg_min)
      else if lowerName = ''sum'' then (fp, with_slice args 0 agg_sum)
      else if lowerName = ''collect'' then (fp, with_arg args 0 ok_call)
      else if lowerName = ''deduplicate'' then (fp, agg_deduplicate F args)
      else call_plugin registers True fp name args)"

section \<open>Aggregates of integers\<close>

definition ints :: "val list \<Rightarrow> i64w list" where
  "ints s = List.map_filter as_int s"

lemma agg_loop_fold:
  "\<forall>v \<in> set s. v = VNil \<or> sel v \<noteq> None \<Longrightarrow> sel VNil = None \<Longrightarrow>
     agg_loop sel step s acc = Inr (fold (\<lambda>x a. step a x) (List.map_filter sel s) acc)"
  by (induction s arbitrary: acc) (auto simp: map_filter_simps split: option.splits)

lemma fold_plus: "fold (\<lambda>x a. a + x) ws acc = acc + sum_list (ws :: i64w list)"
  by (induction ws arbitrary: acc) (auto simp: ac_simps)

lemma fold_select:
  assumes "\<And>m v. le m (better m v) \<and> le v (better m v) \<and> better m v \<in> {m, v}" and "\<And>x y z. le x y \<Longrightarrow> le y z \<Longrightarrow> le x z" and "\<And>x. le x x"
  shows "fold (\<lambda>x a. better a x) ws acc \<in> insert acc (set ws) \<and> (\<forall>u \<in> insert acc (set ws). le u (fold (\<lambda>x a. better a x) ws acc))"
proof (induction ws arbitrary: acc)
  case (Cons w ws)
  let ?r = "fold (\<lambda>x a. better a x) ws (better acc w)"
  have r: "?r \<in> insert (better acc w) (set ws)" "le (better acc w) ?r" "\<forall>u \<in> set ws. le u ?r"
    using Cons [of "better acc w"] by auto
  have b: "le acc (better acc w)" "le w (better acc w)" "better acc w \<in> {acc, w}"
    using assms(1) by blast+
  have "le acc ?r" "le w ?r"
    using assms(2) [OF b(1) r(2)] assms(2) [OF b(2) r(2)] by simp_all
  then show ?case
    using r b(3) by auto
qed (simp add: assms(3))

lemma sliceIntMax_max:
  assumes "\<forall>v \<in> set s. v = VNil \<or> as_int v \<noteq> None" and "t \<in> set (ints s)"
  shows "\<exists>w \<in> set (ints s). sliceIntMax s t = Inr w \<and> (\<forall>u \<in> set (ints s). sint u \<le> sint w)"
proof -
  let ?step = "\<lambda>(m :: i64w) v. if sint m < sint v then v else m"
  have "fold (\<lambda>x a. ?step a x) (ints s) t \<in> insert t (set (ints s))
      \<and> (\<forall>u \<in> insert t (set (ints s)). sint u \<le> sint (fold (\<lambda>x a. ?step a x) (ints s) t))"
    by (rule fold_select [where le = "\<lambda>x y. sint x \<le> sint y" and better = ?step]) auto
  moreover have "sliceIntMax s t = Inr (fold (\<lambda>x a. ?step a x) (ints s) t)"
    unfolding sliceIntMax_def ints_def using assms(1) by (rule agg_loop_fold) (simp add: as_int_def)
  ultimately show ?thesis
    using assms(2) by auto
qed

lemma sliceIntMin_min:
  assumes "\<forall>v \<in> set s. v = VNil \<or> as_int v \<noteq> None" and "t \<in> set (ints s)"
  shows "\<exists>w \<in> set (ints s). sliceIntMin s t = Inr w \<and> (\<forall>u \<in> set (ints s). sint w \<le> sint u)"
proof -
  let ?step = "\<lambda>(m :: i64w) v. if sint v < sint m then v else m"
  have "fold (\<lambda>x a. ?step a x) (ints s) t \<in> insert t (set (ints s))
      \<and> (\<forall>u \<in> insert t (set (ints s)). sint (fold (\<lambda>x a. ?step a x) (ints s) t) \<le> sint u)"
    by (rule fold_select [where le = "\<lambda>x y. sint y \<le> sint x" and better = ?step]) auto
  moreover have "sliceIntMin s t = Inr (fold (\<lambda>x a. ?step a x) (ints s) t)"
    unfolding sliceIntMin_def ints_def using assms(1) by (rule agg_loop_fold) (simp add: as_int_def)
  ultimately show ?thesis
    using assms(2) by auto
qed

lemma first_int:
  assumes "\<forall>v \<in> set s. v = VNil \<or> as_int v \<noteq> None" and "ints s \<noteq> []"
  obtains t where "getFirstValidArg s = VInt t" "t \<in> set (ints s)" "s \<noteq> []"
proof -
  have "\<exists>t. getFirstValidArg s = VInt t \<and> t \<in> set (ints s)"
    using assms by (induction s) (auto simp: getFirstValidArg_def ints_def map_filter_simps as_int_def split: option.splits val.splits)
  moreover have "s \<noteq> []"
    using assms(2) by (auto simp: ints_def map_filter_simps)
  ultimately show ?thesis
    using that by blast
qed

lemma getCount_ints: "\<forall>v \<in> set s. v = VNil \<or> as_int v \<noteq> None \<Longrightarrow> getCount s = length (ints s)"
  by (induction s) (auto simp: getCount_def ints_def map_filter_simps as_int_def split: option.splits val.splits)

lemma agg_names [simp]:
  "to_lower ''avg'' = ''avg''" "to_lower ''count'' = ''count''" "to_lower ''max'' = ''max''" "to_lower ''min'' = ''min''" "to_lower ''sum'' = ''sum''"
  by code_simp+

lemma with_slice_one [simp]: "with_slice [VSlice s] 0 k = k s"
  by (simp add: with_slice_def with_arg_def)

text \<open>
  (C39) On a window whose values are nil or \<^verbatim>\<open>int\<close>, with at least one \<^verbatim>\<open>int\<close>, the aggregates are those of the integers: the count, the sum modulo the width, its
  quotient by the count truncated towards zero, and a greatest and a least value in the signed order.
\<close>

theorem aggregate_ints:
  assumes "\<forall>v \<in> set s. v = VNil \<or> as_int v \<noteq> None" and "ints s \<noteq> []"
  shows "snd (afv_Call F regs fp ''count'' [VSlice s]) = ok_call (int_v (int (length (ints s))))
    \<and> snd (afv_Call F regs fp ''sum'' [VSlice s]) = ok_call (VInt (sum_list (ints s)))
    \<and> snd (afv_Call F regs fp ''avg'' [VSlice s]) = ok_call (int_v (go_div (sint (sum_list (ints s))) (int (length (ints s)))))
    \<and> (\<exists>w \<in> set (ints s). snd (afv_Call F regs fp ''max'' [VSlice s]) = ok_call (VInt w) \<and> (\<forall>u \<in> set (ints s). sint u \<le> sint w))
    \<and> (\<exists>w \<in> set (ints s). snd (afv_Call F regs fp ''min'' [VSlice s]) = ok_call (VInt w) \<and> (\<forall>u \<in> set (ints s). sint w \<le> sint u))"
proof -
  obtain t where t: "getFirstValidArg s = VInt t" "t \<in> set (ints s)" "s \<noteq> []"
    using first_int [OF assms] by blast
  have total: "sliceIntTotal s = Inr (sum_list (ints s))"
    using assms(1) by (simp add: sliceIntTotal_def agg_loop_fold as_int_def fold_plus flip: ints_def)
  have "0 < getCount s"
    using assms by (simp add: getCount_ints)
  then show ?thesis
    using t total sliceIntMax_max [OF assms(1) t(2)] sliceIntMin_min [OF assms(1) t(2)] getCount_ints [OF assms(1)]
    by (auto simp: afv_Call_def agg_sum_def agg_avg_def agg_max_def agg_min_def of_result_def)
qed

theorem aggregate_ints_witness:
  "snd (afv_Call ex_fenv [] [] ''sum'' [VSlice [VInt 3, VNil, VInt (-5)]]) = ok_call (VInt (-2))
   \<and> snd (afv_Call ex_fenv [] [] ''avg'' [VSlice [VInt 3, VNil, VInt (-5)]]) = ok_call (int_v (-1))"
proof -
  have s: "ints [VInt 3, VNil, VInt (-5)] = [3, -5]" "\<forall>v \<in> set [VInt 3, VNil, VInt (-5)]. v = VNil \<or> as_int v \<noteq> None"
    by (simp_all add: ints_def map_filter_simps as_int_def)
  have "go_div (sint (sum_list [3, -5 :: i64w])) 2 = -1"
    by code_simp
  then show ?thesis
    using aggregate_ints [OF s(2), of ex_fenv "[]" "[]"] s(1) by simp
qed

text \<open>
  \<^verbatim>\<open>min\<close> of strings is their maximum: on values that are nil or strings the two aggregates return the same.
\<close>

theorem min_of_strings_is_max:
  assumes "\<forall>v \<in> set s. v = VNil \<or> as_string v \<noteq> None" and "\<exists>v \<in> set s. v \<noteq> VNil"
  shows "snd (afv_Call F regs fp ''min'' [VSlice s]) = snd (afv_Call F regs fp ''max'' [VSlice s])"
proof -
  obtain v where v: "find (\<lambda>v. v \<noteq> VNil) s = Some v" "v \<in> set s" "v \<noteq> VNil"
    using assms(2) by (cases "find (\<lambda>v. v \<noteq> VNil) s") (auto simp: find_None_iff find_Some_iff)
  then have "as_string v \<noteq> None"
    using assms(1) by blast
  then obtain t where "v = VString t"
    by (cases v) (simp_all add: as_string_def)
  then have "getFirstValidArg s = VString t" "s \<noteq> []"
    using v by (auto simp: getFirstValidArg_def)
  then show ?thesis
    by (simp add: afv_Call_def agg_min_def agg_max_def sliceStringMin_def sliceStringMax_def)
qed

theorem min_of_strings_is_max_witness:
  "snd (afv_Call ex_fenv [] [] ''min'' [VSlice [VString ''a'', VString ''b'']]) = ok_call (VString ''b'')"
proof -
  have "snd (afv_Call ex_fenv [] [] ''min'' [VSlice [VString ''a'', VString ''b'']]) = snd (afv_Call ex_fenv [] [] ''max'' [VSlice [VString ''a'', VString ''b'']])"
    by (rule min_of_strings_is_max) (simp_all add: as_string_def)
  moreover have "agg_max [VString ''a'', VString ''b''] = ok_call (VString ''b'')"
    by code_simp
  ultimately show ?thesis
    by (simp add: afv_Call_def)
qed

section \<open>Plugin functions keep their own state\<close>

fun rt_run :: "FunctionRegister list \<Rightarrow> string list \<Rightarrow> funcRuntime \<Rightarrow> funcRuntime" where
  "rt_run registers [] fp = fp"
| "rt_run registers (n # ns) fp = rt_run registers ns (fst (rt_Get registers fp n))"

text \<open>Every loaded function has a number of its own.\<close>

definition rt_inv :: "funcRuntime \<Rightarrow> bool" where
  "rt_inv fp \<longleftrightarrow> distinct (map fst fp) \<and> map (\<lambda>(_, _, i). i) fp = [0..<length fp]"

lemma rt_Get_inv: "rt_inv fp \<Longrightarrow> rt_inv (fst (rt_Get registers fp name))"
  by (auto simp: rt_Get_def rt_inv_def update_fresh map_of_eq_None_iff split: option.splits sum.splits prod.splits)

lemma rt_run_inv: "rt_inv fp \<Longrightarrow> rt_inv (rt_run registers ns fp)"
  by (induction ns arbitrary: fp) (simp_all add: rt_Get_inv)

lemma rt_inv_ids:
  assumes "rt_inv fp" "(n, p, i) \<in> set fp" "(m, q, i) \<in> set fp"
  shows "n = m \<and> p = q"
proof -
  have "inj_on (\<lambda>(_, _, i). i) (set fp)"
    using assms(1) unfolding rt_inv_def by (metis distinct_map distinct_upt)
  then show ?thesis
    using assms(2,3) by (auto simp: inj_on_def dest: bspec)
qed

lemma convertKey_inj: "convertKey i k = convertKey j l \<longleftrightarrow> i = j \<and> k = l"
proof
  assume "convertKey i k = convertKey j l"
  then have eq: "nat_digits i @ CHR ''_'' # k = nat_digits j @ CHR ''_'' # l"
    by (simp add: convertKey_def)
  have "takeWhile (\<lambda>c. c \<noteq> CHR ''_'') (nat_digits n @ CHR ''_'' # r) = nat_digits n" for n r
    using nat_digits_chars [of "CHR ''_''" n] by (subst takeWhile_append2) (auto simp: is_digit_def char_code_def)
  then have "nat_digits i = nat_digits j"
    using arg_cong [OF eq, of "takeWhile (\<lambda>c. c \<noteq> CHR ''_'')"] by simp
  then have "nat_digits i = nat_digits j \<and> k = l"
    using eq by simp
  then show "i = j \<and> k = l"
    by (metis dec_val_nat_digits option.inject)
qed simp


definition ex_plugin :: plugin where
  "ex_plugin = \<lparr>pl_IsAggregate = False, pl_Exec = (\<lambda>args i. (int_v (int i), True))\<rparr>"

definition ex_registers :: "FunctionRegister list" where
  "ex_registers = [(\<lambda>_. True, \<lambda>_. Inr (Some ex_plugin))]"

definition ex_context :: "gval DefaultContext" where
  "ex_context = \<lparr>dc_opId = ''op'', dc_state = [], dc_snapshot = None\<rparr>"


end
