(* ===== verification/Nodes.thy ===== *)
theory Nodes
  imports Strconv Checkpoints Operators
begin

text \<open>
  The nodes of a running rule: statistics (\<^verbatim>\<open>stats_manager.go\<close>), the default node with its outputs (\<^verbatim>\<open>node.go\<close>), the loop around an operator (\<^verbatim>\<open>operations.go\<close>) and
  the node that aligns tables with streams (\<^verbatim>\<open>join_align_node.go\<close>).

  A channel is a value of the type \<open>'c\<close>. What a node does with its outputs is the list of its sends, each with the name of the output, its channel and the message; the sends of
  one broadcast are made by one goroutine each, so that only the order of the sends to one channel means anything. The dynamic type of a value matters in three cases (nil, an error,
  anything else) and is given by a function into \<open>dyn\<close>. Counters are \<^verbatim>\<open>int64\<close>; clocks count nanoseconds, with \<open>None\<close> for the zero time.
\<close>

section \<open>Names with numbers\<close>

text \<open>The names of nodes and instances carry numbers, which can be read off them.\<close>

lemma digits_takeWhile: "\<not> is_digit c \<Longrightarrow> takeWhile is_digit (nat_digits n @ c # r) = nat_digits n"
  using nat_digits_chars [of _ n] by (subst takeWhile_append2) auto

lemma nat_digits_inj: "nat_digits i = nat_digits j \<longleftrightarrow> i = j"
  by (metis dec_val_nat_digits option.inject)

lemma numbered_prefix_inj:
  assumes "\<not> is_digit c" "\<not> is_digit d"
  shows "nat_digits i @ c # r = nat_digits j @ d # s \<longleftrightarrow> i = j \<and> c = d \<and> r = s"
proof
  assume eq: "nat_digits i @ c # r = nat_digits j @ d # s"
  then have "nat_digits i = nat_digits j"
    using digits_takeWhile [OF assms(1), of i r] digits_takeWhile [OF assms(2), of j s] by simp
  with eq show "i = j \<and> c = d \<and> r = s"
    by (simp add: nat_digits_inj)
qed simp

lemma numbered_suffix_inj:
  assumes "\<not> is_digit c"
  shows "r @ c # nat_digits i = s @ c # nat_digits j \<longleftrightarrow> r = s \<and> i = j"
proof
  assume eq: "r @ c # nat_digits i = s @ c # nat_digits j"
  have "takeWhile is_digit (rev (r @ c # nat_digits n)) = rev (nat_digits n)" for r n
    using nat_digits_chars [of _ n] assms by (simp add: takeWhile_append)
  from this [of r i] this [of s j] eq have "nat_digits i = nat_digits j"
    by (metis rev_rev_ident)
  with eq show "r = s \<and> i = j"
    by (simp add: nat_digits_inj)
qed simp

section \<open>Statistics (stats\_manager.go)\<close>

record StatManager =
  totalRecordsIn :: int
  totalRecordsOut :: int
  totalExceptions :: int
  processLatency :: int
  lastInvocation :: "int option"
  sm_bufferLength :: int
  sm_opType :: string
  sm_prefix :: string
  processTimeStart :: "int option"
  sm_opId :: string
  sm_instanceId :: int

definition stat_prefix :: "string \<Rightarrow> string option" where
  "stat_prefix opType =
     (if opType = ''source'' then Some ''source_''
      else if opType = ''op'' then Some ''op_''
      else if opType = ''sink'' then Some ''sink_''
      else None)"

definition NewStatManager :: "string \<Rightarrow> string \<Rightarrow> int \<Rightarrow> string + StatManager" where
  "NewStatManager opType opId instanceId = (case stat_prefix opType of
     None \<Rightarrow> Inl (''invalid opType '' @ opType)
   | Some p \<Rightarrow> Inr \<lparr>totalRecordsIn = 0, totalRecordsOut = 0, totalExceptions = 0, processLatency = 0, lastInvocation = None,
       sm_bufferLength = 0, sm_opType = opType, sm_prefix = p, processTimeStart = None, sm_opId = opId, sm_instanceId = instanceId\<rparr>)"

definition IncTotalRecordsIn :: "StatManager \<Rightarrow> StatManager" where
  "IncTotalRecordsIn sm = sm\<lparr>totalRecordsIn := i64 (totalRecordsIn sm + 1)\<rparr>"

definition IncTotalRecordsOut :: "StatManager \<Rightarrow> StatManager" where
  "IncTotalRecordsOut sm = sm\<lparr>totalRecordsOut := i64 (totalRecordsOut sm + 1)\<rparr>"

definition IncTotalExceptions :: "StatManager \<Rightarrow> StatManager" where
  "IncTotalExceptions sm = sm\<lparr>totalExceptions := i64 (totalExceptions sm + 1), processTimeStart := None\<rparr>"

definition ProcessTimeStart :: "int \<Rightarrow> StatManager \<Rightarrow> StatManager" where
  "ProcessTimeStart now sm = sm\<lparr>lastInvocation := Some now, processTimeStart := Some now\<rparr>"

definition ProcessTimeEnd :: "int \<Rightarrow> StatManager \<Rightarrow> StatManager" where
  "ProcessTimeEnd now sm = (case processTimeStart sm of
     None \<Rightarrow> sm
   | Some t \<Rightarrow> sm\<lparr>processLatency := go_div (now - t) 1000\<rparr>)"

definition SetBufferLength :: "int \<Rightarrow> StatManager \<Rightarrow> StatManager" where
  "SetBufferLength l sm = sm\<lparr>sm_bufferLength := l\<rparr>"

datatype metric = MInt int | MTime string

definition GetMetrics :: "(int \<Rightarrow> string) \<Rightarrow> StatManager \<Rightarrow> metric list" where
  "GetMetrics fmt sm =
     [MInt (totalRecordsIn sm), MInt (totalRecordsOut sm), MInt (totalExceptions sm), MInt (processLatency sm), MInt (sm_bufferLength sm)] @
     [case lastInvocation sm of None \<Rightarrow> MInt 0 | Some t \<Rightarrow> MTime (fmt t)]"

section \<open>The default node (node.go)\<close>

datatype dyn = DynNil | DynError | DynValue

datatype 'v msg = Plain "'v data" | Event "'v BufferOrEvent"

text \<open>The clock readings, the length of the input channel and the outputs that take a message before the rule is stopped.\<close>

record tick =
  tk_start :: int
  tk_align :: int
  tk_end :: int
  tk_length :: int
  tk_taken :: "string \<Rightarrow> bool"

record 'c defaultNode =
  dn_name :: string
  dn_outputs :: "(string \<times> 'c) list"
  dn_concurrency :: int
  dn_sendError :: bool
  dn_qos :: Qos

record ('c, 'h) defaultSinkNode = "'c defaultNode" +
  dn_input :: 'c
  dn_barrierHandler :: 'h
  dn_inputCount :: int

definition AddOutput :: "'c \<Rightarrow> string \<Rightarrow> ('c, 'z) defaultNode_scheme \<Rightarrow> string + ('c, 'z) defaultNode_scheme" where
  "AddOutput ch name o1 = (case map_of (dn_outputs o1) name of
     None \<Rightarrow> Inr (o1\<lparr>dn_outputs := AList.update name ch (dn_outputs o1)\<rparr>)
   | Some _ \<Rightarrow> Inl (''fail to add output '' @ name @ '', node '' @ dn_name o1 @ '' already has an output of the same name''))"

definition SetConcurrency :: "int \<Rightarrow> ('c, 'z) defaultNode_scheme \<Rightarrow> ('c, 'z) defaultNode_scheme" where
  "SetConcurrency concurr o1 = o1\<lparr>dn_concurrency := (if concurr < 1 then 1 else concurr)\<rparr>"

definition SetQos :: "Qos \<Rightarrow> ('c, 'z) defaultNode_scheme \<Rightarrow> ('c, 'z) defaultNode_scheme" where
  "SetQos q o1 = o1\<lparr>dn_qos := q\<rparr>"

definition AddInputCount :: "('c, 'h, 'z) defaultSinkNode_scheme \<Rightarrow> ('c, 'h, 'z) defaultSinkNode_scheme" where
  "AddInputCount o1 = o1\<lparr>dn_inputCount := dn_inputCount o1 + 1\<rparr>"

definition SetBarrierHandler :: "'h \<Rightarrow> ('c, 'h, 'z) defaultSinkNode_scheme \<Rightarrow> ('c, 'h, 'z) defaultSinkNode_scheme" where
  "SetBarrierHandler bh o1 = o1\<lparr>dn_barrierHandler := bh\<rparr>"

definition doBroadcast :: "(string \<Rightarrow> bool) \<Rightarrow> 'v msg \<Rightarrow> ('c, 'z) defaultNode_scheme \<Rightarrow> (string \<times> 'c \<times> 'v msg) list" where
  "doBroadcast taken m o1 = map (\<lambda>(n, ch). (n, ch, m)) (filter (\<lambda>(n, ch). taken n) (dn_outputs o1))"

definition at_least_once :: "Qos \<Rightarrow> bool" where
  "at_least_once q \<longleftrightarrow> q \<noteq> AtMostOnce"

definition is_error :: "('v \<Rightarrow> dyn) \<Rightarrow> 'v data \<Rightarrow> bool" where
  "is_error cls d = (case d of DBarrier _ \<Rightarrow> False | DItem v \<Rightarrow> cls v = DynError)"

definition wrap_data :: "('c, 'z) defaultNode_scheme \<Rightarrow> 'v data \<Rightarrow> 'v msg" where
  "wrap_data o1 d = (if at_least_once (dn_qos o1) then Event \<lparr>Data = d, Channel = dn_name o1\<rparr> else Plain d)"

definition Broadcast ::
  "('v \<Rightarrow> dyn) \<Rightarrow> (string \<Rightarrow> bool) \<Rightarrow> 'v data \<Rightarrow> ('c, 'z) defaultNode_scheme \<Rightarrow> (string \<times> 'c \<times> 'v msg) list" where
  "Broadcast cls taken d o1 =
     (if \<not> dn_sendError o1 \<and> is_error cls d then [] else doBroadcast taken (wrap_data o1 d) o1)"

text \<open>\<open>None\<close> when the barrier handler has processed the message. An event that reaches a node without checkpoints is handed on as it is.\<close>

definition preprocess ::
  "('v BufferOrEvent \<Rightarrow> 'h \<Rightarrow> bool \<times> 'h) \<Rightarrow> 'v msg \<Rightarrow> ('c, 'h, 'z) defaultSinkNode_scheme \<Rightarrow>
     'v msg option \<times> ('c, 'h, 'z) defaultSinkNode_scheme" where
  "preprocess process m o1 =
     (if at_least_once (dn_qos o1) then
        (case m of
           Event b \<Rightarrow>
             (case process b (dn_barrierHandler o1) of (processed, h) \<Rightarrow>
                (if processed then None else Some (Plain (Data b)), o1\<lparr>dn_barrierHandler := h\<rparr>))
         | Plain _ \<Rightarrow> (Some m, o1))
      else (Some m, o1))"

section \<open>The loop around an operator (operations.go)\<close>

text \<open>
  \<open>apply\<close> is \<^verbatim>\<open>UnOperation.Apply\<close> with the context and the function valuers as its state \<open>'s\<close>; it is \<open>None\<close> for a panic. One worker is a node, its statistics and the
  state of its operator.
\<close>

record ('c, 'h, 's) worker =
  w_node :: "('c, 'h) defaultSinkNode"
  w_stats :: StatManager
  w_op :: 's
  w_cancelled :: bool

definition New :: "string \<Rightarrow> 'c \<Rightarrow> 'h \<Rightarrow> bool \<Rightarrow> ('c, 'h) defaultSinkNode" where
  "New name input nilHandler sendError =
     \<lparr>dn_name = name, dn_outputs = [], dn_concurrency = 1, dn_sendError = sendError, dn_qos = AtMostOnce,
      dn_input = input, dn_barrierHandler = nilHandler, dn_inputCount = 0\<rparr>"

text \<open>\<^verbatim>\<open>Exec\<close>: the instances it starts.\<close>

definition unary_Exec :: "('c, 'h) defaultSinkNode \<Rightarrow> string + int list" where
  "unary_Exec o1 =
     (if dn_outputs o1 = [] then Inl ''no output channel found''
      else Inr [0 .. (if dn_concurrency o1 < 1 then 1 else dn_concurrency o1) - 1])"

definition finish_value :: "tick \<Rightarrow> StatManager \<Rightarrow> StatManager" where
  "finish_value k sm = SetBufferLength (tk_length k) (IncTotalRecordsOut (ProcessTimeEnd (tk_end k) sm))"

definition doOp_item ::
  "('r \<Rightarrow> dyn) \<Rightarrow> ('i BufferOrEvent \<Rightarrow> 'h \<Rightarrow> bool \<times> 'h) \<Rightarrow> ('i msg \<Rightarrow> 's \<Rightarrow> ('r \<times> 's) option) \<Rightarrow> tick \<Rightarrow> 'i msg \<Rightarrow>
     ('c, 'h, 's) worker \<Rightarrow> ((string \<times> 'c \<times> 'r msg) list \<times> ('c, 'h, 's) worker) option" where
  "doOp_item cls process apply k m w = (case preprocess process m (w_node w) of
     (None, o1) \<Rightarrow> Some ([], w\<lparr>w_node := o1\<rparr>)
   | (Some item, o1) \<Rightarrow>
       (let st = ProcessTimeStart (tk_start k) (IncTotalRecordsIn (w_stats w)) in
        case apply item (w_op w) of
          None \<Rightarrow> None
        | Some (result, s) \<Rightarrow>
            (let w1 = w\<lparr>w_node := o1, w_stats := st, w_op := s\<rparr> in
             Some (case cls result of
               DynNil \<Rightarrow> ([], w1)
             | DynError \<Rightarrow> (Broadcast cls (tk_taken k) (DItem result) o1, w1\<lparr>w_stats := IncTotalExceptions st\<rparr>)
             | DynValue \<Rightarrow> (Broadcast cls (tk_taken k) (DItem result) o1, w1\<lparr>w_stats := finish_value k st\<rparr>)))))"

datatype 'i node_event = Item tick "'i msg" | Cancel

fun doOp ::
  "('r \<Rightarrow> dyn) \<Rightarrow> ('i BufferOrEvent \<Rightarrow> 'h \<Rightarrow> bool \<times> 'h) \<Rightarrow> ('i msg \<Rightarrow> 's \<Rightarrow> ('r \<times> 's) option) \<Rightarrow> 'i node_event list \<Rightarrow>
     ('c, 'h, 's) worker \<Rightarrow> ((string \<times> 'c \<times> 'r msg) list \<times> ('c, 'h, 's) worker) option" where
  "doOp cls process apply [] w = Some ([], w)"
| "doOp cls process apply (Cancel # es) w = Some ([], w\<lparr>w_cancelled := True\<rparr>)"
| "doOp cls process apply (Item k m # es) w = (case doOp_item cls process apply k m w of
     None \<Rightarrow> None
   | Some (out, w1) \<Rightarrow> (case doOp cls process apply es w1 of
       None \<Rightarrow> None
     | Some (out2, w2) \<Rightarrow> Some (out @ out2, w2)))"

section \<open>What an operator node sends\<close>

text \<open>The reference: the messages that the barrier handler lets through, the results of the operator on them, and which results are sent.\<close>

fun passed :: "('i BufferOrEvent \<Rightarrow> 'h \<Rightarrow> bool \<times> 'h) \<Rightarrow> Qos \<Rightarrow> 'i msg list \<Rightarrow> 'h \<Rightarrow> 'i msg list \<times> 'h" where
  "passed process q [] h = ([], h)"
| "passed process q (m # ms) h =
     (if at_least_once q then
        (case m of
           Event b \<Rightarrow>
             (case process b h of (processed, h1) \<Rightarrow>
                (case passed process q ms h1 of (out, h2) \<Rightarrow> (if processed then out else Plain (Data b) # out, h2)))
         | Plain _ \<Rightarrow> (case passed process q ms h of (out, h2) \<Rightarrow> (m # out, h2)))
      else (case passed process q ms h of (out, h2) \<Rightarrow> (m # out, h2)))"

fun op_results :: "('i \<Rightarrow> 's \<Rightarrow> ('r \<times> 's) option) \<Rightarrow> 'i list \<Rightarrow> 's \<Rightarrow> ('r list \<times> 's) option" where
  "op_results apply [] s = Some ([], s)"
| "op_results apply (m # ms) s = (case apply m s of
     None \<Rightarrow> None
   | Some (r, s1) \<Rightarrow> (case op_results apply ms s1 of None \<Rightarrow> None | Some (rs, s2) \<Rightarrow> Some (r # rs, s2)))"

definition is_sent :: "('r \<Rightarrow> dyn) \<Rightarrow> ('c, 'z) defaultNode_scheme \<Rightarrow> 'r \<Rightarrow> bool" where
  "is_sent cls o1 r = (case cls r of DynNil \<Rightarrow> False | DynError \<Rightarrow> dn_sendError o1 | DynValue \<Rightarrow> True)"

definition sent_to :: "string \<Rightarrow> (string \<times> 'c \<times> 'v msg) list \<Rightarrow> 'v msg list" where
  "sent_to n out = map (snd \<circ> snd) (filter (\<lambda>(name, _, _). name = n) out)"

text \<open>A run in which the rule is not stopped: every message is taken by all the outputs.\<close>

definition free_run :: "string list \<Rightarrow> 'i node_event list \<Rightarrow> 'i msg list \<Rightarrow> bool" where
  "free_run ns es ms \<longleftrightarrow>
     list_all2 (\<lambda>e m. case e of Item k m' \<Rightarrow> m' = m \<and> list_all (tk_taken k) ns | Cancel \<Rightarrow> False) es ms"

definition count_kind :: "('r \<Rightarrow> dyn) \<Rightarrow> dyn \<Rightarrow> 'r list \<Rightarrow> int" where
  "count_kind cls d rs = int (length (filter (\<lambda>r. cls r = d) rs))"

lemma free_run_simps [simp]:
  "free_run ns es [] \<longleftrightarrow> es = []"
  "free_run ns (Item k m' # es) (m # ms) \<longleftrightarrow> m' = m \<and> list_all (tk_taken k) ns \<and> free_run ns es ms"
  by (auto simp: free_run_def)

lemma free_run_Cons:
  "free_run ns es (m # ms) \<longleftrightarrow> (\<exists>k es'. es = Item k m # es' \<and> list_all (tk_taken k) ns \<and> free_run ns es' ms)"
  by (cases es; cases "hd es") (auto simp: free_run_def)

lemma sent_to_simps [simp]:
  "sent_to n [] = []"
  "sent_to n (a @ b) = sent_to n a @ sent_to n b"
  by (simp_all add: sent_to_def)

lemma count_kind_simps [simp]:
  "count_kind cls d [] = 0"
  "count_kind cls d (r # rs) = count_kind cls d rs + (if cls r = d then 1 else 0)"
  by (simp_all add: count_kind_def)

lemma filter_key_single:
  "distinct (map fst xs) \<Longrightarrow> n \<in> fst ` set xs \<Longrightarrow> length (filter (\<lambda>x. fst x = n) xs) = 1"
  by (induction xs) (auto simp: filter_empty_conv image_iff split: if_splits)

text \<open>One broadcast reaches every output once.\<close>

lemma sent_to_doBroadcast:
  assumes "list_all taken (map fst (dn_outputs o1))" "distinct (map fst (dn_outputs o1))" "n \<in> fst ` set (dn_outputs o1)"
  shows "sent_to n (doBroadcast taken m o1) = [m]"
proof -
  have all: "filter (\<lambda>(n, ch). taken n) (dn_outputs o1) = dn_outputs o1"
    using assms(1) by (simp add: list_all_iff filter_id_conv split_beta)
  from filter_key_single [OF assms(2,3)] obtain x where "filter (\<lambda>x. fst x = n) (dn_outputs o1) = [x]"
    by (cases "filter (\<lambda>x. fst x = n) (dn_outputs o1)") auto
  then show ?thesis
    by (simp add: sent_to_def doBroadcast_def all filter_map comp_def split_beta)
qed

lemma sent_to_Broadcast:
  assumes "list_all taken (map fst (dn_outputs o1))" "distinct (map fst (dn_outputs o1))" "n \<in> fst ` set (dn_outputs o1)"
    "cls r \<noteq> DynNil"
  shows "sent_to n (Broadcast cls taken (DItem r) o1) = (if is_sent cls o1 r then [wrap_data o1 (DItem r)] else [])"
  using assms(4) sent_to_doBroadcast [OF assms(1-3)]
  by (cases "cls r") (auto simp: Broadcast_def is_error_def is_sent_def)

text \<open>The statistics after a message with result \<open>r\<close>.\<close>

definition item_stats :: "dyn \<Rightarrow> tick \<Rightarrow> StatManager \<Rightarrow> StatManager" where
  "item_stats d k sm =
     (let st = ProcessTimeStart (tk_start k) (IncTotalRecordsIn sm) in
      case d of DynNil \<Rightarrow> st | DynError \<Rightarrow> IncTotalExceptions st | DynValue \<Rightarrow> finish_value k st)"

lemmas stat_defs = IncTotalRecordsIn_def IncTotalRecordsOut_def IncTotalExceptions_def ProcessTimeStart_def ProcessTimeEnd_def
  SetBufferLength_def finish_value_def

lemma item_stats_counters [simp]:
  "totalRecordsIn (item_stats d k sm) = i64 (totalRecordsIn sm + 1)"
  "totalRecordsOut (item_stats d k sm) = (if d = DynValue then i64 (totalRecordsOut sm + 1) else totalRecordsOut sm)"
  "totalExceptions (item_stats d k sm) = (if d = DynError then i64 (totalExceptions sm + 1) else totalExceptions sm)"
  by (cases d; simp add: item_stats_def stat_defs Let_def)+

lemma doOp_item_cases:
  assumes "preprocess process m (w_node w) = (r, o1)"
  shows "doOp_item cls process apply k m w = (case r of
     None \<Rightarrow> Some ([], w\<lparr>w_node := o1\<rparr>)
   | Some item \<Rightarrow> (case apply item (w_op w) of
       None \<Rightarrow> None
     | Some (v, s) \<Rightarrow>
         Some (if cls v = DynNil then [] else Broadcast cls (tk_taken k) (DItem v) o1,
               w\<lparr>w_node := o1, w_stats := item_stats (cls v) k (w_stats w), w_op := s\<rparr>)))"
  using assms by (auto simp: doOp_item_def item_stats_def Let_def split: option.splits dyn.splits)

text \<open>The handler is the only part of the node that a message changes.\<close>

lemma preprocess_handler:
  obtains r h where "preprocess process m o1 = (r, o1\<lparr>dn_barrierHandler := h\<rparr>)"
proof -
  have "\<exists>r h. preprocess process m o1 = (r, o1\<lparr>dn_barrierHandler := h\<rparr>)"
    by (auto simp: preprocess_def split: msg.splits prod.splits intro: exI [of _ "dn_barrierHandler o1"])
  then show ?thesis using that by blast
qed

lemma handler_irrelevant [simp]:
  "wrap_data (o1\<lparr>dn_barrierHandler := h\<rparr>) d = wrap_data o1 d"
  "is_sent cls (o1\<lparr>dn_barrierHandler := h\<rparr>) = is_sent cls o1"
  by (simp_all add: wrap_data_def is_sent_def fun_eq_iff split: dyn.splits)

lemma passed_preprocess:
  assumes "preprocess process m o1 = (r, o2)"
  shows "passed process (dn_qos o1) (m # ms) (dn_barrierHandler o1) =
     (case passed process (dn_qos o1) ms (dn_barrierHandler o2) of (out, h) \<Rightarrow>
        (case r of None \<Rightarrow> out | Some d \<Rightarrow> d # out, h))"
  using assms by (auto simp: preprocess_def split: if_splits msg.splits prod.splits)

definition in_range_stats :: "StatManager \<Rightarrow> bool" where
  "in_range_stats sm \<longleftrightarrow> in_i64 (totalRecordsIn sm) \<and> in_i64 (totalRecordsOut sm) \<and> in_i64 (totalExceptions sm)"

lemma i64_add_i64 [simp]:
  "i64 (i64 a + b) = i64 (a + b)"
  "i64 (b + i64 a) = i64 (b + a)"
  unfolding i64_def by (simp_all add: mod_simps algebra_simps)

lemma in_range_item_stats: "in_range_stats sm \<Longrightarrow> in_range_stats (item_stats d k sm)"
  by (simp add: in_range_stats_def)

lemma node_run:
  assumes "free_run (map fst (dn_outputs (w_node w))) es ms" "distinct (map fst (dn_outputs (w_node w)))"
    "n \<in> fst ` set (dn_outputs (w_node w))" "in_range_stats (w_stats w)"
    "passed process (dn_qos (w_node w)) ms (dn_barrierHandler (w_node w)) = (ds, h)" "op_results apply ds (w_op w) = Some (rs, s)"
  shows "\<exists>out w1. doOp cls process apply es w = Some (out, w1) \<and>
     sent_to n out = map (wrap_data (w_node w) \<circ> DItem) (filter (is_sent cls (w_node w)) rs) \<and>
     w_node w1 = (w_node w)\<lparr>dn_barrierHandler := h\<rparr> \<and> w_op w1 = s \<and>
     totalRecordsIn (w_stats w1) = i64 (totalRecordsIn (w_stats w) + int (length ds)) \<and>
     totalRecordsOut (w_stats w1) = i64 (totalRecordsOut (w_stats w) + count_kind cls DynValue rs) \<and>
     totalExceptions (w_stats w1) = i64 (totalExceptions (w_stats w) + count_kind cls DynError rs)"
  using assms
proof (induction ms arbitrary: es w ds rs)
  case Nil
  then show ?case by (auto simp: free_run_def in_range_stats_def i64_id)
next
  case (Cons m ms)
  from Cons.prems(1) obtain k es' where es: "es = Item k m # es'" "list_all (tk_taken k) (map fst (dn_outputs (w_node w)))"
      "free_run (map fst (dn_outputs (w_node w))) es' ms"
    unfolding free_run_Cons by blast
  obtain r h1 where pre: "preprocess process m (w_node w) = (r, (w_node w)\<lparr>dn_barrierHandler := h1\<rparr>)"
    by (rule preprocess_handler)
  let ?o = "(w_node w)\<lparr>dn_barrierHandler := h1\<rparr>"
  obtain ds' where ds': "passed process (dn_qos (w_node w)) ms h1 = (ds', h)" "ds = (case r of None \<Rightarrow> ds' | Some d \<Rightarrow> d # ds')"
    using Cons.prems(5) unfolding passed_preprocess [OF pre] by (auto split: prod.splits)
  show ?case
  proof (cases r)
    case None
    let ?w = "w\<lparr>w_node := ?o\<rparr>"
    have step: "doOp_item cls process apply k m w = Some ([], ?w)"
      by (simp add: doOp_item_cases [OF pre] None)
    have "op_results apply ds' (w_op ?w) = Some (rs, s)"
      using Cons.prems(6) ds'(2) None by simp
    from Cons.IH [of ?w es' ds' rs, OF _ _ _ _ _ this] Cons.prems(2-4) es(3) ds' None
    show ?thesis
      by (auto simp: es(1) step comp_def)
  next
    case (Some d)
    then obtain v s1 rs' where v: "apply d (w_op w) = Some (v, s1)" "op_results apply ds' s1 = Some (rs', s)" "rs = v # rs'"
      using Cons.prems(6) ds'(2) by (auto split: option.splits)
    let ?w = "w\<lparr>w_node := ?o, w_stats := item_stats (cls v) k (w_stats w), w_op := s1\<rparr>"
    let ?out = "if cls v = DynNil then [] else Broadcast cls (tk_taken k) (DItem v) ?o"
    have step: "doOp_item cls process apply k m w = Some (?out, ?w)"
      by (simp add: doOp_item_cases [OF pre] Some v(1))
    have out: "sent_to n ?out = (if is_sent cls (w_node w) v then [wrap_data (w_node w) (DItem v)] else [])"
      using sent_to_Broadcast [of "tk_taken k" ?o n cls v] es(2) Cons.prems(2,3)
      by (auto simp: is_sent_def)
    from Cons.IH [of ?w es' ds' rs'] Cons.prems(2-4) es(3) ds' v(2) in_range_item_stats out
    show ?thesis
      by (cases "cls v") (auto simp: es(1) step v(3) comp_def Some is_sent_def ac_simps)
  qed
qed


section \<open>Aligning tables with streams (join\_align\_node.go)\<close>

definition opdata_dyn :: "opdata \<Rightarrow> dyn" where
  "opdata_dyn d = (case d of DNil \<Rightarrow> DynNil | DErr _ \<Rightarrow> DynError | _ \<Rightarrow> DynValue)"

text \<open>
  What the state of the node may hold under \<^verbatim>\<open>BatchKey\<close>: the pointer that the node puts there, a slice, or a value of another type. The map holds the pointer to the live batch, and
  every change of the batch puts it again, so the entry is the batch at that moment.
\<close>

datatype batch_state = BSet WindowTuplesSet | BTuples "WindowTuples list" | BOther

definition BatchKey :: string where
  "BatchKey = ''$$batchInputs''"

record ('c, 'h) JoinAlignNode = "('c, 'h) defaultSinkNode" +
  ja_emitters :: "(string \<times> nat) list"
  ja_batch :: "WindowTuplesSet option"

record ('c, 'h) align_run =
  jr_node :: "('c, 'h) JoinAlignNode"
  jr_stats :: StatManager
  jr_ctx :: "batch_state DefaultContext"

definition emitter_map :: "string list \<Rightarrow> (string \<times> nat) list" where
  "emitter_map emitters = fold (\<lambda>(i, e). AList.update e i) (List.enumerate 0 emitters) []"

definition NewJoinAlignNode :: "string \<Rightarrow> string list \<Rightarrow> 'c \<Rightarrow> 'h \<Rightarrow> bool \<Rightarrow> ('c, 'h) JoinAlignNode" where
  "NewJoinAlignNode name emitters input nilHandler sendError =
     \<lparr>dn_name = name, dn_outputs = [], dn_concurrency = 0, dn_sendError = sendError, dn_qos = AtMostOnce,
      dn_input = input, dn_barrierHandler = nilHandler, dn_inputCount = 0, ja_emitters = emitter_map emitters, ja_batch = None\<rparr>"

definition no_tuples :: WindowTuples where
  "no_tuples = \<lparr>wt_Emitter = [], wt_Tuples = []\<rparr>"

text \<open>Restoring the batch: the node and the error sent to the rule.\<close>

definition restore_batch :: "batch_state DefaultContext \<Rightarrow> ('c, 'h) JoinAlignNode \<Rightarrow> string option \<times> ('c, 'h) JoinAlignNode" where
  "restore_batch ctx n =
     (let k = length (ja_emitters n);
          (e, b) = (case GetState BatchKey ctx of
             Some (BTuples st) \<Rightarrow> (None, if length st = k then Some \<lparr>wts_Content = st, wts_Range = None\<rparr> else ja_batch n)
           | None \<Rightarrow> (None, ja_batch n)
           | Some _ \<Rightarrow> (Some ''restore batch state error, invalid type'', ja_batch n))
      in (e, n\<lparr>ja_batch := Some (case b of None \<Rightarrow> \<lparr>wts_Content = replicate k no_tuples, wts_Range = None\<rparr> | Some w \<Rightarrow> w)\<rparr>))"

definition align_Exec :: "batch_state DefaultContext \<Rightarrow> string \<Rightarrow> int \<Rightarrow> ('c, 'h) JoinAlignNode \<Rightarrow> string + string option \<times> ('c, 'h) align_run" where
  "align_Exec ctx opId inst n =
     (if dn_outputs n = [] then Inl ''no output channel found''
      else (case NewStatManager ''op'' opId inst of
        Inl e \<Rightarrow> Inl e
      | Inr st \<Rightarrow> (case restore_batch ctx n of (e, n1) \<Rightarrow> Inr (e, \<lparr>jr_node = n1, jr_stats = st, jr_ctx = ctx\<rparr>))))"

text \<open>\<open>None\<close> for the panic on a nil batch.\<close>

definition alignBatch ::
  "tick \<Rightarrow> WindowTuplesSet \<Rightarrow> ('c, 'h) align_run \<Rightarrow> ((string \<times> 'c \<times> opdata msg) list \<times> ('c, 'h) align_run) option" where
  "alignBatch k w r = (case ja_batch (jr_node r) of
     None \<Rightarrow> None
   | Some b \<Rightarrow>
       Some (Broadcast opdata_dyn (tk_taken k) (DItem (DWindow (w\<lparr>wts_Content := wts_Content w @ wts_Content b\<rparr>))) (jr_node r),
             r\<lparr>jr_stats := finish_value k (ProcessTimeStart (tk_align k) (jr_stats r))\<rparr>))"

definition align_error :: "tick \<Rightarrow> opdata \<Rightarrow> ('c, 'h) align_run \<Rightarrow> (string \<times> 'c \<times> opdata msg) list \<times> ('c, 'h) align_run" where
  "align_error k d r = (Broadcast opdata_dyn (tk_taken k) (DItem d) (jr_node r), r\<lparr>jr_stats := IncTotalExceptions (jr_stats r)\<rparr>)"

text \<open>A batch of an unknown table is reported and then goes to the index 0 that the failed lookup returns.\<close>

definition put_batch :: "WindowTuples \<Rightarrow> nat \<Rightarrow> ('c, 'h) align_run \<Rightarrow> ('c, 'h) align_run" where
  "put_batch d index r = (case ja_batch (jr_node r) of
     Some b \<Rightarrow>
       if index < length (wts_Content b) then
         (let b1 = b\<lparr>wts_Content := (wts_Content b)[index := d]\<rparr>
          in r\<lparr>jr_node := (jr_node r)\<lparr>ja_batch := Some b1\<rparr>, jr_ctx := PutState BatchKey (BSet b1) (jr_ctx r)\<rparr>)
       else r
   | None \<Rightarrow> r)"

definition align_batch_input ::
  "tick \<Rightarrow> WindowTuples \<Rightarrow> ('c, 'h) align_run \<Rightarrow> (string \<times> 'c \<times> opdata msg) list \<times> ('c, 'h) align_run" where
  "align_batch_input k d r = (case map_of (ja_emitters (jr_node r)) (wt_Emitter d) of
     Some index \<Rightarrow> ([], put_batch d index r)
   | None \<Rightarrow>
       (case align_error k (DErr (OpMessage ''run JoinAlignNode error: receive batch input from unknown emitter'')) r of
          (out, r1) \<Rightarrow> (out, put_batch d 0 r1)))"

definition align_data ::
  "tick \<Rightarrow> opdata \<Rightarrow> ('c, 'h) align_run \<Rightarrow> ((string \<times> 'c \<times> opdata msg) list \<times> ('c, 'h) align_run) option" where
  "align_data k d r = (case d of
     DErr e \<Rightarrow> Some (align_error k (DErr e) r)
   | DTuple t \<Rightarrow> alignBatch k (wts_AddTuple \<lparr>wts_Content = [], wts_Range = None\<rparr> t) r
   | DWindow w \<Rightarrow> alignBatch k w r
   | DBatch b \<Rightarrow> Some (align_batch_input k b r)
   | _ \<Rightarrow> Some (align_error k (DErr (OpMessage ''run JoinAlignNode error: invalid input type'')) r))"

definition align_item ::
  "(opdata BufferOrEvent \<Rightarrow> 'h \<Rightarrow> bool \<times> 'h) \<Rightarrow> tick \<Rightarrow> opdata msg \<Rightarrow> ('c, 'h) align_run \<Rightarrow>
     ((string \<times> 'c \<times> opdata msg) list \<times> ('c, 'h) align_run) option" where
  "align_item process k m r = (case preprocess process m (jr_node r) of
     (None, n) \<Rightarrow> Some ([], r\<lparr>jr_node := n\<rparr>)
   | (Some item, n) \<Rightarrow>
       (let r1 = r\<lparr>jr_node := n, jr_stats := ProcessTimeStart (tk_start k) (IncTotalRecordsIn (jr_stats r))\<rparr> in
        case item of
          Plain (DItem d) \<Rightarrow> align_data k d r1
        | _ \<Rightarrow> Some (align_error k (DErr (OpMessage ''run JoinAlignNode error: invalid input type'')) r1)))"

fun align_loop ::
  "(opdata BufferOrEvent \<Rightarrow> 'h \<Rightarrow> bool \<times> 'h) \<Rightarrow> opdata node_event list \<Rightarrow> ('c, 'h) align_run \<Rightarrow>
     ((string \<times> 'c \<times> opdata msg) list \<times> ('c, 'h) align_run) option" where
  "align_loop process [] r = Some ([], r)"
| "align_loop process (Cancel # es) r = Some ([], r)"
| "align_loop process (Item k m # es) r = (case align_item process k m r of
     None \<Rightarrow> None
   | Some (out, r1) \<Rightarrow> (case align_loop process es r1 of
       None \<Rightarrow> None
     | Some (out2, r2) \<Rightarrow> Some (out @ out2, r2)))"

section \<open>What the aligner sends\<close>

text \<open>The reference: the last batch of each table among the inputs seen, and the windows for the inputs from streams.\<close>

definition batches_of :: "string \<Rightarrow> opdata list \<Rightarrow> WindowTuples list" where
  "batches_of e seen = concat (map (\<lambda>d. case d of DBatch b \<Rightarrow> if wt_Emitter b = e then [b] else [] | _ \<Rightarrow> []) seen)"

definition latest :: "opdata list \<Rightarrow> string \<Rightarrow> WindowTuples" where
  "latest seen e = last (no_tuples # batches_of e seen)"

definition with_tables :: "string list \<Rightarrow> opdata list \<Rightarrow> WindowTuplesSet \<Rightarrow> opdata" where
  "with_tables emitters seen w = DWindow (w\<lparr>wts_Content := wts_Content w @ map (latest seen) emitters\<rparr>)"

definition aligned :: "string list \<Rightarrow> bool \<Rightarrow> opdata list \<Rightarrow> opdata \<Rightarrow> opdata list" where
  "aligned emitters sendError seen d = (case d of
     DTuple t \<Rightarrow> [with_tables emitters seen \<lparr>wts_Content = [\<lparr>wt_Emitter = t_Emitter t, wt_Tuples = [t]\<rparr>], wts_Range = None\<rparr>]
   | DWindow w \<Rightarrow> [with_tables emitters seen w]
   | DErr e \<Rightarrow> if sendError then [DErr e] else []
   | _ \<Rightarrow> [])"

fun aligned_all :: "string list \<Rightarrow> bool \<Rightarrow> opdata list \<Rightarrow> opdata list \<Rightarrow> opdata list" where
  "aligned_all emitters se seen [] = []"
| "aligned_all emitters se seen (d # ds) = aligned emitters se seen d @ aligned_all emitters se (seen @ [d]) ds"

definition align_input :: "string list \<Rightarrow> opdata \<Rightarrow> bool" where
  "align_input emitters d = (case d of
     DTuple _ \<Rightarrow> True | DWindow _ \<Rightarrow> True | DErr _ \<Rightarrow> True | DBatch b \<Rightarrow> wt_Emitter b \<in> set emitters | _ \<Rightarrow> False)"

lemma emitter_map_distinct: "distinct emitters \<Longrightarrow> emitter_map emitters = zip emitters [0..<length emitters]"
proof (induction emitters rule: rev_induct)
  case (snoc e es)
  then have "emitter_map es = zip es [0..<length es]" "e \<notin> fst ` set (zip es [0..<length es])"
    by (auto dest: set_zip_leftD)
  then show ?case
    by (simp add: emitter_map_def enumerate_append_eq update_fresh)
qed (simp add: emitter_map_def)

lemma map_of_emitters:
  "distinct emitters \<Longrightarrow> i < length emitters \<Longrightarrow> map_of (emitter_map emitters) (emitters ! i) = Some i"
  by (simp add: emitter_map_distinct map_of_zip_nth)

lemma latest_append:
  "latest (seen @ [d]) e = (case d of DBatch b \<Rightarrow> if wt_Emitter b = e then b else latest seen e | _ \<Rightarrow> latest seen e)"
  by (cases d) (simp_all add: latest_def batches_of_def)

lemma latest_put:
  assumes "distinct emitters" "i < length emitters" "wt_Emitter b = emitters ! i"
  shows "(map (latest seen) emitters)[i := b] = map (latest (seen @ [DBatch b])) emitters"
  by (rule nth_equalityI) (use assms in \<open>auto simp: latest_append nth_list_update nth_eq_iff_index_eq\<close>)

text \<open>The state of a node that has seen the inputs \<open>seen\<close>.\<close>

definition align_inv :: "string list \<Rightarrow> opdata list \<Rightarrow> ('c, 'h) JoinAlignNode \<Rightarrow> bool" where
  "align_inv emitters seen n \<longleftrightarrow> ja_emitters n = emitter_map emitters \<and>
     ja_batch n = Some \<lparr>wts_Content = map (latest seen) emitters, wts_Range = None\<rparr>"

definition same_wiring :: "('c, 'h) JoinAlignNode \<Rightarrow> ('c, 'h) JoinAlignNode \<Rightarrow> bool" where
  "same_wiring n n1 \<longleftrightarrow> dn_outputs n1 = dn_outputs n \<and> dn_qos n1 = dn_qos n \<and> dn_name n1 = dn_name n \<and> dn_sendError n1 = dn_sendError n"

lemma sent_opdata:
  assumes "list_all taken (map fst (dn_outputs n))" "distinct (map fst (dn_outputs n))" "m \<in> fst ` set (dn_outputs n)"
  shows "sent_to m (Broadcast opdata_dyn taken (DItem (DWindow w)) n) = [wrap_data n (DItem (DWindow w))]"
    "sent_to m (Broadcast opdata_dyn taken (DItem (DErr e)) n) = (if dn_sendError n then [wrap_data n (DItem (DErr e))] else [])"
  using sent_to_Broadcast [OF assms, of opdata_dyn "DWindow w"] sent_to_Broadcast [OF assms, of opdata_dyn "DErr e"]
  by (auto simp: opdata_dyn_def is_sent_def)

lemma align_data_step:
  assumes "align_inv emitters seen (jr_node r)" "distinct emitters" "align_input emitters d"
    and "list_all (tk_taken k) (map fst (dn_outputs (jr_node r)))" "distinct (map fst (dn_outputs (jr_node r)))"
      "m \<in> fst ` set (dn_outputs (jr_node r))"
  shows "\<exists>out r1. align_data k d r = Some (out, r1) \<and> align_inv emitters (seen @ [d]) (jr_node r1) \<and> same_wiring (jr_node r) (jr_node r1) \<and>
     dn_barrierHandler (jr_node r1) = dn_barrierHandler (jr_node r) \<and>
     sent_to m out = map (wrap_data (jr_node r) \<circ> DItem) (aligned emitters (dn_sendError (jr_node r)) seen d)"
proof (cases d)
  case (DBatch b)
  then obtain i where i: "i < length emitters" "wt_Emitter b = emitters ! i"
    using assms(3) by (auto simp: align_input_def in_set_conv_nth)
  have "map_of (ja_emitters (jr_node r)) (wt_Emitter b) = Some i"
    using assms(1,2) i by (simp add: align_inv_def map_of_emitters)
  then show ?thesis
    using assms(1,2) i DBatch
    by (simp add: align_data_def align_batch_input_def put_batch_def align_inv_def same_wiring_def latest_put aligned_def Let_def)
qed (use assms in \<open>auto simp: align_data_def align_error_def alignBatch_def align_inv_def same_wiring_def aligned_def with_tables_def
       align_input_def latest_append sent_opdata wts_AddTuple_def\<close>)

lemma preprocess_wiring:
  assumes "preprocess process m n = (r, n\<lparr>dn_barrierHandler := h\<rparr>)"
  shows "same_wiring n (n\<lparr>dn_barrierHandler := h\<rparr>)" "align_inv emitters seen (n\<lparr>dn_barrierHandler := h\<rparr>) \<longleftrightarrow> align_inv emitters seen n"
  by (simp_all add: same_wiring_def align_inv_def)

lemma wrap_same_wiring: "same_wiring n n1 \<Longrightarrow> wrap_data n1 d = wrap_data n d"
  by (simp add: same_wiring_def wrap_data_def)

lemma align_run:
  assumes "free_run (map fst (dn_outputs (jr_node r))) es ms" "distinct (map fst (dn_outputs (jr_node r)))"
    "m \<in> fst ` set (dn_outputs (jr_node r))" "align_inv emitters seen (jr_node r)" "distinct emitters"
    "passed process (dn_qos (jr_node r)) ms (dn_barrierHandler (jr_node r)) = (map (Plain \<circ> DItem) ds, h)" "list_all (align_input emitters) ds"
  shows "\<exists>out r1. align_loop process es r = Some (out, r1) \<and> align_inv emitters (seen @ ds) (jr_node r1) \<and>
     sent_to m out = map (wrap_data (jr_node r) \<circ> DItem) (aligned_all emitters (dn_sendError (jr_node r)) seen ds)"
  using assms
proof (induction ms arbitrary: es r ds seen)
  case Nil
  then show ?case by simp
next
  case (Cons x ms)
  let ?n = "jr_node r"
  from Cons.prems(1) obtain k es' where es: "es = Item k x # es'" "list_all (tk_taken k) (map fst (dn_outputs ?n))"
      "free_run (map fst (dn_outputs ?n)) es' ms"
    unfolding free_run_Cons by blast
  obtain y h1 where pre: "preprocess process x ?n = (y, ?n\<lparr>dn_barrierHandler := h1\<rparr>)"
    by (rule preprocess_handler)
  show ?case
  proof (cases y)
    case None
    let ?r = "r\<lparr>jr_node := ?n\<lparr>dn_barrierHandler := h1\<rparr>\<rparr>"
    have "align_item process k x r = Some ([], ?r)"
      by (simp add: align_item_def pre None)
    moreover have "passed process (dn_qos ?n) ms h1 = (map (Plain \<circ> DItem) ds, h)"
      using Cons.prems(6) unfolding passed_preprocess [OF pre] None by (auto split: prod.splits)
    ultimately show ?thesis
      using Cons.IH [of ?r es' seen ds] Cons.prems(2-5,7) es preprocess_wiring(2) [OF pre]
      by (auto simp: comp_def)
  next
    case (Some i)
    obtain d ds' where ds: "ds = d # ds'" "i = Plain (DItem d)" "passed process (dn_qos ?n) ms h1 = (map (Plain \<circ> DItem) ds', h)"
      using Cons.prems(6) unfolding passed_preprocess [OF pre] Some by (cases ds) (auto split: prod.splits)
    let ?r = "r\<lparr>jr_node := ?n\<lparr>dn_barrierHandler := h1\<rparr>, jr_stats := ProcessTimeStart (tk_start k) (IncTotalRecordsIn (jr_stats r))\<rparr>"
    obtain out r1 where r1: "align_data k d ?r = Some (out, r1)" "align_inv emitters (seen @ [d]) (jr_node r1)"
        "same_wiring (jr_node ?r) (jr_node r1)" "dn_barrierHandler (jr_node r1) = h1"
        "sent_to m out = map (wrap_data ?n \<circ> DItem) (aligned emitters (dn_sendError ?n) seen d)"
      using align_data_step [of emitters seen ?r d k m] Cons.prems(2-5,7) es(2) preprocess_wiring(2) [OF pre] ds(1)
      by (auto simp: comp_def)
    have step: "align_item process k x r = Some (out, r1)"
      by (simp add: align_item_def pre Some ds(2) r1(1))
    have r1': "dn_outputs (jr_node r1) = dn_outputs ?n" "dn_qos (jr_node r1) = dn_qos ?n" "dn_sendError (jr_node r1) = dn_sendError ?n"
      "wrap_data (jr_node r1) \<circ> DItem = wrap_data ?n \<circ> DItem"
      using r1(3) by (auto simp: same_wiring_def wrap_data_def fun_eq_iff)
    have "\<exists>out2 r2. align_loop process es' r1 = Some (out2, r2) \<and> align_inv emitters ((seen @ [d]) @ ds') (jr_node r2) \<and>
       sent_to m out2 = map (wrap_data (jr_node r1) \<circ> DItem) (aligned_all emitters (dn_sendError (jr_node r1)) (seen @ [d]) ds')"
      by (rule Cons.IH) (use Cons.prems(2-5,7) es(3) r1(2,4) r1'(1-2) ds in simp_all)
    then obtain out2 r2 where "align_loop process es' r1 = Some (out2, r2)" "align_inv emitters (seen @ d # ds') (jr_node r2)"
        "sent_to m out2 = map (wrap_data ?n \<circ> DItem) (aligned_all emitters (dn_sendError ?n) (seen @ [d]) ds')"
      unfolding r1' by auto
    then show ?thesis
      by (simp add: es(1) step ds(1) r1(5))
  qed
qed

text \<open>
  The node in front of a join with tables: for every sequence of inputs from streams and known tables, and with every barrier handler, each output receives in order one window
  for every tuple or window of the streams, to which the last batch of every table, at the position of the table, has been added. Before the first batch of a table its
  part is empty. Errors are passed on if they are to be sent.
\<close>

theorem join_align_windows:
  assumes "align_Exec \<lparr>dc_opId = i, dc_state = [], dc_snapshot = None\<rparr> opId inst n = Inr (e, r)"
    and "n = n0\<lparr>dn_outputs := outputs, dn_qos := q, dn_barrierHandler := bh\<rparr>" "n0 = NewJoinAlignNode name emitters inp nilh sendError"
    and "distinct emitters" "distinct (map fst outputs)" "m \<in> fst ` set outputs"
    and "free_run (map fst outputs) es ms" "passed process q ms bh = (map (Plain \<circ> DItem) ds, h)" "list_all (align_input emitters) ds"
  shows "e = None \<and> (\<exists>out r1. align_loop process es r = Some (out, r1) \<and>
     sent_to m out = map (wrap_data n \<circ> DItem) (aligned_all emitters sendError [] ds) \<and>
     ja_batch (jr_node r1) = Some \<lparr>wts_Content = map (latest ds) emitters, wts_Range = None\<rparr>)"
proof -
  have "replicate (length emitters) no_tuples = map (latest []) emitters"
    by (induction emitters) (simp_all add: latest_def batches_of_def)
  then have r: "e = None" "align_inv emitters [] (jr_node r)" "same_wiring n (jr_node r)" "dn_barrierHandler (jr_node r) = bh"
    using assms(1-4) by (auto simp: align_Exec_def restore_batch_def NewJoinAlignNode_def align_inv_def same_wiring_def GetState_def emitter_map_distinct
      NewStatManager_def stat_prefix_def Let_def split: if_splits)
  have n: "dn_outputs n = outputs" "dn_qos n = q" "dn_sendError n = sendError"
    using assms(2,3) by (simp_all add: NewJoinAlignNode_def)
  have r': "dn_outputs (jr_node r) = outputs" "dn_qos (jr_node r) = q" "dn_sendError (jr_node r) = sendError"
      "wrap_data (jr_node r) = (wrap_data n :: opdata data \<Rightarrow> _)"
    using r(3) n by (auto simp: same_wiring_def wrap_data_def fun_eq_iff)
  have "\<exists>out r1. align_loop process es r = Some (out, r1) \<and> align_inv emitters ([] @ ds) (jr_node r1) \<and>
     sent_to m out = map (wrap_data (jr_node r) \<circ> DItem) (aligned_all emitters (dn_sendError (jr_node r)) [] ds)"
    by (rule align_run) (use assms(4-9) r(2,4) r' in simp_all)
  then show ?thesis
    unfolding r' using r(1) by (auto simp: align_inv_def)
qed

section \<open>Where the aligner is not right\<close>

text \<open>
  The state that the node saves is not a state that it restores: it puts the pointer to the batch, and restoring accepts a slice only. After a batch has been received, a node
  started with that state reports an error to the rule and begins with empty tables.
\<close>

theorem align_state_not_restored:
  assumes "ja_batch (jr_node r) = Some b" "i < length (wts_Content b)" "ja_batch n = None"
  shows "restore_batch (jr_ctx (put_batch d i r)) n =
     (Some ''restore batch state error, invalid type'',
      n\<lparr>ja_batch := Some \<lparr>wts_Content = replicate (length (ja_emitters n)) no_tuples, wts_Range = None\<rparr>\<rparr>)"
  using assms by (simp add: put_batch_def restore_batch_def GetState_def PutState_def Let_def map_of_update)

text \<open>A batch of an unknown table is reported as an error and still replaces the batch of the first table.\<close>

theorem unknown_batch_replaces_first:
  assumes "map_of (ja_emitters (jr_node r)) (wt_Emitter d) = None" "ja_batch (jr_node r) = Some b" "wts_Content b = t # ts"
  shows "ja_batch (jr_node (snd (align_batch_input k d r))) = Some (b\<lparr>wts_Content := d # ts\<rparr>)"
  using assms by (simp add: align_batch_input_def align_error_def put_batch_def Let_def)

section \<open>Witnesses\<close>

definition ex_tick :: tick where
  "ex_tick = \<lparr>tk_start = 0, tk_align = 0, tk_end = 5000, tk_length = 0, tk_taken = (\<lambda>_. True)\<rparr>"

definition ex_node :: "(nat, unit BarrierTracker) defaultSinkNode" where
  "ex_node = (New ''2_filter'' 7 (NewBarrierTracker () 1) False)\<lparr>dn_outputs := [(''3_project'', 8), (''log_0'', 9)], dn_qos := AtLeastOnce\<rparr>"

definition ex_data :: "opdata data list" where
  "ex_data = [DItem (DErr JoinPrepareError), DBarrier \<lparr>CheckpointId = 1, OpId = ''1_preprocessor''\<rparr>, DItem (DResults [])]"


definition ex_align :: "(nat, unit) JoinAlignNode" where
  "ex_align = (NewJoinAlignNode ''3_join_aligner'' [''t''] 7 () False)\<lparr>dn_outputs := [(''4_join'', 8)], dn_qos := AtMostOnce, dn_barrierHandler := ()\<rparr>"

definition ex_row :: Tuple where
  "ex_row = \<lparr>t_Emitter = ''s'', t_Message = [], t_Timestamp = 1, t_Metadata = None, t_Alias = None\<rparr>"

theorem join_align_windows_witness:
  "let tb = \<lparr>wt_Emitter = ''t'', wt_Tuples = [ex_row]\<rparr>; ds = [DTuple ex_row, DBatch tb, DTuple ex_row];
       own = \<lparr>wt_Emitter = ''s'', wt_Tuples = [ex_row]\<rparr>;
       r = projr (align_Exec \<lparr>dc_opId = [], dc_state = [], dc_snapshot = None\<rparr> [] 0 ex_align)
   in \<exists>out r1. align_loop (\<lambda>_ h. (False, h)) (map (Item ex_tick \<circ> (Plain \<circ> DItem)) ds) (snd r) = Some (out, r1) \<and>
        sent_to ''4_join'' out = map (\<lambda>c. Plain (DItem (DWindow \<lparr>wts_Content = c, wts_Range = None\<rparr>))) [[own, no_tuples], [own, tb]]"
proof -
  let ?tb = "\<lparr>wt_Emitter = ''t'', wt_Tuples = [ex_row]\<rparr>"
  let ?ds = "[DTuple ex_row, DBatch ?tb, DTuple ex_row]"
  let ?ctx = "\<lparr>dc_opId = [], dc_state = [], dc_snapshot = None\<rparr>"
  let ?r = "projr (align_Exec ?ctx [] 0 ex_align)"
  have r: "align_Exec ?ctx [] 0 ex_align = Inr (fst ?r, snd ?r)"
    by (simp add: align_Exec_def ex_align_def NewStatManager_def stat_prefix_def split: prod.splits)
  let ?es = "map (Item ex_tick \<circ> (Plain \<circ> DItem)) ?ds"
  have fr: "free_run (map fst [(''4_join'', 8 :: nat)]) ?es (map (Plain \<circ> DItem) ?ds)"
    by (simp add: ex_tick_def)
  have ps: "passed (\<lambda>_ h. (False, h)) AtMostOnce (map (Plain \<circ> DItem) ?ds) () = (map (Plain \<circ> DItem) ?ds, ())"
    by (simp add: at_least_once_def)
  have ok: "list_all (align_input [''t'']) ?ds"
    by (simp add: align_input_def)
  have out: "map (wrap_data ex_align \<circ> DItem) (aligned_all [''t''] False [] ?ds) =
      map (\<lambda>c. Plain (DItem (DWindow \<lparr>wts_Content = c, wts_Range = None\<rparr>)))
        [[\<lparr>wt_Emitter = ''s'', wt_Tuples = [ex_row]\<rparr>, no_tuples], [\<lparr>wt_Emitter = ''s'', wt_Tuples = [ex_row]\<rparr>, ?tb]]"
    by (simp add: aligned_def with_tables_def latest_def batches_of_def wrap_data_def at_least_once_def ex_align_def NewJoinAlignNode_def ex_row_def)
  have "\<exists>out r1. align_loop (\<lambda>_ h. (False, h)) ?es (snd ?r) = Some (out, r1) \<and>
      sent_to ''4_join'' out = map (wrap_data ex_align \<circ> DItem) (aligned_all [''t''] False [] ?ds)"
    using join_align_windows [OF r ex_align_def refl _ _ _ fr ps ok, of "''4_join''"] by auto
  then show ?thesis
    unfolding Let_def out by blast
qed

end
