(* ===== verification/Sources.thy ===== *)
theory Sources
  imports Nodes FieldProcessor
begin

text \<open>
  How data enters a rule: the buffer in front of a source node (\<^verbatim>\<open>dynamic_channel_buffer.go\<close>), the pool of shared sources (\<^verbatim>\<open>source_pool.go\<close>) and the source node
  (\<^verbatim>\<open>source_node.go\<close>, with \<^verbatim>\<open>getSourceConf\<close> of \<^verbatim>\<open>node.go\<close>).

  The sources themselves are connectors; what the code uses of them (the result of \<^verbatim>\<open>Configure\<close>, the tuples they send, their offsets) is an argument of the definitions.
\<close>

section \<open>The buffer (dynamic\_channel\_buffer.go)\<close>

text \<open>
  The goroutine \<^verbatim>\<open>run\<close> chooses among the communications that its state allows. \<open>buffer_step\<close> is \<open>None\<close> for a communication that it does not offer: the other side waits.
  \<open>BufLimit\<close> is a call of \<^verbatim>\<open>SetLimit\<close>, which another goroutine makes.
\<close>

record 'a DynamicChannelBuffer =
  db_limit :: int
  db_buffer :: "'a list"
  db_running :: bool

definition NewDynamicChannelBuffer :: "'a DynamicChannelBuffer" where
  "NewDynamicChannelBuffer = \<lparr>db_limit = 102400, db_buffer = [], db_running = True\<rparr>"

definition SetLimit :: "int \<Rightarrow> 'a DynamicChannelBuffer \<Rightarrow> 'a DynamicChannelBuffer" where
  "SetLimit limit b = (if limit > 0 then b\<lparr>db_limit := limit\<rparr> else b)"

definition GetLength :: "'a DynamicChannelBuffer \<Rightarrow> nat" where
  "GetLength b = length (db_buffer b)"

datatype 'a buffer_event = BufIn 'a | BufOut 'a | BufLimit int | BufDone

definition buffer_out :: "'a \<Rightarrow> 'a DynamicChannelBuffer \<Rightarrow> 'a DynamicChannelBuffer option" where
  "buffer_out v b = (case db_buffer b of
     [] \<Rightarrow> None
   | x # xs \<Rightarrow> if x = v then Some (b\<lparr>db_buffer := xs\<rparr>) else None)"

definition buffer_step :: "'a buffer_event \<Rightarrow> 'a DynamicChannelBuffer \<Rightarrow> 'a DynamicChannelBuffer option" where
  "buffer_step e b =
     (let l = int (length (db_buffer b)) in
      case e of
        BufLimit n \<Rightarrow> Some (SetLimit n b)
      | BufDone \<Rightarrow> if db_running b then Some (b\<lparr>db_running := False\<rparr>) else None
      | BufOut v \<Rightarrow> if db_running b \<and> (l \<ge> db_limit b \<or> l > 0) then buffer_out v b else None
      | BufIn v \<Rightarrow> if db_running b \<and> \<not> l \<ge> db_limit b then Some (b\<lparr>db_buffer := db_buffer b @ [v]\<rparr>) else None)"

fun buffer_run :: "'a buffer_event list \<Rightarrow> 'a DynamicChannelBuffer \<Rightarrow> 'a DynamicChannelBuffer option" where
  "buffer_run [] b = Some b"
| "buffer_run (e # es) b = (case buffer_step e b of None \<Rightarrow> None | Some b1 \<Rightarrow> buffer_run es b1)"

fun buf_ins :: "'a buffer_event list \<Rightarrow> 'a list" where
  "buf_ins [] = []"
| "buf_ins (BufIn v # es) = v # buf_ins es"
| "buf_ins (_ # es) = buf_ins es"

fun buf_outs :: "'a buffer_event list \<Rightarrow> 'a list" where
  "buf_outs [] = []"
| "buf_outs (BufOut v # es) = v # buf_outs es"
| "buf_outs (_ # es) = buf_outs es"

text \<open>The largest limit that has been in force.\<close>

fun top_limit :: "int \<Rightarrow> 'a buffer_event list \<Rightarrow> int" where
  "top_limit m [] = m"
| "top_limit m (BufLimit n # es) = top_limit (max m n) es"
| "top_limit m (_ # es) = top_limit m es"

definition buffer_inv :: "int \<Rightarrow> 'a DynamicChannelBuffer \<Rightarrow> bool" where
  "buffer_inv m b \<longleftrightarrow> 0 < db_limit b \<and> db_limit b \<le> m \<and> int (length (db_buffer b)) \<le> m"

lemma buffer_run_inv:
  assumes "buffer_run es b = Some b1" "buffer_inv m b"
  shows "db_buffer b @ buf_ins es = buf_outs es @ db_buffer b1 \<and> buffer_inv (top_limit m es) b1"
  using assms
proof (induction es arbitrary: b m)
  case (Cons e es)
  then obtain b2 where b2: "buffer_step e b = Some b2" "buffer_run es b2 = Some b1"
    by (auto split: option.splits)
  show ?case
  proof (cases e)
    case (BufIn v)
    with b2 Cons.prems(2) have "b2 = b\<lparr>db_buffer := db_buffer b @ [v]\<rparr>" "buffer_inv m b2"
      by (auto simp: buffer_step_def buffer_inv_def Let_def split: if_splits)
    with Cons.IH [OF b2(2), of m] BufIn show ?thesis by simp
  next
    case (BufOut v)
    with b2 Cons.prems(2) have "db_buffer b = v # db_buffer b2" "buffer_inv m b2"
      by (auto simp: buffer_step_def buffer_out_def buffer_inv_def Let_def split: if_splits list.splits)
    with Cons.IH [OF b2(2), of m] BufOut show ?thesis by simp
  next
    case (BufLimit n)
    with b2 Cons.prems(2) have "db_buffer b2 = db_buffer b" "buffer_inv (max m n) b2"
      by (auto simp: buffer_step_def SetLimit_def buffer_inv_def Let_def split: if_splits)
    with Cons.IH [OF b2(2), of "max m n"] BufLimit show ?thesis by simp
  next
    case BufDone
    with b2 Cons.prems(2) have "db_buffer b2 = db_buffer b" "buffer_inv m b2"
      by (auto simp: buffer_step_def buffer_inv_def Let_def split: if_splits)
    with Cons.IH [OF b2(2), of m] BufDone show ?thesis by simp
  qed
qed simp

text \<open>
  The buffer of a source: whatever the order of the communications, of changes of the limit and of the end, what has been received is what has been handed on followed by what is held, so
  nothing is lost, repeated or reordered; it never holds more than the largest limit that was in force; and while it runs it is never stuck: it offers its first element when it has one, and
  takes any new one when it is below the limit.
\<close>

theorem buffer_fifo:
  assumes "buffer_run es NewDynamicChannelBuffer = Some b"
  shows "buf_ins es = buf_outs es @ db_buffer b \<and> int (GetLength b) \<le> top_limit 102400 es \<and>
     (db_running b \<longrightarrow>
        (db_buffer b \<noteq> [] \<longrightarrow> buffer_step (BufOut (hd (db_buffer b))) b \<noteq> None) \<and>
        (int (GetLength b) < db_limit b \<longrightarrow> buffer_step (BufIn v) b \<noteq> None) \<and>
        (int (GetLength b) \<ge> db_limit b \<longrightarrow> db_buffer b \<noteq> []))"
proof -
  have "buffer_inv 102400 (NewDynamicChannelBuffer :: 'a DynamicChannelBuffer)"
    by (simp add: buffer_inv_def NewDynamicChannelBuffer_def)
  from buffer_run_inv [OF assms this] show ?thesis
    by (auto simp: buffer_inv_def GetLength_def NewDynamicChannelBuffer_def buffer_step_def buffer_out_def Let_def split: list.splits)
qed

theorem buffer_fifo_witness:
  "let es = [BufIn 1, BufIn 2, BufLimit 2, BufOut 1, BufIn 3, BufOut (2 :: nat)]; b = \<lparr>db_limit = 2, db_buffer = [3], db_running = True\<rparr>
   in buffer_run es NewDynamicChannelBuffer = Some b \<and> buf_ins es = buf_outs es @ [3] \<and> buffer_step (BufIn 4) b \<noteq> None"
proof -
  let ?es = "[BufIn 1, BufIn 2, BufLimit 2, BufOut 1, BufIn 3, BufOut (2 :: nat)]"
  have "buffer_run ?es NewDynamicChannelBuffer = Some \<lparr>db_limit = 2, db_buffer = [3], db_running = True\<rparr>"
    by (simp add: NewDynamicChannelBuffer_def buffer_step_def buffer_out_def SetLimit_def)
  from this buffer_fifo [OF this, of 4] show ?thesis
    by (simp add: GetLength_def)
qed

section \<open>The pool of shared sources (source\_pool.go)\<close>

text \<open>
  The singletons are objects that the registry refers to and that goroutines keep references to, so they live in a list \<open>pl_heap\<close> and a reference is an index. The first component of the
  result of an operation is \<open>None\<close> when the operation waits for a lock that is never released. \<open>ss_readers\<close> counts the read locks that are held for ever, and
  \<open>pl_locked\<close> tells that a goroutine waits for ever while it holds the lock of the pool. A lock that is released in the function that takes it needs no state: such a function is one step.
\<close>

record 'd sourceSingleton =
  ss_outputs :: "(string \<times> 'd DynamicChannelBuffer) list"
  ss_cancelled :: bool
  ss_closed :: bool
  ss_readers :: nat

record 'd sourcePool =
  pl_registry :: "(string \<times> nat) list"
  pl_heap :: "'d sourceSingleton list"
  pl_locked :: bool

definition empty_pool :: "'d sourcePool" where
  "empty_pool = \<lparr>pl_registry = [], pl_heap = [], pl_locked = False\<rparr>"

definition set_singleton :: "nat \<Rightarrow> 'd sourceSingleton \<Rightarrow> 'd sourcePool \<Rightarrow> 'd sourcePool" where
  "set_singleton i s P = P\<lparr>pl_heap := (pl_heap P)[i := s]\<rparr>"

definition instanceKey :: "string \<Rightarrow> string \<Rightarrow> nat \<Rightarrow> string" where
  "instanceKey k ruleId index = k @ ''.'' @ ruleId @ ''.'' @ nat_digits index"

definition newSourceInstanceChannels :: "int \<Rightarrow> 'd DynamicChannelBuffer" where
  "newSourceInstanceChannels bl = SetLimit bl NewDynamicChannelBuffer"

definition pool_load :: "string \<Rightarrow> 'd sourcePool \<Rightarrow> nat option option \<times> 'd sourcePool" where
  "pool_load k P = (if pl_locked P then None else Some (map_of (pl_registry P) k), P)"

text \<open>\<open>started\<close> is the error of \<^verbatim>\<open>getSource\<close> or \<^verbatim>\<open>start\<close> for a source that is not in the registry, if any.\<close>

definition addInstance :: "string option \<Rightarrow> string \<Rightarrow> 'd sourcePool \<Rightarrow> (string + nat) option \<times> 'd sourcePool" where
  "addInstance started k P =
     (if pl_locked P then (None, P)
      else (case map_of (pl_registry P) k of
        Some i \<Rightarrow> (Some (Inr i), P)
      | None \<Rightarrow>
          (case started of
             Some e \<Rightarrow> (Some (Inl e), P)
           | None \<Rightarrow>
               (let i = length (pl_heap P) in
                (Some (Inr i),
                 P\<lparr>pl_registry := AList.update k i (pl_registry P),
                   pl_heap := pl_heap P @ [\<lparr>ss_outputs = [], ss_cancelled = False, ss_closed = False, ss_readers = 0\<rparr>]\<rparr>)))))"

definition ss_attach :: "nat \<Rightarrow> string \<Rightarrow> int \<Rightarrow> 'd sourcePool \<Rightarrow> (string + unit) option \<times> 'd sourcePool" where
  "ss_attach i key bl P =
     (let s = pl_heap P ! i in
      if ss_readers s > 0 then (None, P)
      else (case map_of (ss_outputs s) key of
        None \<Rightarrow> (Some (Inr ()), set_singleton i (s\<lparr>ss_outputs := AList.update key (newSourceInstanceChannels bl) (ss_outputs s)\<rparr>) P)
      | Some _ \<Rightarrow> (Some (Inl (''fail to attach source instance, already has an output of the same key '' @ key)), P)))"

definition ss_detach :: "nat \<Rightarrow> string \<Rightarrow> 'd sourcePool \<Rightarrow> bool option \<times> 'd sourcePool" where
  "ss_detach i key P =
     (let s = pl_heap P ! i; outs = AList.delete key (ss_outputs s) in
      if ss_readers s > 0 then (None, P)
      else if outs = [] then (Some True, set_singleton i (s\<lparr>ss_outputs := outs, ss_cancelled := True\<rparr>) P)
      else (Some False, set_singleton i (s\<lparr>ss_outputs := outs\<rparr>) P))"

definition deleteInstance :: "string \<Rightarrow> string \<Rightarrow> nat \<Rightarrow> 'd sourcePool \<Rightarrow> unit option \<times> 'd sourcePool" where
  "deleteInstance k ruleId index P =
     (if pl_locked P then (None, P)
      else (case map_of (pl_registry P) k of
        None \<Rightarrow> (Some (), P)
      | Some i \<Rightarrow>
          (case ss_detach i (instanceKey k ruleId index) P of
             (None, P1) \<Rightarrow> (None, P1\<lparr>pl_locked := True\<rparr>)
           | (Some False, P1) \<Rightarrow> (Some (), P1)
           | (Some True, P1) \<Rightarrow>
               (Some (), (set_singleton i ((pl_heap P1 ! i)\<lparr>ss_cancelled := True, ss_closed := True\<rparr>) P1)
                  \<lparr>pl_registry := AList.delete k (pl_registry P1)\<rparr>))))"

text \<open>\<^verbatim>\<open>getSourceInstance\<close> of a shared source, with the reference and the key of the output.\<close>

definition getSourceInstance ::
  "string option \<Rightarrow> string \<Rightarrow> string \<Rightarrow> nat \<Rightarrow> int \<Rightarrow> 'd sourcePool \<Rightarrow> (string + nat \<times> string) option \<times> 'd sourcePool" where
  "getSourceInstance started k ruleId index bl P =
     (case (case pool_load k P of
              (None, P1) \<Rightarrow> (None, P1)
            | (Some (Some i), P1) \<Rightarrow> (Some (Inr i), P1)
            | (Some None, P1) \<Rightarrow> addInstance started k P1) of
        (None, P2) \<Rightarrow> (None, P2)
      | (Some (Inl e), P2) \<Rightarrow> (Some (Inl e), P2)
      | (Some (Inr i), P2) \<Rightarrow>
          (case ss_attach i (instanceKey k ruleId index) bl P2 of
             (None, P3) \<Rightarrow> (None, P3)
           | (Some (Inl e), P3) \<Rightarrow> (Some (Inl e), P3)
           | (Some (Inr _), P3) \<Rightarrow> (Some (Inr (i, instanceKey k ruleId index)), P3)))"

fun delete_loop :: "string \<Rightarrow> string \<Rightarrow> nat list \<Rightarrow> 'd sourcePool \<Rightarrow> unit option \<times> 'd sourcePool" where
  "delete_loop k ruleId [] P = (Some (), P)"
| "delete_loop k ruleId (i # is) P = (case deleteInstance k ruleId i P of
     (None, P1) \<Rightarrow> (None, P1)
   | (Some _, P1) \<Rightarrow> delete_loop k ruleId is P1)"

definition removeSourceInstance :: "string \<Rightarrow> string \<Rightarrow> nat \<Rightarrow> 'd sourcePool \<Rightarrow> unit option \<times> 'd sourcePool" where
  "removeSourceInstance k ruleId concurrency P = delete_loop k ruleId [0..<concurrency] P"

text \<open>
  The loop of a singleton hands a tuple to the outputs of all its rules, unless it has been cancelled; the sends of one tuple are concurrent. An error goes to all the outputs and ends the loop;
  \<^verbatim>\<open>broadcastError\<close> takes the read lock a second time where it should release it.
\<close>

definition ss_broadcast :: "nat \<Rightarrow> 'd \<Rightarrow> 'd sourcePool \<Rightarrow> (string \<times> 'd) list" where
  "ss_broadcast i v P = (let s = pl_heap P ! i in if ss_cancelled s then [] else map (\<lambda>(key, _). (key, v)) (ss_outputs s))"

definition broadcastError :: "nat \<Rightarrow> string \<Rightarrow> 'd sourcePool \<Rightarrow> (string \<times> string) list \<times> 'd sourcePool" where
  "broadcastError i e P = (let s = pl_heap P ! i in
     (if ss_cancelled s then [] else map (\<lambda>(key, _). (key, e)) (ss_outputs s),
      set_singleton i (s\<lparr>ss_readers := ss_readers s + 2\<rparr>) P))"

section \<open>Shared sources are reference counted\<close>

text \<open>Histories of the pool, each operation without another in between: opening and closing the node of a rule, and a tuple of the source.\<close>

datatype 'd pool_event = POpen "string option" string string nat int | PClose string string nat | PData string 'd

datatype 'd pool_out = Opened bool | Closed | Delivered "(string \<times> 'd) list"

fun pool_step :: "'d pool_event \<Rightarrow> 'd sourcePool \<Rightarrow> ('d pool_out \<times> 'd sourcePool) option" where
  "pool_step (POpen started k ruleId index bl) P = (case getSourceInstance started k ruleId index bl P of
     (None, _) \<Rightarrow> None
   | (Some r, P1) \<Rightarrow> Some (Opened (case r of Inl _ \<Rightarrow> False | Inr _ \<Rightarrow> True), P1))"
| "pool_step (PClose k ruleId n) P = (case removeSourceInstance k ruleId n P of
     (None, _) \<Rightarrow> None
   | (Some _, P1) \<Rightarrow> Some (Closed, P1))"
| "pool_step (PData k v) P = Some (Delivered (case map_of (pl_registry P) k of None \<Rightarrow> [] | Some i \<Rightarrow> ss_broadcast i v P), P)"

fun pool_run :: "'d pool_event list \<Rightarrow> 'd sourcePool \<Rightarrow> ('d pool_out list \<times> 'd sourcePool) option" where
  "pool_run [] P = Some ([], P)"
| "pool_run (e # es) P = (case pool_step e P of
     None \<Rightarrow> None
   | Some (r, P1) \<Rightarrow> (case pool_run es P1 of None \<Rightarrow> None | Some (rs, P2) \<Rightarrow> Some (r # rs, P2)))"

text \<open>The specification: the set of the attached instances, and what each event does to it and returns.\<close>

type_synonym attached = "(string \<times> string \<times> nat) set"

definition users :: "string \<Rightarrow> attached \<Rightarrow> (string \<times> nat) set" where
  "users k A = {(r, j). (k, r, j) \<in> A}"

definition opens :: "attached \<Rightarrow> string option \<Rightarrow> string \<Rightarrow> string \<Rightarrow> nat \<Rightarrow> bool" where
  "opens A started k r j \<longleftrightarrow> (k, r, j) \<notin> A \<and> (started = None \<or> users k A \<noteq> {})"

fun attach_step :: "'d pool_event \<Rightarrow> attached \<Rightarrow> attached" where
  "attach_step (POpen started k r j bl) A = (if opens A started k r j then insert (k, r, j) A else A)"
| "attach_step (PClose k r n) A = A - {(k, r, j) | j. j < n}"
| "attach_step (PData k v) A = A"

fun out_ok :: "attached \<Rightarrow> 'd pool_event \<Rightarrow> 'd pool_out \<Rightarrow> bool" where
  "out_ok A (POpen started k r j bl) out \<longleftrightarrow> out = Opened (opens A started k r j)"
| "out_ok A (PClose k r n) out \<longleftrightarrow> out = Closed"
| "out_ok A (PData k v) out \<longleftrightarrow> (\<exists>ds. out = Delivered ds \<and> distinct (map fst ds) \<and>
     set ds = (\<lambda>(r, j). (instanceKey k r j, v)) ` users k A)"

fun outs_ok :: "attached \<Rightarrow> 'd pool_event list \<Rightarrow> 'd pool_out list \<Rightarrow> bool" where
  "outs_ok A [] outs \<longleftrightarrow> outs = []"
| "outs_ok A (e # es) outs \<longleftrightarrow> (\<exists>r rs. outs = r # rs \<and> out_ok A e r \<and> outs_ok (attach_step e A) es rs)"

definition live :: "attached \<Rightarrow> string \<Rightarrow> 'd sourceSingleton \<Rightarrow> bool" where
  "live A k s \<longleftrightarrow> distinct (map fst (ss_outputs s)) \<and> fst ` set (ss_outputs s) = (\<lambda>(r, j). instanceKey k r j) ` users k A \<and>
     ss_outputs s \<noteq> [] \<and> \<not> ss_cancelled s \<and> \<not> ss_closed s \<and> ss_readers s = 0"

definition pool_rel :: "attached \<Rightarrow> 'd sourcePool \<Rightarrow> bool" where
  "pool_rel A P \<longleftrightarrow> \<not> pl_locked P \<and>
     (\<forall>k k' i. map_of (pl_registry P) k = Some i \<longrightarrow> map_of (pl_registry P) k' = Some i \<longrightarrow> k' = k) \<and>
     (\<forall>k. case map_of (pl_registry P) k of
            None \<Rightarrow> users k A = {}
          | Some i \<Rightarrow> i < length (pl_heap P) \<and> live A k (pl_heap P ! i))"

lemma instanceKey_inj: "instanceKey k r i = instanceKey k s j \<longleftrightarrow> r = s \<and> i = j"
  using numbered_suffix_inj [of "CHR ''.''" r i s j] by (simp add: instanceKey_def is_digit_def char_code_def)

lemma instance_in: "instanceKey k r j \<in> (\<lambda>(r, j). instanceKey k r j) ` U \<longleftrightarrow> (r, j) \<in> U"
  by (auto simp: instanceKey_inj)

lemma pool_relD:
  assumes "pool_rel A P"
  shows "\<not> pl_locked P" "map_of (pl_registry P) k = None \<Longrightarrow> users k A = {}"
    "map_of (pl_registry P) k = Some i \<Longrightarrow> i < length (pl_heap P)" "map_of (pl_registry P) k = Some i \<Longrightarrow> live A k (pl_heap P ! i)"
proof -
  have "case map_of (pl_registry P) k of None \<Rightarrow> users k A = {}
          | Some i \<Rightarrow> i < length (pl_heap P) \<and> live A k (pl_heap P ! i)"
    using assms unfolding pool_rel_def by blast
  then show "map_of (pl_registry P) k = None \<Longrightarrow> users k A = {}"
    "map_of (pl_registry P) k = Some i \<Longrightarrow> i < length (pl_heap P)" "map_of (pl_registry P) k = Some i \<Longrightarrow> live A k (pl_heap P ! i)"
    by simp_all
qed (use assms in \<open>simp add: pool_rel_def\<close>)

lemma pool_rel_inj:
  "pool_rel A P \<Longrightarrow> map_of (pl_registry P) k = Some i \<Longrightarrow> map_of (pl_registry P) k' = Some i \<Longrightarrow> k' = k"
  unfolding pool_rel_def by blast

lemma pool_relI:
  assumes "\<not> pl_locked P" "\<And>k k' i. map_of (pl_registry P) k = Some i \<Longrightarrow> map_of (pl_registry P) k' = Some i \<Longrightarrow> k' = k"
    "\<And>k. map_of (pl_registry P) k = None \<Longrightarrow> users k A = {}"
    "\<And>k i. map_of (pl_registry P) k = Some i \<Longrightarrow> i < length (pl_heap P) \<and> live A k (pl_heap P ! i)"
  shows "pool_rel A P"
  unfolding pool_rel_def using assms by (simp split: option.splits)

text \<open>Changing the instances of one source changes one singleton.\<close>

lemma live_cong: "users k A' = users k A \<Longrightarrow> live A' k s = live A k s"
  by (simp add: live_def)

lemma pool_rel_set:
  assumes "pool_rel A P" "map_of (pl_registry P) k = Some i" "live A' k s" "\<And>k'. k' \<noteq> k \<Longrightarrow> users k' A' = users k' A"
  shows "pool_rel A' (set_singleton i s P)"
proof (rule pool_relI, goal_cases)
  case (2 k' k'' j)
  then show ?case using pool_rel_inj [OF assms(1), of k' j k''] by (simp add: set_singleton_def)
next
  case (3 k')
  then show ?case
    using assms(2,4) pool_relD(2) [OF assms(1), of k'] by (cases "k' = k") (simp_all add: set_singleton_def)
next
  case (4 k' j)
  then have j: "map_of (pl_registry P) k' = Some j"
    by (simp add: set_singleton_def)
  show ?case
  proof (cases "k' = k")
    case True
    with j assms(2,3) pool_relD(3) [OF assms(1,2)] show ?thesis by (simp add: set_singleton_def)
  next
    case False
    with j assms(2) pool_rel_inj [OF assms(1)] have "j \<noteq> i" by blast
    with pool_relD(3,4) [OF assms(1) j] show ?thesis
      unfolding live_cong [OF assms(4) [OF False]] by (simp add: set_singleton_def)
  qed
qed (use pool_relD(1) [OF assms(1)] in \<open>simp add: set_singleton_def\<close>)

lemma pool_rel_delete:
  assumes "pool_rel A P" "map_of (pl_registry P) k = Some i" "users k A' = {}" "\<And>k'. k' \<noteq> k \<Longrightarrow> users k' A' = users k' A"
  shows "pool_rel A' (set_singleton i s P\<lparr>pl_registry := AList.delete k (pl_registry P)\<rparr>)"
proof (rule pool_relI, goal_cases)
  case (2 k' k'' j)
  then show ?case using pool_rel_inj [OF assms(1), of k' j k''] by (simp add: set_singleton_def split: if_splits)
next
  case (3 k')
  then show ?case
    using assms(3,4) pool_relD(2) [OF assms(1), of k'] by (cases "k' = k") (simp_all add: set_singleton_def)
next
  case (4 k' j)
  then have j: "map_of (pl_registry P) k' = Some j" and k: "k' \<noteq> k"
    by (auto simp: set_singleton_def split: if_splits)
  with assms(2) pool_rel_inj [OF assms(1)] have "j \<noteq> i" by blast
  with pool_relD(3,4) [OF assms(1) j] show ?case
    unfolding live_cong [OF assms(4) [OF k]] by (simp add: set_singleton_def)
qed (use pool_relD(1) [OF assms(1)] in \<open>simp add: set_singleton_def\<close>)

lemma detach_live:
  assumes "live A k s" "A' = A - {(k, r, j)}" "outs = AList.delete (instanceKey k r j) (ss_outputs s)"
  shows "outs = [] \<longleftrightarrow> users k A' = {}" "outs \<noteq> [] \<Longrightarrow> live A' k (s\<lparr>ss_outputs := outs\<rparr>)"
proof -
  have "fst ` set outs = (\<lambda>(r, j). instanceKey k r j) ` users k A'"
    using assms by (auto simp: fst_set_delete live_def users_def instanceKey_inj)
  then show "outs = [] \<longleftrightarrow> users k A' = {}" "outs \<noteq> [] \<Longrightarrow> live A' k (s\<lparr>ss_outputs := outs\<rparr>)"
    using assms(1,3) by (auto simp: live_def distinct_adelete)
qed

lemma users_remove: "k' \<noteq> k \<Longrightarrow> users k' (A - {(k, r, j)}) = users k' A"
  by (auto simp: users_def)

lemma deleteInstance_step:
  assumes "pool_rel A P"
  shows "\<exists>P1. deleteInstance k r j P = (Some (), P1) \<and> pool_rel (A - {(k, r, j)}) P1"
proof (cases "map_of (pl_registry P) k")
  case None
  then have "A - {(k, r, j)} = A"
    using pool_relD(2) [OF assms] by (auto simp: users_def)
  then show ?thesis
    using assms None pool_relD(1) [OF assms] by (simp add: deleteInstance_def)
next
  case (Some i)
  define s where "s = pl_heap P ! i"
  define outs where "outs = AList.delete (instanceKey k r j) (ss_outputs s)"
  have s: "live A k s" "i < length (pl_heap P)" "ss_readers s = 0"
    using pool_relD(3,4) [OF assms Some] by (auto simp: s_def live_def)
  note d = detach_live [OF s(1) refl outs_def]
  show ?thesis
  proof (cases "outs = []")
    case True
    then show ?thesis
      using pool_rel_delete [OF assms Some _ users_remove] d(1) s Some pool_relD(1) [OF assms]
      by (simp add: deleteInstance_def ss_detach_def outs_def s_def set_singleton_def Let_def)
  next
    case False
    then show ?thesis
      using pool_rel_set [OF assms Some d(2) users_remove] s Some pool_relD(1) [OF assms]
      by (simp add: deleteInstance_def ss_detach_def outs_def s_def Let_def)
  qed
qed

lemma delete_loop_step:
  "pool_rel A P \<Longrightarrow> \<exists>P1. delete_loop k r js P = (Some (), P1) \<and> pool_rel (A - {(k, r, j) | j. j \<in> set js}) P1"
proof (induction js arbitrary: A P)
  case (Cons j js)
  obtain P1 where P1: "deleteInstance k r j P = (Some (), P1)" "pool_rel (A - {(k, r, j)}) P1"
    using deleteInstance_step [OF Cons.prems] by blast
  have "A - {(k, r, j)} - {(k, r, j) | j. j \<in> set js} = A - {(k, r, ja) | ja. ja \<in> set (j # js)}"
    by auto
  then show ?case
    using Cons.IH [OF P1(2)] P1(1) by simp
qed simp

lemma attach_live:
  assumes "live A k s \<or> ss_outputs s = [] \<and> users k A = {} \<and> \<not> ss_cancelled s \<and> \<not> ss_closed s \<and> ss_readers s = 0"
    and "users k A' = insert (r, j) (users k A)"
  shows "live A' k (s\<lparr>ss_outputs := AList.update (instanceKey k r j) b (ss_outputs s)\<rparr>)"
proof -
  have "AList.update x y zs \<noteq> []" for x :: string and y and zs :: "(string \<times> 'a DynamicChannelBuffer) list"
    by (cases zs) (auto split: prod.splits)
  then show ?thesis
    using assms by (auto simp: live_def fst_set_update AList.distinct_update)
qed

lemma pool_rel_add:
  assumes "pool_rel A P" "map_of (pl_registry P) k = None" "live A' k s" "\<And>k'. k' \<noteq> k \<Longrightarrow> users k' A' = users k' A"
    and "n = length (pl_heap P)"
  shows "pool_rel A' (P\<lparr>pl_registry := AList.update k n (pl_registry P), pl_heap := pl_heap P @ [s]\<rparr>)"
proof (rule pool_relI, goal_cases)
  case (2 k' k'' j)
  have "map_of (pl_registry P) x = Some i \<Longrightarrow> i < n" for x i
    using pool_relD(3) [OF assms(1)] assms(5) by simp
  then show ?case
    using 2 pool_rel_inj [OF assms(1), of k' j k''] by (auto split: if_splits)
next
  case (3 k')
  then show ?case
    using assms(4) [of k'] pool_relD(2) [OF assms(1), of k'] by (simp split: if_splits)
next
  case (4 k' j)
  show ?case
  proof (cases "k' = k")
    case True
    with 4 assms(3,5) show ?thesis by (auto simp: nth_append)
  next
    case False
    with 4 have "map_of (pl_registry P) k' = Some j" by simp
    from pool_relD(3,4) [OF assms(1) this] show ?thesis
      unfolding live_cong [OF assms(4) [OF False]] by (simp add: nth_append)
  qed
qed (use pool_relD(1) [OF assms(1)] in simp)

lemma users_insert:
  "users k (insert (k, r, j) A) = insert (r, j) (users k A)"
  "k' \<noteq> k \<Longrightarrow> users k' (insert (k, r, j) A) = users k' A"
  by (auto simp: users_def)

lemma open_step:
  assumes "pool_rel A P"
  shows "\<exists>res P1. getSourceInstance started k r j bl P = (Some res, P1) \<and>
     ((\<exists>x. res = Inr x) \<longleftrightarrow> opens A started k r j) \<and> pool_rel (if opens A started k r j then insert (k, r, j) A else A) P1"
proof (cases "map_of (pl_registry P) k")
  case (Some i)
  define s where "s = pl_heap P ! i"
  have s: "live A k s" "ss_readers s = 0" "users k A \<noteq> {}"
    using pool_relD(4) [OF assms Some] by (auto simp: s_def live_def)
  have key: "map_of (ss_outputs s) (instanceKey k r j) = None \<longleftrightarrow> (k, r, j) \<notin> A"
    using s(1) by (simp add: map_of_eq_None_iff live_def instance_in) (simp add: users_def)
  have op: "opens A started k r j \<longleftrightarrow> (k, r, j) \<notin> A"
    using s(3) by (simp add: opens_def)
  show ?thesis
  proof (cases "(k, r, j) \<in> A")
    case True
    then obtain b where "map_of (ss_outputs s) (instanceKey k r j) = Some b"
      using key by blast
    then show ?thesis
      using assms Some s(2) True op pool_relD(1) [OF assms]
      by (simp add: getSourceInstance_def pool_load_def ss_attach_def s_def Let_def)
  next
    case False
    then show ?thesis
      using pool_rel_set [OF assms Some attach_live [OF disjI1 [OF s(1)] users_insert(1)] users_insert(2)]
        key op Some s(2) pool_relD(1) [OF assms]
      by (simp add: getSourceInstance_def pool_load_def ss_attach_def s_def Let_def)
  qed
next
  case None
  then have no: "users k A = {}" "(k, r, j) \<notin> A"
    using pool_relD(2) [OF assms] by (auto simp: users_def)
  show ?thesis
  proof (cases started)
    case None
    let ?s = "\<lparr>ss_outputs = [], ss_cancelled = False, ss_closed = False, ss_readers = 0\<rparr>"
    let ?s1 = "?s\<lparr>ss_outputs := AList.update (instanceKey k r j) (newSourceInstanceChannels bl) []\<rparr>"
    have "live (insert (k, r, j) A) k ?s1"
      using attach_live [of A k ?s "insert (k, r, j) A" r j "newSourceInstanceChannels bl"] no users_insert(1) [of k r j A] by simp
    from pool_rel_add [OF assms \<open>map_of (pl_registry P) k = None\<close> this users_insert(2) refl] show ?thesis
      using \<open>map_of (pl_registry P) k = None\<close> None no pool_relD(1) [OF assms]
      by (simp add: getSourceInstance_def pool_load_def addInstance_def ss_attach_def set_singleton_def opens_def Let_def)
  next
    case (Some e)
    then show ?thesis
      using \<open>map_of (pl_registry P) k = None\<close> assms no pool_relD(1) [OF assms]
      by (simp add: getSourceInstance_def pool_load_def addInstance_def opens_def)
  qed
qed

lemma data_step:
  assumes "pool_rel A P"
  shows "out_ok A (PData k v) (Delivered (case map_of (pl_registry P) k of None \<Rightarrow> [] | Some i \<Rightarrow> ss_broadcast i v P))"
proof (cases "map_of (pl_registry P) k")
  case None
  then show ?thesis
    using pool_relD(2) [OF assms None] by simp
next
  case (Some i)
  have s: "distinct (map fst (ss_outputs (pl_heap P ! i)))" "\<not> ss_cancelled (pl_heap P ! i)"
      "fst ` set (ss_outputs (pl_heap P ! i)) = (\<lambda>(r, j). instanceKey k r j) ` users k A"
    using pool_relD(4) [OF assms Some] by (simp_all add: live_def)
  have "set (ss_broadcast i v P) = (\<lambda>x. (x, v)) ` (\<lambda>(r, j). instanceKey k r j) ` users k A"
    using s(2) unfolding s(3) [symmetric] by (simp add: ss_broadcast_def Let_def image_image split_beta)
  moreover have "map fst (ss_broadcast i v P) = map fst (ss_outputs (pl_heap P ! i))"
    using s(2) by (simp add: ss_broadcast_def Let_def split_beta comp_def)
  ultimately show ?thesis
    using s(1) Some by (simp add: image_image split_beta)
qed

lemma pool_step_rel:
  assumes "pool_rel A P"
  shows "\<exists>out P1. pool_step e P = Some (out, P1) \<and> out_ok A e out \<and> pool_rel (attach_step e A) P1"
proof (cases e)
  case (POpen started k r j bl)
  with open_step [OF assms, of started k r j bl] show ?thesis
    by (auto split: sum.splits)
next
  case (PClose k r n)
  with delete_loop_step [OF assms, of k r "[0..<n]"] show ?thesis
    by (auto simp: removeSourceInstance_def)
next
  case (PData k v)
  with data_step [OF assms, of k v] assms show ?thesis
    by simp
qed

lemma pool_run_rel:
  "pool_rel A P \<Longrightarrow> \<exists>outs P1. pool_run es P = Some (outs, P1) \<and> outs_ok A es outs \<and> pool_rel (fold attach_step es A) P1"
proof (induction es arbitrary: A P)
  case (Cons e es)
  obtain out P1 where P1: "pool_step e P = Some (out, P1)" "out_ok A e out" "pool_rel (attach_step e A) P1"
    using pool_step_rel [OF Cons.prems] by blast
  with Cons.IH [OF P1(3)] show ?case by auto
qed simp

text \<open>
  (C31) The pool of shared sources refines a set of attached instances (source, rule, index): for every history of rules that open and close their source nodes, with operations that do not
  overlap, no operation waits for ever, opening fails exactly when the instance is attached already or a source that has to be started does not start, and a tuple of a source goes
  exactly once to each instance attached at that moment and to no other. A source is in the registry if and only if an instance is attached to it, and then it has
  been neither cancelled nor closed: the first user starts it and the last one ends it.
\<close>

theorem shared_source_pool:
  "\<exists>outs P. pool_run es empty_pool = Some (outs, P) \<and> outs_ok {} es outs \<and>
     (\<forall>k. case map_of (pl_registry P) k of
        None \<Rightarrow> users k (fold attach_step es {}) = {}
      | Some i \<Rightarrow> users k (fold attach_step es {}) \<noteq> {} \<and> \<not> ss_cancelled (pl_heap P ! i) \<and> \<not> ss_closed (pl_heap P ! i))"
proof -
  have "pool_rel {} (empty_pool :: 'a sourcePool)"
    by (rule pool_relI) (simp_all add: empty_pool_def users_def)
  from pool_run_rel [OF this, of es] obtain outs P where P: "pool_run es empty_pool = Some (outs, P)" "outs_ok {} es outs"
      "pool_rel (fold attach_step es {}) P"
    by blast
  have "users k (fold attach_step es {}) \<noteq> {} \<and> \<not> ss_cancelled (pl_heap P ! i) \<and> \<not> ss_closed (pl_heap P ! i)"
    if "map_of (pl_registry P) k = Some i" for k i
    using pool_relD(4) [OF P(3) that] by (auto simp: live_def)
  with P pool_relD(2) [OF P(3)] show ?thesis
    by (auto split: option.splits)
qed

section \<open>What the pool does not do\<close>

text \<open>
  (C32) An error of a shared source stops the pool. \<^verbatim>\<open>broadcastError\<close> leaves the read lock of the singleton taken, so no rule can attach to the source again, and the first rule that
  closes its node for that source waits for ever while it holds the lock of the pool: from then on no rule of the process can open or close any shared source.
\<close>

theorem source_error_blocks_pool:
  assumes "map_of (pl_registry P) k = Some i" "i < length (pl_heap P)" "\<not> pl_locked P"
  shows "let P1 = snd (broadcastError i e P); (res, P2) = deleteInstance k ruleId index P1
     in fst (ss_attach i key bl P1) = None \<and> res = None \<and>
        fst (getSourceInstance started k' ruleId' index' bl P2) = None \<and> fst (deleteInstance k' ruleId' index' P2) = None"
  using assms
  by (simp add: broadcastError_def deleteInstance_def ss_detach_def ss_attach_def getSourceInstance_def pool_load_def set_singleton_def Let_def)

theorem source_error_blocks_pool_witness:
  "let P = snd (getSourceInstance None ''mqtt.demo'' ''r1'' 0 10 (empty_pool :: nat sourcePool)); P1 = snd (broadcastError 0 ''lost'' P);
       (res, P2) = deleteInstance ''mqtt.demo'' ''r1'' 0 P1
   in map_of (pl_registry P) ''mqtt.demo'' = Some 0 \<and> res = None \<and> fst (getSourceInstance None ''mqtt.other'' ''r2'' 0 10 P2) = None"
proof -
  let ?P = "snd (getSourceInstance None ''mqtt.demo'' ''r1'' 0 10 (empty_pool :: nat sourcePool))"
  have P: "map_of (pl_registry ?P) ''mqtt.demo'' = Some 0" "0 < length (pl_heap ?P)" "\<not> pl_locked ?P"
    by (simp_all add: getSourceInstance_def pool_load_def addInstance_def ss_attach_def set_singleton_def empty_pool_def Let_def)
  with source_error_blocks_pool [OF P, of "''lost''" "''r1''" 0 key 10 None "''mqtt.other''" "''r2''" 0 for key]
  show ?thesis by (simp add: Let_def split_beta)
qed

text \<open>
  The lookup of a shared source and the attachment to it are two critical sections. When the last rule closes its node in between, the new rule attaches, without an error, to a singleton that
  is no longer in the registry and that hands on no tuple.
\<close>

theorem attach_after_close:
  assumes "pool_rel {(k, r, j)} P" "pool_load k P = (Some (Some i), P)" "(r', j') \<noteq> (r, j)"
  shows "let P1 = snd (deleteInstance k r j P); (res, P2) = ss_attach i (instanceKey k r' j') bl P1
     in res = Some (Inr ()) \<and> map_of (pl_registry P2) k = None \<and> ss_broadcast i v P2 = []"
proof -
  have i: "map_of (pl_registry P) k = Some i" "\<not> pl_locked P"
    using assms(2) by (simp_all add: pool_load_def split: if_splits)
  have s: "live {(k, r, j)} k (pl_heap P ! i)" "i < length (pl_heap P)" "ss_readers (pl_heap P ! i) = 0"
    using pool_relD(3,4) [OF assms(1) i(1)] by (simp_all add: live_def)
  have "AList.delete (instanceKey k r j) (ss_outputs (pl_heap P ! i)) = []"
    using detach_live(1) [OF s(1) refl refl, of r j] by (simp add: users_def)
  then show ?thesis
    using i s by (simp add: deleteInstance_def ss_detach_def ss_attach_def ss_broadcast_def set_singleton_def Let_def)
qed

section \<open>The source node (source\_node.go)\<close>

record 'c SourceNode = "'c defaultNode" +
  sn_streamType :: StreamType
  sn_sourceType :: string
  sn_options :: Options
  sn_bufferLength :: int
  sn_props :: "(string \<times> gval) list"

definition NewSourceNode :: "string \<Rightarrow> StreamType \<Rightarrow> Options \<Rightarrow> 'c SourceNode" where
  "NewSourceNode name st options =
     \<lparr>dn_name = name, dn_outputs = [], dn_concurrency = 1, dn_sendError = False, dn_qos = AtMostOnce,
      sn_streamType = st,
      sn_sourceType = (if opt_TYPE options = [] then (case st of TypeStream \<Rightarrow> ''mqtt'' | TypeTable \<Rightarrow> ''file'') else opt_TYPE options),
      sn_options = options, sn_bufferLength = 0, sn_props = []\<rparr>"

text \<open>The configuration of a source. \<open>cfg\<close> is the parsed file, \<open>None\<close> when it cannot be read or parsed.\<close>

definition getSourceConf :: "(string \<times> gval) list option \<Rightarrow> Options \<Rightarrow> (string \<times> gval) list" where
  "getSourceConf cfg options =
     (let props = (case cfg of
            None \<Rightarrow> []
          | Some c \<Rightarrow>
              (case map_of c ''default'' of
                 None \<Rightarrow> []
               | Some def \<Rightarrow>
                   (let p0 = (case def of GStrMap m \<Rightarrow> m | _ \<Rightarrow> []) in
                    case map_of c (CONF_KEY options) of
                      Some (GStrMap m) \<Rightarrow> fold (\<lambda>(k, v). AList.update k v) m p0
                    | _ \<Rightarrow> p0)));
          f = (if FORMAT options = [] then ''json'' else FORMAT options)
      in AList.update ''format'' (GString (to_lower f)) props)"

definition positive_prop :: "string \<Rightarrow> (string \<times> gval) list \<Rightarrow> int \<Rightarrow> int" where
  "positive_prop key props dflt = (case map_of props key of
     None \<Rightarrow> dflt
   | Some c \<Rightarrow> (case ToInt c STRICT of Inl _ \<Rightarrow> dflt | Inr t \<Rightarrow> if sint t \<le> 0 then dflt else sint t))"

definition source_configure :: "(string \<times> gval) list option \<Rightarrow> 'c SourceNode \<Rightarrow> 'c SourceNode" where
  "source_configure cfg m =
     (let props = getSourceConf cfg (sn_options m);
          retain = RETAIN_SIZE (sn_options m)
      in m\<lparr>dn_concurrency := positive_prop ''concurrency'' props (dn_concurrency m),
           sn_bufferLength := positive_prop ''bufferLength'' props 102400,
           sn_props := (if retain > 0 \<and> sn_streamType m = TypeTable
                        then AList.update ''$retainSize'' (GInt (word_of_int retain)) props else props)\<rparr>)"

definition OffsetKey :: string where
  "OffsetKey = ''$$offset''"

text \<open>
  \<^verbatim>\<open>start\<close>: \<open>configured\<close> is the error of \<^verbatim>\<open>Configure\<close>, and \<open>rewind\<close> is \<^verbatim>\<open>Rewind\<close> with its error for a source that is \<^verbatim>\<open>Rewindable\<close>. The result is the offset that the source
  was rewound to. The context of a pooled source is that of the pool, and such a source is not rewound.
\<close>

definition start_source :: "bool \<Rightarrow> string option \<Rightarrow> ('o \<Rightarrow> string option) option \<Rightarrow> 'o DefaultContext \<Rightarrow> string + 'o option" where
  "start_source pooled configured rewind ctx = (case configured of
     Some e \<Rightarrow> Inl e
   | None \<Rightarrow>
       (if pooled then Inr None
        else (case rewind of
          None \<Rightarrow> Inr None
        | Some rw \<Rightarrow>
            (case GetState OffsetKey ctx of
               None \<Rightarrow> Inr None
             | Some off \<Rightarrow> (case rw off of Some e \<Rightarrow> Inl e | None \<Rightarrow> Inr (Some off))))))"

record ('c, 'o) source_run =
  sr_node :: "'c SourceNode"
  sr_stats :: StatManager
  sr_ctx :: "'o DefaultContext"
  sr_errs :: "string list"

text \<open>
  One tuple of the source: its message and metadata, the time of its arrival and, for a rewindable source, what \<^verbatim>\<open>GetOffset\<close> returns after it.
\<close>

record 'o source_data =
  sd_message :: "fmap option"
  sd_meta :: "Message option"
  sd_now :: int
  sd_offset :: "(string + 'o) option"

datatype 'o source_event = SData tick "'o source_data" | SError string | SDone

definition source_tuple :: "string \<Rightarrow> 'o source_data \<Rightarrow> PTuple" where
  "source_tuple name d = \<lparr>pt_Emitter = name, pt_Message = sd_message d, pt_Timestamp = sd_now d, pt_Metadata = sd_meta d\<rparr>"

definition save_offset :: "(string + 'o) option \<Rightarrow> ('c, 'o) source_run \<Rightarrow> ('c, 'o) source_run" where
  "save_offset off r = (case off of
     None \<Rightarrow> r
   | Some (Inl e) \<Rightarrow> r\<lparr>sr_errs := sr_errs r @ [e]\<rparr>
   | Some (Inr x) \<Rightarrow> r\<lparr>sr_ctx := PutState OffsetKey x (sr_ctx r)\<rparr>)"

definition source_item :: "tick \<Rightarrow> 'o source_data \<Rightarrow> ('c, 'o) source_run \<Rightarrow> (string \<times> 'c \<times> PTuple msg) list \<times> ('c, 'o) source_run" where
  "source_item k d r =
     (let st = ProcessTimeEnd (tk_end k) (ProcessTimeStart (tk_start k) (IncTotalRecordsIn (sr_stats r)));
          out = Broadcast (\<lambda>_. DynValue) (tk_taken k) (DItem (source_tuple (dn_name (sr_node r)) d)) (sr_node r)
      in (out, save_offset (sd_offset d) (r\<lparr>sr_stats := SetBufferLength (tk_length k) (IncTotalRecordsOut st)\<rparr>)))"

fun source_node_loop :: "'o source_event list \<Rightarrow> ('c, 'o) source_run \<Rightarrow> (string \<times> 'c \<times> PTuple msg) list \<times> ('c, 'o) source_run" where
  "source_node_loop [] r = ([], r)"
| "source_node_loop (SDone # es) r = ([], r)"
| "source_node_loop (SError e # es) r = ([], r\<lparr>sr_errs := sr_errs r @ [e]\<rparr>)"
| "source_node_loop (SData k d # es) r = (case source_item k d r of (out, r1) \<Rightarrow>
     case source_node_loop es r1 of (out2, r2) \<Rightarrow> (out @ out2, r2))"

text \<open>The last offset that was saved.\<close>

definition last_offset :: "'o option \<Rightarrow> 'o source_data list \<Rightarrow> 'o option" where
  "last_offset o0 ds = fold (\<lambda>d x. case sd_offset d of Some (Inr y) \<Rightarrow> Some y | _ \<Rightarrow> x) ds o0"

lemma save_offset_simps [simp]:
  "sr_node (save_offset off r) = sr_node r"
  "GetState OffsetKey (sr_ctx (save_offset off r)) = (case off of Some (Inr y) \<Rightarrow> Some y | _ \<Rightarrow> GetState OffsetKey (sr_ctx r))"
  by (auto simp: save_offset_def GetState_def PutState_def split: option.splits sum.splits)

lemma source_run_tuples:
  assumes "\<forall>(k, d) \<in> set kds. list_all (tk_taken k) (map fst (dn_outputs (sr_node r)))"
    "distinct (map fst (dn_outputs (sr_node r)))" "n \<in> fst ` set (dn_outputs (sr_node r))"
  shows "\<exists>out r1. source_node_loop (map (\<lambda>(k, d). SData k d) kds) r = (out, r1) \<and>
     sent_to n out = map (wrap_data (sr_node r) \<circ> DItem \<circ> source_tuple (dn_name (sr_node r))) (map snd kds) \<and>
     GetState OffsetKey (sr_ctx r1) = last_offset (GetState OffsetKey (sr_ctx r)) (map snd kds)"
  using assms
proof (induction kds arbitrary: r)
  case Nil
  then show ?case by (simp add: last_offset_def)
next
  case (Cons kd kds)
  obtain k d where kd: "kd = (k, d)" by fastforce
  obtain out r1 where r1: "source_item k d r = (out, r1)" by fastforce
  have node: "sr_node r1 = sr_node r"
    using r1 by (auto simp: source_item_def Let_def)
  have off: "GetState OffsetKey (sr_ctx r1) = (case sd_offset d of Some (Inr y) \<Rightarrow> Some y | _ \<Rightarrow> GetState OffsetKey (sr_ctx r))"
    using r1 by (auto simp: source_item_def Let_def split: option.splits sum.splits)
  have out: "sent_to n out = [wrap_data (sr_node r) (DItem (source_tuple (dn_name (sr_node r)) d))]"
    using r1 Cons.prems kd sent_to_Broadcast [of "tk_taken k" "sr_node r" n "\<lambda>_. DynValue"]
    by (auto simp: source_item_def is_sent_def Let_def)
  show ?case
    using Cons.IH [of r1] Cons.prems
    by (auto simp: node kd r1 out off last_offset_def comp_def)
qed

text \<open>
  A source node: while it runs, each of its outputs receives one tuple for every tuple of the source, in order, with the name of the stream as its emitter. The
  context then holds the offset after the last tuple that had one, and a rewindable source of its own that is started with this state is rewound to that offset.
\<close>

theorem source_node_tuples:
  assumes "\<forall>(k, d) \<in> set kds. list_all (tk_taken k) (map fst (dn_outputs (sr_node r)))"
    and "distinct (map fst (dn_outputs (sr_node r)))" "n \<in> fst ` set (dn_outputs (sr_node r))"
    and "source_node_loop (map (\<lambda>(k, d). SData k d) kds) r = (out, r1)"
  shows "sent_to n out = map (\<lambda>(k, d). wrap_data (sr_node r) (DItem (source_tuple (dn_name (sr_node r)) d))) kds \<and>
     (\<forall>off. last_offset (GetState OffsetKey (sr_ctx r)) (map snd kds) = Some off \<longrightarrow> rw off = None \<longrightarrow>
        start_source False None (Some rw) (sr_ctx r1) = Inr (Some off))"
  using source_run_tuples [OF assms(1-3)] assms(4)
  by (auto simp: start_source_def comp_def split_beta)

theorem source_node_tuples_witness:
  "let m = (NewSourceNode ''demo'' TypeStream \<lparr>DATASOURCE = [], KEY = [], FORMAT = [], CONF_KEY = [], opt_TYPE = [], STRICT_VALIDATION = False, TIMESTAMP = [],
         TIMESTAMP_FORMAT = [], RETAIN_SIZE = 0, SHARED = False\<rparr>)\<lparr>dn_outputs := [(''1_preprocessor_demo'', 1 :: nat)]\<rparr>;
       r = \<lparr>sr_node = m, sr_stats = projr (NewStatManager ''source'' ''demo'' 0), sr_ctx = \<lparr>dc_opId = ''demo'', dc_state = [], dc_snapshot = None\<rparr>, sr_errs = []\<rparr>;
       d = (\<lambda>off :: nat. \<lparr>sd_message = Some [], sd_meta = None, sd_now = 10, sd_offset = Some (Inr off)\<rparr>);
       (out, r1) = source_node_loop (map (\<lambda>(k, d). SData k d) [(ex_tick, d 1), (ex_tick, d 2)]) r
   in sent_to ''1_preprocessor_demo'' out = replicate 2 (Plain (DItem (source_tuple ''demo'' (d 1)))) \<and>
      start_source False None (Some (\<lambda>_. None)) (sr_ctx r1) = Inr (Some 2)"
proof -
  let ?m = "(NewSourceNode ''demo'' TypeStream \<lparr>DATASOURCE = [], KEY = [], FORMAT = [], CONF_KEY = [], opt_TYPE = [], STRICT_VALIDATION = False, TIMESTAMP = [],
         TIMESTAMP_FORMAT = [], RETAIN_SIZE = 0, SHARED = False\<rparr>)\<lparr>dn_outputs := [(''1_preprocessor_demo'', 1 :: nat)]\<rparr>"
  let ?r = "\<lparr>sr_node = ?m, sr_stats = projr (NewStatManager ''source'' ''demo'' 0), sr_ctx = \<lparr>dc_opId = ''demo'', dc_state = [], dc_snapshot = None\<rparr>, sr_errs = []\<rparr>"
  let ?d = "\<lambda>off :: nat. \<lparr>sd_message = Some [], sd_meta = None, sd_now = 10, sd_offset = Some (Inr off)\<rparr>"
  let ?kds = "[(ex_tick, ?d 1), (ex_tick, ?d 2)]"
  obtain out r1 where r1: "source_node_loop (map (\<lambda>(k, d). SData k d) ?kds) ?r = (out, r1)"
    by fastforce
  have prems: "\<forall>(k, d) \<in> set ?kds. list_all (tk_taken k) (map fst (dn_outputs (sr_node ?r)))" "distinct (map fst (dn_outputs (sr_node ?r)))"
      "''1_preprocessor_demo'' \<in> fst ` set (dn_outputs (sr_node ?r))"
    by (simp_all add: ex_tick_def)
  show ?thesis
    using source_node_tuples [OF prems r1, of "\<lambda>_. None"] unfolding Let_def r1
    by (simp add: last_offset_def wrap_data_def at_least_once_def NewSourceNode_def source_tuple_def numeral_2_eq_2)
qed

end
