(* ===== verification/Topology.thy ===== *)
theory Topology
  imports Sources Planner Watermarks
begin

text \<open>
  From a rule to the network of its nodes: \<^verbatim>\<open>topo.go\<close>, which holds and wires the nodes, and \<^verbatim>\<open>buildOps\<close>, \<^verbatim>\<open>createTopo\<close> and \<^verbatim>\<open>PlanWithSourcesAndSinks\<close> of \<^verbatim>\<open>planner.go\<close>.

  The nodes are objects that refer to each other, so a node is known by its position in the lists of the topology: \<open>ESrc\<close> and \<open>EOp\<close> are the emitters, and the input channel of an operator
  or a sink is \<open>COp\<close> or \<open>CSink\<close> with its position. The parameters \<^verbatim>\<open>sources\<close> and \<^verbatim>\<open>sinks\<close>, which only tests pass, are left out.
\<close>

section \<open>Topology (topo.go)\<close>

datatype chan = COp nat | CSink nat

datatype emitter = ESrc nat | EOp nat

datatype op_kind =
    KPreprocessor Preprocessor
  | KTableProcessor TableProcessor
  | KFilter "expr option"
  | KWindow WindowConfig "wm_gen option"
  | KJoinAlign "(string \<times> nat) list"
  | KJoin table join "join list"
  | KAggregate dimensions
  | KHaving "expr option"
  | KOrder "sort_field list"
  | KProject "field list" bool bool

record topo_op =
  to_node :: "(chan, unit) defaultSinkNode"
  to_kind :: op_kind

record SinkNode =
  sk_node :: "(chan, unit) defaultSinkNode"
  sk_type :: string
  sk_bufferLength :: int

record Topo =
  tp_name :: string
  tp_qos :: int
  tp_checkpointInterval :: int
  tp_sources :: "chan SourceNode list"
  tp_ops :: "topo_op list"
  tp_sinks :: "SinkNode list"
  tp_printSources :: "string list"
  tp_edges :: "(string \<times> string list) list"

definition NewWithNameAndQos :: "string \<Rightarrow> int \<Rightarrow> int \<Rightarrow> Topo" where
  "NewWithNameAndQos name qos checkpointInterval =
     \<lparr>tp_name = name, tp_qos = qos, tp_checkpointInterval = checkpointInterval, tp_sources = [], tp_ops = [], tp_sinks = [],
      tp_printSources = [], tp_edges = []\<rparr>"

definition emitter_name :: "emitter \<Rightarrow> Topo \<Rightarrow> string" where
  "emitter_name e tp = (case e of ESrc i \<Rightarrow> dn_name (tp_sources tp ! i) | EOp i \<Rightarrow> dn_name (to_node (tp_ops tp ! i)))"

definition emitter_outputs :: "emitter \<Rightarrow> Topo \<Rightarrow> (string \<times> chan) list" where
  "emitter_outputs e tp = (case e of ESrc i \<Rightarrow> dn_outputs (tp_sources tp ! i) | EOp i \<Rightarrow> dn_outputs (to_node (tp_ops tp ! i)))"

text \<open>A call of \<^verbatim>\<open>AddOutput\<close> on an input; its error is ignored.\<close>

definition or_same :: "'a \<Rightarrow> string + 'a \<Rightarrow> 'a" where
  "or_same x r = (case r of Inl _ \<Rightarrow> x | Inr y \<Rightarrow> y)"

definition connect :: "emitter \<Rightarrow> chan \<Rightarrow> string \<Rightarrow> Topo \<Rightarrow> Topo" where
  "connect e ch name tp = (case e of
     ESrc i \<Rightarrow> tp\<lparr>tp_sources := (tp_sources tp)[i := or_same (tp_sources tp ! i) (AddOutput ch name (tp_sources tp ! i))]\<rparr>
   | EOp i \<Rightarrow>
       (let n = to_node (tp_ops tp ! i)
        in tp\<lparr>tp_ops := (tp_ops tp)[i := (tp_ops tp ! i)\<lparr>to_node := or_same n (AddOutput ch name n)\<rparr>]\<rparr>))"

definition addEdge :: "emitter \<Rightarrow> string \<Rightarrow> string \<Rightarrow> Topo \<Rightarrow> Topo" where
  "addEdge from to_name toType tp =
     (let f = (case from of ESrc _ \<Rightarrow> ''source'' | EOp _ \<Rightarrow> ''op'') @ ''_'' @ emitter_name from tp;
          t = toType @ ''_'' @ to_name;
          e = (case map_of (tp_edges tp) f of None \<Rightarrow> [] | Some e \<Rightarrow> e)
      in tp\<lparr>tp_edges := AList.update f (e @ [t]) (tp_edges tp)\<rparr>)"

definition AddSrc :: "chan SourceNode \<Rightarrow> Topo \<Rightarrow> Topo" where
  "AddSrc src tp = tp\<lparr>tp_sources := tp_sources tp @ [src], tp_printSources := tp_printSources tp @ [''source_'' @ dn_name src]\<rparr>"

text \<open>The loops over the inputs of a new node.\<close>

fun wire :: "emitter list \<Rightarrow> chan \<Rightarrow> string \<Rightarrow> (chan, unit) defaultSinkNode \<Rightarrow> Topo \<Rightarrow> (chan, unit) defaultSinkNode \<times> Topo" where
  "wire [] ch toType n tp = (n, tp)"
| "wire (e # es) ch toType n tp =
     wire es ch toType (AddInputCount n) (addEdge e (dn_name n) toType (connect e ch (dn_name n) tp))"

definition AddOperator :: "emitter list \<Rightarrow> topo_op \<Rightarrow> Topo \<Rightarrow> Topo" where
  "AddOperator inputs operator tp = (case wire inputs (COp (length (tp_ops tp))) ''op'' (to_node operator) tp of (n, tp1) \<Rightarrow>
     tp1\<lparr>tp_ops := tp_ops tp1 @ [operator\<lparr>to_node := n\<rparr>]\<rparr>)"

definition AddSink :: "emitter list \<Rightarrow> SinkNode \<Rightarrow> Topo \<Rightarrow> Topo" where
  "AddSink inputs snk tp = (case wire inputs (CSink (length (tp_sinks tp))) ''sink'' (sk_node snk) tp of (n, tp1) \<Rightarrow>
     tp1\<lparr>tp_sinks := tp_sinks tp1 @ [snk\<lparr>sk_node := n\<rparr>]\<rparr>)"

text \<open>The coordinator of a rule with checkpoints, with the names and input counts of its tasks.\<close>

definition qos_of :: "int \<Rightarrow> Qos" where
  "qos_of q = (if q = 1 then AtLeastOnce else if q = 2 then ExactlyOnce else AtMostOnce)"

definition enableCheckpoint ::
  "(string \<Rightarrow> 'r) \<Rightarrow> 's \<Rightarrow> Topo \<Rightarrow> ((string \<times> ('r, 'd) handler option) list \<times> 's Coordinator) option" where
  "enableCheckpoint re store tp =
     (let task = (\<lambda>n. (dn_name n, dn_inputCount n)) in
      if tp_qos tp \<ge> 1 then
        Some (NewCoordinator re (map dn_name (tp_sources tp)) (map (task \<circ> to_node) (tp_ops tp)) (map (task \<circ> sk_node) (tp_sinks tp))
          (qos_of (tp_qos tp)) store (tp_checkpointInterval tp))
      else None)"

section \<open>Building the topology (planner.go)\<close>

definition Transform :: "op_kind \<Rightarrow> string \<Rightarrow> RuleOption \<Rightarrow> chan \<Rightarrow> topo_op" where
  "Transform k name options ch = \<lparr>to_node = New name ch () (SendError options), to_kind = k\<rparr>"

definition next_chan :: "Topo \<Rightarrow> chan" where
  "next_chan tp = COp (length (tp_ops tp))"

definition op_name :: "nat \<Rightarrow> string \<Rightarrow> string" where
  "op_name i kind = nat_digits i @ CHR ''_'' # kind"

text \<open>A unary operator takes the concurrency of the rule; then it is added.\<close>

definition add_unary :: "op_kind \<Rightarrow> string \<Rightarrow> RuleOption \<Rightarrow> emitter list \<Rightarrow> Topo \<Rightarrow> emitter \<times> Topo" where
  "add_unary k name options inputs tp =
     (let op = Transform k name options (next_chan tp)
      in (EOp (length (tp_ops tp)), AddOperator inputs (op\<lparr>to_node := SetConcurrency (Concurrency options) (to_node op)\<rparr>) tp))"

text \<open>The nodes of a window and of a join alignment, which set no concurrency.\<close>

definition bare_node :: "string \<Rightarrow> RuleOption \<Rightarrow> chan \<Rightarrow> (chan, unit) defaultSinkNode" where
  "bare_node name options ch = (New name ch () (SendError options))\<lparr>dn_concurrency := 0\<rparr>"

definition build_source :: "RuleOption \<Rightarrow> nat \<Rightarrow> DataSourcePlan \<Rightarrow> Topo \<Rightarrow> emitter \<times> Topo" where
  "build_source options newIndex t tp =
     (let src = NewSourceNode (ds_name t) (ss_StreamType (ds_streamStmt t)) (ss_Options (ds_streamStmt t));
          inputs = [ESrc (length (tp_sources tp))];
          tp1 = AddSrc src tp
      in case ss_StreamType (ds_streamStmt t) of
           TypeStream \<Rightarrow>
             add_unary (KPreprocessor (NewPreprocessor (ds_streamFields t) (ds_allMeta t) (ds_metaFields t) (ds_iet t) (ds_timestampField t)
                 (ds_timestampFormat t) (ds_isBinary t)))
               (op_name newIndex (''preprocessor_'' @ ds_name t)) options inputs tp1
         | TypeTable \<Rightarrow>
             add_unary (KTableProcessor (NewTableProcessor (ds_name t) (ds_streamFields t) (ss_Options (ds_streamStmt t))))
               (op_name newIndex (''tableprocessor_'' @ ds_name t)) options inputs tp1)"

definition window_inputs :: "RuleOption \<Rightarrow> nat \<Rightarrow> WindowPlan \<Rightarrow> emitter list \<Rightarrow> Topo \<Rightarrow> emitter list \<times> Topo" where
  "window_inputs options newIndex t inputs tp = (case wp_condition t of
     None \<Rightarrow> (inputs, tp)
   | Some c \<Rightarrow> (case add_unary (KFilter (Some c)) (op_name newIndex ''windowFilter'') options inputs tp of (e, tp1) \<Rightarrow> ([e], tp1)))"

definition add_window :: "RuleOption \<Rightarrow> nat \<Rightarrow> WindowConfig \<Rightarrow> wm_gen option \<Rightarrow> emitter list \<Rightarrow> Topo \<Rightarrow> emitter \<times> Topo" where
  "add_window options newIndex w g inputs tp =
     (EOp (length (tp_ops tp)),
      AddOperator inputs \<lparr>to_node = bare_node (op_name newIndex ''window'') options (next_chan tp), to_kind = KWindow w g\<rparr> tp)"

definition build_window :: "RuleOption \<Rightarrow> string list \<Rightarrow> nat \<Rightarrow> WindowPlan \<Rightarrow> emitter list \<Rightarrow> Topo \<Rightarrow> string + emitter \<times> Topo" where
  "build_window options streams newIndex t inputs tp = (case window_inputs options newIndex t inputs tp of (inputs1, tp1) \<Rightarrow>
     let w = NewWindowOp \<lparr>w_Type = wp_wtype t, w_Length = wp_length t, w_Interval = wp_interval t\<rparr> in
     if IsEventTime options then
       (case NewWatermarkGenerator w (LateTol options) streams of
          Inl e \<Rightarrow> Inl e
        | Inr g \<Rightarrow> Inr (add_window options newIndex w (Some g) inputs1 tp1))
     else Inr (add_window options newIndex w None inputs1 tp1))"

definition build_node :: "RuleOption \<Rightarrow> string list \<Rightarrow> LogicalPlan \<Rightarrow> emitter list \<Rightarrow> nat \<Rightarrow> Topo \<Rightarrow> string + emitter \<times> Topo" where
  "build_node options streams lp inputs newIndex tp = (case lp of
     DataSource t \<Rightarrow> Inr (build_source options newIndex t tp)
   | WindowP t _ \<Rightarrow> build_window options streams newIndex t inputs tp
   | JoinAlign emitters _ \<Rightarrow>
       Inr (EOp (length (tp_ops tp)),
            AddOperator inputs \<lparr>to_node = bare_node (op_name newIndex ''join_aligner'') options (next_chan tp), to_kind = KJoinAlign (emitter_map emitters)\<rparr> tp)
   | JoinP from j js _ \<Rightarrow> Inr (add_unary (KJoin from j js) (op_name newIndex ''join'') options inputs tp)
   | Filter c _ \<Rightarrow> Inr (add_unary (KFilter c) (op_name newIndex ''filter'') options inputs tp)
   | Aggregate ds _ \<Rightarrow> Inr (add_unary (KAggregate ds) (op_name newIndex ''aggregate'') options inputs tp)
   | HavingP c _ \<Rightarrow> Inr (add_unary (KHaving c) (op_name newIndex ''having'') options inputs tp)
   | Order fs _ \<Rightarrow> Inr (add_unary (KOrder fs) (op_name newIndex ''order'') options inputs tp)
   | Project fs agg meta _ \<Rightarrow> Inr (add_unary (KProject fs agg meta) (op_name newIndex ''project'') options inputs tp))"

lemma Children_smaller: "size_list size (Children lp) \<le> size lp"
  by (cases lp) auto

function (sequential) buildOps :: "RuleOption \<Rightarrow> string list \<Rightarrow> LogicalPlan \<Rightarrow> Topo \<Rightarrow> nat \<Rightarrow> string + emitter \<times> nat \<times> Topo"
  and build_inputs :: "RuleOption \<Rightarrow> string list \<Rightarrow> LogicalPlan list \<Rightarrow> Topo \<Rightarrow> nat \<Rightarrow> string + emitter list \<times> nat \<times> Topo" where
  "buildOps options streams lp tp index = (case build_inputs options streams (Children lp) tp index of
     Inl e \<Rightarrow> Inl e
   | Inr (inputs, i, tp1) \<Rightarrow> (case build_node options streams lp inputs (Suc i) tp1 of
       Inl e \<Rightarrow> Inl e
     | Inr (e, tp2) \<Rightarrow> Inr (e, Suc i, tp2)))"
| "build_inputs options streams [] tp index = Inr ([], index, tp)"
| "build_inputs options streams (c # cs) tp index = (case buildOps options streams c tp index of
     Inl e \<Rightarrow> Inl e
   | Inr (input, ni, tp1) \<Rightarrow> (case build_inputs options streams cs tp1 ni of
       Inl e \<Rightarrow> Inl e
     | Inr (inputs, nj, tp2) \<Rightarrow> Inr (input # inputs, nj, tp2)))"
  by pat_completeness auto
termination
  by (relation "measure (\<lambda>x. case x of Inl (opt, s, p, tp, i) \<Rightarrow> 2 * size p + 1 | Inr (opt, s, ps, tp, i) \<Rightarrow> 2 * size_list size ps)")
    (auto simp: Children_smaller less_Suc_eq_le)

declare buildOps.simps [simp del]

text \<open>A rule. The properties of an action are \<open>None\<close> when they are not a map.\<close>

record Rule =
  rl_Id :: string
  rl_Sql :: string
  rl_Actions :: "(string \<times> (string \<times> gval) list option) list list"
  rl_Options :: RuleOption

definition NewSinkNode :: "string \<Rightarrow> string \<Rightarrow> (string \<times> gval) list \<Rightarrow> chan \<Rightarrow> SinkNode" where
  "NewSinkNode name sinkType props ch =
     \<lparr>sk_node = New name ch () False, sk_type = sinkType, sk_bufferLength = positive_prop ''bufferLength'' props 1024\<rparr>"

definition sink_name :: "string \<Rightarrow> nat \<Rightarrow> string" where
  "sink_name name i = name @ CHR ''_'' # nat_digits i"

fun add_action :: "emitter \<Rightarrow> nat \<Rightarrow> (string \<times> (string \<times> gval) list option) list \<Rightarrow> Topo \<Rightarrow> string + Topo" where
  "add_action input i [] tp = Inr tp"
| "add_action input i ((name, action) # m) tp = (case action of
     None \<Rightarrow> Inl ''expect map[string]interface{} type for the action properties''
   | Some props \<Rightarrow> add_action input i m (AddSink [input] (NewSinkNode (sink_name name i) name props (CSink (length (tp_sinks tp)))) tp))"

fun add_actions :: "emitter \<Rightarrow> nat \<Rightarrow> (string \<times> (string \<times> gval) list option) list list \<Rightarrow> Topo \<Rightarrow> string + Topo" where
  "add_actions input i [] tp = Inr tp"
| "add_actions input i (m # ms) tp = (case add_action input i m tp of Inl e \<Rightarrow> Inl e | Inr tp1 \<Rightarrow> add_actions input (Suc i) ms tp1)"

definition createTopo :: "Rule \<Rightarrow> LogicalPlan \<Rightarrow> string list \<Rightarrow> string + Topo" where
  "createTopo rule lp streamsFromStmt =
     (let tp = NewWithNameAndQos (rl_Id rule) (RuleOption.Qos (rl_Options rule)) (CheckpointInterval (rl_Options rule)) in
      case buildOps (rl_Options rule) streamsFromStmt lp tp 0 of
        Inl e \<Rightarrow> Inl e
      | Inr (input, _, tp1) \<Rightarrow> add_actions input 0 (rl_Actions rule) tp1)"

definition Plan :: "ext_validator \<Rightarrow> (string \<Rightarrow> bool) \<Rightarrow> Rule \<Rightarrow> (string \<Rightarrow> string + StreamStmt) \<Rightarrow> (perr + string) + Topo" where
  "Plan ext rt rule store = (case GetStatementFromSql ext rt (rl_Sql rule) of
     Inl e \<Rightarrow> Inl (Inl e)
   | Inr stmt \<Rightarrow>
       (let streams = GetStreams (Some stmt) in
        if SendMetaToSink (rl_Options rule) \<and> (length streams > 1 \<or> Dimensions stmt \<noteq> []) then
          Inl (Inr ''Invalid option sendMetaToSink, it can not be applied to window'')
        else (case createLogicalPlan rt stmt (rl_Options rule) store of
            Inl e \<Rightarrow> Inl (Inr e)
          | Inr lp \<Rightarrow> (case createTopo rule lp streams of Inl e \<Rightarrow> Inl (Inr e) | Inr tp \<Rightarrow> Inr tp))))"

section \<open>The nodes are wired as the plan says\<close>

definition emitters :: "Topo \<Rightarrow> emitter list" where
  "emitters tp = map ESrc [0..<length (tp_sources tp)] @ map EOp [0..<length (tp_ops tp)]"

text \<open>The emitters that send to a channel.\<close>

definition feeders :: "Topo \<Rightarrow> chan \<Rightarrow> emitter list" where
  "feeders tp c = filter (\<lambda>e. c \<in> snd ` set (emitter_outputs e tp)) (emitters tp)"

definition op_count :: "nat \<Rightarrow> Topo \<Rightarrow> int" where
  "op_count k tp = dn_inputCount (to_node (tp_ops tp ! k))"

definition op_label :: "nat \<Rightarrow> Topo \<Rightarrow> string" where
  "op_label k tp = emitter_name (EOp k) tp"

definition later :: "emitter \<Rightarrow> nat \<Rightarrow> bool" where
  "later e k = (case e of ESrc _ \<Rightarrow> True | EOp i \<Rightarrow> i < k)"

text \<open>
  The invariant of a topology under construction, with the emitters \<open>pend\<close> that have no output yet and a bound of the numbers in the names: operators have different names, every other
  emitter has one output, to an operator added after it, and each operator knows the number of its inputs, which have different names.
\<close>

definition wired :: "Topo \<Rightarrow> emitter list \<Rightarrow> nat \<Rightarrow> bool" where
  "wired tp pend idx \<longleftrightarrow>
     (\<forall>i < length (tp_ops tp). \<exists>n kind. n \<le> idx \<and> op_label i tp = op_name n kind) \<and>
     inj_on (\<lambda>i. op_label i tp) {..<length (tp_ops tp)} \<and>
     distinct pend \<and> set pend \<subseteq> set (emitters tp) \<and> (\<forall>e \<in> set pend. emitter_outputs e tp = []) \<and>
     (\<forall>e \<in> set (emitters tp) - set pend. \<exists>k < length (tp_ops tp). later e k \<and> emitter_outputs e tp = [(op_label k tp, COp k)]) \<and>
     (\<forall>k < length (tp_ops tp). op_count k tp = int (length (feeders tp (COp k))) \<and>
        distinct (map (\<lambda>e. emitter_name e tp) (feeders tp (COp k))))"

lemma op_name_inj: "op_name i a = op_name j b \<longleftrightarrow> i = j \<and> a = b"
  using numbered_prefix_inj [of "CHR ''_''" "CHR ''_''" i a j b] by (simp add: op_name_def is_digit_def char_code_def)

lemma distinct_emitters: "distinct (emitters tp)"
  by (auto simp: emitters_def distinct_map inj_on_def)

lemma in_emitters: "ESrc i \<in> set (emitters tp) \<longleftrightarrow> i < length (tp_sources tp)" "EOp i \<in> set (emitters tp) \<longleftrightarrow> i < length (tp_ops tp)"
  by (auto simp: emitters_def)

subsection \<open>Connecting\<close>

lemma edge_same [simp]:
  "tp_sources (addEdge e a b tp) = tp_sources tp" "tp_ops (addEdge e a b tp) = tp_ops tp" "tp_sinks (addEdge e a b tp) = tp_sinks tp"
  by (simp_all add: addEdge_def Let_def)

lemma edge_views [simp]:
  "emitters (addEdge e a b tp) = emitters tp" "emitter_name x (addEdge e a b tp) = emitter_name x tp"
  "emitter_outputs x (addEdge e a b tp) = emitter_outputs x tp" "op_count k (addEdge e a b tp) = op_count k tp"
  by (simp_all add: emitters_def emitter_name_def emitter_outputs_def op_count_def split: emitter.splits)

lemma AddOutput_node [simp]:
  "dn_name (or_same n (AddOutput ch nm n)) = dn_name n"
  "dn_outputs (or_same n (AddOutput ch nm n)) = (if nm \<in> fst ` set (dn_outputs n) then dn_outputs n else dn_outputs n @ [(nm, ch)])"
  by (auto simp: AddOutput_def or_same_def update_fresh map_of_eq_None_iff split: option.splits)
    (metis image_eqI fst_conv map_of_SomeD)

lemma AddOutput_count [simp]: "dn_inputCount (or_same n (AddOutput ch nm n)) = dn_inputCount n"
  by (auto simp: AddOutput_def or_same_def split: option.splits)

lemma nth_update_view: "f y = f (xs ! i) \<Longrightarrow> f (xs[i := y] ! j) = f (xs ! j)"
  by (cases "i < length xs"; cases "i = j") (auto simp: nth_list_update not_less list_update_beyond)

lemma connect_views [simp]:
  "emitters (connect e ch nm tp) = emitters tp" "tp_sinks (connect e ch nm tp) = tp_sinks tp"
  "emitter_name x (connect e ch nm tp) = emitter_name x tp" "op_count k (connect e ch nm tp) = op_count k tp"
proof -
  show "emitters (connect e ch nm tp) = emitters tp" "tp_sinks (connect e ch nm tp) = tp_sinks tp"
    by (cases e; simp add: connect_def emitters_def Let_def)+
  show "emitter_name x (connect e ch nm tp) = emitter_name x tp"
    by (cases e; cases x) (simp_all add: connect_def emitter_name_def Let_def nth_update_view [where f = dn_name]
      nth_update_view [where f = "\<lambda>y. dn_name (to_node y)"])
  show "op_count k (connect e ch nm tp) = op_count k tp"
    by (cases e) (simp_all add: connect_def op_count_def Let_def nth_update_view [where f = "\<lambda>y. dn_inputCount (to_node y)"])
qed

lemma connect_outputs:
  assumes "e \<in> set (emitters tp)"
  shows "emitter_outputs x (connect e ch nm tp) =
     (if x = e \<and> nm \<notin> fst ` set (emitter_outputs e tp) then emitter_outputs e tp @ [(nm, ch)] else emitter_outputs x tp)"
  by (insert assms, cases e; cases x) (auto simp: connect_def emitter_outputs_def in_emitters nth_list_update Let_def)

text \<open>Wiring a node to inputs that have no output yet.\<close>

lemma wire_views:
  assumes "wire es ch ty n tp = (n1, tp1)"
  shows "emitters tp1 = emitters tp" "tp_sinks tp1 = tp_sinks tp" "emitter_name x tp1 = emitter_name x tp" "op_count k tp1 = op_count k tp"
    "n1 = n\<lparr>dn_inputCount := dn_inputCount n + int (length es)\<rparr>"
  using assms
  by (induction es ch ty n tp rule: wire.induct) (auto simp: AddInputCount_def)

lemma wire_outputs:
  "wire es ch ty n tp = (n1, tp1) \<Longrightarrow> distinct es \<Longrightarrow> set es \<subseteq> set (emitters tp) \<Longrightarrow> \<forall>e \<in> set es. emitter_outputs e tp = [] \<Longrightarrow>
   emitter_outputs x tp1 = (if x \<in> set es then [(dn_name n, ch)] else emitter_outputs x tp)"
proof (induction es arbitrary: n tp)
  case (Cons e es)
  let ?tp = "addEdge e (dn_name n) ty (connect e ch (dn_name n) tp)"
  have out: "emitter_outputs y ?tp = (if y = e then [(dn_name n, ch)] else emitter_outputs y tp)" for y
    using Cons.prems(3,4) by (simp add: connect_outputs)
  have "emitter_outputs x tp1 = (if x \<in> set es then [(dn_name (AddInputCount n), ch)] else emitter_outputs x ?tp)"
    by (rule Cons.IH) (use Cons.prems out in auto)
  then show ?case
    using out by (simp add: AddInputCount_def)
qed simp

lemma length_of_emitters:
  "emitters a = emitters b \<Longrightarrow> length (tp_ops a) = length (tp_ops b)"
proof -
  assume "emitters a = emitters b"
  then have "filter (\<lambda>e. case e of EOp _ \<Rightarrow> True | _ \<Rightarrow> False) (emitters a) = filter (\<lambda>e. case e of EOp _ \<Rightarrow> True | _ \<Rightarrow> False) (emitters b)"
    by simp
  then show "length (tp_ops a) = length (tp_ops b)"
    by (simp add: emitters_def filter_map comp_def) (metis length_map length_upt minus_nat.diff_0)
qed

subsection \<open>Adding nodes\<close>

lemma add_op_views:
  assumes "tp2 = tp\<lparr>tp_ops := tp_ops tp @ [x]\<rparr>" "m = length (tp_ops tp)"
  shows "emitters tp2 = emitters tp @ [EOp m]" "length (tp_ops tp2) = Suc m"
    "e \<in> set (emitters tp) \<Longrightarrow> emitter_name e tp2 = emitter_name e tp" "e \<in> set (emitters tp) \<Longrightarrow> emitter_outputs e tp2 = emitter_outputs e tp"
    "emitter_name (EOp m) tp2 = dn_name (to_node x)" "emitter_outputs (EOp m) tp2 = dn_outputs (to_node x)"
    "k < m \<Longrightarrow> op_count k tp2 = op_count k tp" "op_count m tp2 = dn_inputCount (to_node x)"
  using assms
  by (auto simp: emitters_def emitter_name_def emitter_outputs_def op_count_def nth_append split: emitter.splits)

text \<open>What adding an operator changes, as far as the invariant sees it.\<close>

lemma AddOperator_views:
  assumes "wired tp (pend @ ins) idx" "tp2 = AddOperator ins op tp" "m = length (tp_ops tp)" "dn_outputs (to_node op) = []" "dn_inputCount (to_node op) = 0"
  shows "emitters tp2 = emitters tp @ [EOp m]" "length (tp_ops tp2) = Suc m" "tp_sinks tp2 = tp_sinks tp"
    "e \<in> set (emitters tp) \<Longrightarrow> emitter_name e tp2 = emitter_name e tp" "op_label m tp2 = dn_name (to_node op)"
    "e \<in> set (emitters tp) \<Longrightarrow> emitter_outputs e tp2 = (if e \<in> set ins then [(dn_name (to_node op), COp m)] else emitter_outputs e tp)"
    "emitter_outputs (EOp m) tp2 = []" "k < m \<Longrightarrow> op_count k tp2 = op_count k tp" "op_count m tp2 = int (length ins)"
proof -
  obtain n tp1 where w: "wire ins (COp m) ''op'' (to_node op) tp = (n, tp1)"
    by fastforce
  have tp2: "tp2 = tp1\<lparr>tp_ops := tp_ops tp1 @ [op\<lparr>to_node := n\<rparr>]\<rparr>"
    using assms(2,3) w by (simp add: AddOperator_def)
  have ins: "distinct ins" "set ins \<subseteq> set (emitters tp)" "\<forall>e \<in> set ins. emitter_outputs e tp = []"
    using assms(1) by (auto simp: wired_def)
  note v = wire_views [OF w]
  have m: "m = length (tp_ops tp1)"
    using length_of_emitters [OF v(1)] assms(3) by simp
  note a = add_op_views [OF tp2 m]
  show "emitters tp2 = emitters tp @ [EOp m]" "length (tp_ops tp2) = Suc m" "tp_sinks tp2 = tp_sinks tp"
    using a(1,2) v(1,2) by (simp_all add: tp2)
  show "e \<in> set (emitters tp) \<Longrightarrow> emitter_name e tp2 = emitter_name e tp" "k < m \<Longrightarrow> op_count k tp2 = op_count k tp"
    using a(3,7) v(1,3,4) by simp_all
  show "e \<in> set (emitters tp) \<Longrightarrow> emitter_outputs e tp2 = (if e \<in> set ins then [(dn_name (to_node op), COp m)] else emitter_outputs e tp)"
    using a(4) v(1) wire_outputs [OF w ins] by simp
  show "op_label m tp2 = dn_name (to_node op)" "emitter_outputs (EOp m) tp2 = []" "op_count m tp2 = int (length ins)"
    using a(5,6,8) v(5) assms(4,5) by (simp_all add: op_label_def)
qed

text \<open>The parts of the invariant.\<close>

lemma wiredD:
  assumes "wired tp pend idx"
  shows "i < length (tp_ops tp) \<Longrightarrow> \<exists>n kind. n \<le> idx \<and> op_label i tp = op_name n kind"
    "inj_on (\<lambda>i. op_label i tp) {..<length (tp_ops tp)}" "distinct pend" "set pend \<subseteq> set (emitters tp)"
    "e \<in> set pend \<Longrightarrow> emitter_outputs e tp = []"
    "e \<in> set (emitters tp) \<Longrightarrow> e \<notin> set pend \<Longrightarrow> \<exists>k < length (tp_ops tp). later e k \<and> emitter_outputs e tp = [(op_label k tp, COp k)]"
    "k < length (tp_ops tp) \<Longrightarrow> op_count k tp = int (length (feeders tp (COp k)))"
    "k < length (tp_ops tp) \<Longrightarrow> distinct (map (\<lambda>e. emitter_name e tp) (feeders tp (COp k)))"
  using assms unfolding wired_def by auto

lemma feeders_AddOperator:
  assumes "wired tp (pend @ ins) idx" "tp2 = AddOperator ins op tp" "m = length (tp_ops tp)" "dn_outputs (to_node op) = []" "dn_inputCount (to_node op) = 0"
  shows "k < m \<Longrightarrow> feeders tp2 (COp k) = feeders tp (COp k)" "feeders tp2 (COp m) = filter (\<lambda>e. e \<in> set ins) (emitters tp)"
proof -
  note v = AddOperator_views [OF assms] and w = wiredD [OF assms(1)]
  have "COp k \<in> snd ` set (emitter_outputs e tp2) \<longleftrightarrow> COp k \<in> snd ` set (emitter_outputs e tp)" if "e \<in> set (emitters tp)" "k < m" for e k
    using v(6) [OF that(1)] w(5) [of e] that(2) by (cases "e \<in> set ins") auto
  then show "k < m \<Longrightarrow> feeders tp2 (COp k) = feeders tp (COp k)"
    unfolding feeders_def v(1) using v(7) by (simp cong: filter_cong)
  have "COp m \<in> snd ` set (emitter_outputs e tp2) \<longleftrightarrow> e \<in> set ins" if e: "e \<in> set (emitters tp)" for e
    using v(6) [OF e] w(5) [of e] w(6) [OF e] assms(3) by (cases "e \<in> set (pend @ ins)") auto
  then show "feeders tp2 (COp m) = filter (\<lambda>e. e \<in> set ins) (emitters tp)"
    unfolding feeders_def v(1) using v(7) by (simp cong: filter_cong)
qed

lemma length_filter_emitters:
  assumes "distinct ins" "set ins \<subseteq> set (emitters tp)"
  shows "length (filter (\<lambda>e. e \<in> set ins) (emitters tp)) = length ins"
proof -
  have "set (filter (\<lambda>e. e \<in> set ins) (emitters tp)) = set ins"
    using assms(2) by auto
  then show ?thesis
    using assms(1) distinct_emitters [of tp] by (metis distinct_card distinct_filter)
qed

text \<open>The inputs of every operator after one has been added.\<close>

lemma inputs_AddOperator:
  assumes "wired tp (pend @ ins) idx" "tp2 = AddOperator ins op tp" "m = length (tp_ops tp)" "dn_outputs (to_node op) = []" "dn_inputCount (to_node op) = 0"
    and "distinct (map (\<lambda>e. emitter_name e tp) ins)" "k < Suc m"
  shows "op_count k tp2 = int (length (feeders tp2 (COp k)))" "distinct (map (\<lambda>e. emitter_name e tp2) (feeders tp2 (COp k)))"
proof -
  note v = AddOperator_views [OF assms(1-5)] and w = wiredD [OF assms(1)] and f = feeders_AddOperator [OF assms(1-5)]
  have ins: "distinct ins" "set ins \<subseteq> set (emitters tp)"
    using w(3,4) by auto
  show "op_count k tp2 = int (length (feeders tp2 (COp k)))"
  proof (cases "k = m")
    case True
    then show ?thesis
      using v(9) length_filter_emitters [OF ins] unfolding True f(2) by simp
  next
    case False
    then show ?thesis
      using assms(3,7) w(7) [of k] f(1) [of k] v(8) [of k] by simp
  qed
  have sub: "set (feeders tp2 (COp k)) \<subseteq> set (emitters tp)"
    using assms(7) f(1) [of k] f(2) by (cases "k = m") (auto simp: feeders_def)
  then have names: "map (\<lambda>e. emitter_name e tp2) (feeders tp2 (COp k)) = map (\<lambda>e. emitter_name e tp) (feeders tp2 (COp k))"
    using v(4) by (auto intro!: map_cong)
  have "distinct (map (\<lambda>e. emitter_name e tp) (filter (\<lambda>e. e \<in> set ins) (emitters tp)))"
    using assms(6) distinct_emitters [of tp] by (auto simp: distinct_map inj_on_def)
  then show "distinct (map (\<lambda>e. emitter_name e tp2) (feeders tp2 (COp k)))"
    unfolding names using assms(3,7) w(8) [of k] f(1) [of k] f(2) by (cases "k = m") simp_all
qed

lemma outputs_AddOperator:
  assumes "wired tp (pend @ ins) idx" "tp2 = AddOperator ins op tp" "m = length (tp_ops tp)" "dn_outputs (to_node op) = []" "dn_inputCount (to_node op) = 0"
    and "e \<in> set (emitters tp)" "e \<notin> set pend"
  shows "\<exists>k < Suc m. later e k \<and> emitter_outputs e tp2 = [(op_label k tp2, COp k)]"
proof (cases "e \<in> set ins")
  case True
  have "later e m"
    by (insert assms(3,6), cases e) (auto simp: later_def in_emitters)
  with True show ?thesis
    using AddOperator_views(5,6) [OF assms(1-5)] assms(6) by auto
next
  case False
  with assms(3,6,7) wiredD(6) [OF assms(1), of e] obtain k where k: "k < m" "later e k" "emitter_outputs e tp = [(op_label k tp, COp k)]"
    by auto
  moreover have "op_label k tp2 = op_label k tp"
    using AddOperator_views(4) [OF assms(1-5), of "EOp k"] k(1) assms(3) by (simp add: op_label_def in_emitters)
  ultimately show ?thesis
    using False AddOperator_views(6) [OF assms(1-6)] by (intro exI [of _ k]) auto
qed

lemma wired_AddOperator:
  assumes "wired tp (pend @ ins) idx" "idx \<le> idx1" "dn_name (to_node op) = op_name n kind" "n \<le> idx1"
    and "dn_name (to_node op) \<notin> (\<lambda>i. op_label i tp) ` {..<length (tp_ops tp)}" "distinct (map (\<lambda>e. emitter_name e tp) ins)"
    and "dn_outputs (to_node op) = []" "dn_inputCount (to_node op) = 0"
  shows "wired (AddOperator ins op tp) (pend @ [EOp (length (tp_ops tp))]) idx1"
proof -
  define tp2 where "tp2 = AddOperator ins op tp"
  define m where "m = length (tp_ops tp)"
  note a = assms(1) tp2_def m_def assms(7,8)
  note v = AddOperator_views [OF a] and w = wiredD [OF assms(1)]
  have label: "op_label i tp2 = op_label i tp" if "i < m" for i
    using v(4) [of "EOp i"] that by (simp add: op_label_def in_emitters m_def)
  have "wired tp2 (pend @ [EOp m]) idx1"
    unfolding wired_def v(2)
  proof (intro conjI allI impI ballI)
    fix i assume "i < Suc m"
    then show "\<exists>n kind. n \<le> idx1 \<and> op_label i tp2 = op_name n kind"
      using w(1) [of i] label [of i] v(5) assms(2-4) by (cases "i = m") (auto simp: m_def intro: order_trans)
  next
    have "op_label m tp2 \<notin> (\<lambda>i. op_label i tp) ` {..<m}" "inj_on (\<lambda>i. op_label i tp2) {..<m}"
      using assms(5) v(5) w(2) label by (simp_all add: m_def inj_on_def)
    then show "inj_on (\<lambda>i. op_label i tp2) {..<Suc m}"
      using label by (auto simp: lessThan_Suc)
  next
    show "distinct (pend @ [EOp m])" "set (pend @ [EOp m]) \<subseteq> set (emitters tp2)"
      using w(3,4) in_emitters(2) [of m tp] by (auto simp: v(1) m_def)
  next
    fix e assume "e \<in> set (pend @ [EOp m])"
    moreover have "e \<notin> set ins \<and> e \<in> set (emitters tp)" if "e \<in> set pend"
      using that w(3,4) by auto
    ultimately show "emitter_outputs e tp2 = []"
      using v(6) [of e] v(7) w(5) [of e] by auto
  next
    fix e assume "e \<in> set (emitters tp2) - set (pend @ [EOp m])"
    then show "\<exists>k < Suc m. later e k \<and> emitter_outputs e tp2 = [(op_label k tp2, COp k)]"
      using outputs_AddOperator [OF a, of e] by (auto simp: v(1))
  next
    fix k assume "k < Suc m"
    then show "op_count k tp2 = int (length (feeders tp2 (COp k)))" "distinct (map (\<lambda>e. emitter_name e tp2) (feeders tp2 (COp k)))"
      using inputs_AddOperator [OF a assms(6), of k] by auto
  qed
  then show ?thesis
    by (simp add: tp2_def m_def)
qed

lemma wired_AddSrc:
  assumes "wired tp pend idx" "dn_outputs src = []"
  shows "wired (AddSrc src tp) (pend @ [ESrc (length (tp_sources tp))]) idx"
    "tp_ops (AddSrc src tp) = tp_ops tp"
proof -
  define tp2 where "tp2 = AddSrc src tp"
  define s where "s = length (tp_sources tp)"
  note w = wiredD [OF assms(1)]
  have e: "emitters tp2 = map ESrc [0..<s] @ [ESrc s] @ map EOp [0..<length (tp_ops tp)]" "tp_ops tp2 = tp_ops tp"
    by (simp_all add: tp2_def s_def AddSrc_def emitters_def)
  have set_e: "set (emitters tp2) = insert (ESrc s) (set (emitters tp))" "ESrc s \<notin> set (emitters tp)"
    by (auto simp: tp2_def AddSrc_def emitters_def s_def less_Suc_eq)
  have same: "emitter_outputs x tp2 = emitter_outputs x tp" "emitter_name x tp2 = emitter_name x tp" if "x \<in> set (emitters tp)" for x
    using that by (auto simp: tp2_def AddSrc_def emitter_outputs_def emitter_name_def emitters_def nth_append)
  have views: "op_label i tp2 = op_label i tp" "op_count i tp2 = op_count i tp" for i
    by (simp_all add: op_label_def op_count_def emitter_name_def e(2))
  have new: "emitter_outputs (ESrc s) tp2 = []"
    using assms(2) by (simp add: tp2_def s_def AddSrc_def emitter_outputs_def)
  have f: "feeders tp2 c = feeders tp c" for c
    unfolding feeders_def e(1) emitters_def [of tp] using same(1) new
    by (auto simp: emitters_def s_def intro!: arg_cong2 [where f = append] filter_cong)
  have names: "distinct (map (\<lambda>x. emitter_name x tp2) (feeders tp (COp k)))" if "k < length (tp_ops tp)" for k
  proof -
    have "map (\<lambda>x. emitter_name x tp2) (feeders tp (COp k)) = map (\<lambda>x. emitter_name x tp) (feeders tp (COp k))"
      using same by (auto simp: feeders_def intro!: map_cong)
    with w(8) [OF that] show ?thesis by (simp only:)
  qed
  show "wired (AddSrc src tp) (pend @ [ESrc (length (tp_sources tp))]) idx"
    using w set_e same new unfolding tp2_def [symmetric] s_def [symmetric] wired_def
    by (auto simp: e(2) views f names)
  show "tp_ops (AddSrc src tp) = tp_ops tp"
    using e(2) by (simp add: tp2_def)
qed

subsection \<open>Building\<close>

definition labels :: "Topo \<Rightarrow> string set" where
  "labels tp = (\<lambda>i. op_label i tp) ` {..<length (tp_ops tp)}"

lemma fresh_label: "wired tp pend idx \<Longrightarrow> idx < n \<Longrightarrow> op_name n kind \<notin> labels tp"
  using wiredD(1) by (fastforce simp: labels_def op_name_inj)

lemma distinct_op_names:
  assumes "wired tp (pend @ ins) idx" "set ins \<subseteq> range EOp"
  shows "distinct (map (\<lambda>e. emitter_name e tp) ins)"
proof -
  note w = wiredD [OF assms(1)]
  have "inj_on (\<lambda>e. emitter_name e tp) (set ins)"
  proof (rule inj_onI)
    fix x y assume xy: "x \<in> set ins" "y \<in> set ins" "emitter_name x tp = emitter_name y tp"
    obtain i j where ij: "x = EOp i" "y = EOp j"
      using xy(1,2) assms(2) by blast
    then have "i < length (tp_ops tp)" "j < length (tp_ops tp)"
      using xy(1,2) w(4) in_emitters(2) by auto
    then show "x = y"
      using w(2) xy(3) ij by (auto simp: inj_on_def op_label_def)
  qed
  then show ?thesis
    using w(3) by (simp add: distinct_map)
qed

lemma labels_AddOperator:
  assumes "wired tp (pend @ ins) idx" "dn_outputs (to_node op) = []" "dn_inputCount (to_node op) = 0"
  shows "labels (AddOperator ins op tp) = insert (dn_name (to_node op)) (labels tp)" "tp_sinks (AddOperator ins op tp) = tp_sinks tp"
    "length (tp_ops (AddOperator ins op tp)) = Suc (length (tp_ops tp))"
proof -
  note v = AddOperator_views [OF assms(1) refl refl assms(2,3)]
  have "op_label i (AddOperator ins op tp) = op_label i tp" if "i < length (tp_ops tp)" for i
    using v(4) [of "EOp i"] that by (simp add: op_label_def in_emitters)
  then show "labels (AddOperator ins op tp) = insert (dn_name (to_node op)) (labels tp)"
    using v(2,5) by (auto simp: labels_def lessThan_Suc)
  show "tp_sinks (AddOperator ins op tp) = tp_sinks tp" "length (tp_ops (AddOperator ins op tp)) = Suc (length (tp_ops tp))"
    by (rule v(3), rule v(2))
qed

lemma wired_add_unary:
  assumes "add_unary k (op_name n kind) options ins tp = (e, tp2)" "wired tp (pend @ ins) idx" "idx \<le> n"
    and "op_name n kind \<notin> labels tp" "distinct (map (\<lambda>e. emitter_name e tp) ins)"
  shows "wired tp2 (pend @ [e]) n" "e = EOp (length (tp_ops tp))" "labels tp2 = insert (op_name n kind) (labels tp)" "tp_sinks tp2 = tp_sinks tp"
    "length (tp_ops tp2) = Suc (length (tp_ops tp))"
proof -
  let ?op = "let op = Transform k (op_name n kind) options (next_chan tp) in op\<lparr>to_node := SetConcurrency (Concurrency options) (to_node op)\<rparr>"
  have op: "dn_name (to_node ?op) = op_name n kind" "dn_outputs (to_node ?op) = []" "dn_inputCount (to_node ?op) = 0"
    by (simp_all add: Transform_def SetConcurrency_def New_def Let_def)
  have e: "e = EOp (length (tp_ops tp))" "tp2 = AddOperator ins ?op tp"
    using assms(1) by (auto simp: add_unary_def Let_def)
  show "wired tp2 (pend @ [e]) n"
    using wired_AddOperator [OF assms(2,3) op(1) order_refl _ assms(5) op(2,3)] assms(4) op(1) unfolding e by (simp add: labels_def)
  show "e = EOp (length (tp_ops tp))" "labels tp2 = insert (op_name n kind) (labels tp)" "tp_sinks tp2 = tp_sinks tp"
    "length (tp_ops tp2) = Suc (length (tp_ops tp))"
    using labels_AddOperator [OF assms(2) op(2,3)] op(1) unfolding e by simp_all
qed

lemma wired_add_bare:
  assumes "wired tp (pend @ ins) idx" "idx \<le> n" "op_name n kind \<notin> labels tp" "set ins \<subseteq> range EOp"
    and "tp2 = AddOperator ins \<lparr>to_node = bare_node (op_name n kind) options ch, to_kind = k\<rparr> tp"
  shows "wired tp2 (pend @ [EOp (length (tp_ops tp))]) n" "tp_sinks tp2 = tp_sinks tp" "length (tp_ops tp2) = Suc (length (tp_ops tp))"
proof -
  let ?op = "\<lparr>to_node = bare_node (op_name n kind) options ch, to_kind = k\<rparr>"
  have op: "dn_name (to_node ?op) = op_name n kind" "dn_outputs (to_node ?op) = []" "dn_inputCount (to_node ?op) = 0"
    by (simp_all add: bare_node_def New_def)
  show "wired tp2 (pend @ [EOp (length (tp_ops tp))]) n"
    using wired_AddOperator [OF assms(1,2) op(1) order_refl _ distinct_op_names [OF assms(1,4)] op(2,3)] assms(3) op(1)
    unfolding assms(5) by (simp add: labels_def)
  show "tp_sinks tp2 = tp_sinks tp" "length (tp_ops tp2) = Suc (length (tp_ops tp))"
    using labels_AddOperator(2,3) [OF assms(1) op(2,3)] unfolding assms(5) by simp_all
qed

text \<open>A node with all its inputs has been built: it is the last operator, and it has no output yet.\<close>

definition built :: "Topo \<Rightarrow> Topo \<Rightarrow> emitter \<Rightarrow> emitter list \<Rightarrow> nat \<Rightarrow> bool" where
  "built tp tp2 e pend n \<longleftrightarrow> wired tp2 (pend @ [e]) n \<and> e = EOp (length (tp_ops tp2) - 1) \<and> tp_sinks tp2 = tp_sinks tp"

lemma built_add_unary:
  assumes "add_unary k (op_name n kind) options ins tp = (e, tp2)" "wired tp (pend @ ins) idx" "idx \<le> n" "op_name n kind \<notin> labels tp"
    "set ins \<subseteq> range EOp"
  shows "built tp tp2 e pend n"
  using wired_add_unary [OF assms(1-4) distinct_op_names [OF assms(2,5)]] by (simp add: built_def)

lemma built_source:
  assumes "build_source options n t tp = (e, tp2)" "wired tp pend idx" "idx < n"
  shows "built tp tp2 e pend n"
proof -
  let ?src = "NewSourceNode (ds_name t) (ss_StreamType (ds_streamStmt t)) (ss_Options (ds_streamStmt t)) :: chan SourceNode"
  let ?tp1 = "AddSrc ?src tp"
  let ?ins = "[ESrc (length (tp_sources tp))]"
  have w: "wired ?tp1 (pend @ ?ins) idx" "tp_sinks ?tp1 = tp_sinks tp"
    using wired_AddSrc(1) [OF assms(2), of ?src] by (simp_all add: NewSourceNode_def AddSrc_def)
  obtain k kind where "add_unary k (op_name n kind) options ?ins ?tp1 = (e, tp2)"
    using assms(1) by (auto simp: build_source_def Let_def split: StreamType.splits)
  from wired_add_unary [OF this w(1) _ fresh_label [OF w(1) assms(3)]] assms(3) w(2) show ?thesis
    by (simp add: built_def)
qed

lemma built_window:
  assumes "build_window options streams n t ins tp = Inr (e, tp2)" "wired tp (pend @ ins) idx" "idx < n" "set ins \<subseteq> range EOp"
  shows "built tp tp2 e pend n"
proof -
  obtain ins1 tp1 where f: "window_inputs options n t ins tp = (ins1, tp1)"
    by fastforce
  have "\<exists>i \<le> n. wired tp1 (pend @ ins1) i \<and> op_name n ''window'' \<notin> labels tp1 \<and> set ins1 \<subseteq> range EOp \<and> tp_sinks tp1 = tp_sinks tp"
  proof (cases "wp_condition t")
    case None
    then show ?thesis
      using f assms(2-4) fresh_label [OF assms(2,3)] by (auto simp: window_inputs_def intro!: exI [of _ idx])
  next
    case (Some c)
    obtain e1 where e1: "add_unary (KFilter (Some c)) (op_name n ''windowFilter'') options ins tp = (e1, tp1)" "ins1 = [e1]"
      using f Some by (auto simp: window_inputs_def split: prod.splits)
    note u = wired_add_unary [OF e1(1) assms(2) _ fresh_label [OF assms(2,3)] distinct_op_names [OF assms(2,4)]]
    have "op_name n ''window'' \<noteq> op_name n ''windowFilter''"
      by (simp add: op_name_inj)
    then show ?thesis
      using u e1(2) assms(3) fresh_label [OF assms(2,3), of "''window''"] by auto
  qed
  then obtain i where i: "i \<le> n" "wired tp1 (pend @ ins1) i" "op_name n ''window'' \<notin> labels tp1" "set ins1 \<subseteq> range EOp" "tp_sinks tp1 = tp_sinks tp"
    by blast
  obtain w g where "add_window options n w g ins1 tp1 = (e, tp2)"
    using assms(1) by (auto simp: build_window_def f Let_def split: if_splits sum.splits)
  then have e: "e = EOp (length (tp_ops tp1))"
      and t: "tp2 = AddOperator ins1 \<lparr>to_node = bare_node (op_name n ''window'') options (next_chan tp1), to_kind = KWindow w g\<rparr> tp1"
    by (simp_all add: add_window_def)
  show ?thesis
    using wired_add_bare [OF i(2,1,3,4) t] e i(5) by (simp add: built_def)
qed

lemma built_node:
  assumes "build_node options streams lp ins n tp = Inr (e, tp2)" "wired tp (pend @ ins) idx" "idx < n" "set ins \<subseteq> range EOp"
    "Children lp = [] \<Longrightarrow> ins = []"
  shows "built tp tp2 e pend n"
proof -
  have fresh: "idx \<le> n" "\<And>kind. op_name n kind \<notin> labels tp"
    using assms(3) fresh_label [OF assms(2,3)] by simp_all
  show ?thesis
  proof (cases "\<exists>k kind. add_unary k (op_name n kind) options ins tp = (e, tp2)")
    case True
    then show ?thesis
      using built_add_unary [OF _ assms(2) fresh assms(4)] by blast
  next
    case False
    then consider d where "lp = DataSource d" | w cs where "lp = WindowP w cs" | es cs where "lp = JoinAlign es cs"
      using assms(1) by (cases lp) (auto simp: build_node_def)
    then show ?thesis
    proof cases
      case 1
      then show ?thesis
        using assms built_source [of options n d tp e tp2 pend idx] by (simp add: build_node_def)
    next
      case 2
      then show ?thesis
        using assms(1) built_window [OF _ assms(2-4), of options streams w e tp2] by (simp add: build_node_def)
    next
      case 3
      then have e: "e = EOp (length (tp_ops tp))"
        and t: "tp2 = AddOperator ins \<lparr>to_node = bare_node (op_name n ''join_aligner'') options (next_chan tp), to_kind = KJoinAlign (emitter_map es)\<rparr> tp"
        using assms(1) by (simp_all add: build_node_def)
      show ?thesis
        using wired_add_bare [OF assms(2) fresh assms(4) t] e by (simp add: built_def)
    qed
  qed
qed

lemma built_ops:
  "wired tp pend idx \<Longrightarrow> buildOps options streams lp tp idx = Inr (e, j, tp2) \<Longrightarrow> built tp tp2 e pend j"
  "wired tp pend idx \<Longrightarrow> build_inputs options streams lps tp idx = Inr (es, j, tp2) \<Longrightarrow>
     wired tp2 (pend @ es) j \<and> set es \<subseteq> range EOp \<and> tp_sinks tp2 = tp_sinks tp \<and> (lps = [] \<longrightarrow> es = [])"
proof (induction options streams lp tp idx and options streams lps tp idx arbitrary: pend e j tp2 and pend es j tp2 rule: buildOps_build_inputs.induct)
  case (1 options streams lp tp index)
  then obtain inputs i tp1 where i: "build_inputs options streams (Children lp) tp index = Inr (inputs, i, tp1)" "j = Suc i"
      "build_node options streams lp inputs (Suc i) tp1 = Inr (e, tp2)"
    by (auto simp: buildOps.simps [of options streams lp] split: sum.splits prod.splits)
  from 1(1) [OF 1(2) i(1)] have w: "wired tp1 (pend @ inputs) i" "set inputs \<subseteq> range EOp" "tp_sinks tp1 = tp_sinks tp" "Children lp = [] \<longrightarrow> inputs = []"
    by simp_all
  from built_node [OF i(3) w(1) _ w(2)] w(4) have "built tp1 tp2 e pend (Suc i)"
    by simp
  with w(3) i(2) show ?case
    by (auto simp: built_def)
next
  case (3 options streams c cs tp index)
  then obtain e1 i tp1 es1 where i: "buildOps options streams c tp index = Inr (e1, i, tp1)" "build_inputs options streams cs tp1 i = Inr (es1, j, tp2)"
      "es = e1 # es1"
    by (auto split: sum.splits prod.splits)
  have "built tp tp1 e1 pend i"
    using 3(1) [OF 3(3) i(1)] .
  moreover from this have "wired tp1 (pend @ [e1]) i"
    by (auto simp: built_def)
  ultimately show ?case
    using 3(2) [OF i(1) refl refl \<open>wired tp1 (pend @ [e1]) i\<close> i(2)] i(3) by (auto simp: built_def)
qed simp_all

subsection \<open>Sinks\<close>

text \<open>Adding sinks to the emitter \<open>e\<close> of the topology \<open>tp0\<close> changes only its outputs: one for each sink.\<close>

definition sinks_ok :: "Topo \<Rightarrow> emitter \<Rightarrow> Topo \<Rightarrow> bool" where
  "sinks_ok tp0 e tp \<longleftrightarrow> emitters tp = emitters tp0 \<and> (\<forall>x. emitter_name x tp = emitter_name x tp0) \<and>
     (\<forall>k. op_count k tp = op_count k tp0) \<and> (\<forall>x. x \<noteq> e \<longrightarrow> emitter_outputs x tp = emitter_outputs x tp0) \<and>
     emitter_outputs e tp = map (\<lambda>j. (dn_name (sk_node (tp_sinks tp ! j)), CSink j)) [0..<length (tp_sinks tp)] \<and>
     (\<forall>s \<in> set (tp_sinks tp). dn_inputCount (sk_node s) = 1)"

definition sink_names :: "Topo \<Rightarrow> string set" where
  "sink_names tp = (\<lambda>s. dn_name (sk_node s)) ` set (tp_sinks tp)"

lemma sink_name_inj: "sink_name a i = sink_name b j \<longleftrightarrow> a = b \<and> i = j"
  using numbered_suffix_inj [of "CHR ''_''" a i b j] by (simp add: sink_name_def is_digit_def char_code_def)

lemma sink_views:
  assumes "tp2 = tp\<lparr>tp_sinks := ss\<rparr>"
  shows "emitters tp2 = emitters tp" "emitter_name x tp2 = emitter_name x tp" "op_count k tp2 = op_count k tp" "emitter_outputs x tp2 = emitter_outputs x tp"
  by (simp_all add: assms emitters_def emitter_name_def op_count_def emitter_outputs_def split: emitter.split)

lemma AddSink_ok:
  assumes "sinks_ok tp0 e tp" "e \<in> set (emitters tp0)" "dn_name (sk_node snk) \<notin> sink_names tp" "dn_inputCount (sk_node snk) = 0"
  shows "sinks_ok tp0 e (AddSink [e] snk tp)" "sink_names (AddSink [e] snk tp) = insert (dn_name (sk_node snk)) (sink_names tp)"
proof -
  let ?j = "length (tp_sinks tp)"
  let ?n = "dn_name (sk_node snk)"
  define tp1 where "tp1 = addEdge e ?n ''sink'' (connect e (CSink ?j) ?n tp)"
  have tp2: "AddSink [e] snk tp = tp1\<lparr>tp_sinks := tp_sinks tp @ [snk\<lparr>sk_node := AddInputCount (sk_node snk)\<rparr>]\<rparr>"
    by (simp add: AddSink_def tp1_def)
  note v = sink_views [OF tp2]
  have e: "e \<in> set (emitters tp)"
    using assms(1,2) by (simp add: sinks_ok_def)
  have "?n \<notin> fst ` set (emitter_outputs e tp)"
    using assms(1,3) by (auto simp: sinks_ok_def sink_names_def)
  then have out: "emitter_outputs x tp1 = (if x = e then emitter_outputs e tp @ [(?n, CSink ?j)] else emitter_outputs x tp)" for x
    by (simp add: tp1_def connect_outputs [OF e])
  show "sinks_ok tp0 e (AddSink [e] snk tp)"
    using assms(1,4) unfolding sinks_ok_def v out by (auto simp: tp1_def tp2 nth_append AddInputCount_def)
  show "sink_names (AddSink [e] snk tp) = insert ?n (sink_names tp)"
    by (simp add: tp2 sink_names_def AddInputCount_def)
qed

lemma add_action_ok:
  assumes "add_action e i m tp = Inr tp2" "sinks_ok tp0 e tp" "e \<in> set (emitters tp0)" "distinct (map fst m)"
    "(\<lambda>n. sink_name n i) ` fst ` set m \<inter> sink_names tp = {}"
  shows "sinks_ok tp0 e tp2 \<and> sink_names tp2 = (\<lambda>n. sink_name n i) ` fst ` set m \<union> sink_names tp"
  using assms
proof (induction e i m tp rule: add_action.induct)
  case (2 e i name action m tp)
  then obtain props where props: "action = Some props"
    by (auto split: option.splits)
  define snk where "snk = NewSinkNode (sink_name name i) name props (CSink (length (tp_sinks tp)))"
  have snk: "dn_name (sk_node snk) = sink_name name i" "dn_inputCount (sk_node snk) = 0"
    by (simp_all add: snk_def NewSinkNode_def New_def)
  have "dn_name (sk_node snk) \<notin> sink_names tp"
    using 2(6) snk(1) by auto
  note a = AddSink_ok [OF 2(3,4) this snk(2)]
  have "(\<lambda>n. sink_name n i) ` fst ` set m \<inter> sink_names (AddSink [e] snk tp) = {}"
    using 2(5,6) by (force simp: a(2) snk(1) sink_name_inj)
  from 2(1) [OF props _ _ 2(4) _ this [unfolded snk_def]] 2(2,5) a snk(1) props show ?case
    by (auto simp: snk_def)
qed simp

lemma add_actions_ok:
  assumes "add_actions e i ms tp = Inr tp2" "sinks_ok tp0 e tp" "e \<in> set (emitters tp0)" "\<forall>m \<in> set ms. distinct (map fst m)"
    "sink_names tp \<subseteq> {sink_name n j | n j. j < i}"
  shows "sinks_ok tp0 e tp2"
  using assms
proof (induction e i ms tp rule: add_actions.induct)
  case (2 e i m ms tp)
  then obtain tp1 where tp1: "add_action e i m tp = Inr tp1" "add_actions e (Suc i) ms tp1 = Inr tp2"
    by (auto split: sum.splits)
  have "(\<lambda>n. sink_name n i) ` fst ` set m \<inter> sink_names tp = {}"
    using 2(6) by (force simp: sink_name_inj)
  with add_action_ok [OF tp1(1) 2(3,4)] 2(5)
  have a: "sinks_ok tp0 e tp1" "sink_names tp1 = (\<lambda>n. sink_name n i) ` fst ` set m \<union> sink_names tp"
    by simp_all
  have "sink_names tp1 \<subseteq> {sink_name n j | n j. j < Suc i}"
    using 2(6) unfolding a(2) by (force intro: less_SucI)
  with 2(1) [OF tp1(1) tp1(2) a(1) 2(4)] 2(5) show ?case
    by simp
qed simp

text \<open>
  (C29) The network of a rule (\<^verbatim>\<open>createTopo\<close>), for every logical plan: all operators have different names; every source and every operator but the last has exactly one output, which leads
  to an operator that was added later, so there is no cycle and no node that fails for want of an output; each operator counts exactly the nodes that send to it, and these have different names,
  which is what the alignment of barriers relies on; and the last operator has one output for every sink of the rule, each of which counts one input.
\<close>

theorem topology_wired:
  assumes "createTopo rule lp streams = Inr tp" "\<forall>m \<in> set (rl_Actions rule). distinct (map fst m)" "last_op = EOp (length (tp_ops tp) - 1)"
  shows "inj_on (\<lambda>i. emitter_name (EOp i) tp) {..<length (tp_ops tp)} \<and>
     (\<forall>e \<in> set (emitters tp) - {last_op}. \<exists>k < length (tp_ops tp). later e k \<and> emitter_outputs e tp = [(emitter_name (EOp k) tp, COp k)]) \<and>
     (\<forall>k < length (tp_ops tp). dn_inputCount (to_node (tp_ops tp ! k)) = int (length (feeders tp (COp k))) \<and>
        distinct (map (\<lambda>e. emitter_name e tp) (feeders tp (COp k)))) \<and>
     emitter_outputs last_op tp = map (\<lambda>j. (dn_name (sk_node (tp_sinks tp ! j)), CSink j)) [0..<length (tp_sinks tp)] \<and>
     (\<forall>s \<in> set (tp_sinks tp). dn_inputCount (sk_node s) = 1)"
proof -
  let ?tp0 = "NewWithNameAndQos (rl_Id rule) (RuleOption.Qos (rl_Options rule)) (CheckpointInterval (rl_Options rule))"
  obtain e j tp1 where b: "buildOps (rl_Options rule) streams lp ?tp0 0 = Inr (e, j, tp1)" "add_actions e 0 (rl_Actions rule) tp1 = Inr tp"
    using assms(1) by (auto simp: createTopo_def Let_def split: sum.splits)
  have "wired ?tp0 [] 0"
    by (simp add: wired_def NewWithNameAndQos_def emitters_def)
  from built_ops(1) [OF this b(1)] have w: "wired tp1 [e] j" "e = EOp (length (tp_ops tp1) - 1)" "tp_sinks tp1 = []"
    by (auto simp: built_def NewWithNameAndQos_def)
  note d = wiredD [OF w(1)]
  have e: "e \<in> set (emitters tp1)" "emitter_outputs e tp1 = []"
    using d(4,5) by auto
  have "sinks_ok tp1 e tp1" "sink_names tp1 = {}"
    using w(3) e(2) by (simp_all add: sinks_ok_def sink_names_def)
  with add_actions_ok [OF b(2) _ e(1) assms(2)] have s: "sinks_ok tp1 e tp"
    by simp
  then have views: "emitters tp = emitters tp1" "\<And>x. emitter_name x tp = emitter_name x tp1" "\<And>k. op_count k tp = op_count k tp1"
      "\<And>x. x \<noteq> e \<Longrightarrow> emitter_outputs x tp = emitter_outputs x tp1"
      "emitter_outputs e tp = map (\<lambda>j. (dn_name (sk_node (tp_sinks tp ! j)), CSink j)) [0..<length (tp_sinks tp)]"
      "\<forall>s \<in> set (tp_sinks tp). dn_inputCount (sk_node s) = 1"
    by (simp_all add: sinks_ok_def)
  have len: "length (tp_ops tp) = length (tp_ops tp1)"
    using length_of_emitters [OF views(1)] .
  have "COp k \<in> snd ` set (emitter_outputs x tp) \<longleftrightarrow> COp k \<in> snd ` set (emitter_outputs x tp1)" for k x
    using views(4,5) e(2) by (cases "x = e") auto
  then have "feeders tp (COp k) = feeders tp1 (COp k)" for k
    by (simp add: feeders_def views(1))
  with d(2,6-8) views w(2) show ?thesis
    unfolding assms(3) len by (auto simp: op_label_def op_count_def)
qed

section \<open>A table alone\<close>

lemma AddSink_sources: "tp_sources (AddSink [EOp i] snk tp) = tp_sources tp"
  by (simp add: AddSink_def connect_def Let_def)

lemma add_action_sources: "add_action e i m tp = Inr tp2 \<Longrightarrow> e = EOp k \<Longrightarrow> tp_sources tp2 = tp_sources tp"
  by (induction e i m tp rule: add_action.induct) (auto simp: AddSink_sources split: option.splits)

lemma add_actions_sources: "add_actions e i ms tp = Inr tp2 \<Longrightarrow> e = EOp k \<Longrightarrow> tp_sources tp2 = tp_sources tp"
  by (induction e i ms tp rule: add_actions.induct) (auto dest: add_action_sources split: sum.splits)

text \<open>
  A rule that selects from a table alone is accepted and never does anything: the tables only enter the plan with a join, so the network of the rule has no source at all, and its
  projection, which counts no input, waits for ever. The documentation of tables says that a table may not be used alone; nothing in the planner rejects it.
\<close>

theorem table_alone_has_no_source:
  assumes "decorateStmt rt store stmt = Inr (stmt1, sts)" "\<forall>st \<in> set sts. ss_StreamType st = TypeTable" "Joins stmt1 = []" "Dimensions stmt1 = []"
    and "Condition stmt1 = None" "Having stmt1 = None" "SortFields stmt1 = []"
  shows "\<exists>lp. createLogicalPlan rt stmt opt store = Inr lp \<and>
     (\<forall>rule streams tp. rl_Options rule = opt \<longrightarrow> createTopo rule lp streams = Inr tp \<longrightarrow> tp_sources tp = [])"
proof -
  let ?lp = "Project (Fields stmt1) (IsAggStatement rt stmt1) (SendMetaToSink opt) []"
  have none: "filter (\<lambda>st. ss_StreamType st = TypeStream) sts = []"
    using assms(2) by (auto simp: filter_empty_conv)
  have "build_plan rt opt stmt1 sts = Inr ?lp"
    using assms(3-7) none by (simp add: build_plan_def plan_streams_def plan_joins_def plan_clauses_def GetWindow_def GetGroups_def Let_def)
  moreover have "optimize ?lp = Inr ?lp"
    by (simp add: optimize_def optRuleList_def columnPruner_def predicatePushDown_def)
  ultimately have "createLogicalPlan rt stmt opt store = Inr ?lp"
    using assms(1) by (simp add: createLogicalPlan_def)
  moreover have "tp_sources tp = []" if "createTopo rule ?lp streams = Inr tp" for rule streams tp
    using that by (auto simp: createTopo_def buildOps.simps build_node_def add_unary_def AddOperator_def NewWithNameAndQos_def Let_def
      dest!: add_actions_sources split: sum.splits)
  ultimately show ?thesis by blast
qed

section \<open>Examples\<close>

definition ex_rule_options :: RuleOption where
  "ex_rule_options = \<lparr>IsEventTime = False, LateTol = 0, Concurrency = 1, BufferLength = 1024, SendMetaToSink = False, SendError = True, Qos = 2, CheckpointInterval = 1000\<rparr>"

definition ex_stream :: "string \<Rightarrow> StreamType \<Rightarrow> StreamStmt" where
  "ex_stream n t = \<lparr>ss_Name = n, ss_StreamFields = None,
     ss_Options = \<lparr>DATASOURCE = n, KEY = [], FORMAT = ''json'', CONF_KEY = [], opt_TYPE = [], STRICT_VALIDATION = False, TIMESTAMP = [],
       TIMESTAMP_FORMAT = [], RETAIN_SIZE = 0, SHARED = False\<rparr>, ss_StreamType = t\<rparr>"

definition ex_rule :: Rule where
  "ex_rule = \<lparr>rl_Id = ''r1'', rl_Sql = [], rl_Actions = [[(''log'', Some [])], [(''mqtt'', Some []), (''log'', Some [])]], rl_Options = ex_rule_options\<rparr>"

definition ex_plan :: LogicalPlan where
  "ex_plan = Project [] False False
     [JoinAlign [''t''] [WindowP \<lparr>wp_condition = Some (FieldRef DefaultStream ''a'' None), wp_wtype = TUMBLING_WINDOW, wp_length = 10, wp_interval = 0, wp_isEventTime = False\<rparr>
        [init_source ex_rule_options (ex_stream ''s'' TypeStream)], init_source ex_rule_options (ex_stream ''t'' TypeTable)]]"

theorem topology_wired_witness:
  "\<exists>tp. createTopo ex_rule ex_plan [''s'', ''t''] = Inr tp \<and>
     (\<forall>k < length (tp_ops tp). dn_inputCount (to_node (tp_ops tp ! k)) = int (length (feeders tp (COp k)))) \<and>
     emitter_outputs (EOp (length (tp_ops tp) - 1)) tp = map (\<lambda>j. (dn_name (sk_node (tp_sinks tp ! j)), CSink j)) [0..<length (tp_sinks tp)]"
proof -
  have "\<not> isl (createTopo ex_rule ex_plan [''s'', ''t''])"
    by (simp add: createTopo_def ex_rule_def ex_plan_def ex_rule_options_def buildOps.simps build_node_def build_window_def init_source_def Let_def
        window_inputs_def split: prod.splits)
  then obtain tp where ok: "createTopo ex_rule ex_plan [''s'', ''t''] = Inr tp"
    by (cases "createTopo ex_rule ex_plan [''s'', ''t'']") auto
  have acts: "\<forall>m \<in> set (rl_Actions ex_rule). distinct (map fst m)"
    by (simp add: ex_rule_def)
  show ?thesis
    using topology_wired [OF ok acts refl] ok by blast
qed

definition ex_table_stmt :: SelectStatement where
  "ex_table_stmt = \<lparr>Fields = [\<lparr>fld_Name = ''*'', fld_AName = [], fld_Expr = Wildcard T_ASTERISK\<rparr>], Sources = [\<lparr>tbl_Name = ''t'', tbl_Alias = []\<rparr>],
     Joins = [], Condition = None, Dimensions = [], Having = None, SortFields = []\<rparr>"

theorem table_alone_has_no_source_witness:
  "\<exists>lp. createLogicalPlan (\<lambda>_. False) ex_table_stmt ex_rule_options (\<lambda>n. Inr (ex_stream n TypeTable)) = Inr lp \<and>
     (\<exists>tp. createTopo ex_rule lp [''t''] = Inr tp \<and> tp_sources tp = [])"
proof -
  let ?store = "\<lambda>n. Inr (ex_stream n TypeTable)"
  let ?d = "decorateStmt (\<lambda>_. False) ?store ex_table_stmt"
  have parts: "map_sum id (\<lambda>(s, sts). (Joins s, Dimensions s, Condition s, Having s, SortFields s, map ss_StreamType sts)) ?d =
      Inr ([], [], None, None, [], [TypeTable])"
    by code_simp
  then obtain s sts where d: "?d = Inr (s, sts)" "Joins s = []" "Dimensions s = []" "Condition s = None" "Having s = None" "SortFields s = []"
      "map ss_StreamType sts = [TypeTable]"
    by (cases ?d) auto
  have "\<forall>st \<in> set sts. ss_StreamType st = TypeTable"
    using d(7) by auto
  moreover have opt: "rl_Options ex_rule = ex_rule_options"
    by (simp add: ex_rule_def)
  ultimately obtain lp where
    lp: "createLogicalPlan (\<lambda>_. False) ex_table_stmt ex_rule_options ?store = Inr lp"
      "\<And>tp. createTopo ex_rule lp [''t''] = Inr tp \<Longrightarrow> tp_sources tp = []"
    using table_alone_has_no_source [OF d(1) _ d(2-6), of ex_rule_options] by blast
  have "\<not> isl (case createLogicalPlan (\<lambda>_. False) ex_table_stmt ex_rule_options ?store of Inl e \<Rightarrow> Inl e | Inr lp \<Rightarrow> createTopo ex_rule lp [''t''])"
    by code_simp
  then obtain tp where "createTopo ex_rule lp [''t''] = Inr tp"
    unfolding lp(1) by (cases "createTopo ex_rule lp [''t'']") auto
  with lp show ?thesis by blast
qed

end
