(* ===== verification/KeyValue.thy ===== *)
theory KeyValue
  imports Prelude "HOL-Library.Sublist"
begin

text \<open>
  The key-value tables of \<^verbatim>\<open>pkg/kv/sqliteKV.go\<close>, in which streams, rules and sink caches are kept.

  An absolute path is the list of its components. The disk holds the rows of every table of every database file, in the order of their insertion, and the handles that are open; a store object
  holds the path of its file, the name of its table and the handle it uses. A table that was not created has no rows. Statements that write pass the key as an argument, those that read or delete build
  it into their text, and all of them name the table without quotes: what SQLite does with a name or a key that is then read as something else is the parameter \<open>sqlite\<close>. The
  operating system and SQLite itself do not fail.
\<close>

section \<open>Paths\<close>

type_synonym path = "string list"

text \<open>\<^verbatim>\<open>path.Join\<close> on an absolute path: the new elements are split and the result is cleaned.\<close>

definition clean_step :: "string \<Rightarrow> path \<Rightarrow> path" where
  "clean_step c p = (if c = [] \<or> c = ''.'' then p else if c = ''..'' then butlast p else p @ [c])"

definition path_Join :: "path \<Rightarrow> string \<Rightarrow> path" where
  "path_Join p s = fold clean_step (split_on (CHR ''/'') s) p"

text \<open>A name that is one component of a path.\<close>

definition plain_name :: "string \<Rightarrow> bool" where
  "plain_name s \<longleftrightarrow> CHR ''/'' \<notin> set s \<and> s \<noteq> [] \<and> s \<noteq> ''.'' \<and> s \<noteq> ''..''"

lemma path_Join_plain: "plain_name s \<Longrightarrow> path_Join p s = p @ [s]"
  by (simp add: path_Join_def plain_name_def split_on_no_sep clean_step_def)

section \<open>The store\<close>

datatype kv_err = KV_NotFound string | KV_Err string | KV_Panic

record 'v disk =
  dk_tables :: "path \<times> string \<Rightarrow> (string \<times> 'v) list"
  dk_open :: "nat list"
  dk_next :: nat

record SqliteKVStore =
  kv_db :: "nat option"
  kv_table :: string
  kv_path :: path

text \<open>
  SQLite: whether it reads an unquoted name as the name of a table, and what the statements of \<^verbatim>\<open>Get\<close> and \<^verbatim>\<open>Delete\<close> do with a key that ends the literal it is put into.
\<close>

record 'v sqlite =
  sq_name :: "string \<Rightarrow> bool"
  sq_select :: "string \<Rightarrow> (string \<times> 'v) list \<Rightarrow> 'v option"
  sq_delete :: "string \<Rightarrow> (string \<times> 'v) list \<Rightarrow> kv_err option \<times> (string \<times> 'v) list"

text \<open>A key that stays inside its quotes.\<close>

definition plain_key :: "string \<Rightarrow> bool" where
  "plain_key k \<longleftrightarrow> CHR 0x27 \<notin> set k \<and> CHR 0x00 \<notin> set k"

definition GetSqliteKVStore :: "path \<Rightarrow> SqliteKVStore" where
  "GetSqliteKVStore fpath = \<lparr>kv_db = None, kv_table = last fpath, kv_path = butlast fpath @ [''sqliteKV.db'']\<rparr>"

definition kv_rows :: "SqliteKVStore \<Rightarrow> 'v disk \<Rightarrow> (string \<times> 'v) list" where
  "kv_rows m d = dk_tables d (kv_path m, kv_table m)"

definition put_rows :: "SqliteKVStore \<Rightarrow> (string \<times> 'v) list \<Rightarrow> 'v disk \<Rightarrow> 'v disk" where
  "put_rows m rows d = d\<lparr>dk_tables := (dk_tables d)((kv_path m, kv_table m) := rows)\<rparr>"

definition kv_Open :: "SqliteKVStore \<Rightarrow> 'v disk \<Rightarrow> SqliteKVStore \<times> 'v disk" where
  "kv_Open m d = (m\<lparr>kv_db := Some (dk_next d)\<rparr>, d\<lparr>dk_open := dk_next d # dk_open d, dk_next := Suc (dk_next d)\<rparr>)"

definition kv_Close :: "SqliteKVStore \<Rightarrow> 'v disk \<Rightarrow> 'v disk" where
  "kv_Close m d = (case kv_db m of None \<Rightarrow> d | Some h \<Rightarrow> d\<lparr>dk_open := filter (\<lambda>x. x \<noteq> h) (dk_open d)\<rparr>)"

text \<open>Whether a statement of the store reaches the table: its handle is open and the table's name is read as one.\<close>

definition reaches :: "'v sqlite \<Rightarrow> SqliteKVStore \<Rightarrow> 'v disk \<Rightarrow> bool" where
  "reaches sq m d = (case kv_db m of None \<Rightarrow> False | Some h \<Rightarrow> h \<in> set (dk_open d) \<and> sq_name sq (kv_table m))"

text \<open>A statement that cannot be prepared is a nil pointer, on which \<^verbatim>\<open>Exec\<close> is called all the same.\<close>

definition kv_Setnx :: "'v sqlite \<Rightarrow> string \<Rightarrow> 'v \<Rightarrow> SqliteKVStore \<Rightarrow> 'v disk \<Rightarrow> kv_err option \<times> 'v disk" where
  "kv_Setnx sq key val m d =
     (if \<not> reaches sq m d then (Some KV_Panic, d)
      else if key \<in> fst ` set (kv_rows m d) then (Some (KV_Err (''Item '' @ key @ '' already exists'')), d)
      else (None, put_rows m (kv_rows m d @ [(key, val)]) d))"

definition kv_Set :: "'v sqlite \<Rightarrow> string \<Rightarrow> 'v \<Rightarrow> SqliteKVStore \<Rightarrow> 'v disk \<Rightarrow> kv_err option \<times> 'v disk" where
  "kv_Set sq key val m d =
     (if \<not> reaches sq m d then (Some KV_Panic, d)
      else (None, put_rows m (filter (\<lambda>r. fst r \<noteq> key) (kv_rows m d) @ [(key, val)]) d))"

text \<open>\<open>Inr None\<close> is the answer \<^verbatim>\<open>false, nil\<close>, which is also given for a query that fails.\<close>

definition kv_Get :: "'v sqlite \<Rightarrow> string \<Rightarrow> SqliteKVStore \<Rightarrow> 'v disk \<Rightarrow> kv_err + 'v option" where
  "kv_Get sq key m d =
     (if kv_db m = None then Inl KV_Panic
      else if \<not> reaches sq m d then Inr None
      else if plain_key key then Inr (map_of (kv_rows m d) key)
      else Inr (sq_select sq key (kv_rows m d)))"

definition kv_Delete :: "'v sqlite \<Rightarrow> string \<Rightarrow> SqliteKVStore \<Rightarrow> 'v disk \<Rightarrow> kv_err option \<times> 'v disk" where
  "kv_Delete sq key m d =
     (if kv_db m = None then (Some KV_Panic, d)
      else if \<not> reaches sq m d then (Some (KV_NotFound (key @ '' is not found'')), d)
      else if \<not> plain_key key then (case sq_delete sq key (kv_rows m d) of (e, rows) \<Rightarrow> (e, put_rows m rows d))
      else if key \<notin> fst ` set (kv_rows m d) \<or> key = [] then (Some (KV_NotFound (key @ '' is not found'')), d)
      else (None, put_rows m (filter (\<lambda>r. fst r \<noteq> key) (kv_rows m d)) d))"

definition kv_Keys :: "'v sqlite \<Rightarrow> SqliteKVStore \<Rightarrow> 'v disk \<Rightarrow> kv_err + string list" where
  "kv_Keys sq m d =
     (if kv_db m = None then Inl KV_Panic
      else if \<not> reaches sq m d then Inl (KV_Err ''query failed'')
      else Inr (map fst (kv_rows m d)))"

definition sqlite_Clean :: "'v sqlite \<Rightarrow> SqliteKVStore \<Rightarrow> 'v disk \<Rightarrow> kv_err option \<times> 'v disk" where
  "sqlite_Clean sq m d =
     (if kv_db m = None then (Some KV_Panic, d)
      else if \<not> reaches sq m d then (Some (KV_Err ''exec failed''), d)
      else (None, put_rows m [] d))"

text \<open>The frame of every operation of the processors: \<^verbatim>\<open>Open\<close>, the body, and the deferred \<^verbatim>\<open>Close\<close>.\<close>

definition with_open :: "SqliteKVStore \<Rightarrow> (SqliteKVStore \<Rightarrow> 'v disk \<Rightarrow> 'r \<times> 'v disk) \<Rightarrow> 'v disk \<Rightarrow> 'r \<times> 'v disk" where
  "with_open m f d = (case kv_Open m d of (m1, d1) \<Rightarrow> (case f m1 d1 of (r, d2) \<Rightarrow> (r, kv_Close m1 d2)))"

text \<open>\<^verbatim>\<open>os.RemoveAll\<close>: the databases at the path and below it.\<close>

definition RemoveAll :: "path \<Rightarrow> 'v disk \<Rightarrow> 'v disk" where
  "RemoveAll p d = d\<lparr>dk_tables := (\<lambda>(q, t). if prefix p q then [] else dk_tables d (q, t))\<rparr>"

section \<open>Laws\<close>

named_theorems kv_ops

lemma kv_rows_put [kv_ops, simp]: "kv_rows m (put_rows m rows d) = rows"
  by (simp add: kv_rows_def put_rows_def)

lemma kv_rows_Open [kv_ops, simp]: "kv_Open m d = (m1, d1) \<Longrightarrow> kv_rows m1 d1 = kv_rows m d"
  by (auto simp: kv_Open_def kv_rows_def)

lemma kv_rows_Close [kv_ops, simp]: "kv_rows m (kv_Close n d) = kv_rows m d"
  by (simp add: kv_Close_def kv_rows_def split: option.splits)

lemma put_rows_handle [simp]: "put_rows (m\<lparr>kv_db := h\<rparr>) rows d = put_rows m rows d" "kv_rows (m\<lparr>kv_db := h\<rparr>) d = kv_rows m d"
  by (simp_all add: put_rows_def kv_rows_def)

lemma kv_rows_handles [simp]: "kv_rows m (d\<lparr>dk_open := a, dk_next := b\<rparr>) = kv_rows m d" "kv_rows m (d\<lparr>dk_open := a\<rparr>) = kv_rows m d"
  by (simp_all add: kv_rows_def)

lemma kv_tables_Open [kv_ops]: "kv_Open m d = (m1, d1) \<Longrightarrow> dk_tables d1 = dk_tables d"
  by (auto simp: kv_Open_def)

lemma kv_tables_Close [kv_ops, simp]: "dk_tables (kv_Close m d) = dk_tables d"
  by (simp add: kv_Close_def split: option.splits)

lemma reaches_Open: "kv_Open m d = (m1, d1) \<Longrightarrow> reaches sq m1 d1 = sq_name sq (kv_table m)"
  by (auto simp: kv_Open_def reaches_def)

text \<open>Between \<^verbatim>\<open>Open\<close> and \<^verbatim>\<open>Close\<close> the operations work on the rows alone.\<close>

definition get_row :: "'v sqlite \<Rightarrow> SqliteKVStore \<Rightarrow> string \<Rightarrow> 'v disk \<Rightarrow> 'v option" where
  "get_row sq m key d = (case fst (with_open m (\<lambda>m d. (kv_Get sq key m d, d)) d) of Inl _ \<Rightarrow> None | Inr r \<Rightarrow> r)"

definition set_row :: "'v sqlite \<Rightarrow> SqliteKVStore \<Rightarrow> string \<Rightarrow> 'v \<Rightarrow> 'v disk \<Rightarrow> kv_err option \<times> 'v disk" where
  "set_row sq m key val = with_open m (kv_Set sq key val)"

definition setnx_row :: "'v sqlite \<Rightarrow> SqliteKVStore \<Rightarrow> string \<Rightarrow> 'v \<Rightarrow> 'v disk \<Rightarrow> kv_err option \<times> 'v disk" where
  "setnx_row sq m key val = with_open m (kv_Setnx sq key val)"

definition delete_row :: "'v sqlite \<Rightarrow> SqliteKVStore \<Rightarrow> string \<Rightarrow> 'v disk \<Rightarrow> kv_err option \<times> 'v disk" where
  "delete_row sq m key = with_open m (kv_Delete sq key)"

definition row_keys :: "'v sqlite \<Rightarrow> SqliteKVStore \<Rightarrow> 'v disk \<Rightarrow> kv_err + string list" where
  "row_keys sq m d = fst (with_open m (\<lambda>m d. (kv_Keys sq m d, d)) d)"

definition row_view :: "SqliteKVStore \<Rightarrow> 'v disk \<Rightarrow> string \<Rightarrow> 'v option" where
  "row_view m d = map_of (kv_rows m d)"

text \<open>
  What the processors rely on, as an interface: a table seen as a map, for names that are \<open>ok\<close>. \<open>kset\<close> and \<open>ksetnx\<close> keep or add an entry, \<open>kdel\<close> removes one that is there, and the keys are the
  domain. An operation returns whether it succeeded and the new table.
\<close>

locale key_table =
  fixes ok :: "string \<Rightarrow> bool"
    and view :: "'s \<Rightarrow> string \<Rightarrow> 'v option"
    and kget :: "string \<Rightarrow> 's \<Rightarrow> 'v option"
    and kset :: "string \<Rightarrow> 'v \<Rightarrow> 's \<Rightarrow> bool \<times> 's"
    and ksetnx :: "string \<Rightarrow> 'v \<Rightarrow> 's \<Rightarrow> bool \<times> 's"
    and kdel :: "string \<Rightarrow> 's \<Rightarrow> bool \<times> 's"
  assumes kget: "ok k \<Longrightarrow> kget k s = view s k"
    and kset: "ok k \<Longrightarrow> fst (kset k v s) \<and> view (snd (kset k v s)) = (view s)(k \<mapsto> v)"
    and ksetnx: "ok k \<Longrightarrow> fst (ksetnx k v s) = (view s k = None) \<and>
      view (snd (ksetnx k v s)) = (if view s k = None then (view s)(k \<mapsto> v) else view s)"
    and kdel: "ok k \<Longrightarrow> fst (kdel k s) = (view s k \<noteq> None) \<and> view (snd (kdel k s)) = (view s)(k := None)"
begin

lemma get_after_set: "ok k \<Longrightarrow> kget k (snd (kset k v s)) = Some v"
  using kget kset by simp

lemma get_other: "ok k \<Longrightarrow> ok l \<Longrightarrow> k \<noteq> l \<Longrightarrow> kget l (snd (kset k v s)) = kget l s"
  using kget kset by simp

lemma setnx_keeps: "ok k \<Longrightarrow> kget k s = Some w \<Longrightarrow> \<not> fst (ksetnx k v s) \<and> kget k (snd (ksetnx k v s)) = Some w"
  using kget ksetnx by simp

lemma drop_then_create: "ok k \<Longrightarrow> fst (ksetnx k v (snd (kdel k s))) \<and> kget k (snd (ksetnx k v (snd (kdel k s)))) = Some v"
  using kget ksetnx kdel by simp

lemma delete_twice: "ok k \<Longrightarrow> \<not> fst (kdel k (snd (kdel k s)))"
  using kdel by simp

end

lemma in_keys_map_of: "k \<in> fst ` set rows \<longleftrightarrow> map_of rows k \<noteq> None"
  by (simp add: map_of_eq_None_iff)

lemma map_of_filter_ne: "map_of (filter (\<lambda>r. fst r \<noteq> k) rows) = (map_of rows)(k := None)"
  by (induction rows) auto

definition usable :: "'v sqlite \<Rightarrow> SqliteKVStore \<Rightarrow> string \<Rightarrow> bool" where
  "usable sq m k \<longleftrightarrow> sq_name sq (kv_table m) \<and> plain_key k \<and> k \<noteq> []"

lemma get_row_eq: "sq_name sq (kv_table m) \<Longrightarrow> plain_key k \<Longrightarrow> get_row sq m k d = row_view m d k"
  by (simp add: get_row_def with_open_def kv_Get_def reaches_def kv_Open_def row_view_def)

lemma set_row_eq:
  "sq_name sq (kv_table m) \<Longrightarrow> fst (set_row sq m k v d) = None \<and> row_view m (snd (set_row sq m k v d)) = (row_view m d)(k \<mapsto> v)"
  by (simp add: set_row_def with_open_def kv_Set_def reaches_def kv_Open_def row_view_def map_add_def map_of_filter_ne fun_eq_iff split: option.splits)

lemma setnx_row_eq:
  "sq_name sq (kv_table m) \<Longrightarrow> (fst (setnx_row sq m k v d) = None) = (row_view m d k = None) \<and>
   row_view m (snd (setnx_row sq m k v d)) = (if row_view m d k = None then (row_view m d)(k \<mapsto> v) else row_view m d)"
  by (auto simp: setnx_row_def with_open_def kv_Setnx_def reaches_def kv_Open_def row_view_def map_add_def in_keys_map_of fun_eq_iff split: option.splits)

lemma delete_row_eq:
  "usable sq m k \<Longrightarrow> (fst (delete_row sq m k d) = None) = (row_view m d k \<noteq> None) \<and> row_view m (snd (delete_row sq m k d)) = (row_view m d)(k := None)"
  by (auto simp: usable_def delete_row_def with_open_def kv_Delete_def reaches_def kv_Open_def row_view_def map_of_filter_ne in_keys_map_of fun_eq_iff
      simp del: map_of_eq_None_iff)

interpretation kvs: key_table "usable sq m" "row_view m" "get_row sq m" "\<lambda>k v d. apfst (\<lambda>e. e = None) (set_row sq m k v d)"
  "\<lambda>k v d. apfst (\<lambda>e. e = None) (setnx_row sq m k v d)" "\<lambda>k d. apfst (\<lambda>e. e = None) (delete_row sq m k d)" for sq m
proof unfold_locales
  fix k :: string and d v
  assume u: "usable sq m k"
  then show "get_row sq m k d = row_view m d k"
    by (simp add: usable_def get_row_eq)
  show "fst (apfst (\<lambda>e. e = None) (set_row sq m k v d)) \<and> row_view m (snd (apfst (\<lambda>e. e = None) (set_row sq m k v d))) = (row_view m d)(k \<mapsto> v)"
    using u set_row_eq [of sq m k v d] by (simp add: usable_def)
  show "fst (apfst (\<lambda>e. e = None) (setnx_row sq m k v d)) = (row_view m d k = None) \<and>
      row_view m (snd (apfst (\<lambda>e. e = None) (setnx_row sq m k v d))) = (if row_view m d k = None then (row_view m d)(k \<mapsto> v) else row_view m d)"
    using u setnx_row_eq [of sq m k v d] by (simp add: usable_def)
  show "fst (apfst (\<lambda>e. e = None) (delete_row sq m k d)) = (row_view m d k \<noteq> None) \<and> row_view m (snd (apfst (\<lambda>e. e = None) (delete_row sq m k d))) = (row_view m d)(k := None)"
    using u delete_row_eq [of sq m k d] by simp
qed

section \<open>Two requests at a time\<close>

text \<open>
  The processors are shared by all requests of the server, and each request opens and closes the one handle of the store. When a second request opens the store before the first one closes it, the first
  closes the handle of the second: the second does not find an entry that is there, and a write panics.
\<close>

theorem shared_handle_race:
  assumes "sq_name sq (kv_table m)" "plain_key k" "row_view m d k = Some v"
    and "kv_Open m d = (m1, d1)" "kv_Open m1 d1 = (m2, d2)" "d3 = kv_Close m2 d2"
  shows "get_row sq m k d = Some v \<and> row_view m2 d3 k = Some v \<and> kv_Get sq k m2 d3 = Inr None \<and> fst (kv_Set sq k w m2 d3) = Some KV_Panic"
proof -
  have "row_view m2 d3 k = Some v"
    using assms(3-6) by (auto simp: row_view_def)
  moreover have "kv_db m2 \<noteq> None" "\<not> reaches sq m2 d3"
    using assms(5,6) by (auto simp: kv_Open_def kv_Close_def reaches_def)
  ultimately show ?thesis
    using assms(1-3) by (simp add: get_row_eq kv_Get_def kv_Set_def)
qed

end
