(* ===== verification/Processors.thy ===== *)
theory Processors
  imports Topology KeyValue Analyzer
begin

text \<open>
  The processors of \<^verbatim>\<open>internal/processor\<close>, which keep the definitions of streams and rules in key-value tables (\<^verbatim>\<open>stream.go\<close>, \<^verbatim>\<open>rule.go\<close>).

  The record \<open>penv\<close> holds what they call: the registries of the parser, the JSON codec for the two kinds of entries, SQLite, the default options of the configuration and the data directory. JSON
  decodes a \<^verbatim>\<open>StreamInfo\<close> into an existing value, and the fields its text does not name keep their contents; the flag tells that there was no error. It decodes a rule over the default
  options; \<open>None\<close> is the nil pointer that the text \<^verbatim>\<open>null\<close> gives. An operation that only reads leaves the disk alone, since it closes the handle it opens. \<open>P_In\<close> is an error
  wrapped by \<^verbatim>\<open>fmt.Errorf\<close>.
\<close>

section \<open>Environment\<close>

datatype perror = P_Kv kv_err | P_Sql perr | P_NotFound string | P_Err string | P_In string perror | P_Panic

text \<open>\<^verbatim>\<open>api.Rule\<close>. The properties of an action are \<open>None\<close> when they are not a map.\<close>

record api_rule =
  ar_Triggered :: bool
  ar_Id :: string
  ar_Sql :: string
  ar_Actions :: "(string \<times> (string \<times> gval) list option) list list"
  ar_Options :: "RuleOption option"

record penv =
  pe_ext :: ext_validator
  pe_rt :: "string \<Rightarrow> bool"
  pe_encInfo :: "StreamInfo \<Rightarrow> string"
  pe_decInfo :: "string \<Rightarrow> StreamInfo \<Rightarrow> StreamInfo \<times> bool"
  pe_encRule :: "api_rule \<Rightarrow> string + string"
  pe_decRule :: "RuleOption \<Rightarrow> string \<Rightarrow> string + api_rule option"
  pe_indent :: "string \<Rightarrow> string + string"
  pe_sq :: "string sqlite"
  pe_opt :: RuleOption
  pe_data :: path
  pe_lost :: "kv_err option"

definition parse_text :: "penv \<Rightarrow> string \<Rightarrow> perr + Statement option" where
  "parse_text e s = map_sum id fst (Language_Parse (pe_ext e) (pe_rt e) (sql_fuel s) (NewParser s))"

definition err_of :: "kv_err option \<Rightarrow> perror option" where
  "err_of r = map_option P_Kv r"

section \<open>Streams (stream.go)\<close>

definition NewStreamProcessor :: "penv \<Rightarrow> SqliteKVStore" where
  "NewStreamProcessor e = GetSqliteKVStore (path_Join (pe_data e) ''stream'')"

definition StreamTypeMap :: "StreamType \<Rightarrow> string" where
  "StreamTypeMap st = (case st of TypeStream \<Rightarrow> ''stream'' | TypeTable \<Rightarrow> ''table'')"

text \<open>\<^verbatim>\<open>strings.Title\<close> of the two names.\<close>

definition type_title :: "StreamType \<Rightarrow> string" where
  "type_title st = (case st of TypeStream \<Rightarrow> ''Stream'' | TypeTable \<Rightarrow> ''Table'')"

definition zero_info :: StreamInfo where
  "zero_info = \<lparr>si_StreamType = TypeStream, si_Statement = []\<rparr>"

definition unmarshal_info :: "penv \<Rightarrow> string \<Rightarrow> StreamInfo option" where
  "unmarshal_info e v = (case pe_decInfo e v zero_info of (vs, good) \<Rightarrow> if good then Some vs else None)"

definition execSave :: "penv \<Rightarrow> StreamStmt \<Rightarrow> string \<Rightarrow> bool \<Rightarrow> string disk \<Rightarrow> perror option \<times> string disk" where
  "execSave e stmt statement replace d =
     apfst err_of (with_open (NewStreamProcessor e)
       (let s = pe_encInfo e \<lparr>si_StreamType = ss_StreamType stmt, si_Statement = statement\<rparr>
        in if replace then kv_Set (pe_sq e) (ss_Name stmt) s else kv_Setnx (pe_sq e) (ss_Name stmt) s) d)"

text \<open>The loop of \<^verbatim>\<open>ShowStream\<close>; \<open>vs\<close> is the value every entry is decoded into.\<close>

fun show_loop :: "penv \<Rightarrow> StreamType \<Rightarrow> SqliteKVStore \<Rightarrow> string disk \<Rightarrow> StreamInfo \<Rightarrow> string list \<Rightarrow> string list" where
  "show_loop e st m d vs [] = []"
| "show_loop e st m d vs (k # ks) = (case kv_Get (pe_sq e) k m d of
     Inr (Some v) \<Rightarrow> (case pe_decInfo e v vs of (vs', good) \<Rightarrow>
       if good \<and> si_StreamType vs' = st then k # show_loop e st m d vs' ks else show_loop e st m d vs' ks)
   | _ \<Rightarrow> show_loop e st m d vs ks)"

definition ShowStream :: "penv \<Rightarrow> StreamType \<Rightarrow> string disk \<Rightarrow> perror + string list" where
  "ShowStream e st d = fst (with_open (NewStreamProcessor e) (\<lambda>m d. (case kv_Keys (pe_sq e) m d of
       Inl er \<Rightarrow> Inl (P_In (''Show '' @ StreamTypeMap st @ ''s fails, error when loading data from db: '') (P_Kv er))
     | Inr keys \<Rightarrow> Inr (show_loop e st m d zero_info keys), d)) d)"

definition execShow :: "penv \<Rightarrow> StreamType \<Rightarrow> string disk \<Rightarrow> string list \<times> perror option" where
  "execShow e st d =
     (let none = [''No '' @ StreamTypeMap st @ '' definitions are found.''] in
      case ShowStream e st d of Inl er \<Rightarrow> (none, Some er) | Inr keys \<Rightarrow> (if keys = [] then none else keys, None))"

text \<open>The entries \<^verbatim>\<open>xsql.GetDataSourceStatement\<close> reads.\<close>

definition stream_entry :: "penv \<Rightarrow> string disk \<Rightarrow> string \<Rightarrow> string option" where
  "stream_entry e d name = get_row (pe_sq e) (NewStreamProcessor e) name d"

definition getStream :: "penv \<Rightarrow> string \<Rightarrow> StreamType \<Rightarrow> string disk \<Rightarrow> perror + string" where
  "getStream e name st d = (case GetDataSourceStatement (unmarshal_info e) (stream_entry e d) name of
     Inr vs \<Rightarrow> if si_StreamType vs = st then Inr (si_Statement vs)
       else Inl (P_NotFound (StreamTypeMap st @ '' '' @ name @ '' is not found''))
   | Inl msg \<Rightarrow> Inl (if stream_entry e d name = None then P_NotFound msg else P_Err msg))"

definition DescStream :: "penv \<Rightarrow> string \<Rightarrow> StreamType \<Rightarrow> string disk \<Rightarrow> perror + Statement option" where
  "DescStream e name st d = (case getStream e name st d of
     Inl er \<Rightarrow> Inl (P_In (''Describe '' @ StreamTypeMap st @ '' fails, '') er)
   | Inr statement \<Rightarrow> map_sum P_Sql id (parse_text e statement))"

fun printFieldType :: "FieldType \<Rightarrow> string"
  and print_rec :: "bool \<Rightarrow> (string \<times> FieldType option) list \<Rightarrow> string" where
  "printFieldType (BasicType t) = dt_String t"
| "printFieldType (ArrayType t ft) = ''array('' @ (case ft of Some f \<Rightarrow> printFieldType f | None \<Rightarrow> dt_String t) @ '')''"
| "printFieldType (RecType fs) = ''struct('' @ print_rec True fs @ '')''"
| "print_rec isFirst [] = []"
| "print_rec isFirst ((n, ft) # fs) =
     (if isFirst then [] else '', '') @ n @ '' '' @ (case ft of Some f \<Rightarrow> printFieldType f | None \<Rightarrow> []) @ print_rec False fs"

definition opt_line :: "string \<Rightarrow> string \<Rightarrow> string" where
  "opt_line label val = (if val = [] then [] else label @ '': '' @ val @ [CHR 0x0A])"

definition printOptions :: "Options \<Rightarrow> string" where
  "printOptions opts =
     opt_line ''CONF_KEY'' (CONF_KEY opts) @ opt_line ''DATASOURCE'' (DATASOURCE opts) @ opt_line ''FORMAT'' (FORMAT opts) @ opt_line ''KEY'' (KEY opts) @
     (if RETAIN_SIZE opts \<noteq> 0 then opt_line ''RETAIN_SIZE'' (itoa (RETAIN_SIZE opts)) else []) @
     (if SHARED opts then opt_line ''SHARED'' ''true'' else []) @
     (if STRICT_VALIDATION opts then opt_line ''STRICT_VALIDATION'' ''true'' else []) @
     opt_line ''TIMESTAMP'' (TIMESTAMP opts) @ opt_line ''TIMESTAMP_FORMAT'' (TIMESTAMP_FORMAT opts) @ opt_line ''TYPE'' (opt_TYPE opts)"

definition describe_text :: "StreamStmt \<Rightarrow> string" where
  "describe_text s =
     ''Fields'' @ [CHR 0x0A] @ replicate 80 (CHR ''-'') @ [CHR 0x0A] @
     concat (map (\<lambda>(n, ft). n @ [CHR 0x09] @ (case ft of Some f \<Rightarrow> printFieldType f | None \<Rightarrow> []) @ [CHR 0x0A])
       (case ss_StreamFields s of None \<Rightarrow> [] | Some fs \<Rightarrow> fs)) @
     [CHR 0x0A] @ printOptions (ss_Options s)"

definition execDescribe :: "penv \<Rightarrow> string \<Rightarrow> StreamType \<Rightarrow> string disk \<Rightarrow> string \<times> perror option" where
  "execDescribe e name st d = (case DescStream e name st d of
     Inl er \<Rightarrow> ([], Some er)
   | Inr (Some (CreateStmt s)) \<Rightarrow> (describe_text s, None)
   | Inr _ \<Rightarrow> (''%s'', Some (P_Err (''Error resolving the '' @ StreamTypeMap st @ '' '' @ name @ '', the data in db may be corrupted.''))))"

definition execExplain :: "penv \<Rightarrow> string \<Rightarrow> StreamType \<Rightarrow> string disk \<Rightarrow> string \<times> perror option" where
  "execExplain e name st d = (case getStream e name st d of
     Inl er \<Rightarrow> ([], Some (P_In (''Explain '' @ StreamTypeMap st @ '' fails, '') er))
   | Inr _ \<Rightarrow> (''TO BE SUPPORTED'', None))"

definition DropStream :: "penv \<Rightarrow> string \<Rightarrow> StreamType \<Rightarrow> string disk \<Rightarrow> (perror + string) \<times> string disk" where
  "DropStream e name st d = (case getStream e name st d of
     Inl er \<Rightarrow> (Inl er, d)
   | Inr _ \<Rightarrow> (case with_open (NewStreamProcessor e) (kv_Delete (pe_sq e) name) d of
       (Some er, d1) \<Rightarrow> (Inl (P_Kv er), d1)
     | (None, d1) \<Rightarrow> (Inr (type_title st @ '' '' @ name @ '' is dropped.''), d1)))"

definition execDrop :: "penv \<Rightarrow> string \<Rightarrow> StreamType \<Rightarrow> string disk \<Rightarrow> (string \<times> perror option) \<times> string disk" where
  "execDrop e name st d = (case DropStream e name st d of
     (Inl er, d1) \<Rightarrow> (([], Some (P_In (''Drop '' @ StreamTypeMap st @ '' fails: '') er)), d1)
   | (Inr s, d1) \<Rightarrow> ((s, None), d1))"

definition one :: "string \<times> perror option \<Rightarrow> string list \<times> perror option" where
  "one r = apfst (\<lambda>s. [s]) r"

text \<open>The switch of \<^verbatim>\<open>ExecStmt\<close> on the parsed statement.\<close>

definition exec_statement :: "penv \<Rightarrow> string \<Rightarrow> Statement option \<Rightarrow> string disk \<Rightarrow> (string list \<times> perror option) \<times> string disk" where
  "exec_statement e statement stmt d = (case stmt of
     Some (CreateStmt s) \<Rightarrow>
       (let stt = StreamTypeMap (ss_StreamType s) in
        case execSave e s statement False d of
          (Some er, d1) \<Rightarrow> (([[]], Some (P_In (''Create '' @ stt @ '' fails: '') er)), d1)
        | (None, d1) \<Rightarrow> (([type_title (ss_StreamType s) @ '' '' @ ss_Name s @ '' is created.''], None), d1))
   | Some ShowStreamsStatement \<Rightarrow> (execShow e TypeStream d, d)
   | Some ShowTablesStatement \<Rightarrow> (execShow e TypeTable d, d)
   | Some (DescribeStreamStatement n) \<Rightarrow> (one (execDescribe e n TypeStream d), d)
   | Some (DescribeTableStatement n) \<Rightarrow> (one (execDescribe e n TypeTable d), d)
   | Some (ExplainStreamStatement n) \<Rightarrow> (one (execExplain e n TypeStream d), d)
   | Some (ExplainTableStatement n) \<Rightarrow> (one (execExplain e n TypeTable d), d)
   | Some (DropStreamStatement n) \<Rightarrow> apfst one (execDrop e n TypeStream d)
   | Some (DropTableStatement n) \<Rightarrow> apfst one (execDrop e n TypeTable d)
   | _ \<Rightarrow> (([], Some (P_Err (''Invalid stream statement: '' @ statement))), d))"

definition ExecStmt :: "penv \<Rightarrow> string \<Rightarrow> string disk \<Rightarrow> (string list \<times> perror option) \<times> string disk" where
  "ExecStmt e statement d = (case parse_text e statement of
     Inl er \<Rightarrow> (([], Some (P_Sql er)), d)
   | Inr stmt \<Rightarrow> exec_statement e statement stmt d)"

definition ExecReplaceStream :: "penv \<Rightarrow> string \<Rightarrow> StreamType \<Rightarrow> string disk \<Rightarrow> (perror + string) \<times> string disk" where
  "ExecReplaceStream e statement st d = (case parse_text e statement of
     Inl er \<Rightarrow> (Inl (P_Sql er), d)
   | Inr (Some (CreateStmt s)) \<Rightarrow>
       if ss_StreamType s \<noteq> st then (Inl (P_NotFound (StreamTypeMap st @ '' '' @ ss_Name s @ '' is not found'')), d)
       else (case execSave e s statement True d of
           (Some er, d1) \<Rightarrow> (Inl (P_In (''Replace '' @ StreamTypeMap st @ '' fails: '') er), d1)
         | (None, d1) \<Rightarrow> (Inr (type_title st @ '' '' @ ss_Name s @ '' is replaced.''), d1))
   | Inr _ \<Rightarrow> (Inl (P_Err (''Invalid '' @ StreamTypeMap st @ '' statement: '' @ statement)), d))"

fun join_lines :: "string list \<Rightarrow> string" where
  "join_lines [] = []"
| "join_lines [x] = x"
| "join_lines (x # xs) = x @ [CHR 0x0A] @ join_lines xs"

definition ExecStreamSql :: "penv \<Rightarrow> string \<Rightarrow> string disk \<Rightarrow> (perror + string) \<times> string disk" where
  "ExecStreamSql e statement d = (case ExecStmt e statement d of
     ((_, Some er), d1) \<Rightarrow> (Inl er, d1)
   | ((r, None), d1) \<Rightarrow> (Inr (join_lines r), d1))"

section \<open>Rules (rule.go)\<close>

definition NewRuleProcessor :: "penv \<Rightarrow> SqliteKVStore" where
  "NewRuleProcessor e = GetSqliteKVStore (path_Join (pe_data e) ''rule'')"

definition getDefaultRule :: "string \<Rightarrow> string \<Rightarrow> api_rule" where
  "getDefaultRule name sql = \<lparr>ar_Triggered = False, ar_Id = name, ar_Sql = sql, ar_Actions = [],
     ar_Options = Some \<lparr>IsEventTime = False, LateTol = 1000, Concurrency = 1, BufferLength = 1024, SendMetaToSink = False, SendError = True, Qos = 0,
       CheckpointInterval = 300000\<rparr>\<rparr>"

definition zero_options :: RuleOption where
  "zero_options = \<lparr>IsEventTime = False, LateTol = 0, Concurrency = 0, BufferLength = 0, SendMetaToSink = False, SendError = False, Qos = 0, CheckpointInterval = 0\<rparr>"

definition check_options :: "RuleOption \<Rightarrow> perror option" where
  "check_options o1 =
     (if CheckpointInterval o1 < 0 then Some (P_Err (''rule option checkpointInterval '' @ itoa (CheckpointInterval o1) @ '' is invalid, require a positive integer''))
      else if Concurrency o1 < 0 then Some (P_Err (''rule option concurrency '' @ itoa (Concurrency o1) @ '' is invalid, require a positive integer''))
      else if BufferLength o1 < 0 then Some (P_Err (''rule option bufferLength '' @ itoa (BufferLength o1) @ '' is invalid, require a positive integer''))
      else if LateTol o1 < 0 then Some (P_Err (''rule option lateTolerance '' @ itoa (LateTol o1) @ '' is invalid, require a positive integer''))
      else None)"

text \<open>The checks on the decoded rule, in their order.\<close>

definition check_rule :: "penv \<Rightarrow> string \<Rightarrow> api_rule \<Rightarrow> perror + api_rule" where
  "check_rule e name rule =
     (if ar_Id rule = [] \<and> name = [] then Inl (P_Err ''Missing rule id.'')
      else if name \<noteq> [] \<and> ar_Id rule \<noteq> [] \<and> name \<noteq> ar_Id rule then Inl (P_Err ''Name is not consistent with rule id.'')
      else (let rule1 = (if ar_Id rule = [] then rule\<lparr>ar_Id := name\<rparr> else rule) in
        if ar_Sql rule1 = [] then Inl (P_Err ''Missing rule SQL.'')
        else case GetStatementFromSql (pe_ext e) (pe_rt e) (ar_Sql rule1) of
          Inl er \<Rightarrow> Inl (P_Sql er)
        | Inr _ \<Rightarrow>
            if ar_Actions rule1 = [] then Inl (P_Err ''Missing rule actions.'')
            else (let o1 = (case ar_Options rule1 of None \<Rightarrow> zero_options | Some o1 \<Rightarrow> o1) in
              case check_options o1 of Some er \<Rightarrow> Inl er | None \<Rightarrow> Inr (rule1\<lparr>ar_Options := Some o1\<rparr>))))"

definition getRuleByJson :: "penv \<Rightarrow> string \<Rightarrow> string \<Rightarrow> perror + api_rule" where
  "getRuleByJson e name ruleJson = (case pe_decRule e (pe_opt e) ruleJson of
     Inl er \<Rightarrow> Inl (P_Err (''Parse rule '' @ ruleJson @ '' error : '' @ er @ ''.''))
   | Inr None \<Rightarrow> Inl P_Panic
   | Inr (Some rule) \<Rightarrow> check_rule e name rule)"

definition store_rule :: "(SqliteKVStore \<Rightarrow> string disk \<Rightarrow> kv_err option \<times> string disk) \<Rightarrow> penv \<Rightarrow> api_rule \<Rightarrow> string disk \<Rightarrow> (perror + api_rule) \<times> string disk" where
  "store_rule f e rule d = (case with_open (NewRuleProcessor e) f d of
     (Some er, d1) \<Rightarrow> (Inl (P_Kv er), d1)
   | (None, d1) \<Rightarrow> (Inr rule, d1))"

definition ExecCreate :: "penv \<Rightarrow> string \<Rightarrow> string \<Rightarrow> string disk \<Rightarrow> (perror + api_rule) \<times> string disk" where
  "ExecCreate e name ruleJson d = (case getRuleByJson e name ruleJson of
     Inl er \<Rightarrow> (Inl er, d)
   | Inr rule \<Rightarrow> store_rule (kv_Setnx (pe_sq e) (ar_Id rule) ruleJson) e rule d)"

definition ExecUpdate :: "penv \<Rightarrow> string \<Rightarrow> string \<Rightarrow> string disk \<Rightarrow> (perror + api_rule) \<times> string disk" where
  "ExecUpdate e name ruleJson d = (case getRuleByJson e name ruleJson of
     Inl er \<Rightarrow> (Inl er, d)
   | Inr rule \<Rightarrow> store_rule (kv_Set (pe_sq e) (ar_Id rule) ruleJson) e rule d)"

definition GetRuleByName :: "penv \<Rightarrow> string \<Rightarrow> string disk \<Rightarrow> perror + api_rule" where
  "GetRuleByName e name d = (case get_row (pe_sq e) (NewRuleProcessor e) name d of
     None \<Rightarrow> Inl (P_NotFound (''Rule '' @ name @ '' is not found.''))
   | Some s1 \<Rightarrow> getRuleByJson e name s1)"

definition ExecReplaceRuleState :: "penv \<Rightarrow> string \<Rightarrow> bool \<Rightarrow> string disk \<Rightarrow> perror option \<times> string disk" where
  "ExecReplaceRuleState e name triggered d = (case GetRuleByName e name d of
     Inl er \<Rightarrow> (Some er, d)
   | Inr rule \<Rightarrow> (case pe_encRule e (rule\<lparr>ar_Triggered := triggered\<rparr>) of
       Inl er \<Rightarrow> (Some (P_Err (''Marshal rule '' @ name @ '' error : '' @ er @ ''.'')), d)
     | Inr ruleJson \<Rightarrow> apfst err_of (with_open (NewRuleProcessor e) (kv_Set (pe_sq e) name ruleJson) d)))"

definition ExecDesc :: "penv \<Rightarrow> string \<Rightarrow> string disk \<Rightarrow> perror + string" where
  "ExecDesc e name d = (case get_row (pe_sq e) (NewRuleProcessor e) name d of
     None \<Rightarrow> Inl (P_Err (''Rule '' @ name @ '' is not found.''))
   | Some s1 \<Rightarrow> map_sum P_Err (\<lambda>s. s @ [CHR 0x0A]) (pe_indent e s1))"

definition GetAllRules :: "penv \<Rightarrow> string disk \<Rightarrow> perror + string list" where
  "GetAllRules e d = map_sum P_Kv id (row_keys (pe_sq e) (NewRuleProcessor e) d)"

subsection \<open>Dropping a rule\<close>

text \<open>
  The keys that \<^verbatim>\<open>cleanSinkCache\<close> deletes: \<open>con\<close> is declared before the loop over the actions of one map, so that a concurrency set by one action is used for the following ones too.
\<close>

definition action_key :: "string \<Rightarrow> string \<Rightarrow> nat \<Rightarrow> nat \<Rightarrow> string" where
  "action_key ruleId name k i = ruleId @ name @ ''_'' @ nat_digits k @ nat_digits i"

fun map_keys :: "string \<Rightarrow> nat \<Rightarrow> int \<Rightarrow> (string \<times> (string \<times> gval) list option) list \<Rightarrow> string list" where
  "map_keys ruleId k con [] = []"
| "map_keys ruleId k con ((name, action) # m) =
     (let con1 = positive_prop ''concurrency'' (case action of None \<Rightarrow> [] | Some props \<Rightarrow> props) con
      in map (action_key ruleId name k) [0..<nat con1] @ map_keys ruleId k con1 m)"

definition clean_keys :: "api_rule \<Rightarrow> string list" where
  "clean_keys rule = concat (map (\<lambda>k. map_keys (ar_Id rule) k 1 (ar_Actions rule ! k)) [0..<length (ar_Actions rule)])"

definition cleanSinkCache :: "penv \<Rightarrow> api_rule \<Rightarrow> string disk \<Rightarrow> string disk" where
  "cleanSinkCache e rule d =
     snd (with_open (GetSqliteKVStore (path_Join (pe_data e) ''sink''))
       (\<lambda>m d. ((), fold (\<lambda>key d. snd (kv_Delete (pe_sq e) key m d)) (clean_keys rule) d)) d)"

definition cleanCheckpoint :: "penv \<Rightarrow> string \<Rightarrow> string disk \<Rightarrow> string disk" where
  "cleanCheckpoint e name d = RemoveAll (path_Join (pe_data e) name) d"

text \<open>The last step; \<open>pe_lost\<close> is the answer of SQLite when the file of the rules was removed while it was open.\<close>

definition drop_row :: "penv \<Rightarrow> string \<Rightarrow> bool \<Rightarrow> SqliteKVStore \<Rightarrow> string disk \<Rightarrow> (perror + string) \<times> string disk" where
  "drop_row e name removed m d =
     (case (if removed \<and> prefix (path_Join (pe_data e) name) (kv_path m) then (pe_lost e, d) else kv_Delete (pe_sq e) name m d) of
        (Some er, d1) \<Rightarrow> (Inl (P_Kv er), d1)
      | (None, d1) \<Rightarrow> (Inr (''Rule '' @ name @ '' is dropped.''), d1))"

definition ExecDrop :: "penv \<Rightarrow> string \<Rightarrow> string disk \<Rightarrow> (perror + string) \<times> string disk" where
  "ExecDrop e name = with_open (NewRuleProcessor e) (\<lambda>m d. case kv_Get (pe_sq e) name m d of
       Inr (Some ruleJson) \<Rightarrow> (case getRuleByJson e name ruleJson of
           Inl er \<Rightarrow> (Inl er, d)
         | Inr rule \<Rightarrow> drop_row e name True m (cleanCheckpoint e name (cleanSinkCache e rule d)))
     | _ \<Rightarrow> drop_row e name False m d)"

text \<open>Where a sink node keeps its cache (\<^verbatim>\<open>initStore\<close> of \<^verbatim>\<open>sink_cache.go\<close>).\<close>

definition cache_store :: "penv \<Rightarrow> string \<Rightarrow> SqliteKVStore" where
  "cache_store e ruleId = GetSqliteKVStore (path_Join (path_Join (pe_data e) ''sink'') ruleId)"

definition cache_key :: "string \<Rightarrow> nat \<Rightarrow> string" where
  "cache_key opId inst = opId @ nat_digits inst"

section \<open>The streams of the store as a catalogue\<close>

text \<open>The contract of the stream processor: names with a kind and the text that created them.\<close>

type_synonym catalogue = "string \<Rightarrow> (StreamType \<times> string) option"

definition catalog :: "penv \<Rightarrow> string disk \<Rightarrow> catalogue" where
  "catalog e d k = (case row_view (NewStreamProcessor e) d k of
     None \<Rightarrow> None
   | Some v \<Rightarrow> map_option (\<lambda>i. (si_StreamType i, si_Statement i)) (unmarshal_info e v))"

definition has_kind :: "StreamType \<Rightarrow> string \<Rightarrow> catalogue \<Rightarrow> bool" where
  "has_kind st n c = (case c n of None \<Rightarrow> False | Some (t, _) \<Rightarrow> t = st)"

definition catalog_drop :: "StreamType \<Rightarrow> string \<Rightarrow> catalogue \<Rightarrow> bool \<times> catalogue" where
  "catalog_drop st n c = (if has_kind st n c then (True, c(n := None)) else (False, c))"

definition catalog_step :: "string \<Rightarrow> Statement option \<Rightarrow> catalogue \<Rightarrow> bool \<times> catalogue" where
  "catalog_step text stmt c = (case stmt of
     Some (CreateStmt s) \<Rightarrow> if c (ss_Name s) = None then (True, c(ss_Name s \<mapsto> (ss_StreamType s, text))) else (False, c)
   | Some ShowStreamsStatement \<Rightarrow> (True, c)
   | Some ShowTablesStatement \<Rightarrow> (True, c)
   | Some (DescribeStreamStatement n) \<Rightarrow> (has_kind TypeStream n c, c)
   | Some (DescribeTableStatement n) \<Rightarrow> (has_kind TypeTable n c, c)
   | Some (ExplainStreamStatement n) \<Rightarrow> (has_kind TypeStream n c, c)
   | Some (ExplainTableStatement n) \<Rightarrow> (has_kind TypeTable n c, c)
   | Some (DropStreamStatement n) \<Rightarrow> catalog_drop TypeStream n c
   | Some (DropTableStatement n) \<Rightarrow> catalog_drop TypeTable n c
   | _ \<Rightarrow> (False, c))"

text \<open>The name a statement is about.\<close>

definition stmt_name :: "Statement option \<Rightarrow> string option" where
  "stmt_name stmt = (case stmt of
     Some (CreateStmt s) \<Rightarrow> Some (ss_Name s)
   | Some (DescribeStreamStatement n) \<Rightarrow> Some n | Some (DescribeTableStatement n) \<Rightarrow> Some n
   | Some (ExplainStreamStatement n) \<Rightarrow> Some n | Some (ExplainTableStatement n) \<Rightarrow> Some n
   | Some (DropStreamStatement n) \<Rightarrow> Some n | Some (DropTableStatement n) \<Rightarrow> Some n
   | _ \<Rightarrow> None)"

definition sound_entries :: "penv \<Rightarrow> string disk \<Rightarrow> bool" where
  "sound_entries e d \<longleftrightarrow> (\<forall>v \<in> ran (row_view (NewStreamProcessor e) d). unmarshal_info e v \<noteq> None)"

definition wf_catalog :: "penv \<Rightarrow> catalogue \<Rightarrow> bool" where
  "wf_catalog e c \<longleftrightarrow> (\<forall>n t x. c n = Some (t, x) \<longrightarrow>
     (\<exists>s. parse_text e x = Inr (Some (CreateStmt s)) \<and> ss_Name s = n \<and> ss_StreamType s = t))"

text \<open>JSON reads back what it wrote, into any value.\<close>

definition info_codec :: "penv \<Rightarrow> bool" where
  "info_codec e \<longleftrightarrow> (\<forall>x y. pe_decInfo e (pe_encInfo e x) y = (x, True))"

lemma unmarshal_enc: "info_codec e \<Longrightarrow> unmarshal_info e (pe_encInfo e x) = Some x"
  by (simp add: info_codec_def unmarshal_info_def)

lemma stream_table [simp]: "kv_table (NewStreamProcessor e) = ''stream''"
  by (simp add: NewStreamProcessor_def GetSqliteKVStore_def path_Join_plain plain_name_def)

lemma rule_table [simp]: "kv_table (NewRuleProcessor e) = ''rule''"
  by (simp add: NewRuleProcessor_def GetSqliteKVStore_def path_Join_plain plain_name_def)

lemma catalog_None: "sound_entries e d \<Longrightarrow> catalog e d k = None \<longleftrightarrow> row_view (NewStreamProcessor e) d k = None"
  by (auto simp: catalog_def sound_entries_def ran_def split: option.splits)

lemma catalog_upd:
  "row_view (NewStreamProcessor e) d' = (row_view (NewStreamProcessor e) d)(k := v) \<Longrightarrow>
   catalog e d' = (catalog e d)(k := Option.bind v (\<lambda>v. map_option (\<lambda>i. (si_StreamType i, si_Statement i)) (unmarshal_info e v)))"
  by (auto simp: catalog_def fun_eq_iff split: option.splits)

lemma sound_upd:
  "row_view (NewStreamProcessor e) d' = (row_view (NewStreamProcessor e) d)(k := v) \<Longrightarrow> sound_entries e d \<Longrightarrow>
   (\<And>x. v = Some x \<Longrightarrow> unmarshal_info e x \<noteq> None) \<Longrightarrow> sound_entries e d'"
  by (auto simp: sound_entries_def ran_def split: if_splits)

lemma getStream_ok:
  assumes "sq_name (pe_sq e) ''stream''" "sound_entries e d" "plain_key n"
  shows "isl (getStream e n st d) = (\<not> has_kind st n (catalog e d))" and "getStream e n st d = Inr x \<longleftrightarrow> catalog e d n = Some (st, x)"
proof -
  have g: "stream_entry e d n = row_view (NewStreamProcessor e) d n"
    using assms by (simp add: stream_entry_def get_row_eq)
  show "isl (getStream e n st d) = (\<not> has_kind st n (catalog e d))" "getStream e n st d = Inr x \<longleftrightarrow> catalog e d n = Some (st, x)"
    using assms(2) by (auto simp: getStream_def GetDataSourceStatement_def g has_kind_def catalog_def split: option.splits)
qed

lemma save_new:
  assumes "sq_name (pe_sq e) ''stream''" "info_codec e" "sound_entries e d"
  shows "case execSave e s text False d of (er, d') \<Rightarrow> (er = None, catalog e d') = catalog_step text (Some (CreateStmt s)) (catalog e d) \<and> sound_entries e d'"
proof -
  let ?v = "pe_encInfo e \<lparr>si_StreamType = ss_StreamType s, si_Statement = text\<rparr>"
  let ?r = "setnx_row (pe_sq e) (NewStreamProcessor e) (ss_Name s) ?v d"
  have r: "execSave e s text False d = apfst err_of ?r"
    by (simp add: execSave_def setnx_row_def)
  note eq = setnx_row_eq [of "pe_sq e" "NewStreamProcessor e" "ss_Name s" ?v d, simplified, OF assms(1)]
  show ?thesis
  proof (cases "row_view (NewStreamProcessor e) d (ss_Name s) = None")
    case True
    then have v: "row_view (NewStreamProcessor e) (snd ?r) = (row_view (NewStreamProcessor e) d)(ss_Name s := Some ?v)" and o: "fst ?r = None"
      using eq by auto
    show ?thesis
      using True o catalog_upd [OF v] sound_upd [OF v assms(3)] assms(2,3)
      by (simp add: r case_prod_unfold err_of_def catalog_step_def catalog_None unmarshal_enc)
  next
    case False
    then have v: "row_view (NewStreamProcessor e) (snd ?r) = row_view (NewStreamProcessor e) d" and o: "fst ?r \<noteq> None"
      using eq by auto
    have "catalog e (snd ?r) = catalog e d" "sound_entries e (snd ?r)"
      using v assms(3) by (auto simp: catalog_def sound_entries_def)
    then show ?thesis
      using False o assms(3) by (auto simp: r case_prod_unfold err_of_def catalog_step_def catalog_None)
  qed
qed

lemma drop_kind:
  assumes "sq_name (pe_sq e) ''stream''" "sound_entries e d" "plain_key n" "n \<noteq> []"
  shows "case execDrop e n st d of ((r, er), d') \<Rightarrow> (er = None, catalog e d') = catalog_drop st n (catalog e d) \<and> sound_entries e d'"
proof (cases "has_kind st n (catalog e d)")
  case True
  let ?r = "delete_row (pe_sq e) (NewStreamProcessor e) n d"
  obtain x where x: "getStream e n st d = Inr x"
    using True getStream_ok(1) [OF assms(1,2,3), of st] by (cases "getStream e n st d") auto
  have u: "usable (pe_sq e) (NewStreamProcessor e) n"
    using assms by (simp add: usable_def)
  have "row_view (NewStreamProcessor e) d n \<noteq> None"
    using True assms(2) by (auto simp: has_kind_def catalog_def split: option.splits)
  then have o: "fst ?r = None" and v: "row_view (NewStreamProcessor e) (snd ?r) = (row_view (NewStreamProcessor e) d)(n := None)"
    using delete_row_eq [OF u, of d] by auto
  have p: "execDrop e n st d = ((type_title st @ '' '' @ n @ '' is dropped.'', None), snd ?r)"
    using x o by (cases "with_open (NewStreamProcessor e) (kv_Delete (pe_sq e) n) d") (simp add: execDrop_def DropStream_def delete_row_def)
  show ?thesis
    using True catalog_upd [OF v] sound_upd [OF v assms(2)] by (simp add: p catalog_drop_def)
next
  case False
  then obtain er where "getStream e n st d = Inl er"
    using getStream_ok(1) [OF assms(1,2,3), of st] by (cases "getStream e n st d") auto
  then show ?thesis
    using False assms(2) by (simp add: execDrop_def DropStream_def catalog_drop_def)
qed

lemma describe_kind:
  assumes "sq_name (pe_sq e) ''stream''" "sound_entries e d" "plain_key n" "wf_catalog e (catalog e d)"
  shows "(snd (execDescribe e n st d) = None) = has_kind st n (catalog e d)" and "(snd (execExplain e n st d) = None) = has_kind st n (catalog e d)"
proof -
  have "(snd (execDescribe e n st d) = None) = has_kind st n (catalog e d) \<and> (snd (execExplain e n st d) = None) = has_kind st n (catalog e d)"
  proof (cases "getStream e n st d")
    case (Inl er)
    then show ?thesis
      using getStream_ok(1) [OF assms(1,2,3), of st] by (auto simp: execDescribe_def execExplain_def DescStream_def)
  next
    case (Inr x)
    then have c: "catalog e d n = Some (st, x)"
      using getStream_ok(2) [OF assms(1,2,3)] by simp
    then obtain s where "parse_text e x = Inr (Some (CreateStmt s))"
      using assms(4) unfolding wf_catalog_def by blast
    then show ?thesis
      using Inr c by (simp add: execDescribe_def execExplain_def DescStream_def has_kind_def)
  qed
  then show "(snd (execDescribe e n st d) = None) = has_kind st n (catalog e d)" "(snd (execExplain e n st d) = None) = has_kind st n (catalog e d)"
    by auto
qed

lemma show_ok: "sq_name (pe_sq e) ''stream'' \<Longrightarrow> snd (execShow e st d) = None"
  by (simp add: execShow_def ShowStream_def with_open_def kv_Keys_def reaches_def kv_Open_def Let_def split: sum.splits)

lemma wf_catalog_step:
  "wf_catalog e c \<Longrightarrow> parse_text e text = Inr stmt \<Longrightarrow> wf_catalog e (snd (catalog_step text stmt c))"
  by (auto simp: wf_catalog_def catalog_step_def catalog_drop_def split: option.splits Statement.splits)

text \<open>
  (C25) A statement of the stream processor does to the stored streams and tables what the catalogue says: creating a name that is taken fails and changes nothing, a new name is added with its kind and
  text, dropping, describing and explaining succeed exactly for a name of that kind, and dropping removes it. The entries stay readable and their texts stay the statements that created them.
  The hypotheses are that SQLite reads \<^verbatim>\<open>stream\<close> as a table name, that JSON reads back what it wrote, and that the name has no quote.
\<close>

theorem stream_catalog_refines:
  assumes "sq_name (pe_sq e) ''stream''" "info_codec e" "sound_entries e d" "wf_catalog e (catalog e d)"
    and "parse_text e text = Inr stmt" "\<forall>n. stmt_name stmt = Some n \<longrightarrow> plain_key n \<and> n \<noteq> []"
  shows "case ExecStmt e text d of ((r, er), d') \<Rightarrow>
    (er = None, catalog e d') = catalog_step text stmt (catalog e d) \<and> sound_entries e d' \<and> wf_catalog e (catalog e d')"
proof -
  have "case ExecStmt e text d of ((r, er), d') \<Rightarrow> (er = None, catalog e d') = catalog_step text stmt (catalog e d) \<and> sound_entries e d'"
  proof (cases stmt)
    case None
    then show ?thesis
      using assms(3,5) by (simp add: ExecStmt_def exec_statement_def catalog_step_def)
  next
    case (Some st)
    show ?thesis
    proof (cases st)
      case (CreateStmt s)
      show ?thesis
        using save_new [OF assms(1,2,3), of "text" s] assms(5) unfolding Some CreateStmt
        by (auto simp: ExecStmt_def exec_statement_def Let_def split: prod.splits option.splits)
    next
      case (DropStreamStatement n)
      show ?thesis
        using drop_kind [OF assms(1,3), of n TypeStream] assms(5,6) unfolding Some DropStreamStatement
        by (auto simp: ExecStmt_def exec_statement_def one_def stmt_name_def catalog_step_def split: prod.splits)
    next
      case (DropTableStatement n)
      show ?thesis
        using drop_kind [OF assms(1,3), of n TypeTable] assms(5,6) unfolding Some DropTableStatement
        by (auto simp: ExecStmt_def exec_statement_def one_def stmt_name_def catalog_step_def split: prod.splits)
    qed (use assms Some in \<open>auto simp: ExecStmt_def exec_statement_def one_def stmt_name_def catalog_step_def describe_kind show_ok case_prod_unfold\<close>)
  qed
  moreover have "wf_catalog e (snd (catalog_step text stmt (catalog e d)))"
    using assms(4,5) by (rule wf_catalog_step)
  ultimately show ?thesis
    by (auto split: prod.splits) (metis snd_conv)+
qed

text \<open>
  (C26) A stream that was created is the stream that rules see: \<^verbatim>\<open>GetDataSource\<close>, with which the planner resolves the streams of a rule, and \<^verbatim>\<open>DescStream\<close> return the statement that was
  parsed when the stream was created, and creating it again fails.
\<close>

theorem created_stream_resolves:
  assumes "sq_name (pe_sq e) ''stream''" "info_codec e" "sound_entries e d"
    and "parse_text e text = Inr (Some (CreateStmt s))" "plain_key (ss_Name s)"
    and "ExecStmt e text d = ((r, None), d')"
  shows "GetDataSource (pe_ext e) (pe_rt e) (unmarshal_info e) (stream_entry e d') (ss_Name s) = Inr s \<and>
    DescStream e (ss_Name s) (ss_StreamType s) d' = Inr (Some (CreateStmt s)) \<and> snd (fst (ExecStmt e text d')) \<noteq> None"
proof -
  have sv: "execSave e s text False d = (None, d')"
    using assms(4,6) by (auto simp: ExecStmt_def exec_statement_def Let_def split: prod.splits option.splits)
  have st: "(True, catalog e d') = catalog_step text (Some (CreateStmt s)) (catalog e d)" and sd: "sound_entries e d'"
    using save_new [OF assms(1,2,3), of "text" s] by (simp_all add: sv)
  then have c: "catalog e d' (ss_Name s) = Some (ss_StreamType s, text)"
    by (auto simp: catalog_step_def split: if_splits)
  have g: "stream_entry e d' (ss_Name s) = row_view (NewStreamProcessor e) d' (ss_Name s)"
    using assms(1,5) by (simp add: stream_entry_def get_row_eq)
  have i: "GetDataSourceStatement (unmarshal_info e) (stream_entry e d') (ss_Name s) = Inr \<lparr>si_StreamType = ss_StreamType s, si_Statement = text\<rparr>"
    using c by (auto simp: catalog_def GetDataSourceStatement_def g split: option.splits)
  obtain p where "Language_Parse (pe_ext e) (pe_rt e) (sql_fuel text) (NewParser text) = Inr (Some (CreateStmt s), p)"
    using assms(4) by (cases "Language_Parse (pe_ext e) (pe_rt e) (sql_fuel text) (NewParser text)") (auto simp: parse_text_def)
  then have "GetDataSource (pe_ext e) (pe_rt e) (unmarshal_info e) (stream_entry e d') (ss_Name s) = Inr s"
    by (simp add: GetDataSource_def i)
  moreover have "getStream e (ss_Name s) (ss_StreamType s) d' = Inr text"
    using c getStream_ok(2) [OF assms(1) sd assms(5)] by simp
  then have "DescStream e (ss_Name s) (ss_StreamType s) d' = Inr (Some (CreateStmt s))"
    using assms(4) by (simp add: DescStream_def)
  moreover have "snd (fst (ExecStmt e text d')) \<noteq> None"
    using save_new [OF assms(1,2) sd, of "text" s] assms(4) c
    by (auto simp: ExecStmt_def exec_statement_def catalog_step_def Let_def split: prod.splits option.splits)
  ultimately show ?thesis
    by simp
qed

section \<open>Rules are kept and found again\<close>

definition valid_options :: "RuleOption \<Rightarrow> bool" where
  "valid_options o1 \<longleftrightarrow> 0 \<le> CheckpointInterval o1 \<and> 0 \<le> Concurrency o1 \<and> 0 \<le> BufferLength o1 \<and> 0 \<le> LateTol o1"

definition valid_rule :: "penv \<Rightarrow> api_rule \<Rightarrow> bool" where
  "valid_rule e r \<longleftrightarrow> ar_Id r \<noteq> [] \<and> ar_Sql r \<noteq> [] \<and> \<not> isl (GetStatementFromSql (pe_ext e) (pe_rt e) (ar_Sql r)) \<and> ar_Actions r \<noteq> [] \<and>
     (case ar_Options r of None \<Rightarrow> False | Some o1 \<Rightarrow> valid_options o1)"

lemma valid_options_check: "valid_options o1 \<longleftrightarrow> check_options o1 = None"
  by (auto simp: check_options_def valid_options_def)

text \<open>The checks accept exactly the valid rules, once the name and the missing options are filled in.\<close>

lemma check_rule_valid:
  "check_rule e name rule = Inr r \<longleftrightarrow>
     (name = [] \<or> ar_Id rule = [] \<or> name = ar_Id rule) \<and>
     r = rule\<lparr>ar_Id := (if ar_Id rule = [] then name else ar_Id rule), ar_Options := Some (case ar_Options rule of None \<Rightarrow> zero_options | Some o1 \<Rightarrow> o1)\<rparr> \<and> valid_rule e r"
  by (cases rule) (auto simp: check_rule_def valid_rule_def Let_def valid_options_check split: sum.splits option.splits)

lemma check_rule_again:
  assumes "check_rule e name rule = Inr r"
  shows "check_rule e (ar_Id r) rule = Inr r" and "check_rule e (ar_Id r) (r\<lparr>ar_Triggered := b\<rparr>) = Inr (r\<lparr>ar_Triggered := b\<rparr>)"
proof -
  have v: "valid_rule e r"
    using assms unfolding check_rule_valid by blast
  show "check_rule e (ar_Id r) rule = Inr r"
    using assms v by (intro iffD2 [OF check_rule_valid] conjI) (auto simp: check_rule_valid)
  have "ar_Options r \<noteq> None" "valid_rule e (r\<lparr>ar_Triggered := b\<rparr>)" "ar_Id r \<noteq> []"
    using v by (auto simp: valid_rule_def split: option.splits)
  then show "check_rule e (ar_Id r) (r\<lparr>ar_Triggered := b\<rparr>) = Inr (r\<lparr>ar_Triggered := b\<rparr>)"
    by (cases r) (auto simp: check_rule_valid)
qed

lemma getRuleByJson_again: "getRuleByJson e name json = Inr r \<Longrightarrow> getRuleByJson e (ar_Id r) json = Inr r"
  by (auto simp: getRuleByJson_def check_rule_again split: sum.splits option.splits)

lemma getRuleByJson_valid: "getRuleByJson e name json = Inr r \<Longrightarrow> valid_rule e r \<and> (name \<noteq> [] \<longrightarrow> ar_Id r = name)"
  by (auto simp: getRuleByJson_def check_rule_valid split: sum.splits option.splits)

lemma ExecCreate_Inr:
  "ExecCreate e name json d = (Inr r, d') \<longleftrightarrow>
     getRuleByJson e name json = Inr r \<and> setnx_row (pe_sq e) (NewRuleProcessor e) (ar_Id r) json d = (None, d')"
  by (auto simp: ExecCreate_def store_rule_def setnx_row_def split: sum.splits prod.splits option.splits)

text \<open>
  (C27) A rule that was created is found under its id with exactly the contents that were checked: it has an id, consistent with the name it was created under, a statement that parses, at least one action
  and no negative option. No other creation under the same id succeeds while it is there.
\<close>

theorem created_rule_found:
  assumes "sq_name (pe_sq e) ''rule''" "plain_key (ar_Id r)" "ExecCreate e name json d = (Inr r, d')"
  shows "GetRuleByName e (ar_Id r) d' = Inr r \<and> valid_rule e r \<and> (name \<noteq> [] \<longrightarrow> ar_Id r = name) \<and>
    (\<forall>name2 json2 r2 d2. ExecCreate e name2 json2 d' = (Inr r2, d2) \<longrightarrow> ar_Id r2 \<noteq> ar_Id r)"
proof -
  have j: "getRuleByJson e name json = Inr r" and s: "setnx_row (pe_sq e) (NewRuleProcessor e) (ar_Id r) json d = (None, d')"
    using assms(3) by (simp_all add: ExecCreate_Inr)
  have v: "row_view (NewRuleProcessor e) d' (ar_Id r) = Some json"
    using setnx_row_eq [of "pe_sq e" "NewRuleProcessor e" "ar_Id r" json d] assms(1) by (simp add: s)
  have "GetRuleByName e (ar_Id r) d' = Inr r"
    using assms(1,2) v getRuleByJson_again [OF j] by (simp add: GetRuleByName_def get_row_eq)
  moreover have u: "usable (pe_sq e) (NewRuleProcessor e) (ar_Id r)"
    using assms(1,2) getRuleByJson_valid [OF j] by (simp add: usable_def valid_rule_def)
  have "ar_Id r2 \<noteq> ar_Id r" if "ExecCreate e name2 json2 d' = (Inr r2, d2)" for name2 json2 r2 d2
    using that kvs.setnx_keeps [OF u, of d' json json2] kvs.kget [OF u, of d'] v by (auto simp: ExecCreate_Inr)
  ultimately show ?thesis
    using getRuleByJson_valid [OF j] by blast
qed

text \<open>
  (C0) Starting and stopping a rule are remembered: after \<^verbatim>\<open>ExecReplaceRuleState\<close> the stored rule is the same one with the new flag, and every other rule is as it was, provided that JSON reads back
  the rule it wrote.
\<close>

theorem rule_state_remembered:
  assumes "sq_name (pe_sq e) ''rule''" "plain_key name" "name \<noteq> []" "GetRuleByName e name d = Inr r"
    and "pe_encRule e (r\<lparr>ar_Triggered := b\<rparr>) = Inr json" "pe_decRule e (pe_opt e) json = Inr (Some (r\<lparr>ar_Triggered := b\<rparr>))"
  shows "fst (ExecReplaceRuleState e name b d) = None \<and> GetRuleByName e name (snd (ExecReplaceRuleState e name b d)) = Inr (r\<lparr>ar_Triggered := b\<rparr>) \<and>
    (\<forall>n2. plain_key n2 \<and> n2 \<noteq> name \<longrightarrow> GetRuleByName e n2 (snd (ExecReplaceRuleState e name b d)) = GetRuleByName e n2 d)"
proof -
  let ?m = "NewRuleProcessor e"
  obtain old where old: "getRuleByJson e name old = Inr r"
    using assms(4) by (auto simp: GetRuleByName_def split: option.splits)
  then have id: "ar_Id r = name"
    using getRuleByJson_valid assms(3) by blast
  have x: "ExecReplaceRuleState e name b d = apfst err_of (set_row (pe_sq e) ?m name json d)"
    using assms(4,5) by (simp add: ExecReplaceRuleState_def set_row_def)
  have v: "fst (set_row (pe_sq e) ?m name json d) = None" "row_view ?m (snd (set_row (pe_sq e) ?m name json d)) = (row_view ?m d)(name \<mapsto> json)"
    using set_row_eq [of "pe_sq e" ?m name json d] assms(1) by simp_all
  obtain rule where "check_rule e name rule = Inr r"
    using old by (auto simp: getRuleByJson_def split: sum.splits option.splits)
  then have "getRuleByJson e name json = Inr (r\<lparr>ar_Triggered := b\<rparr>)"
    using check_rule_again(2) [of e name rule r b] assms(6) id by (simp add: getRuleByJson_def)
  then show ?thesis
    using assms(1,2) v by (simp add: x err_of_def GetRuleByName_def get_row_eq)
qed

section \<open>What a dropped rule leaves behind\<close>

lemma kv_Delete_frame: "x \<noteq> (kv_path m, kv_table m) \<Longrightarrow> dk_tables (snd (kv_Delete sq k m d)) x = dk_tables d x"
  by (auto simp: kv_Delete_def put_rows_def split: prod.splits)

lemma delete_all_frame:
  "x \<noteq> (kv_path m, kv_table m) \<Longrightarrow> dk_tables (fold (\<lambda>k d. snd (kv_Delete sq k m d)) ks d) x = dk_tables d x"
  by (induction ks arbitrary: d) (simp_all add: kv_Delete_frame)

lemma with_open_frame:
  "(\<And>h d1. dk_tables (snd (f (m\<lparr>kv_db := h\<rparr>) d1)) x = g (dk_tables d1)) \<Longrightarrow> dk_tables (snd (with_open m f d)) x = g (dk_tables d)"
proof -
  assume a: "\<And>h d1. dk_tables (snd (f (m\<lparr>kv_db := h\<rparr>) d1)) x = g (dk_tables d1)"
  let ?d1 = "d\<lparr>dk_open := dk_next d # dk_open d, dk_next := Suc (dk_next d)\<rparr>"
  have "dk_tables (snd (f (m\<lparr>kv_db := Some (dk_next d)\<rparr>) ?d1)) x = g (dk_tables d)"
    using a [of "Some (dk_next d)" ?d1] by simp
  then show ?thesis
    by (simp add: with_open_def kv_Open_def case_prod_unfold)
qed

lemma cleanSinkCache_frame:
  "x \<noteq> (pe_data e @ [''sqliteKV.db''], ''sink'') \<Longrightarrow> dk_tables (cleanSinkCache e rule d) x = dk_tables d x"
  unfolding cleanSinkCache_def
  by (rule with_open_frame [where g = "\<lambda>t. t x"])
    (simp add: delete_all_frame GetSqliteKVStore_def path_Join_plain plain_name_def)

lemma cache_store_at: "plain_name r \<Longrightarrow> kv_path (cache_store e r) = pe_data e @ [''sink'', ''sqliteKV.db''] \<and> kv_table (cache_store e r) = r"
  by (simp add: cache_store_def GetSqliteKVStore_def path_Join_plain plain_name_def butlast_append)

lemma rule_path: "kv_path (NewRuleProcessor e) = pe_data e @ [''sqliteKV.db'']"
  by (simp add: NewRuleProcessor_def GetSqliteKVStore_def path_Join_plain plain_name_def)

lemma drop_row_frame:
  "x \<noteq> (kv_path m, kv_table m) \<Longrightarrow> dk_tables (snd (drop_row e name b m d)) x = dk_tables d x"
  using kv_Delete_frame [of x m "pe_sq e" name d] by (auto simp: drop_row_def split: prod.splits option.splits if_splits)

text \<open>
  (C28) Dropping a rule does not remove the caches of its sinks: \<^verbatim>\<open>cleanSinkCache\<close> deletes keys of the table \<^verbatim>\<open>sink\<close> of the main database, while a sink node keeps its cache in the
  table named like the rule of the database in the directory \<^verbatim>\<open>sink\<close>. Whatever the cache of a rule held is still there after any drop of a rule not named \<^verbatim>\<open>sink\<close>, so that a rule created
  again under the id of a dropped one sends the tuples of the old one.
\<close>

theorem dropped_rule_keeps_cache:
  assumes "plain_name name" "plain_name r" "name \<noteq> ''sink''"
  shows "kv_rows (cache_store e r) (snd (ExecDrop e name d)) = kv_rows (cache_store e r) d"
proof -
  let ?x = "(pe_data e @ [''sink'', ''sqliteKV.db''], r)"
  have "dk_tables (snd (ExecDrop e name d)) ?x = dk_tables d ?x"
    unfolding ExecDrop_def
  proof (rule with_open_frame [where g = "\<lambda>t. t ?x"])
    fix h d1
    have x: "?x \<noteq> (kv_path ((NewRuleProcessor e)\<lparr>kv_db := h\<rparr>), kv_table ((NewRuleProcessor e)\<lparr>kv_db := h\<rparr>))"
      by (simp add: rule_path)
    have c: "dk_tables (cleanCheckpoint e name d2) ?x = dk_tables d2 ?x" for d2
      using assms(1,3) by (simp add: cleanCheckpoint_def RemoveAll_def path_Join_plain)
    show "dk_tables (snd (case kv_Get (pe_sq e) name ((NewRuleProcessor e)\<lparr>kv_db := h\<rparr>) d1 of
        Inr (Some ruleJson) \<Rightarrow> (case getRuleByJson e name ruleJson of
            Inl er \<Rightarrow> (Inl er, d1)
          | Inr rule \<Rightarrow> drop_row e name True ((NewRuleProcessor e)\<lparr>kv_db := h\<rparr>) (cleanCheckpoint e name (cleanSinkCache e rule d1)))
      | _ \<Rightarrow> drop_row e name False ((NewRuleProcessor e)\<lparr>kv_db := h\<rparr>) d1)) ?x = dk_tables d1 ?x"
      by (auto simp: drop_row_frame [OF x] c cleanSinkCache_frame split: sum.splits option.splits)
  qed
  then show ?thesis
    using cache_store_at [OF assms(2), of e] by (simp add: kv_rows_def)
qed

text \<open>A rule named \<^verbatim>\<open>sink\<close> shares its checkpoint directory with the caches: dropping it removes the caches of all rules.\<close>

theorem drop_rule_named_sink:
  assumes "sq_name (pe_sq e) ''rule''" "GetRuleByName e ''sink'' d = Inr rule" "plain_name r"
  shows "kv_rows (cache_store e r) (snd (ExecDrop e ''sink'' d)) = []"
proof -
  let ?x = "(pe_data e @ [''sink'', ''sqliteKV.db''], r)"
  let ?m = "(NewRuleProcessor e)\<lparr>kv_db := Some (dk_next d)\<rparr>" and ?d = "d\<lparr>dk_open := dk_next d # dk_open d, dk_next := Suc (dk_next d)\<rparr>"
  have p: "plain_key ''sink''" "plain_name ''sink''"
    by (simp_all add: plain_key_def plain_name_def)
  obtain json where j: "row_view (NewRuleProcessor e) d ''sink'' = Some json" "getRuleByJson e ''sink'' json = Inr rule"
    using assms(1,2) p by (auto simp: GetRuleByName_def get_row_eq split: option.splits)
  have g: "kv_Get (pe_sq e) ''sink'' ?m ?d = Inr (Some json)"
    using assms(1) p j by (simp add: kv_Get_def reaches_def row_view_def)
  have x: "?x \<noteq> (kv_path ?m, kv_table ?m)"
    by (simp add: rule_path)
  have "dk_tables (cleanCheckpoint e ''sink'' d2) ?x = []" for d2
    using p by (simp add: cleanCheckpoint_def RemoveAll_def path_Join_plain)
  then have "dk_tables (snd (ExecDrop e ''sink'' d)) ?x = []"
    by (simp add: ExecDrop_def with_open_def kv_Open_def g j case_prod_unfold drop_row_frame [OF x])
  then show ?thesis
    using cache_store_at [OF assms(3), of e] by (simp add: kv_rows_def)
qed

section \<open>A concrete environment\<close>

text \<open>An entry is written as a letter for its kind and the text; the only texts of rules are \<^verbatim>\<open>on\<close> and \<^verbatim>\<open>off\<close>.\<close>

definition ex_api_rule :: "bool \<Rightarrow> api_rule" where
  "ex_api_rule b = \<lparr>ar_Triggered = b, ar_Id = ''r1'', ar_Sql = ''SELECT a FROM s'', ar_Actions = [[(''log'', Some [])]], ar_Options = Some zero_options\<rparr>"

definition ex_penv :: penv where
  "ex_penv = \<lparr>pe_ext = (\<lambda>_ _. None), pe_rt = (\<lambda>_. False),
     pe_encInfo = (\<lambda>i. (case si_StreamType i of TypeStream \<Rightarrow> CHR ''s'' | TypeTable \<Rightarrow> CHR ''t'') # si_Statement i),
     pe_decInfo = (\<lambda>v y. case v of [] \<Rightarrow> (y, False) | c # s \<Rightarrow> (\<lparr>si_StreamType = (if c = CHR ''t'' then TypeTable else TypeStream), si_Statement = s\<rparr>, True)),
     pe_encRule = (\<lambda>r. Inr (if ar_Triggered r then ''on'' else ''off'')),
     pe_decRule = (\<lambda>_ s. if s = ''on'' then Inr (Some (ex_api_rule True)) else if s = ''off'' then Inr (Some (ex_api_rule False)) else Inl ''not a rule''),
     pe_indent = Inr, pe_sq = \<lparr>sq_name = (\<lambda>t. t \<noteq> [] \<and> list_all (\<lambda>c. CHR ''a'' \<le> c \<and> c \<le> CHR ''z'') t), sq_select = (\<lambda>_ _. None), sq_delete = (\<lambda>_ rows. (None, rows))\<rparr>,
     pe_opt = zero_options, pe_data = [''data''], pe_lost = None\<rparr>"

definition ex_disk :: "string disk" where
  "ex_disk = \<lparr>dk_tables = (\<lambda>_. [])(([''data'', ''sink'', ''sqliteKV.db''], ''r1'') := [(''log_00'', ''cached'')]), dk_open = [], dk_next = 0\<rparr>"

definition ex_create :: string where
  "ex_create = ''CREATE STREAM s (a BIGINT) WITH (DATASOURCE=\"t\")''"

definition ex_stream :: StreamStmt where
  "ex_stream = \<lparr>ss_Name = ''s'', ss_StreamFields = Some [(''a'', Some (BasicType BIGINT))], ss_Options = empty_options\<lparr>DATASOURCE := ''t''\<rparr>, ss_StreamType = TypeStream\<rparr>"

lemma ex_parse: "parse_text ex_penv ex_create = Inr (Some (CreateStmt ex_stream))"
  by code_simp

lemma ex_select: "\<not> isl (GetStatementFromSql (\<lambda>_ _. None) (\<lambda>_. False) ''SELECT a FROM s'')"
  by code_simp

lemma ex_tables: "sq_name (pe_sq ex_penv) ''stream''" "sq_name (pe_sq ex_penv) ''rule''"
  by code_simp+

lemma ex_codec: "info_codec ex_penv"
  by (simp add: info_codec_def ex_penv_def split: StreamType.splits)

lemma ex_sound: "sound_entries ex_penv ex_disk" "wf_catalog ex_penv (catalog ex_penv ex_disk)"
  by (simp_all add: sound_entries_def row_view_def kv_rows_def ex_disk_def wf_catalog_def catalog_def)

theorem stream_catalog_refines_witness:
  "case ExecStmt ex_penv ex_create ex_disk of ((r, er), d') \<Rightarrow>
    (er = None, catalog ex_penv d') = catalog_step ex_create (Some (CreateStmt ex_stream)) (catalog ex_penv ex_disk) \<and>
    sound_entries ex_penv d' \<and> wf_catalog ex_penv (catalog ex_penv d')"
  by (rule stream_catalog_refines [OF ex_tables(1) ex_codec ex_sound ex_parse]) (simp add: stmt_name_def ex_stream_def plain_key_def)

theorem created_stream_resolves_witness:
  "\<exists>r d'. ExecStmt ex_penv ex_create ex_disk = ((r, None), d') \<and>
    GetDataSource (pe_ext ex_penv) (pe_rt ex_penv) (unmarshal_info ex_penv) (stream_entry ex_penv d') ''s'' = Inr ex_stream"
proof -
  have "snd (fst (ExecStmt ex_penv ex_create ex_disk)) = None"
    by code_simp
  then obtain r d' where x: "ExecStmt ex_penv ex_create ex_disk = ((r, None), d')"
    by (cases "ExecStmt ex_penv ex_create ex_disk") auto
  have "plain_key (ss_Name ex_stream)"
    by (simp add: ex_stream_def plain_key_def)
  from created_stream_resolves [OF ex_tables(1) ex_codec ex_sound(1) ex_parse this x] x show ?thesis
    by (auto simp: ex_stream_def)
qed

lemma ex_rule_json: "getRuleByJson ex_penv n ''off'' = (if n = [] \<or> n = ''r1'' then Inr (ex_api_rule False) else Inl (P_Err ''Name is not consistent with rule id.''))"
proof -
  obtain st where "GetStatementFromSql (\<lambda>_ _. None) (\<lambda>_. False) ''SELECT a FROM s'' = Inr st"
    using ex_select by (cases "GetStatementFromSql (\<lambda>_ _. None) (\<lambda>_. False) ''SELECT a FROM s''") auto
  then show ?thesis
    by (auto simp: getRuleByJson_def ex_penv_def check_rule_def ex_api_rule_def zero_options_def check_options_def Let_def)
qed

theorem created_rule_found_witness:
  "\<exists>d'. ExecCreate ex_penv ''r1'' ''off'' ex_disk = (Inr (ex_api_rule False), d') \<and> GetRuleByName ex_penv ''r1'' d' = Inr (ex_api_rule False)"
proof -
  have "\<exists>d'. ExecCreate ex_penv ''r1'' ''off'' ex_disk = (Inr (ex_api_rule False), d')"
    using setnx_row_eq [OF ex_tables(2) [folded rule_table [of ex_penv]], of "''r1''" "''off''" ex_disk]
    by (simp add: ExecCreate_Inr ex_rule_json row_view_def kv_rows_def ex_disk_def rule_path) (simp add: ex_api_rule_def prod_eq_iff)
  then obtain d' where x: "ExecCreate ex_penv ''r1'' ''off'' ex_disk = (Inr (ex_api_rule False), d')"
    by blast
  from created_rule_found [OF ex_tables(2) _ x] x show ?thesis
    by (simp add: ex_api_rule_def plain_key_def)
qed

definition ex_stored :: "string disk" where
  "ex_stored = ex_disk\<lparr>dk_tables := (dk_tables ex_disk)(([''data'', ''sqliteKV.db''], ''rule'') := [(''r1'', ''off'')])\<rparr>"

lemma ex_stored_rule: "GetRuleByName ex_penv ''r1'' ex_stored = Inr (ex_api_rule False)"
proof -
  have "row_view (NewRuleProcessor ex_penv) ex_stored ''r1'' = Some ''off''"
    by (simp add: row_view_def kv_rows_def ex_stored_def rule_path) (simp add: ex_penv_def)
  then show ?thesis
    using ex_tables by (simp add: GetRuleByName_def get_row_eq plain_key_def ex_rule_json)
qed

theorem rule_state_remembered_witness:
  "GetRuleByName ex_penv ''r1'' (snd (ExecReplaceRuleState ex_penv ''r1'' True ex_stored)) = Inr (ex_api_rule True)"
proof -
  have "pe_encRule ex_penv ((ex_api_rule False)\<lparr>ar_Triggered := True\<rparr>) = Inr ''on''"
    "pe_decRule ex_penv (pe_opt ex_penv) ''on'' = Inr (Some ((ex_api_rule False)\<lparr>ar_Triggered := True\<rparr>))"
    by (simp_all add: ex_penv_def ex_api_rule_def)
  from rule_state_remembered [OF ex_tables(2) _ _ ex_stored_rule this] show ?thesis
    by (simp add: plain_key_def ex_api_rule_def)
qed

theorem dropped_rule_keeps_cache_witness:
  "fst (ExecDrop ex_penv ''r1'' ex_stored) = Inr ''Rule r1 is dropped.'' \<and> kv_rows (cache_store ex_penv ''r1'') (snd (ExecDrop ex_penv ''r1'' ex_stored)) = [(''log_00'', ''cached'')]"
proof -
  have "fst (ExecDrop ex_penv ''r1'' ex_stored) = Inr ''Rule r1 is dropped.''"
    by code_simp
  moreover have "kv_rows (cache_store ex_penv ''r1'') ex_stored = [(''log_00'', ''cached'')]"
    by code_simp
  ultimately show ?thesis
    using dropped_rule_keeps_cache [of "''r1''" "''r1''" ex_penv ex_stored] by (simp add: plain_name_def)
qed

end
